(* ===== verification/Prelude.thy ===== *)
theory Prelude
  imports Main "HOL-Library.Finite_Map" "HOL-Library.Word" "HOL-Library.Char_ord"
    "HOL-Library.List_Lexorder"
begin

text \<open>
  Shared vocabulary of the development.

  \<^item> Go values: byte strings are \<^typ>\<open>string\<close> (a Isabelle character is one byte), Go
    maps are finite maps, a \<open>uint64\<close> is a \<open>64 word\<close>, a Go \<open>int\<close> is an
    \<^typ>\<open>int\<close> with \<open>wrap_int\<close> written where the code adds values it does not bound.
  \<^item> Outcomes of a call: it returns (\<open>Ret\<close>), panics (\<open>Panic\<close>) or never returns
    (\<open>Diverge\<close>).
  \<^item> Messages: the text of an error is kept as the format and the arguments that the code
    hands to \<open>fmt.Sprintf\<close>; the rendering itself is not modelled.
  \<^item> Iteration: Go ranges over a map in an unspecified order; \<open>keys_of\<close> resolves it
    to the ascending one, and \<open>first_error_permute\<close> shows that whether a scan of the
    keys fails does not depend on it.
\<close>

named_theorems go_simps "unfolding rules of the outcome combinators"
named_theorems lookup_simps "characteristic equations of finite map operations"
named_theorems err_simps "equations that read the fields of an error value"

subsection \<open>Go values\<close>

type_synonym u64 = "64 word"
type_synonym bytes = string
type_synonym 'v gomap = "(string, 'v) fmap"

text \<open>Two's complement wrap-around of a 64-bit signed addition.\<close>

definition wrap_int :: "int \<Rightarrow> int" where
  "wrap_int x = (x + 2 ^ 63) mod 2 ^ 64 - 2 ^ 63"

definition in_int :: "int \<Rightarrow> bool" where
  "in_int x \<longleftrightarrow> - (2 ^ 63) \<le> x \<and> x < 2 ^ 63"

lemma wrap_int_id [simp]: "in_int x \<Longrightarrow> wrap_int x = x"
  by (simp add: wrap_int_def in_int_def)

lemma wrap_int_range: "in_int (wrap_int x)"
proof -
  have "0 \<le> (x + 2 ^ 63) mod (2 ^ 64 :: int)" and "(x + 2 ^ 63) mod (2 ^ 64 :: int) < 2 ^ 64"
    by simp_all
  then show ?thesis by (simp add: wrap_int_def in_int_def)
qed

definition uint64_of_int :: "int \<Rightarrow> u64" where
  "uint64_of_int i = word_of_int i"

definition int64_of_uint64 :: "u64 \<Rightarrow> int" where
  "int64_of_uint64 w = sint w"

text \<open>Decimal rendering, the verb \<open>%d\<close> of \<open>fmt.Sprintf\<close> on a non-negative number.\<close>

definition digit_char :: "nat \<Rightarrow> char" where
  "digit_char d = char_of (48 + d)"

fun decimal :: "nat \<Rightarrow> string" where
  "decimal n = (if n < 10 then [digit_char n] else decimal (n div 10) @ [digit_char (n mod 10)])"

declare decimal.simps [simp del]

definition digit_val :: "char \<Rightarrow> int" where
  "digit_val c = int (of_char c) - 48"

definition decimal_val :: "string \<Rightarrow> int" where
  "decimal_val s = foldl (\<lambda>a c. 10 * a + digit_val c) 0 s"

lemma digit_val_char [simp]: "d < 10 \<Longrightarrow> digit_val (digit_char d) = int d"
  by (simp add: digit_val_def digit_char_def)

lemma decimal_val_decimal [simp]: "decimal_val (decimal n) = int n"
proof (induction n rule: decimal.induct)
  case (1 n)
  show ?case
  proof (cases "n < 10")
    case True
    then show ?thesis by (subst decimal.simps) (simp add: decimal_val_def)
  next
    case False
    with 1 have "decimal_val (decimal (n div 10)) = int (n div 10)" by simp
    with False have "decimal_val (decimal n) = 10 * int (n div 10) + int (n mod 10)"
      by (subst decimal.simps) (simp add: decimal_val_def)
    also have "\<dots> = int (10 * (n div 10) + n mod 10)" by (simp only: of_nat_add of_nat_mult of_nat_numeral)
    finally show ?thesis by simp
  qed
qed

lemma decimal_inject [simp]: "decimal m = decimal n \<longleftrightarrow> m = n"
  by (metis decimal_val_decimal of_nat_eq_iff)

lemma decimal_not_Nil [simp]: "decimal n \<noteq> []"
  by (subst decimal.simps) simp

subsection \<open>Outcomes of a Go call\<close>

datatype 'a go = Ret 'a | Panic string | Diverge

fun go_bind :: "'a go \<Rightarrow> ('a \<Rightarrow> 'b go) \<Rightarrow> 'b go" where
  "go_bind (Ret x) f = f x"
| "go_bind (Panic m) f = Panic m"
| "go_bind Diverge f = Diverge"

definition returns :: "'a go \<Rightarrow> bool" where
  "returns m \<longleftrightarrow> (\<exists>x. m = Ret x)"

lemma returns_Ret [simp, intro]: "returns (Ret x)"
  by (simp add: returns_def)

lemma returns_simps [simp]: "\<not> returns (Panic m)" "\<not> returns Diverge"
  by (simp_all add: returns_def)

lemma returnsE [elim]: "returns m \<Longrightarrow> (\<And>x. m = Ret x \<Longrightarrow> P) \<Longrightarrow> P"
  by (auto simp: returns_def)

lemma go_bind_eq_Ret [go_simps]: "go_bind m f = Ret y \<longleftrightarrow> (\<exists>x. m = Ret x \<and> f x = Ret y)"
  by (cases m) auto

lemma go_bind_assoc [simp]: "go_bind (go_bind m f) g = go_bind m (\<lambda>x. go_bind (f x) g)"
  by (cases m) auto

definition go_of_option :: "'a option \<Rightarrow> 'a go" where
  "go_of_option r = (case r of None \<Rightarrow> Diverge | Some x \<Rightarrow> Ret x)"

lemma go_of_option_simps [simp]:
  "go_of_option None = Diverge" "go_of_option (Some x) = Ret x"
  by (simp_all add: go_of_option_def)

lemma go_of_option_eq_Ret [simp]: "go_of_option r = Ret x \<longleftrightarrow> r = Some x"
  by (cases r) auto

text \<open>A loop over a slice whose body may fail to return.\<close>

fun ofold :: "('x \<Rightarrow> 's \<Rightarrow> 's option) \<Rightarrow> 'x list \<Rightarrow> 's \<Rightarrow> 's option" where
  "ofold f [] s = Some s"
| "ofold f (x # xs) s = (case f x s of None \<Rightarrow> None | Some s' \<Rightarrow> ofold f xs s')"

lemma ofold_append:
  "ofold f (xs @ ys) s = (case ofold f xs s of None \<Rightarrow> None | Some s' \<Rightarrow> ofold f ys s')"
  by (induction xs arbitrary: s) (auto split: option.splits)

subsection \<open>Error texts\<close>

datatype fmtarg = FStr string | FInt int

datatype gomsg =
    Lit string                      \<comment> \<open>a literal text\<close>
  | Sprintf string "fmtarg list"    \<comment> \<open>a format and its arguments\<close>
  | LibErr string                   \<comment> \<open>the text of an error of the standard library\<close>
  | ErrOf gomsg                     \<comment> \<open>the text of another error, passed on\<close>

subsection \<open>Finite maps\<close>

definition keys_of :: "'v gomap \<Rightarrow> string list" where
  "keys_of m = sorted_list_of_fset (fmdom m)"

lemma set_keys_of [simp]: "set (keys_of m) = fset (fmdom m)"
  by (simp add: keys_of_def)

lemma distinct_keys_of [simp]: "distinct (keys_of m)"
  by (simp add: keys_of_def sorted_list_of_fset.rep_eq)

lemma in_fmdom_iff [lookup_simps]: "k \<in> fset (fmdom m) \<longleftrightarrow> (\<exists>v. fmlookup m k = Some v)"
  by (simp add: fmlookup_dom_iff)

lemma not_in_fmdom_iff [lookup_simps]: "k |\<notin>| fmdom m \<longleftrightarrow> fmlookup m k = None"
  by (auto simp: fmlookup_dom_iff)

text \<open>The congruence rule of the library stops the simplifier below a filtered map.\<close>

declare fmfilter_cong [cong del]

lemma fmap_eqI: "(\<And>k. fmlookup m k = fmlookup n k) \<Longrightarrow> m = n"
  by (rule fmap_ext)

lemma fmap_eq_iff: "m = n \<longleftrightarrow> (\<forall>k. fmlookup m k = fmlookup n k)"
  by (auto intro: fmap_ext)

lemma fmupd_same [simp]: "fmlookup m k = Some v \<Longrightarrow> fmupd k v m = m"
  by (rule fmap_ext) auto

lemma fmadd_absorb: "(\<And>k v. fmlookup n k = Some v \<Longrightarrow> fmlookup m k = Some v) \<Longrightarrow> fmadd m n = m"
  by (rule fmap_ext) (auto simp: fmlookup_dom_iff)

text \<open>The number of entries, \<open>len(m)\<close>.\<close>

definition msize :: "('k, 'v) fmap \<Rightarrow> nat" where
  "msize m = fcard (fmdom m)"

lemma msize_empty [simp]: "msize fmempty = 0"
  by (simp add: msize_def)

lemma msize_fmupd: "msize (fmupd k v m) = (if k |\<in>| fmdom m then msize m else Suc (msize m))"
  by (simp add: msize_def fcard_finsert_if)

lemma msize_card: "msize m = card (fset (fmdom m))"
  by (simp add: msize_def fcard.rep_eq)

text \<open>Sums over the entries of a map (a loop that only adds is independent of its order).\<close>

definition msum :: "('k \<Rightarrow> 'v \<Rightarrow> int) \<Rightarrow> ('k, 'v) fmap \<Rightarrow> int" where
  "msum f m = (\<Sum>k \<in> fset (fmdom m). f k (the (fmlookup m k)))"

lemma msum_empty [simp]: "msum f fmempty = 0"
  by (simp add: msum_def)

lemma msum_fmupd:
  "msum f (fmupd k v m) = msum f m + f k v - (case fmlookup m k of None \<Rightarrow> 0 | Some w \<Rightarrow> f k w)"
proof -
  let ?D = "fset (fmdom m) - {k}"
  have split: "msum f (fmupd k v m) = f k v + (\<Sum>x \<in> ?D. f x (the (fmlookup m x)))"
  proof -
    have "(\<Sum>x \<in> ?D. f x (the (fmlookup (fmupd k v m) x))) = (\<Sum>x \<in> ?D. f x (the (fmlookup m x)))"
      by (rule sum.cong) auto
    then show ?thesis by (simp add: msum_def sum.insert_remove)
  qed
  show ?thesis
  proof (cases "fmlookup m k")
    case None
    then have "?D = fset (fmdom m)" by (auto simp: lookup_simps)
    with None split show ?thesis by (simp add: msum_def)
  next
    case (Some w)
    then have "k \<in> fset (fmdom m)" by (simp add: lookup_simps)
    then have "msum f m = f k w + (\<Sum>x \<in> ?D. f x (the (fmlookup m x)))"
      using Some by (simp add: msum_def sum.remove)
    with Some split show ?thesis by simp
  qed
qed

lemma msum_fmdrop:
  "msum f (fmdrop k m) = msum f m - (case fmlookup m k of None \<Rightarrow> 0 | Some w \<Rightarrow> f k w)"
proof (cases "fmlookup m k")
  case None
  then have "fmdrop k m = m" by (intro fmap_ext) auto
  with None show ?thesis by simp
next
  case (Some w)
  then have "m = fmupd k w (fmdrop k m)" by (intro fmap_ext) auto
  then have "msum f m = msum f (fmupd k w (fmdrop k m))" by simp
  also have "\<dots> = msum f (fmdrop k m) + f k w" by (simp add: msum_fmupd)
  finally show ?thesis using Some by simp
qed

lemma msum_nonneg: "(\<And>k v. fmlookup m k = Some v \<Longrightarrow> 0 \<le> f k v) \<Longrightarrow> 0 \<le> msum f m"
  unfolding msum_def by (rule sum_nonneg) (auto simp: lookup_simps)

subsection \<open>The first error of a sequence of checks\<close>

fun first_err :: "'e option list \<Rightarrow> 'e option" where
  "first_err [] = None"
| "first_err (x # xs) = (case x of None \<Rightarrow> first_err xs | Some e \<Rightarrow> Some e)"

lemma first_err_Cons [simp]:
  "first_err (None # xs) = first_err xs" "first_err (Some e # xs) = Some e"
  by simp_all

declare first_err.simps(2) [simp del]

lemma first_err_None [simp]: "first_err xs = None \<longleftrightarrow> (\<forall>x \<in> set xs. x = None)"
  by (induction xs) (auto simp: first_err.simps(2) split: option.splits)

lemma first_err_append:
  "first_err (xs @ ys) = (case first_err xs of None \<Rightarrow> first_err ys | Some e \<Rightarrow> Some e)"
  by (induction xs) (simp_all add: first_err.simps(2) del: first_err_None split: option.split)

lemma first_err_Some_in: "first_err xs = Some e \<Longrightarrow> Some e \<in> set xs"
  by (induction xs) (auto simp: first_err.simps(2) split: option.splits)

lemma first_error_permute:
  assumes "set xs = set ys"
  shows "first_err (map f xs) = None \<longleftrightarrow> first_err (map f ys) = None"
  using assms by simp

text \<open>The loop over a slice with a set of the elements already seen: it stops at the
  first element that is refused or repeated.\<close>

fun scan_unique :: "(nat \<Rightarrow> 'a \<Rightarrow> 'e option) \<Rightarrow> (nat \<Rightarrow> 'a \<Rightarrow> 'e) \<Rightarrow> 'a set \<Rightarrow> nat \<Rightarrow> 'a list \<Rightarrow> 'e option" where
  "scan_unique bad dup seen i [] = None"
| "scan_unique bad dup seen i (x # xs) =
     (case bad i x of
        Some e \<Rightarrow> Some e
      | None \<Rightarrow> if x \<in> seen then Some (dup i x)
                else scan_unique bad dup (insert x seen) (Suc i) xs)"

lemma scan_unique_None:
  "scan_unique bad dup seen i xs = None \<longleftrightarrow>
     (\<forall>j < length xs. bad (i + j) (xs ! j) = None) \<and> distinct xs \<and> set xs \<inter> seen = {}"
proof (induction xs arbitrary: seen i)
  case Nil
  then show ?case by simp
next
  case (Cons x xs)
  have shift: "(\<forall>j < length (x # xs). bad (i + j) ((x # xs) ! j) = None) \<longleftrightarrow>
      bad i x = None \<and> (\<forall>j < length xs. bad (Suc i + j) (xs ! j) = None)"
    by (auto simp: less_Suc_eq_0_disj nth_Cons split: nat.splits)
  show ?case
    unfolding shift by (auto simp: Cons.IH split: option.splits)
qed

lemma scan_unique_plain:
  "scan_unique (\<lambda>i. bad) dup {} i xs = None \<longleftrightarrow> (\<forall>x \<in> set xs. bad x = None) \<and> distinct xs"
  by (simp add: scan_unique_None all_set_conv_all_nth)

subsection \<open>State machines with an invariant\<close>

text \<open>
  The contract shared by the stateful components: a set of start states, a total step on
  labels, and an invariant that the step keeps. The client facts are proved once here: the
  invariant holds after every sequence of steps.
\<close>

fun run_steps :: "('s \<Rightarrow> 'l \<Rightarrow> 's) \<Rightarrow> 's \<Rightarrow> 'l list \<Rightarrow> 's" where
  "run_steps step s [] = s"
| "run_steps step s (l # ls) = run_steps step (step s l) ls"

lemma run_steps_append: "run_steps step s (xs @ ys) = run_steps step (run_steps step s xs) ys"
  by (induction xs arbitrary: s) auto

locale machine =
  fixes start :: "'s \<Rightarrow> bool"
    and step :: "'s \<Rightarrow> 'l \<Rightarrow> 's"
    and inv :: "'s \<Rightarrow> bool"
  assumes inv_start: "start s \<Longrightarrow> inv s"
    and inv_step: "inv s \<Longrightarrow> inv (step s l)"
begin

lemma inv_run: "inv s \<Longrightarrow> inv (run_steps step s ls)"
  by (induction ls arbitrary: s) (auto intro: inv_step)

lemma inv_from_start: "start s \<Longrightarrow> inv (run_steps step s ls)"
  by (blast intro: inv_run inv_start)

lemma inv_every_prefix: "start s \<Longrightarrow> inv (run_steps step s (take n ls))"
  by (rule inv_from_start)

end

text \<open>A machine whose steps never decrease a measure of the state.\<close>

locale monotone_machine = machine start step inv
  for start :: "'s \<Rightarrow> bool" and step :: "'s \<Rightarrow> 'l \<Rightarrow> 's" and inv :: "'s \<Rightarrow> bool" +
  fixes rank :: "'s \<Rightarrow> nat"
  assumes rank_step: "inv s \<Longrightarrow> rank s \<le> rank (step s l)"
begin

lemma rank_run: "inv s \<Longrightarrow> rank s \<le> rank (run_steps step s ls)"
proof (induction ls arbitrary: s)
  case Nil
  then show ?case by simp
next
  case (Cons l ls)
  have "rank s \<le> rank (step s l)" using Cons.prems by (rule rank_step)
  also have "\<dots> \<le> rank (run_steps step (step s l) ls)"
    using Cons.prems by (intro Cons.IH inv_step)
  finally show ?case by simp
qed

end

text \<open>
  A machine that holds a queue: what it takes in goes to the back of its contents and what it
  gives out comes from the front. Nothing is lost, duplicated or reordered on any run.
\<close>

fun along :: "('s \<Rightarrow> 'l \<Rightarrow> 's) \<Rightarrow> ('s \<Rightarrow> 'l \<Rightarrow> 'e list) \<Rightarrow> 's \<Rightarrow> 'l list \<Rightarrow> 'e list" where
  "along step f s [] = []"
| "along step f s (l # ls) = f s l @ along step f (step s l) ls"

lemma along_cong:
  assumes "\<And>s l. f s l = g s l"
  shows "along step f s ls = along step g s ls"
  by (induction ls arbitrary: s) (simp_all add: assms)

locale conserving = machine start step inv
  for start :: "'s \<Rightarrow> bool" and step :: "'s \<Rightarrow> 'l \<Rightarrow> 's" and inv :: "'s \<Rightarrow> bool" +
  fixes contents :: "'s \<Rightarrow> 'e list"
    and taken :: "'s \<Rightarrow> 'l \<Rightarrow> 'e list"
    and given :: "'s \<Rightarrow> 'l \<Rightarrow> 'e list"
  assumes conserve: "inv s \<Longrightarrow> contents s @ taken s l = given s l @ contents (step s l)"
begin

lemma conserve_run:
  "inv s \<Longrightarrow> contents s @ along step taken s ls = along step given s ls @ contents (run_steps step s ls)"
proof (induction ls arbitrary: s)
  case Nil
  then show ?case by simp
next
  case (Cons l ls)
  have "contents s @ along step taken s (l # ls) = given s l @ (contents (step s l) @ along step taken (step s l) ls)"
    using conserve [OF Cons.prems, of l] by simp
  also have "\<dots> = along step given s (l # ls) @ contents (run_steps step s (l # ls))"
    using Cons.IH [OF inv_step [OF Cons.prems, of l]] by simp
  finally show ?case .
qed

lemma given_prefix: "inv s \<Longrightarrow> contents s = [] \<Longrightarrow>
   \<exists>rest. along step taken s ls = along step given s ls @ rest"
  using conserve_run by fastforce

end

end
