(* ===== verification/GoJson.thy ===== *)
theory GoJson
  imports Prelude
begin

text \<open>
  What the repository uses of Go's \<open>encoding/json\<close>, \<open>unicode/utf8\<close> and
  \<open>bytes.TrimSpace\<close>.

  A \<open>json.RawMessage\<close> is the byte string it holds. Validity of a text is decided by the
  library's byte-at-a-time scanner, modelled as a step function on its states and its stack of
  open brackets (at most 10000 of them); a valid text is then taken apart one level deep, so
  that the members of an object and the elements of an array stay byte strings, as in a
  \<open>map[string]json.RawMessage\<close>. Each \<open>json.Unmarshal\<close> into a type the code uses is a
  function that returns the decoded value together with a flag that is false where the
  library returns an error; \<open>null\<close> decodes to the zero value, as in Go.
\<close>

subsection \<open>Runes\<close>

definition byte_at :: "string \<Rightarrow> nat \<Rightarrow> int" where
  "byte_at s i = (if i < length s then of_char (s ! i) else 0)"

definition is_cont :: "int \<Rightarrow> bool" where
  "is_cont b \<longleftrightarrow> 128 \<le> b \<and> b \<le> 191"

text \<open>\<open>utf8.DecodeRune\<close>: the first rune and its width; an invalid encoding is the
  replacement rune of width one.\<close>

definition decode_rune :: "string \<Rightarrow> int \<times> nat" where
  "decode_rune s =
     (let b0 = byte_at s 0; b1 = byte_at s 1; b2 = byte_at s 2; b3 = byte_at s 3 in
      if b0 < 128 then (b0, 1)
      else if 194 \<le> b0 \<and> b0 \<le> 223 \<and> is_cont b1 then ((b0 - 192) * 64 + (b1 - 128), 2)
      else if 224 \<le> b0 \<and> b0 \<le> 239 \<and> is_cont b1 \<and> is_cont b2 \<and>
              (b0 = 224 \<longrightarrow> 160 \<le> b1) \<and> (b0 = 237 \<longrightarrow> b1 \<le> 159)
        then ((b0 - 224) * 4096 + (b1 - 128) * 64 + (b2 - 128), 3)
      else if 240 \<le> b0 \<and> b0 \<le> 244 \<and> is_cont b1 \<and> is_cont b2 \<and> is_cont b3 \<and>
              (b0 = 240 \<longrightarrow> 144 \<le> b1) \<and> (b0 = 244 \<longrightarrow> b1 \<le> 143)
        then ((b0 - 240) * 262144 + (b1 - 128) * 4096 + (b2 - 128) * 64 + (b3 - 128), 4)
      else (65533, 1))"

definition encode_rune :: "int \<Rightarrow> string" where
  "encode_rune r =
     (let r = (if 1114111 < r \<or> (55296 \<le> r \<and> r \<le> 57343) then 65533 else r) in
      map char_of
        (if r < 128 then [r]
         else if r < 2048 then [192 + r div 64, 128 + r mod 64]
         else if r < 65536 then [224 + r div 4096, 128 + (r div 64) mod 64, 128 + r mod 64]
         else [240 + r div 262144, 128 + (r div 4096) mod 64, 128 + (r div 64) mod 64, 128 + r mod 64]))"

lemma decode_rune_width: "0 < snd (decode_rune s)"
  by (auto simp: decode_rune_def Let_def)

text \<open>\<open>len([]rune(s))\<close>.\<close>

function rune_count :: "string \<Rightarrow> nat" where
  "rune_count s = (if s = [] then 0 else Suc (rune_count (drop (snd (decode_rune s)) s)))"
  by pat_completeness auto
termination
  by (relation "measure length") (auto simp: decode_rune_width)

declare rune_count.simps [simp del]

subsection \<open>White space\<close>

definition json_space :: "char \<Rightarrow> bool" where
  "json_space c \<longleftrightarrow> c = CHR '' '' \<or> c = CHR 0x09 \<or> c = CHR 0x0D \<or> c = CHR 0x0A"

definition trim_json :: "string \<Rightarrow> string" where
  "trim_json s = rev (dropWhile json_space (rev (dropWhile json_space s)))"

text \<open>The encodings of the runes \<open>unicode.IsSpace\<close> accepts.\<close>

definition space_encodings :: "string list" where
  "space_encodings = map encode_rune
     [9, 10, 11, 12, 13, 32, 133, 160, 5760, 8192, 8193, 8194, 8195, 8196, 8197, 8198, 8199,
      8200, 8201, 8202, 8232, 8233, 8239, 8287, 12288]"

definition starts_with :: "string \<Rightarrow> string \<Rightarrow> bool" where
  "starts_with p s \<longleftrightarrow> take (length p) s = p"

function trim_left :: "string list \<Rightarrow> string \<Rightarrow> string" where
  "trim_left ps s =
     (case find (\<lambda>p. p \<noteq> [] \<and> starts_with p s) ps of
        None \<Rightarrow> s
      | Some p \<Rightarrow> if s = [] then s else trim_left ps (drop (length p) s))"
  by pat_completeness auto
termination
  by (relation "measure (\<lambda>(ps, s). length s)") (auto simp: find_Some_iff)

declare trim_left.simps [simp del]

definition TrimSpace :: "string \<Rightarrow> string" where
  "TrimSpace s =
     rev (trim_left (map rev space_encodings) (rev (trim_left space_encodings s)))"

subsection \<open>The scanner\<close>

datatype scan =
    SBeginValue | SBeginValueOrEmpty | SBeginStringOrEmpty | SBeginString | SEndValue | SEndTop
  | SInString | SInStringEsc | SInStringEscU | SInStringEscU1 | SInStringEscU12 | SInStringEscU123
  | SNeg | S1 | S0 | SDot | SDot0 | SE | SESign | SE0
  | ST | STr | STru | SF | SFa | SFal | SFals | SN | SNu | SNul

datatype pstate = PObjectKey | PObjectValue | PArrayValue

type_synonym scanner = "scan \<times> pstate list"

definition maxNestingDepth :: int where
  "maxNestingDepth = 10000"

definition push_state :: "scan \<Rightarrow> pstate \<Rightarrow> pstate list \<Rightarrow> scanner option" where
  "push_state st p ps = (if int (length (p # ps)) \<le> maxNestingDepth then Some (st, p # ps) else None)"

definition pop_state :: "pstate list \<Rightarrow> scanner option" where
  "pop_state ps = (case ps of [] \<Rightarrow> None | _ # qs \<Rightarrow> Some (if qs = [] then SEndTop else SEndValue, qs))"

definition end_value :: "pstate list \<Rightarrow> char \<Rightarrow> scanner option" where
  "end_value ps c =
     (case ps of
        [] \<Rightarrow> if json_space c then Some (SEndTop, []) else None
      | p # qs \<Rightarrow>
         if json_space c then Some (SEndValue, ps)
         else (case p of
                 PObjectKey \<Rightarrow> if c = CHR '':'' then Some (SBeginValue, PObjectValue # qs) else None
               | PObjectValue \<Rightarrow>
                   if c = CHR '','' then Some (SBeginString, PObjectKey # qs)
                   else if c = CHR ''}'' then pop_state ps else None
               | PArrayValue \<Rightarrow>
                   if c = CHR '','' then Some (SBeginValue, ps)
                   else if c = CHR '']'' then pop_state ps else None))"

definition is_digit :: "char \<Rightarrow> bool" where
  "is_digit c \<longleftrightarrow> 48 \<le> (of_char c :: int) \<and> (of_char c :: int) \<le> 57"

definition is_digit19 :: "char \<Rightarrow> bool" where
  "is_digit19 c \<longleftrightarrow> is_digit c \<and> c \<noteq> CHR ''0''"

definition is_hex :: "char \<Rightarrow> bool" where
  "is_hex c \<longleftrightarrow> is_digit c \<or> (97 \<le> (of_char c :: int) \<and> (of_char c :: int) \<le> 102)
     \<or> (65 \<le> (of_char c :: int) \<and> (of_char c :: int) \<le> 70)"

definition begin_value :: "pstate list \<Rightarrow> char \<Rightarrow> scanner option" where
  "begin_value ps c =
     (if json_space c then Some (SBeginValue, ps)
      else if c = CHR ''{'' then push_state SBeginStringOrEmpty PObjectKey ps
      else if c = CHR ''['' then push_state SBeginValueOrEmpty PArrayValue ps
      else if c = CHR 0x22 then Some (SInString, ps)
      else if c = CHR ''-'' then Some (SNeg, ps)
      else if c = CHR ''0'' then Some (S0, ps)
      else if c = CHR ''t'' then Some (ST, ps)
      else if c = CHR ''f'' then Some (SF, ps)
      else if c = CHR ''n'' then Some (SN, ps)
      else if is_digit19 c then Some (S1, ps)
      else None)"

definition begin_string :: "pstate list \<Rightarrow> char \<Rightarrow> scanner option" where
  "begin_string ps c =
     (if json_space c then Some (SBeginString, ps)
      else if c = CHR 0x22 then Some (SInString, ps) else None)"

definition expect :: "bool \<Rightarrow> scan \<Rightarrow> pstate list \<Rightarrow> scanner option" where
  "expect b st ps = (if b then Some (st, ps) else None)"

definition state0 :: "pstate list \<Rightarrow> char \<Rightarrow> scanner option" where
  "state0 ps c =
     (if c = CHR ''.'' then Some (SDot, ps)
      else if c = CHR ''e'' \<or> c = CHR ''E'' then Some (SE, ps) else end_value ps c)"

fun scan_step :: "scan \<Rightarrow> pstate list \<Rightarrow> char \<Rightarrow> scanner option" where
  "scan_step SBeginValue ps c = begin_value ps c"
| "scan_step SBeginValueOrEmpty ps c =
     (if json_space c then Some (SBeginValueOrEmpty, ps)
      else if c = CHR '']'' then end_value ps c else begin_value ps c)"
| "scan_step SBeginStringOrEmpty ps c =
     (if json_space c then Some (SBeginStringOrEmpty, ps)
      else if c = CHR ''}''
        then (case ps of [] \<Rightarrow> None | _ # qs \<Rightarrow> end_value (PObjectValue # qs) c)
      else begin_string ps c)"
| "scan_step SBeginString ps c = begin_string ps c"
| "scan_step SEndValue ps c = end_value ps c"
| "scan_step SEndTop ps c = expect (json_space c) SEndTop ps"
| "scan_step SInString ps c =
     (if c = CHR 0x22 then Some (SEndValue, ps)
      else if c = CHR 0x5C then Some (SInStringEsc, ps)
      else expect (32 \<le> (of_char c :: int)) SInString ps)"
| "scan_step SInStringEsc ps c =
     (if c = CHR ''u'' then Some (SInStringEscU, ps)
      else expect (c \<in> set [CHR ''b'', CHR ''f'', CHR ''n'', CHR ''r'', CHR ''t'', CHR 0x5C, CHR ''/'', CHR 0x22])
             SInString ps)"
| "scan_step SInStringEscU ps c = expect (is_hex c) SInStringEscU1 ps"
| "scan_step SInStringEscU1 ps c = expect (is_hex c) SInStringEscU12 ps"
| "scan_step SInStringEscU12 ps c = expect (is_hex c) SInStringEscU123 ps"
| "scan_step SInStringEscU123 ps c = expect (is_hex c) SInString ps"
| "scan_step SNeg ps c =
     (if c = CHR ''0'' then Some (S0, ps) else expect (is_digit19 c) S1 ps)"
| "scan_step S1 ps c = (if is_digit c then Some (S1, ps) else state0 ps c)"
| "scan_step S0 ps c = state0 ps c"
| "scan_step SDot ps c = expect (is_digit c) SDot0 ps"
| "scan_step SDot0 ps c =
     (if is_digit c then Some (SDot0, ps)
      else if c = CHR ''e'' \<or> c = CHR ''E'' then Some (SE, ps) else end_value ps c)"
| "scan_step SE ps c =
     (if c = CHR ''+'' \<or> c = CHR ''-'' then Some (SESign, ps) else expect (is_digit c) SE0 ps)"
| "scan_step SESign ps c = expect (is_digit c) SE0 ps"
| "scan_step SE0 ps c = (if is_digit c then Some (SE0, ps) else end_value ps c)"
| "scan_step ST ps c = expect (c = CHR ''r'') STr ps"
| "scan_step STr ps c = expect (c = CHR ''u'') STru ps"
| "scan_step STru ps c = expect (c = CHR ''e'') SEndValue ps"
| "scan_step SF ps c = expect (c = CHR ''a'') SFa ps"
| "scan_step SFa ps c = expect (c = CHR ''l'') SFal ps"
| "scan_step SFal ps c = expect (c = CHR ''s'') SFals ps"
| "scan_step SFals ps c = expect (c = CHR ''e'') SEndValue ps"
| "scan_step SN ps c = expect (c = CHR ''u'') SNu ps"
| "scan_step SNu ps c = expect (c = CHR ''l'') SNul ps"
| "scan_step SNul ps c = expect (c = CHR ''l'') SEndValue ps"

fun scan_run :: "scanner \<Rightarrow> string \<Rightarrow> scanner option" where
  "scan_run (st, ps) [] = Some (st, ps)"
| "scan_run (st, ps) (c # cs) = (case scan_step st ps c of None \<Rightarrow> None | Some s \<Rightarrow> scan_run s cs)"

text \<open>\<open>checkValid\<close>: the end of input is seen as one more space.\<close>

definition json_valid :: "string \<Rightarrow> bool" where
  "json_valid s =
     (case scan_run (SBeginValue, []) s of
        None \<Rightarrow> False
      | Some (st, ps) \<Rightarrow> (case scan_step st ps (CHR '' '') of Some (SEndTop, _) \<Rightarrow> True | _ \<Rightarrow> False))"

subsection \<open>One level of a value\<close>

datatype jvalue =
    JNull | JBool bool
  | JNumber string
  | JString string
  | JArray "string list"
  | JObject "(string \<times> string) list"

fun split_top :: "char \<Rightarrow> nat \<Rightarrow> bool \<Rightarrow> bool \<Rightarrow> string \<Rightarrow> string \<Rightarrow> string list" where
  "split_top sep d ins esc acc [] = [rev acc]"
| "split_top sep d ins esc acc (c # cs) =
     (if ins then
        split_top sep d (esc \<or> c \<noteq> CHR 0x22) (\<not> esc \<and> c = CHR 0x5C) (c # acc) cs
      else if c = CHR 0x22 then split_top sep d True False (c # acc) cs
      else if c = CHR ''['' \<or> c = CHR ''{'' then split_top sep (Suc d) False False (c # acc) cs
      else if c = CHR '']'' \<or> c = CHR ''}'' then split_top sep (d - 1) False False (c # acc) cs
      else if c = sep \<and> d = 0 then rev acc # split_top sep 0 False False [] cs
      else split_top sep d False False (c # acc) cs)"

definition hex_val :: "char \<Rightarrow> int" where
  "hex_val c = (if is_digit c then of_char c - 48
     else if 97 \<le> (of_char c :: int) then of_char c - 87 else of_char c - 55)"

text \<open>\<open>getu4\<close>: the code unit of a \<open>\uXXXX\<close> escape at the front of the text.\<close>

definition getu4 :: "string \<Rightarrow> int option" where
  "getu4 s =
     (if 6 \<le> length s \<and> s ! 0 = CHR 0x5C \<and> s ! 1 = CHR ''u'' \<and> list_all is_hex (take 4 (drop 2 s))
      then Some (foldl (\<lambda>a c. 16 * a + hex_val c) 0 (take 4 (drop 2 s))) else None)"

text \<open>The content of a string literal (\<open>unquote\<close>): escapes resolved, surrogate pairs
  joined, invalid encodings replaced.\<close>

definition unquote1 :: "string \<Rightarrow> string \<times> nat" where
  "unquote1 s =
     (if s ! 0 \<noteq> CHR 0x5C then
        (if byte_at s 0 < 128 then ([s ! 0], 1)
         else (encode_rune (fst (decode_rune s)), snd (decode_rune s)))
      else case getu4 s of
        Some r \<Rightarrow>
          if 55296 \<le> r \<and> r \<le> 57343 then
            (case getu4 (drop 6 s) of
               Some r' \<Rightarrow>
                 if r < 56320 \<and> 56320 \<le> r' \<and> r' \<le> 57343
                 then (encode_rune ((r - 55296) * 1024 + (r' - 56320) + 65536), 12)
                 else (encode_rune 65533, 6)
             | None \<Rightarrow> (encode_rune 65533, 6))
          else (encode_rune r, 6)
      | None \<Rightarrow>
          (case byte_at s 1 of b \<Rightarrow>
             ([if b = 98 then char_of (8 :: int) else if b = 102 then char_of (12 :: int)
               else if b = 110 then char_of (10 :: int) else if b = 114 then char_of (13 :: int)
               else if b = 116 then char_of (9 :: int) else char_of b], 2)))"

lemma unquote1_width: "0 < snd (unquote1 s)"
  by (auto simp: unquote1_def decode_rune_width Let_def split: option.splits)

function unquote :: "string \<Rightarrow> string" where
  "unquote s = (if s = [] then [] else fst (unquote1 s) @ unquote (drop (snd (unquote1 s)) s))"
  by pat_completeness auto
termination
  by (relation "measure length") (auto simp: unquote1_width)

declare unquote.simps [simp del]

definition inner :: "string \<Rightarrow> string" where
  "inner s = butlast (tl s)"

definition json_elements :: "string \<Rightarrow> string list" where
  "json_elements s =
     (if trim_json (inner s) = [] then []
      else map trim_json (split_top (CHR '','') 0 False False [] (inner s)))"

definition json_member :: "string \<Rightarrow> string \<times> string" where
  "json_member s =
     (case split_top (CHR '':'') 0 False False [] s of
        k # v # _ \<Rightarrow> (unquote (inner (trim_json k)), trim_json v)
      | _ \<Rightarrow> ([], []))"

definition json_decode :: "string \<Rightarrow> jvalue option" where
  "json_decode raw =
     (if \<not> json_valid raw then None
      else let s = trim_json raw in
        case s of
          [] \<Rightarrow> None
        | c # _ \<Rightarrow> Some
           (if c = CHR ''{'' then JObject (map json_member (json_elements s))
            else if c = CHR ''['' then JArray (json_elements s)
            else if c = CHR 0x22 then JString (unquote (inner s))
            else if c = CHR ''t'' then JBool True
            else if c = CHR ''f'' then JBool False
            else if c = CHR ''n'' then JNull
            else JNumber s))"

subsection \<open>Unmarshal into the types the code uses\<close>

definition unm_bool :: "bytes \<Rightarrow> bool \<times> bool" where
  "unm_bool raw = (case json_decode raw of
      Some JNull \<Rightarrow> (False, True) | Some (JBool b) \<Rightarrow> (b, True) | _ \<Rightarrow> (False, False))"

definition unm_string :: "bytes \<Rightarrow> string \<times> bool" where
  "unm_string raw = (case json_decode raw of
      Some JNull \<Rightarrow> ([], True) | Some (JString s) \<Rightarrow> (s, True) | _ \<Rightarrow> ([], False))"

text \<open>An integer literal is a sign and digits only, within 64 bits.\<close>

definition parse_int :: "string \<Rightarrow> int option" where
  "parse_int s =
     (let neg = (s \<noteq> [] \<and> hd s = CHR ''-''); ds = (if neg then tl s else s);
          v = (if neg then - decimal_val ds else decimal_val ds) in
      if ds \<noteq> [] \<and> list_all is_digit ds \<and> in_int v then Some v else None)"

definition unm_int :: "bytes \<Rightarrow> int \<times> bool" where
  "unm_int raw = (case json_decode raw of
      Some JNull \<Rightarrow> (0, True)
    | Some (JNumber s) \<Rightarrow> (case parse_int s of Some v \<Rightarrow> (v, True) | None \<Rightarrow> (0, False))
    | _ \<Rightarrow> (0, False))"

text \<open>
  A number decoded as \<open>float64\<close> and compared with 0 and 1. The nearest double of a decimal
  \<open>x\<close> is above 1 exactly when \<open>x > 1 + 2^-53\<close> and below 0 exactly when
  \<open>x < - 2^-1075\<close> (ties go to the even mantissa), so the comparison is made on the
  decimal literal itself.
\<close>

definition float_unit :: "string \<Rightarrow> bool" where
  "float_unit s =
     (let neg = (s \<noteq> [] \<and> hd s = CHR ''-''); t = (if neg then tl s else s);
          ip = takeWhile is_digit t; r1 = dropWhile is_digit t;
          fp = (if r1 \<noteq> [] \<and> hd r1 = CHR ''.'' then takeWhile is_digit (tl r1) else []);
          r2 = (if r1 \<noteq> [] \<and> hd r1 = CHR ''.'' then dropWhile is_digit (tl r1) else r1);
          es = (if r2 \<noteq> [] then tl r2 else []);
          ed = (if es \<noteq> [] \<and> (hd es = CHR ''+'' \<or> hd es = CHR ''-'') then tl es else es);
          e = (if es \<noteq> [] \<and> hd es = CHR ''-'' then - decimal_val ed else decimal_val ed)
              - int (length fp);
          m = decimal_val (ip @ fp) in
      if neg then
        (if 0 \<le> e then m * 10 ^ nat e * 2 ^ 1075 \<le> 1 else m * 2 ^ 1075 \<le> 10 ^ nat (- e))
      else
        (if 0 \<le> e then m * 10 ^ nat e * 2 ^ 53 \<le> 2 ^ 53 + 1
         else m * 2 ^ 53 \<le> (2 ^ 53 + 1) * 10 ^ nat (- e)))"

definition unm_unit_float :: "bytes \<Rightarrow> bool" where
  "unm_unit_float raw = (case json_decode raw of
      Some JNull \<Rightarrow> True | Some (JNumber s) \<Rightarrow> float_unit s | _ \<Rightarrow> False)"

text \<open>Slices: an element that does not decode leaves the zero value and an error.\<close>

definition unm_list :: "(bytes \<Rightarrow> 'a \<times> bool) \<Rightarrow> bytes \<Rightarrow> 'a list \<times> bool" where
  "unm_list f raw = (case json_decode raw of
      Some JNull \<Rightarrow> ([], True)
    | Some (JArray rs) \<Rightarrow> (map (fst \<circ> f) rs, list_all (snd \<circ> f) rs)
    | _ \<Rightarrow> ([], False))"

abbreviation unm_strings :: "bytes \<Rightarrow> string list \<times> bool" where
  "unm_strings \<equiv> unm_list unm_string"

abbreviation unm_matrix :: "bytes \<Rightarrow> string list list \<times> bool" where
  "unm_matrix \<equiv> unm_list unm_strings"

abbreviation unm_raws :: "bytes \<Rightarrow> bytes list \<times> bool" where
  "unm_raws \<equiv> unm_list (\<lambda>raw. (raw, True))"

text \<open>Objects into \<open>map[string]json.RawMessage\<close>: the last of equal keys wins, \<open>null\<close>
  is the nil map.\<close>

definition unm_map :: "bytes \<Rightarrow> bytes gomap option \<times> bool" where
  "unm_map raw = (case json_decode raw of
      Some JNull \<Rightarrow> (None, True)
    | Some (JObject ms) \<Rightarrow> (Some (fmap_of_list (rev ms)), True)
    | _ \<Rightarrow> (None, False))"

abbreviation unm_maps :: "bytes \<Rightarrow> bytes gomap option list \<times> bool" where
  "unm_maps \<equiv> unm_list unm_map"

text \<open>Reading a nil map gives the zero value.\<close>

definition nil_map :: "'v gomap option \<Rightarrow> 'v gomap" where
  "nil_map m = (case m of None \<Rightarrow> fmempty | Some m \<Rightarrow> m)"

lemma nil_map_simps [simp]: "nil_map None = fmempty" "nil_map (Some m) = m"
  by (simp_all add: nil_map_def)

text \<open>Fields of a struct match a key exactly or else up to the library's case folding
  (ASCII letters, and the two other runes that fold to one).\<close>

function fold_key :: "string \<Rightarrow> string" where
  "fold_key s =
     (if s = [] then []
      else if starts_with (encode_rune 8490) s then CHR ''k'' # fold_key (drop 3 s)
      else if starts_with (encode_rune 383) s then CHR ''s'' # fold_key (drop 2 s)
      else (if 65 \<le> (of_char (hd s) :: int) \<and> (of_char (hd s) :: int) \<le> 90
            then char_of ((of_char (hd s) :: int) + 32) else hd s) # fold_key (tl s))"
  by pat_completeness auto
termination
  by (relation "measure length") auto

declare fold_key.simps [simp del]

definition key_matches :: "string list \<Rightarrow> string \<Rightarrow> string \<Rightarrow> bool" where
  "key_matches fields name k \<longleftrightarrow> k = name \<or> (k \<notin> set fields \<and> fold_key k = fold_key name)"

text \<open>The raw value the decoder stores last into a field.\<close>

definition struct_field :: "string list \<Rightarrow> (string \<times> bytes) list \<Rightarrow> string \<Rightarrow> bytes option" where
  "struct_field fields ms name = map_option snd (find (\<lambda>(k, v). key_matches fields name k) (rev ms))"

end
