(* ===== verification/Protocol.thy ===== *)
theory Protocol
  imports GoJson
begin

text \<open>
  The wire vocabulary of \<open>protocol/types.go\<close> and \<open>protocol/errors.go\<close>: operations,
  node types, envelopes, events, resource limits, the hello exchange and the error value. A Go
  string type with named constants is a datatype with one constructor per constant and one for
  every other string. \<open>EffectiveLimits\<close> and \<open>ValidateLimits\<close> are here too, with the
  facts that link them.
\<close>

subsection \<open>Operations and node types (types.go)\<close>

definition Version :: int where
  "Version = 1"

datatype OpType = OpUpsert | OpProps | OpText | OpRemove | OpFocus | OpCommit | OpOther string

datatype NodeType =
    NodeBox | NodeText | NodeViewport | NodeTable | NodeInput | NodeActions | NodeProgress
  | NodeOther string

fun NodeType_Valid :: "NodeType \<Rightarrow> bool" where
  "NodeType_Valid (NodeOther _) = False"
| "NodeType_Valid _ = True"

definition NodeType_Container :: "NodeType \<Rightarrow> bool" where
  "NodeType_Container n \<longleftrightarrow> n = NodeBox \<or> n = NodeViewport"

fun nodetype_string :: "NodeType \<Rightarrow> string" where
  "nodetype_string NodeBox = ''box''"
| "nodetype_string NodeText = ''text''"
| "nodetype_string NodeViewport = ''viewport''"
| "nodetype_string NodeTable = ''table''"
| "nodetype_string NodeInput = ''input''"
| "nodetype_string NodeActions = ''actions''"
| "nodetype_string NodeProgress = ''progress''"
| "nodetype_string (NodeOther s) = s"

fun optype_string :: "OpType \<Rightarrow> string" where
  "optype_string OpUpsert = ''upsert''"
| "optype_string OpProps = ''props''"
| "optype_string OpText = ''text''"
| "optype_string OpRemove = ''remove''"
| "optype_string OpFocus = ''focus''"
| "optype_string OpCommit = ''commit''"
| "optype_string (OpOther s) = s"

definition AllNodeTypes :: "NodeType list" where
  "AllNodeTypes = [NodeBox, NodeText, NodeViewport, NodeTable, NodeInput, NodeActions, NodeProgress]"

definition nodetype_of_string :: "string \<Rightarrow> NodeType" where
  "nodetype_of_string s =
     (case find (\<lambda>t. nodetype_string t = s) AllNodeTypes of Some t \<Rightarrow> t | None \<Rightarrow> NodeOther s)"

definition optype_of_string :: "string \<Rightarrow> OpType" where
  "optype_of_string s =
     (case find (\<lambda>t. optype_string t = s) [OpUpsert, OpProps, OpText, OpRemove, OpFocus, OpCommit]
      of Some t \<Rightarrow> t | None \<Rightarrow> OpOther s)"

text \<open>Optional fields of the Go struct have their zero value when absent; \<open>Index\<close> is a
  pointer.\<close>

record Operation =
  op_V :: int
  op_Seq :: int
  op_Op :: OpType
  op_ID :: string
  op_Type :: NodeType
  op_Parent :: string
  op_Index :: "int option"
  op_Text :: string
  op_Frame :: string
  op_Props :: bytes

datatype EnvelopeKind =
  KindHello | KindHelloAck | KindOperation | KindEvent | KindTelemetry | KindOther string

record Envelope =
  env_V :: int
  env_Session :: string
  env_Kind :: EnvelopeKind
  env_Seq :: u64
  env_Payload :: bytes

record Event =
  ev_V :: int
  ev_Seq :: u64
  ev_Ev :: string
  ev_ID :: string
  ev_Code :: string
  ev_Msg :: gomsg
  ev_Action :: string
  ev_InvocationID :: string
  ev_Value :: string
  ev_Row :: int
  ev_RowID :: string
  ev_W :: int
  ev_H :: int
  ev_Revision :: u64
  ev_RelatedSeq :: u64
  ev_ThroughSeq :: u64
  ev_Frame :: string
  ev_Args :: bytes

definition zero_event :: Event where
  "zero_event = \<lparr>ev_V = 0, ev_Seq = 0, ev_Ev = [], ev_ID = [], ev_Code = [], ev_Msg = Lit [],
     ev_Action = [], ev_InvocationID = [], ev_Value = [], ev_Row = 0, ev_RowID = [], ev_W = 0,
     ev_H = 0, ev_Revision = 0, ev_RelatedSeq = 0, ev_ThroughSeq = 0, ev_Frame = [], ev_Args = []\<rparr>"

record MutationPolicy =
  ForceInputValue :: bool

definition no_policy :: MutationPolicy where
  "no_policy = \<lparr>ForceInputValue = False\<rparr>"

subsection \<open>Errors (errors.go)\<close>

record Error =
  e_Code :: string
  e_Message :: gomsg
  e_Recoverable :: bool
  e_Seq :: int
  e_NodeID :: string
  e_Path :: string

definition NewError :: "string \<Rightarrow> gomsg \<Rightarrow> Error" where
  "NewError code message = \<lparr>e_Code = code, e_Message = message, e_Recoverable = True,
     e_Seq = 0, e_NodeID = [], e_Path = []\<rparr>"

lemma NewError_sel [simp, err_simps]:
  "e_Code (NewError c m) = c" "e_Message (NewError c m) = m" "e_Recoverable (NewError c m)"
  "e_Path (NewError c m) = []"
  by (simp_all add: NewError_def)

subsection \<open>Limits (types.go, validate.go)\<close>

record Limits =
  MaxMessageBytes :: int
  MaxDocumentBytes :: int
  MaxNodes :: int
  MaxDepth :: int
  MaxChildren :: int
  MaxTextBytesPerNode :: int
  MaxTotalTextBytes :: int
  MaxTableRows :: int
  MaxTableColumns :: int
  MaxPendingEvents :: int
  MaxPendingMutations :: int
  MaxInflightActions :: int
  MaxDatagramBytes :: int

definition DefaultLimits :: Limits where
  "DefaultLimits = \<lparr>MaxMessageBytes = 1048576, MaxDocumentBytes = 8388608, MaxNodes = 2048,
     MaxDepth = 32, MaxChildren = 512, MaxTextBytesPerNode = 262144, MaxTotalTextBytes = 2097152,
     MaxTableRows = 4096, MaxTableColumns = 64, MaxPendingEvents = 256, MaxPendingMutations = 256,
     MaxInflightActions = 32, MaxDatagramBytes = 1200\<rparr>"

text \<open>One field of \<open>EffectiveLimits\<close>: a value below one is replaced by the default.\<close>

definition or_default :: "int \<Rightarrow> int \<Rightarrow> int" where
  "or_default v d = (if v < 1 then d else v)"

definition EffectiveLimits :: "Limits \<Rightarrow> Limits" where
  "EffectiveLimits l = (let d = DefaultLimits in l\<lparr>
     MaxMessageBytes := or_default (MaxMessageBytes l) (MaxMessageBytes d),
     MaxDocumentBytes := or_default (MaxDocumentBytes l) (MaxDocumentBytes d),
     MaxNodes := or_default (MaxNodes l) (MaxNodes d),
     MaxDepth := or_default (MaxDepth l) (MaxDepth d),
     MaxChildren := or_default (MaxChildren l) (MaxChildren d),
     MaxTextBytesPerNode := or_default (MaxTextBytesPerNode l) (MaxTextBytesPerNode d),
     MaxTotalTextBytes := or_default (MaxTotalTextBytes l) (MaxTotalTextBytes d),
     MaxTableRows := or_default (MaxTableRows l) (MaxTableRows d),
     MaxTableColumns := or_default (MaxTableColumns l) (MaxTableColumns d),
     MaxPendingEvents := or_default (MaxPendingEvents l) (MaxPendingEvents d),
     MaxPendingMutations := or_default (MaxPendingMutations l) (MaxPendingMutations d),
     MaxInflightActions := or_default (MaxInflightActions l) (MaxInflightActions d),
     MaxDatagramBytes := or_default (MaxDatagramBytes l) (MaxDatagramBytes d)\<rparr>)"

definition limit_fields :: "Limits \<Rightarrow> (string \<times> int) list" where
  "limit_fields l =
     [(''max_message_bytes'', MaxMessageBytes l), (''max_document_bytes'', MaxDocumentBytes l),
      (''max_nodes'', MaxNodes l), (''max_depth'', MaxDepth l), (''max_children'', MaxChildren l),
      (''max_text_bytes_per_node'', MaxTextBytesPerNode l),
      (''max_total_text_bytes'', MaxTotalTextBytes l), (''max_table_rows'', MaxTableRows l),
      (''max_table_columns'', MaxTableColumns l), (''max_pending_events'', MaxPendingEvents l),
      (''max_pending_mutations'', MaxPendingMutations l),
      (''max_inflight_actions'', MaxInflightActions l), (''max_datagram_bytes'', MaxDatagramBytes l)]"

definition ValidateLimits :: "Limits \<Rightarrow> Error option" where
  "ValidateLimits l =
     first_err (map (\<lambda>(name, value).
       if value < 1
       then Some ((NewError ''schema.invalid_limits'' (Sprintf ''%s must be >= 1'' [FStr name]))
                    \<lparr>e_Path := ''/limits/'' @ name\<rparr>)
       else None) (limit_fields l))"

text \<open>Every limit is at least one.\<close>

definition limits_ok :: "Limits \<Rightarrow> bool" where
  "limits_ok l \<longleftrightarrow> (\<forall>(name, value) \<in> set (limit_fields l). 1 \<le> value)"

lemma limits_ok_simps:
  "limits_ok l \<longleftrightarrow> 1 \<le> MaxMessageBytes l \<and> 1 \<le> MaxDocumentBytes l \<and> 1 \<le> MaxNodes l \<and>
     1 \<le> MaxDepth l \<and> 1 \<le> MaxChildren l \<and> 1 \<le> MaxTextBytesPerNode l \<and> 1 \<le> MaxTotalTextBytes l \<and>
     1 \<le> MaxTableRows l \<and> 1 \<le> MaxTableColumns l \<and> 1 \<le> MaxPendingEvents l \<and>
     1 \<le> MaxPendingMutations l \<and> 1 \<le> MaxInflightActions l \<and> 1 \<le> MaxDatagramBytes l"
  by (simp add: limits_ok_def limit_fields_def)

lemma ValidateLimits_iff: "ValidateLimits l = None \<longleftrightarrow> limits_ok l"
  by (simp add: ValidateLimits_def limits_ok_simps limit_fields_def not_less)

lemma EffectiveLimits_sel:
  "MaxMessageBytes (EffectiveLimits l) =
     (if MaxMessageBytes l < 1 then 1048576 else MaxMessageBytes l)"
  "MaxDocumentBytes (EffectiveLimits l) =
     (if MaxDocumentBytes l < 1 then 8388608 else MaxDocumentBytes l)"
  "MaxNodes (EffectiveLimits l) = (if MaxNodes l < 1 then 2048 else MaxNodes l)"
  "MaxDepth (EffectiveLimits l) = (if MaxDepth l < 1 then 32 else MaxDepth l)"
  "MaxChildren (EffectiveLimits l) = (if MaxChildren l < 1 then 512 else MaxChildren l)"
  "MaxTextBytesPerNode (EffectiveLimits l) =
     (if MaxTextBytesPerNode l < 1 then 262144 else MaxTextBytesPerNode l)"
  "MaxTotalTextBytes (EffectiveLimits l) =
     (if MaxTotalTextBytes l < 1 then 2097152 else MaxTotalTextBytes l)"
  "MaxTableRows (EffectiveLimits l) = (if MaxTableRows l < 1 then 4096 else MaxTableRows l)"
  "MaxTableColumns (EffectiveLimits l) = (if MaxTableColumns l < 1 then 64 else MaxTableColumns l)"
  "MaxPendingEvents (EffectiveLimits l) =
     (if MaxPendingEvents l < 1 then 256 else MaxPendingEvents l)"
  "MaxPendingMutations (EffectiveLimits l) =
     (if MaxPendingMutations l < 1 then 256 else MaxPendingMutations l)"
  "MaxInflightActions (EffectiveLimits l) =
     (if MaxInflightActions l < 1 then 32 else MaxInflightActions l)"
  "MaxDatagramBytes (EffectiveLimits l) =
     (if MaxDatagramBytes l < 1 then 1200 else MaxDatagramBytes l)"
  by (simp_all add: EffectiveLimits_def Let_def DefaultLimits_def or_default_def)

lemma EffectiveLimits_ok: "limits_ok (EffectiveLimits l)"
  by (simp add: limits_ok_simps EffectiveLimits_sel)

lemma EffectiveLimits_id: "limits_ok l \<Longrightarrow> EffectiveLimits l = l"
  by (simp add: limits_ok_simps EffectiveLimits_def Let_def or_default_def)

subsection \<open>The hello exchange (types.go, validate.go)\<close>

record Hello =
  h_Versions :: "int list"
  h_Features :: "string list"

record HelloAck =
  a_Version :: int
  a_Features :: "string list"
  a_Components :: "NodeType list"
  a_Limits :: Limits

definition ValidateHello :: "Hello \<Rightarrow> Error option" where
  "ValidateHello h =
     (if h_Versions h = []
      then Some (NewError ''schema.missing_field'' (Lit ''hello.versions is required''))
      else first_err
        [scan_unique
           (\<lambda>i v. if v < 1 then Some (NewError ''schema.invalid_hello''
                     (Lit ''hello versions must be positive integers'')) else None)
           (\<lambda>i v. NewError ''schema.invalid_hello'' (Lit ''hello versions must be unique''))
           {} 0 (h_Versions h),
         scan_unique
           (\<lambda>i f. if f = [] then Some (NewError ''schema.invalid_hello''
                     (Lit ''hello features must be non-empty'')) else None)
           (\<lambda>i f. NewError ''schema.invalid_hello'' (Lit ''hello features must be unique''))
           {} 0 (h_Features h)])"

definition ValidateHelloAck :: "HelloAck \<Rightarrow> Error option" where
  "ValidateHelloAck ack =
     (if a_Version ack \<noteq> Version
      then Some (NewError ''protocol.version_mismatch''
             (Sprintf ''unsupported negotiated version %d'' [FInt (a_Version ack)]))
      else first_err
        [scan_unique
           (\<lambda>i f. if f = [] then Some (NewError ''schema.invalid_hello_ack''
                     (Lit ''hello_ack features must be non-empty'')) else None)
           (\<lambda>i f. NewError ''schema.invalid_hello_ack'' (Lit ''hello_ack features must be unique''))
           {} 0 (a_Features ack),
         scan_unique
           (\<lambda>i c. if \<not> NodeType_Valid c then Some (NewError ''schema.unknown_type''
                     (Sprintf ''unknown component %q'' [FStr (nodetype_string c)])) else None)
           (\<lambda>i c. NewError ''schema.invalid_hello_ack'' (Lit ''hello_ack components must be unique''))
           {} 0 (a_Components ack),
         ValidateLimits (a_Limits ack)])"

lemma ValidateHello_iff:
  "ValidateHello h = None \<longleftrightarrow>
     h_Versions h \<noteq> [] \<and> (\<forall>v \<in> set (h_Versions h). 1 \<le> v) \<and> distinct (h_Versions h) \<and>
     [] \<notin> set (h_Features h) \<and> distinct (h_Features h)"
  by (auto simp: ValidateHello_def scan_unique_plain not_less)

lemma ValidateHelloAck_iff:
  "ValidateHelloAck a = None \<longleftrightarrow>
     a_Version a = 1 \<and> [] \<notin> set (a_Features a) \<and> distinct (a_Features a) \<and>
     (\<forall>c \<in> set (a_Components a). NodeType_Valid c) \<and> distinct (a_Components a) \<and>
     limits_ok (a_Limits a)"
  by (auto simp: ValidateHelloAck_def Version_def scan_unique_plain ValidateLimits_iff)

end
