(* ===== verification/Props.thy ===== *)
theory Props
  imports Protocol
begin

text \<open>
  The property algebra of \<open>protocol/props.go\<close> and the operation check of
  \<open>protocol/validate.go\<close>. A property map is a finite map from names to raw JSON. The
  closures of \<open>validateNormalized\<close> are functions of the map they capture; each arm of its
  switch is one definition, a list of checks of which the first error is returned.
\<close>

type_synonym rawProps = "bytes gomap"

definition get_raw :: "rawProps \<Rightarrow> string \<Rightarrow> bytes" where
  "get_raw p k = (case fmlookup p k of None \<Rightarrow> [] | Some v \<Rightarrow> v)"

subsection \<open>Allowed names and defaults\<close>

fun allowedProps :: "NodeType \<Rightarrow> string list" where
  "allowedProps NodeBox = [''dir'', ''padding'', ''gap'', ''border'', ''style'', ''variant'', ''align'', ''responsive'', ''flex'']"
| "allowedProps NodeText = [''text'', ''style'', ''variant'', ''flex'']"
| "allowedProps NodeViewport = [''height'', ''wrap'', ''follow_tail'', ''scrollable'', ''flex'']"
| "allowedProps NodeTable = [''columns'', ''rows'', ''selectable'', ''row_ids'', ''action'', ''variant'', ''flex'']"
| "allowedProps NodeInput = [''placeholder'', ''value'', ''force'', ''action'', ''flex'']"
| "allowedProps NodeActions = [''items'', ''variant'', ''flex'']"
| "allowedProps NodeProgress = [''value'', ''label'', ''variant'', ''state'', ''flex'']"
| "allowedProps (NodeOther _) = []"

fun default_text :: "NodeType \<Rightarrow> bytes" where
  default_box: \<open>default_text NodeBox = ''{"dir":"col","padding":0,"gap":0,"border":"none","style":{},"variant":"plain","align":"start","responsive":"none"}''\<close>
| default_txt: \<open>default_text NodeText = ''{"text":"","style":{},"variant":"body"}''\<close>
| default_vp: \<open>default_text NodeViewport = ''{"height":10,"wrap":true,"follow_tail":false,"scrollable":false}''\<close>
| default_tbl: \<open>default_text NodeTable = ''{"columns":[],"rows":[],"selectable":false,"action":"","variant":"normal"}''\<close>
| default_inp: \<open>default_text NodeInput = ''{"placeholder":"","value":"","action":""}''\<close>
| default_act: \<open>default_text NodeActions = ''{"items":[],"variant":"inline"}''\<close>
| default_prg: \<open>default_text NodeProgress = ''{"value":0,"label":"","variant":"bar","state":"normal"}''\<close>
| default_oth: \<open>default_text (NodeOther _) = ''''\<close>

definition defaults :: "NodeType \<Rightarrow> rawProps" where
  "defaults t = nil_map (fst (unm_map (default_text t)))"

subsection \<open>The field checks captured by validateNormalized\<close>

definition bad :: "string \<Rightarrow> gomsg \<Rightarrow> Error" where
  "bad path msg = (NewError ''schema.invalid_props'' msg)\<lparr>e_Path := path\<rparr>"

definition unknown_property :: "string \<Rightarrow> gomsg \<Rightarrow> Error" where
  "unknown_property path msg = (NewError ''schema.unknown_property'' msg)\<lparr>e_Path := path\<rparr>"

definition intField :: "rawProps \<Rightarrow> string \<Rightarrow> int \<Rightarrow> int \<times> Error option" where
  "intField p name mn =
     (case fmlookup p name of
        None \<Rightarrow> (0, None)
      | Some v \<Rightarrow>
          (let (n, ok) = unm_int v in
           if \<not> ok \<or> n < mn
           then (0, Some (bad (''/props/'' @ name) (Sprintf ''%s must be integer >= %d'' [FStr name, FInt mn])))
           else (n, None)))"

definition strField :: "rawProps \<Rightarrow> string \<Rightarrow> string \<times> Error option" where
  "strField p name =
     (case fmlookup p name of
        None \<Rightarrow> ([], None)
      | Some v \<Rightarrow>
          (let (s, ok) = unm_string v in
           if \<not> ok then ([], Some (bad (''/props/'' @ name) (Lit (name @ '' must be string''))))
           else (s, None)))"

definition boolField :: "rawProps \<Rightarrow> string \<Rightarrow> Error option" where
  "boolField p name =
     (case fmlookup p name of
        None \<Rightarrow> None
      | Some v \<Rightarrow>
          if \<not> snd (unm_bool v) then Some (bad (''/props/'' @ name) (Lit (name @ '' must be boolean'')))
          else None)"

definition validateEnum :: "rawProps \<Rightarrow> string \<Rightarrow> string list \<Rightarrow> Error option" where
  "validateEnum p name allowed =
     (let (s, e) = strField p name in
      if e \<noteq> None then e
      else if s = [] then None
      else if s \<in> set allowed then None
      else Some (bad (''/props/'' @ name) (Sprintf ''invalid %s'' [FStr name])))"

definition flex_member :: "rawProps \<Rightarrow> string \<Rightarrow> Error option" where
  "flex_member m k =
     (let (n, ok) = unm_int (get_raw m k) in
      if k = ''grow'' \<or> k = ''basis'' then
        (if \<not> ok \<or> n < 0 then Some (bad (''/props/flex/'' @ k) (Lit (k @ '' must be integer >= 0''))) else None)
      else if k = ''min_width'' \<or> k = ''max_width'' then
        (if \<not> ok \<or> n < 1 then Some (bad (''/props/flex/'' @ k) (Lit (k @ '' must be integer >= 1''))) else None)
      else Some (unknown_property (''/props/flex/'' @ k) (Sprintf ''unknown flex property %q'' [FStr k])))"

definition validateFlex :: "bytes \<Rightarrow> Error option" where
  "validateFlex raw =
     (case unm_map raw of
        (Some m, True) \<Rightarrow>
          first_err (map (flex_member m) (keys_of m) @
            [if fmlookup m ''min_width'' \<noteq> None \<and> fmlookup m ''max_width'' \<noteq> None \<and>
                fst (unm_int (get_raw m ''max_width'')) < fst (unm_int (get_raw m ''min_width''))
             then Some (bad ''/props/flex/max_width'' (Lit ''max_width must be >= min_width'')) else None])
      | _ \<Rightarrow> Some (bad ''/props/flex'' (Lit ''flex must be object'')))"

definition style_member :: "rawProps \<Rightarrow> string \<Rightarrow> Error option" where
  "style_member m k =
     (if k = ''fg'' \<or> k = ''bg'' then
        (let (s, ok) = unm_string (get_raw m k) in
         if \<not> ok then Some (bad (''/props/style/'' @ k) (Lit (k @ '' must be string'')))
         else if s \<noteq> [] \<and> s \<noteq> ''primary'' \<and> s \<noteq> ''warn'' \<and> s \<noteq> ''error'' \<and> s \<noteq> ''muted''
         then Some ((NewError ''schema.invalid_color'' (Sprintf ''unsupported color %q'' [FStr s]))
                      \<lparr>e_Path := ''/props/style/'' @ k\<rparr>)
         else None)
      else if k = ''bold'' \<or> k = ''dim'' then
        (if \<not> snd (unm_bool (get_raw m k))
         then Some (bad (''/props/style/'' @ k) (Lit (k @ '' must be boolean''))) else None)
      else Some (unknown_property (''/props/style/'' @ k) (Sprintf ''unknown style property %q'' [FStr k])))"

definition validateStyle :: "bytes \<Rightarrow> Error option" where
  "validateStyle raw =
     (let (m, ok) = unm_map raw in
      if \<not> ok then Some (bad ''/props/style'' (Lit ''style must be object''))
      else first_err (map (style_member (nil_map m)) (keys_of (nil_map m))))"

definition optField :: "rawProps \<Rightarrow> string \<Rightarrow> (bytes \<Rightarrow> Error option) \<Rightarrow> Error option" where
  "optField p name f = (case fmlookup p name of None \<Rightarrow> None | Some v \<Rightarrow> f v)"

definition dir_check :: "rawProps \<Rightarrow> Error option" where
  "dir_check p =
     (let (dir, e) = strField p ''dir'' in
      if e \<noteq> None then e
      else if dir \<noteq> [] \<and> dir \<noteq> ''col'' \<and> dir \<noteq> ''row''
      then Some (bad ''/props/dir'' (Lit ''dir must be col or row'')) else None)"

definition border_check :: "rawProps \<Rightarrow> Error option" where
  "border_check p =
     (let (border, e) = strField p ''border'' in
      if e \<noteq> None then e
      else if border \<noteq> [] \<and> border \<noteq> ''none'' \<and> border \<noteq> ''rounded'' \<and> border \<noteq> ''normal''
      then Some (bad ''/props/border'' (Lit ''invalid border'')) else None)"

definition column_check :: "nat \<Rightarrow> rawProps \<Rightarrow> Error option" where
  "column_check i c = first_err
     (map (\<lambda>k. if k \<noteq> ''title'' \<and> k \<noteq> ''width''
               then Some (unknown_property (''/props/columns/'' @ decimal i @ ''/'' @ k)
                      (Sprintf ''unknown column property %q'' [FStr k])) else None) (keys_of c) @
      [case fmlookup c ''title'' of
         None \<Rightarrow> Some (bad (''/props/columns/'' @ decimal i @ ''/title'') (Lit ''column title is required''))
       | Some raw \<Rightarrow>
           (let (title, ok) = unm_string raw in
            if \<not> ok \<or> title = []
            then Some (bad (''/props/columns/'' @ decimal i @ ''/title'') (Lit ''column title is required''))
            else None),
       case fmlookup c ''width'' of
         None \<Rightarrow> None
       | Some raw \<Rightarrow>
           (let (width, ok) = unm_int raw in
            if \<not> ok \<or> width < 1
            then Some (bad (''/props/columns/'' @ decimal i @ ''/width'') (Lit ''column width must be >= 1''))
            else None)])"

definition columns_check :: "bytes \<Rightarrow> Error option" where
  "columns_check v =
     (let (cols, ok) = unm_maps v in
      if \<not> ok then Some (bad ''/props/columns'' (Lit ''columns must be array''))
      else first_err (map (\<lambda>(i, c). column_check i (nil_map c)) (zip [0..<length cols] cols)))"

definition prop_rows :: "rawProps \<Rightarrow> string list list" where
  "prop_rows p = (case fmlookup p ''rows'' of None \<Rightarrow> [] | Some v \<Rightarrow> fst (unm_matrix v))"

definition rows_check :: "rawProps \<Rightarrow> Error option" where
  "rows_check p = optField p ''rows'' (\<lambda>v.
     if \<not> snd (unm_matrix v) then Some (bad ''/props/rows'' (Lit ''rows must be string matrix'')) else None)"

definition row_ids_check :: "rawProps \<Rightarrow> Error option" where
  "row_ids_check p = optField p ''row_ids'' (\<lambda>v.
     (let (ids, ok) = unm_strings v in
      if \<not> ok then Some (bad ''/props/row_ids'' (Lit ''row_ids must be string array''))
      else if length ids \<noteq> length (prop_rows p)
      then Some (bad ''/props/row_ids'' (Lit ''row_ids length must match rows length''))
      else scan_unique
        (\<lambda>i id. if id = [] then Some (bad (''/props/row_ids/'' @ decimal i) (Lit ''row_id must be non-empty'')) else None)
        (\<lambda>i id. bad (''/props/row_ids/'' @ decimal i) (Lit ''row_ids must be unique''))
        {} 0 ids))"

definition item_check :: "nat \<Rightarrow> rawProps \<Rightarrow> Error option" where
  "item_check i it = first_err
     (map (\<lambda>k. if k \<noteq> ''key'' \<and> k \<noteq> ''label'' \<and> k \<noteq> ''action'' \<and> k \<noteq> ''args''
               then Some (unknown_property (''/props/items/'' @ decimal i @ ''/'' @ k)
                      (Sprintf ''unknown action item property %q'' [FStr k])) else None) (keys_of it) @
      [let (key, ok1) = unm_string (get_raw it ''key'');
           (label, ok2) = unm_string (get_raw it ''label'');
           (action, ok3) = unm_string (get_raw it ''action'') in
       if \<not> ok1 \<or> rune_count key \<noteq> 1 \<or> \<not> ok2 \<or> label = [] \<or> \<not> ok3 \<or> action = []
       then Some (bad (''/props/items/'' @ decimal i) (Lit ''key must be one rune and label/action required''))
       else None,
       case fmlookup it ''args'' of
         None \<Rightarrow> None
       | Some raw \<Rightarrow> if \<not> snd (unm_map raw)
           then Some (bad (''/props/items/'' @ decimal i @ ''/args'') (Lit ''args must be object'')) else None])"

definition items_check :: "bytes \<Rightarrow> Error option" where
  "items_check v =
     (let (items, ok) = unm_maps v in
      if \<not> ok then Some (bad ''/props/items'' (Lit ''items must be array''))
      else first_err (map (\<lambda>(i, it). item_check i (nil_map it)) (zip [0..<length items] items)))"

fun type_checks :: "NodeType \<Rightarrow> rawProps \<Rightarrow> Error option list" where
  "type_checks NodeBox p =
     [validateEnum p ''variant'' [''plain'', ''panel'', ''card'', ''section''],
      validateEnum p ''align'' [''start'', ''center'', ''end'', ''stretch''],
      validateEnum p ''responsive'' [''none'', ''stack''],
      dir_check p, snd (intField p ''padding'' 0), snd (intField p ''gap'' 0), border_check p,
      optField p ''style'' validateStyle]"
| "type_checks NodeText p =
     [validateEnum p ''variant'' [''body'', ''title'', ''subtitle'', ''label'', ''code'', ''muted''],
      snd (strField p ''text''), optField p ''style'' validateStyle]"
| "type_checks NodeViewport p =
     [snd (intField p ''height'' 1), boolField p ''wrap'', boolField p ''follow_tail'',
      boolField p ''scrollable'']"
| "type_checks NodeTable p =
     [validateEnum p ''variant'' [''normal'', ''compact'', ''dense''], boolField p ''selectable'',
      optField p ''columns'' columns_check, rows_check p, snd (strField p ''action''), row_ids_check p]"
| "type_checks NodeInput p =
     [snd (strField p ''placeholder''), snd (strField p ''value''), snd (strField p ''action'')]"
| "type_checks NodeActions p =
     [validateEnum p ''variant'' [''inline'', ''toolbar'', ''list''], optField p ''items'' items_check]"
| "type_checks NodeProgress p =
     [validateEnum p ''variant'' [''bar'', ''compact'', ''spinner''],
      validateEnum p ''state'' [''normal'', ''loading'', ''success'', ''error''],
      optField p ''value'' (\<lambda>v. if \<not> unm_unit_float v
         then Some (bad ''/props/value'' (Lit ''value must be 0..1'')) else None),
      snd (strField p ''label'')]"
| "type_checks (NodeOther _) p = []"

definition validateNormalized :: "NodeType \<Rightarrow> rawProps \<Rightarrow> Error option" where
  "validateNormalized t p = first_err (optField p ''flex'' validateFlex # type_checks t p)"

subsection \<open>Normalisation and merge\<close>

text \<open>The patch a raw message holds; an empty message is the empty patch.\<close>

definition parse_patch :: "bytes \<Rightarrow> Error + rawProps" where
  "parse_patch raw =
     (let trimmed = TrimSpace raw in
      if trimmed = [] then Inr fmempty
      else if trimmed = ''null'' then Inl (NewError ''schema.invalid_props'' (Lit ''props must be an object''))
      else case unm_map trimmed of
             (Some m, True) \<Rightarrow> Inr m
           | (_, False) \<Rightarrow> Inl (NewError ''schema.invalid_props'' (LibErr ''json.Unmarshal''))
           | (None, True) \<Rightarrow> Inl (NewError ''schema.invalid_props'' (Lit ''props must be an object'')))"

definition unknown_names :: "NodeType \<Rightarrow> rawProps \<Rightarrow> Error option" where
  "unknown_names t patch = first_err (map (\<lambda>k.
     if k \<notin> set (allowedProps t)
     then Some (unknown_property (''/props/'' @ k)
            (Sprintf ''property %q is not allowed for %s'' [FStr k, FStr (nodetype_string t)]))
     else None) (keys_of patch))"

text \<open>The one-shot \<open>force\<close> member of an input patch: removed from the patch and turned
  into the mutation policy.\<close>

definition take_force :: "NodeType \<Rightarrow> rawProps \<Rightarrow> Error + (rawProps \<times> MutationPolicy)" where
  "take_force t patch =
     (if t = NodeInput then
        (case fmlookup patch ''force'' of
           None \<Rightarrow> Inr (patch, no_policy)
         | Some v \<Rightarrow>
             (let (b, ok) = unm_bool v in
              if \<not> ok then Inl (NewError ''schema.invalid_props'' (Lit ''input.force must be boolean''))
              else Inr (fmdrop ''force'' patch, \<lparr>ForceInputValue = b\<rparr>)))
      else Inr (patch, no_policy))"

definition NormalizeProps ::
    "NodeType \<Rightarrow> bytes \<Rightarrow> bool \<Rightarrow> Error + (rawProps \<times> MutationPolicy)" where
  "NormalizeProps t raw full =
     (if \<not> NodeType_Valid t
      then Inl (NewError ''schema.unknown_type'' (Sprintf ''unknown node type %q'' [FStr (nodetype_string t)]))
      else case parse_patch raw of
        Inl e \<Rightarrow> Inl e
      | Inr patch \<Rightarrow>
          (case unknown_names t patch of
             Some e \<Rightarrow> Inl e
           | None \<Rightarrow>
               (case take_force t patch of
                  Inl e \<Rightarrow> Inl e
                | Inr (patch, policy) \<Rightarrow>
                    (let patch = (if full then fmadd (defaults t) patch else patch) in
                     case validateNormalized t patch of
                       Some e \<Rightarrow> Inl e
                     | None \<Rightarrow> Inr (patch, policy)))))"

definition MergeNormalized ::
    "NodeType \<Rightarrow> rawProps \<Rightarrow> bytes \<Rightarrow> Error + (rawProps \<times> MutationPolicy)" where
  "MergeNormalized t current raw =
     (case NormalizeProps t raw False of
        Inl e \<Rightarrow> Inl e
      | Inr (patch, policy) \<Rightarrow>
          (let merged = fmadd current patch in
           case validateNormalized t merged of
             Some e \<Rightarrow> Inl e
           | None \<Rightarrow> Inr (merged, policy)))"

subsection \<open>The check of an operation (validate.go)\<close>

definition ValidateOperation :: "Operation \<Rightarrow> Limits \<Rightarrow> Error option" where
  "ValidateOperation op limits =
     (if op_V op \<noteq> Version
      then Some (NewError ''protocol.version_mismatch'' (Sprintf ''unsupported version %d'' [FInt (op_V op)]))
      else if op_Seq op < 0
      then Some (NewError ''protocol.invalid_sequence'' (Lit ''operation sequence must be non-negative''))
      else case op_Op op of
        OpUpsert \<Rightarrow>
          (if op_ID op = [] then Some (NewError ''schema.missing_field'' (Lit ''upsert.id is required''))
           else if \<not> NodeType_Valid (op_Type op)
           then Some (NewError ''schema.unknown_type'' (Sprintf ''unknown node type %q'' [FStr (nodetype_string (op_Type op))]))
           else if int (length (op_Props op)) > MaxMessageBytes limits
           then Some (NewError ''resource.message_too_large'' (Lit ''props exceed message limit''))
           else (case NormalizeProps (op_Type op) (op_Props op) True of Inl e \<Rightarrow> Some e | Inr _ \<Rightarrow> None))
      | OpProps \<Rightarrow>
          (if int (length (op_Props op)) > MaxMessageBytes limits
           then Some (NewError ''resource.message_too_large'' (Lit ''props exceed message limit''))
           else if op_ID op = [] then Some (NewError ''schema.missing_field'' (Lit ''props.id is required''))
           else if op_Props op = [] then Some (NewError ''schema.missing_field'' (Lit ''props.props is required''))
           else (case unm_map (op_Props op) of
                   (Some _, True) \<Rightarrow> None
                 | _ \<Rightarrow> Some (NewError ''schema.invalid_props'' (Lit ''props must be object''))))
      | OpText \<Rightarrow>
          (if op_ID op = [] then Some (NewError ''schema.missing_field'' (Lit ''text.id is required''))
           else if int (length (op_Text op)) > MaxTextBytesPerNode limits
           then Some (NewError ''resource.text_too_large'' (Lit ''text chunk too large''))
           else None)
      | OpRemove \<Rightarrow>
          (if op_ID op = [] then Some (NewError ''schema.missing_field'' (Lit ''remove.id is required'')) else None)
      | OpFocus \<Rightarrow>
          (if op_ID op = [] then Some (NewError ''schema.missing_field'' (Lit ''focus.id is required'')) else None)
      | OpCommit \<Rightarrow> None
      | OpOther s \<Rightarrow> Some (NewError ''protocol.unknown_op'' (Sprintf ''unknown op %q'' [FStr s])))"

subsection \<open>Facts about the field checks\<close>

lemma strField_ok: "snd (strField p k) = None \<longleftrightarrow> (\<forall>v. fmlookup p k = Some v \<longrightarrow> snd (unm_string v))"
  by (auto simp: strField_def split: option.splits prod.splits)

lemma optField_None: "optField p k f = None \<longleftrightarrow> (\<forall>v. fmlookup p k = Some v \<longrightarrow> f v = None)"
  by (auto simp: optField_def split: option.splits)

lemma boolField_None: "boolField p k = None \<longleftrightarrow> (\<forall>v. fmlookup p k = Some v \<longrightarrow> snd (unm_bool v))"
  by (auto simp: boolField_def split: option.splits)

lemma row_ids_check_None:
  "row_ids_check p = None \<longleftrightarrow>
     (\<forall>v. fmlookup p ''row_ids'' = Some v \<longrightarrow>
        snd (unm_strings v) \<and> length (fst (unm_strings v)) = length (prop_rows p) \<and>
        [] \<notin> set (fst (unm_strings v)) \<and> distinct (fst (unm_strings v)))"
  by (auto simp: row_ids_check_def optField_None scan_unique_None Let_def case_prod_beta
      all_set_conv_all_nth in_set_conv_nth split: if_splits)

lemma unknown_names_None: "unknown_names t p = None \<longleftrightarrow> fset (fmdom p) \<subseteq> set (allowedProps t)"
  by (auto simp: unknown_names_def)

lemma take_force_names:
  assumes "take_force t p = Inr (q, pol)" "fset (fmdom p) \<subseteq> set (allowedProps t)"
  shows "fset (fmdom q) \<subseteq> set (allowedProps t) - {''force''}"
proof (cases "t = NodeInput \<and> fmlookup p ''force'' \<noteq> None")
  case True
  then have "q = fmdrop ''force'' p"
    using assms(1) by (auto simp: take_force_def split: prod.splits if_splits)
  then show ?thesis using assms(2) by auto
next
  case False
  then have "q = p" using assms(1) by (auto simp: take_force_def split: if_splits)
  moreover have "t \<noteq> NodeInput \<Longrightarrow> ''force'' \<notin> set (allowedProps t)" by (cases t) simp_all
  moreover have "t = NodeInput \<Longrightarrow> ''force'' \<notin> fset (fmdom p)"
    using False by (simp add: lookup_simps)
  ultimately show ?thesis using assms(2) by auto
qed

text \<open>The default maps, evaluated once.\<close>

lemma defaults_names: "fset (fmdom (defaults t)) \<subseteq> set (allowedProps t) - {''force''}"
proof (cases t)
  case (NodeOther s)
  then show ?thesis by (simp add: defaults_def) code_simp
qed (simp_all only:, code_simp+)

lemma defaults_valid: "validateNormalized t (defaults t) = None"
proof (cases t)
  case (NodeOther s)
  then show ?thesis by (simp add: defaults_def) code_simp
qed (simp_all only:, code_simp+)

subsection \<open>What normalisation and merge return\<close>

lemma NormalizeProps_Inr:
  assumes "NormalizeProps t raw full = Inr (m, pol)"
  obtains patch patch' where "NodeType_Valid t" "parse_patch raw = Inr patch"
    "fset (fmdom patch) \<subseteq> set (allowedProps t)" "take_force t patch = Inr (patch', pol)"
    "m = (if full then fmadd (defaults t) patch' else patch')" "validateNormalized t m = None"
  using assms that
  by (auto simp: NormalizeProps_def unknown_names_None [symmetric] Let_def
      split: if_splits sum.splits option.splits prod.splits)

lemma MergeNormalized_Inr:
  assumes "MergeNormalized t cur raw = Inr (m, pol)"
  obtains patch where "NormalizeProps t raw False = Inr (patch, pol)"
    "m = fmadd cur patch" "validateNormalized t m = None"
  using assms that
  by (auto simp: MergeNormalized_def Let_def split: sum.splits option.splits prod.splits)

lemma NormalizeProps_names:
  assumes "NormalizeProps t raw full = Inr (m, pol)"
  shows "fset (fmdom m) \<subseteq> set (allowedProps t) - {''force''}"
proof -
  from assms obtain patch patch' where
      "fset (fmdom patch) \<subseteq> set (allowedProps t)" "take_force t patch = Inr (patch', pol)"
      and m: "m = (if full then fmadd (defaults t) patch' else patch')"
    by (rule NormalizeProps_Inr)
  then have "fset (fmdom patch') \<subseteq> set (allowedProps t) - {''force''}"
    by (blast dest: take_force_names)
  with m show ?thesis using defaults_names [of t] by auto
qed

lemma NormalizeProps_full_defaults:
  assumes "NormalizeProps t raw True = Inr (m, pol)"
  shows "fset (fmdom (defaults t)) \<subseteq> fset (fmdom m)"
  using assms by (rule NormalizeProps_Inr) auto

lemma NormalizeProps_valid:
  "NormalizeProps t raw full = Inr (m, pol) \<Longrightarrow> validateNormalized t m = None"
  by (rule NormalizeProps_Inr)

lemma NormalizeProps_type: "NormalizeProps t raw full = Inr r \<Longrightarrow> NodeType_Valid t"
  by (cases r) (blast elim: NormalizeProps_Inr)

text \<open>The operation check runs the same normalisation as the reducer after it.\<close>

lemma ValidateOperation_upsert:
  assumes "ValidateOperation op l = None" "op_Op op = OpUpsert"
  obtains m pol where "NormalizeProps (op_Type op) (op_Props op) True = Inr (m, pol)"
    "op_ID op \<noteq> []" "NodeType_Valid (op_Type op)"
  using assms that by (auto simp: ValidateOperation_def split: if_splits sum.splits)

end
