(* ===== verification/Document.thy ===== *)
theory Document
  imports Props
begin

text \<open>
  The authoritative tree of \<open>document/document.go\<close> and its validator of
  \<open>document/invariants.go\<close>, with a declarative specification of a well-formed document
  and the proof that the validator accepts exactly the documents that meet it.
\<close>

subsection \<open>Nodes and documents (document.go)\<close>

text \<open>\<open>ExplicitProps\<close> is \<open>None\<close> for the nil map.\<close>

record Node =
  n_ID :: string
  n_Type :: NodeType
  n_Parent :: string
  n_Children :: "string list"
  n_Props :: rawProps
  n_ExplicitProps :: "bool gomap option"
  n_Text :: string

record Document =
  d_Revision :: u64
  d_Nodes :: "Node gomap"
  d_TotalTextBytes :: int

record Effect =
  eff_Changed :: bool
  eff_Commit :: bool
  eff_Frame :: string
  eff_ThroughSeq :: int
  eff_Removed :: "string list"
  eff_TypeChanged :: bool
  eff_Policy :: MutationPolicy

definition zero_effect :: Effect where
  "zero_effect = \<lparr>eff_Changed = False, eff_Commit = False, eff_Frame = [], eff_ThroughSeq = 0,
     eff_Removed = [], eff_TypeChanged = False, eff_Policy = no_policy\<rparr>"

text \<open>Reading a missing key of \<open>map[string]Node\<close> gives the zero node.\<close>

definition zero_node :: Node where
  "zero_node = \<lparr>n_ID = [], n_Type = NodeOther [], n_Parent = [], n_Children = [],
     n_Props = fmempty, n_ExplicitProps = None, n_Text = []\<rparr>"

definition node_at :: "Node gomap \<Rightarrow> string \<Rightarrow> Node" where
  "node_at nodes nid = (case fmlookup nodes nid of None \<Rightarrow> zero_node | Some n \<Rightarrow> n)"

lemma node_at_Some [simp]: "fmlookup nodes nid = Some n \<Longrightarrow> node_at nodes nid = n"
  by (simp add: node_at_def)

abbreviation root_id :: string where
  "root_id \<equiv> ''root''"

definition New_Document :: Document where
  "New_Document = \<lparr>d_Revision = 0,
     d_Nodes = fmupd root_id \<lparr>n_ID = root_id, n_Type = NodeBox, n_Parent = [], n_Children = [],
        n_Props = (case NormalizeProps NodeBox ''{}'' True of Inl _ \<Rightarrow> fmempty | Inr (m, _) \<Rightarrow> m),
        n_ExplicitProps = None, n_Text = []\<rparr> fmempty,
     d_TotalTextBytes = 0\<rparr>"

subsection \<open>The validator (invariants.go)\<close>

definition unrecoverable :: "Error \<Rightarrow> Error" where
  "unrecoverable e = e\<lparr>e_Recoverable := False\<rparr>"

text \<open>The two sets of the depth-first walk: the ids on the current path and those entered so far.\<close>

record walk_state =
  w_seen :: "string set"
  w_visited :: "string set"

function (sequential) inv_walk ::
    "Node gomap \<Rightarrow> Limits \<Rightarrow> int \<Rightarrow> string \<Rightarrow> walk_state \<Rightarrow> Error + walk_state"
  and inv_walk_children ::
    "Node gomap \<Rightarrow> Limits \<Rightarrow> int \<Rightarrow> string \<Rightarrow> string list \<Rightarrow> walk_state \<Rightarrow> Error + walk_state"
where
  "inv_walk nodes limits depth nid w =
     (if depth > MaxDepth limits
      then Inl (NewError ''resource.depth_limit'' (Sprintf ''depth exceeds %d'' [FInt (MaxDepth limits)]))
      else if nid \<in> w_seen w
      then Inl (unrecoverable (NewError ''document.cycle'' (Lit ''cycle detected'')))
      else if nid \<in> w_visited w
      then Inl (unrecoverable (NewError ''document.invariant'' (Sprintf ''node %q is referenced more than once'' [FStr nid])))
      else
        (let w = w\<lparr>w_seen := insert nid (w_seen w), w_visited := insert nid (w_visited w)\<rparr> in
         case fmlookup nodes nid of
           None \<Rightarrow> Inl (unrecoverable (NewError ''document.invariant'' (Lit ''child missing'')))
         | Some n \<Rightarrow>
             if n_ID n \<noteq> nid \<or> \<not> NodeType_Valid (n_Type n)
             then Inl (unrecoverable (NewError ''document.invariant'' (Sprintf ''node %q has invalid identity or type'' [FStr nid])))
             else if int (length (n_Children n)) > MaxChildren limits
             then Inl (NewError ''resource.children_limit'' (Sprintf ''node %q has too many children'' [FStr nid]))
             else if n_Children n \<noteq> [] \<and> \<not> NodeType_Container (n_Type n)
             then Inl (NewError ''document.parent_not_container'' (Sprintf ''node %q is not a container'' [FStr nid]))
             else
               (case inv_walk_children nodes limits depth nid (n_Children n) w of
                  Inl e \<Rightarrow> Inl e
                | Inr w \<Rightarrow> Inr (w\<lparr>w_seen := w_seen w - {nid}\<rparr>))))"
| "inv_walk_children nodes limits depth nid [] w = Inr w"
| "inv_walk_children nodes limits depth nid (cid # cs) w =
     (case fmlookup nodes cid of
        None \<Rightarrow> Inl (unrecoverable (NewError ''document.invariant'' (Sprintf ''broken parent relation for %q'' [FStr cid])))
      | Some c \<Rightarrow>
          if n_Parent c \<noteq> nid
          then Inl (unrecoverable (NewError ''document.invariant'' (Sprintf ''broken parent relation for %q'' [FStr cid])))
          else (case inv_walk nodes limits (depth + 1) cid w of
                  Inl e \<Rightarrow> Inl e
                | Inr w \<Rightarrow> inv_walk_children nodes limits depth nid cs w))"
  by pat_completeness auto
termination
  by (relation "inv_image (less_than <*lex*> less_than)
       (\<lambda>x. case x of
          Inl (nodes, limits, depth, nid, w) \<Rightarrow> (nat (MaxDepth limits + 2 - depth), 0)
        | Inr (nodes, limits, depth, nid, cs, w) \<Rightarrow> (nat (MaxDepth limits + 1 - depth), length cs))")
    auto

declare inv_walk.simps [simp del]

text \<open>Retained bytes: the two accumulators of the final loop of the validator.\<close>

definition text_bytes :: "Node gomap \<Rightarrow> int" where
  "text_bytes nodes = msum (\<lambda>nid n. int (length (n_Text n))) nodes"

definition node_bytes :: "string \<Rightarrow> Node \<Rightarrow> int" where
  "node_bytes nid n =
     int (length nid) + int (length (n_Parent n)) + int (length (n_Text n))
     + sum_list (map (\<lambda>child. int (length child)) (n_Children n))
     + msum (\<lambda>key value. int (length key) + int (length value)) (n_Props n)
     + (case n_ExplicitProps n of
          None \<Rightarrow> 0
        | Some ex \<Rightarrow> msum (\<lambda>key explicit. if explicit then int (length key) + 1 else 0) ex)"

definition document_bytes :: "Node gomap \<Rightarrow> int" where
  "document_bytes nodes = msum node_bytes nodes"

definition root_valid :: "Node gomap \<Rightarrow> bool" where
  "root_valid nodes \<longleftrightarrow>
     (case fmlookup nodes root_id of
        None \<Rightarrow> False
      | Some root \<Rightarrow> n_Type root = NodeBox \<and> n_ID root = root_id \<and> n_Parent root = [])"

definition validateInvariants :: "Document \<Rightarrow> Limits \<Rightarrow> Error option" where
  "validateInvariants d limits =
     (let nodes = d_Nodes d in
      if \<not> root_valid nodes
      then Some (unrecoverable (NewError ''document.invariant'' (Lit ''root missing or invalid'')))
      else if int (msize nodes) > MaxNodes limits
      then Some (NewError ''resource.node_limit''
             (Sprintf ''node count %d exceeds %d'' [FInt (int (msize nodes)), FInt (MaxNodes limits)]))
      else case inv_walk nodes limits 0 root_id \<lparr>w_seen = {}, w_visited = {}\<rparr> of
        Inl e \<Rightarrow> Some e
      | Inr w \<Rightarrow>
          if card (w_visited w) \<noteq> msize nodes
          then Some (unrecoverable (NewError ''document.invariant'' (Lit ''orphan nodes detected'')))
          else if document_bytes nodes > MaxDocumentBytes limits
          then Some (NewError ''resource.document_bytes_limit''
                 (Sprintf ''document bytes %d exceed %d'' [FInt (document_bytes nodes), FInt (MaxDocumentBytes limits)]))
          else if text_bytes nodes \<noteq> d_TotalTextBytes d
          then Some (unrecoverable (NewError ''document.invariant''
                 (Sprintf ''retained text accounting mismatch: stored=%d actual=%d''
                    [FInt (d_TotalTextBytes d), FInt (text_bytes nodes)])))
          else if d_TotalTextBytes d > MaxTotalTextBytes limits
          then Some (NewError ''resource.text_too_large'' (Lit ''total retained text limit exceeded''))
          else None)"

definition Validate :: "Document \<Rightarrow> Limits \<Rightarrow> Error option" where
  "Validate d limits = validateInvariants d limits"

subsection \<open>Well-formed trees, declaratively\<close>

definition kid :: "Node gomap \<Rightarrow> string \<Rightarrow> string \<Rightarrow> bool" where
  "kid nodes p c \<longleftrightarrow> (\<exists>n. fmlookup nodes p = Some n \<and> c \<in> set (n_Children n))"

definition node_ok :: "string \<Rightarrow> Node \<Rightarrow> bool" where
  "node_ok nid n \<longleftrightarrow> n_ID n = nid \<and> NodeType_Valid (n_Type n) \<and> distinct (n_Children n) \<and>
     (n_Children n \<noteq> [] \<longrightarrow> NodeType_Container (n_Type n))"

text \<open>Every node is reached from the root, a child names its parent, no child list repeats an
  id and the root is nobody's child.\<close>

definition tree :: "Node gomap \<Rightarrow> bool" where
  "tree nodes \<longleftrightarrow> root_valid nodes \<and>
     (\<forall>nid n. fmlookup nodes nid = Some n \<longrightarrow> node_ok nid n) \<and>
     (\<forall>p c. kid nodes p c \<longrightarrow> c \<noteq> root_id \<and> (\<exists>cn. fmlookup nodes c = Some cn \<and> n_Parent cn = p)) \<and>
     (\<forall>nid n. fmlookup nodes nid = Some n \<longrightarrow> (\<exists>k. (kid nodes ^^ k) root_id nid))"

definition within_limits :: "Document \<Rightarrow> Limits \<Rightarrow> bool" where
  "within_limits d limits \<longleftrightarrow>
     int (msize (d_Nodes d)) \<le> MaxNodes limits \<and>
     (\<forall>nid k. (kid (d_Nodes d) ^^ k) root_id nid \<longrightarrow> int k \<le> MaxDepth limits) \<and>
     (\<forall>nid n. fmlookup (d_Nodes d) nid = Some n \<longrightarrow> int (length (n_Children n)) \<le> MaxChildren limits) \<and>
     document_bytes (d_Nodes d) \<le> MaxDocumentBytes limits \<and>
     d_TotalTextBytes d \<le> MaxTotalTextBytes limits"

definition doc_spec :: "Document \<Rightarrow> Limits \<Rightarrow> bool" where
  "doc_spec d limits \<longleftrightarrow> tree (d_Nodes d) \<and> d_TotalTextBytes d = text_bytes (d_Nodes d) \<and>
     within_limits d limits"

lemma treeD:
  assumes "tree nodes"
  shows "root_valid nodes"
    and "fmlookup nodes nid = Some n \<Longrightarrow> node_ok nid n"
    and "kid nodes p c \<Longrightarrow> c \<noteq> root_id"
    and "kid nodes p c \<Longrightarrow> \<exists>cn. fmlookup nodes c = Some cn \<and> n_Parent cn = p"
    and "fmlookup nodes nid = Some n \<Longrightarrow> \<exists>k. (kid nodes ^^ k) root_id nid"
  using assms unfolding tree_def by blast+

lemma kid_parent_unique: "tree nodes \<Longrightarrow> kid nodes p c \<Longrightarrow> kid nodes q c \<Longrightarrow> p = q"
  by (metis option.inject treeD(4))

lemma depth_unique:
  assumes "tree nodes"
  shows "(kid nodes ^^ i) root_id x \<Longrightarrow> (kid nodes ^^ j) root_id x \<Longrightarrow> i = j"
proof (induction i arbitrary: j x)
  case 0
  then have "x = root_id" by simp
  then show ?case using 0 treeD(3) [OF assms] by (cases j) (auto elim!: relpowp_Suc_E)
next
  case (Suc i)
  then obtain y where y: "(kid nodes ^^ i) root_id y" "kid nodes y x"
    by (auto elim: relpowp_Suc_E)
  then have "x \<noteq> root_id" using treeD(3) [OF assms] by blast
  then obtain j' where j: "j = Suc j'" using Suc.prems(2) by (cases j) auto
  then obtain z where z: "(kid nodes ^^ j') root_id z" "kid nodes z x"
    using Suc.prems(2) by (auto elim: relpowp_Suc_E)
  then have "y = z" using kid_parent_unique [OF assms] y by blast
  with y z j show ?case using Suc.IH by blast
qed

lemma same_length_paths:
  assumes "tree nodes"
  shows "(kid nodes ^^ i) a x \<Longrightarrow> (kid nodes ^^ i) b x \<Longrightarrow> a = b"
proof (induction i arbitrary: x)
  case 0
  then show ?case by simp
next
  case (Suc i)
  then obtain y z where "(kid nodes ^^ i) a y" "kid nodes y x" "(kid nodes ^^ i) b z" "kid nodes z x"
    by (auto elim!: relpowp_Suc_E)
  then show ?case using kid_parent_unique [OF assms] Suc.IH by metis
qed

text \<open>The ids of the subtree below a node.\<close>

definition below :: "Node gomap \<Rightarrow> string \<Rightarrow> string set" where
  "below nodes a = {x. (kid nodes)\<^sup>*\<^sup>* a x}"

lemma below_refl [simp, intro]: "a \<in> below nodes a"
  by (simp add: below_def)

lemma below_kid: "kid nodes a b \<Longrightarrow> x \<in> below nodes b \<Longrightarrow> x \<in> below nodes a"
  by (auto simp: below_def intro: converse_rtranclp_into_rtranclp)

lemma below_trans: "y \<in> below nodes x \<Longrightarrow> z \<in> below nodes y \<Longrightarrow> z \<in> below nodes x"
  by (auto simp: below_def intro: rtranclp_trans)

lemma below_step: "x \<in> below nodes a \<Longrightarrow> kid nodes x y \<Longrightarrow> y \<in> below nodes a"
  by (auto simp: below_def intro: rtranclp.rtrancl_into_rtrancl)

lemma below_unfold: "below nodes a = insert a (\<Union>c \<in> {c. kid nodes a c}. below nodes c)"
  by (auto simp: below_def intro: converse_rtranclp_into_rtranclp elim: converse_rtranclpE)

lemma below_relpow: "x \<in> below nodes a \<longleftrightarrow> (\<exists>k. (kid nodes ^^ k) a x)"
  by (simp add: below_def rtranclp_is_Sup_relpowp)

lemma below_depth:
  assumes "tree nodes" "(kid nodes ^^ i) root_id a" "x \<in> below nodes a"
  obtains j where "(kid nodes ^^ j) a x" "(kid nodes ^^ (i + j)) root_id x"
proof -
  from assms(3) obtain j where "(kid nodes ^^ j) a x" by (auto simp: below_relpow)
  moreover from assms(2) this have "(kid nodes ^^ (i + j)) root_id x"
    by (auto simp: relpowp_add)
  ultimately show thesis by (rule that)
qed

lemma siblings_disjoint:
  assumes t: "tree nodes" and p: "(kid nodes ^^ i) root_id p"
    and ab: "kid nodes p a" "kid nodes p b" "a \<noteq> b"
  shows "below nodes a \<inter> below nodes b = {}"
proof (rule ccontr)
  assume "\<not> ?thesis"
  then obtain x where x: "x \<in> below nodes a" "x \<in> below nodes b" by blast
  have "(kid nodes ^^ Suc i) root_id a" "(kid nodes ^^ Suc i) root_id b"
    using p ab by (auto intro: relpowp_Suc_I)
  with t x obtain j j' where "(kid nodes ^^ j) a x" "(kid nodes ^^ (Suc i + j)) root_id x"
      "(kid nodes ^^ j') b x" "(kid nodes ^^ (Suc i + j')) root_id x"
    by (metis below_depth)
  moreover from this have "j = j'" using depth_unique [OF t] by (metis add_left_cancel)
  ultimately show False using same_length_paths [OF t] ab(3) by metis
qed

lemma parent_not_below:
  assumes t: "tree nodes" and p: "(kid nodes ^^ i) root_id p" and a: "kid nodes p a"
  shows "p \<notin> below nodes a"
proof
  assume "p \<in> below nodes a"
  moreover have "(kid nodes ^^ Suc i) root_id a" using p a by (auto intro: relpowp_Suc_I)
  ultimately obtain j where "(kid nodes ^^ (Suc i + j)) root_id p" using below_depth [OF t] by metis
  then show False using depth_unique [OF t p] by fastforce
qed

lemma below_dom:
  assumes "tree nodes" "fmlookup nodes a \<noteq> None" "x \<in> below nodes a"
  shows "fmlookup nodes x \<noteq> None"
  using assms(3) unfolding below_def mem_Collect_eq
  by (induction rule: rtranclp_induct) (use assms treeD(4) in fastforce)+

lemma root_in_tree: "tree nodes \<Longrightarrow> \<exists>r. fmlookup nodes root_id = Some r \<and> n_Type r = NodeBox \<and> n_Parent r = []"
  by (auto dest!: treeD(1) simp: root_valid_def split: option.splits)

lemma below_root: "tree nodes \<Longrightarrow> below nodes root_id = fset (fmdom nodes)"
  using treeD(5) below_dom root_in_tree
  by (fastforce simp: below_relpow lookup_simps)

subsection \<open>The validator accepts exactly the well-formed documents\<close>

text \<open>What a successful walk has established about the set \<open>S\<close> of ids it entered.\<close>

definition walked :: "Node gomap \<Rightarrow> Limits \<Rightarrow> string set \<Rightarrow> bool" where
  "walked nodes limits S \<longleftrightarrow> finite S \<and>
     (\<forall>x \<in> S. \<exists>n. fmlookup nodes x = Some n \<and> node_ok x n \<and> int (length (n_Children n)) \<le> MaxChildren limits \<and>
        (\<forall>c \<in> set (n_Children n). c \<in> S \<and> (\<exists>cn. fmlookup nodes c = Some cn \<and> n_Parent cn = x)))"

lemma walked_empty [simp]: "walked nodes limits {}"
  by (simp add: walked_def)

lemma walked_Un: "walked nodes limits S \<Longrightarrow> walked nodes limits T \<Longrightarrow> walked nodes limits (S \<union> T)"
  unfolding walked_def by blast

text \<open>A set \<open>S\<close> entered from the node \<open>nid\<close>, and one entered from a list of
  children.\<close>

definition entered :: "Node gomap \<Rightarrow> Limits \<Rightarrow> int \<Rightarrow> string \<Rightarrow> string set \<Rightarrow> bool" where
  "entered nodes limits depth nid S \<longleftrightarrow>
     nid \<in> S \<and> walked nodes limits S \<and> S \<subseteq> below nodes nid \<and> (\<forall>x \<in> S. \<not> kid nodes x nid) \<and>
     (\<forall>x k. (kid nodes ^^ k) nid x \<longrightarrow> depth + int k \<le> MaxDepth limits)"

definition entered_all :: "Node gomap \<Rightarrow> Limits \<Rightarrow> int \<Rightarrow> string \<Rightarrow> string list \<Rightarrow> string set \<Rightarrow> bool" where
  "entered_all nodes limits depth nid cs S \<longleftrightarrow>
     set cs \<subseteq> S \<and> walked nodes limits S \<and> S \<subseteq> (\<Union>c \<in> set cs. below nodes c) \<and> distinct cs \<and>
     (\<forall>c \<in> set cs. \<forall>x k. (kid nodes ^^ k) c x \<longrightarrow> depth + 1 + int k \<le> MaxDepth limits) \<and>
     (\<forall>c \<in> set cs. \<exists>cn. fmlookup nodes c = Some cn \<and> n_Parent cn = nid)"

lemma entered_node:
  assumes n: "fmlookup nodes nid = Some n" "n_ID n = nid" "NodeType_Valid (n_Type n)"
      "int (length (n_Children n)) \<le> MaxChildren limits"
      "n_Children n \<noteq> [] \<longrightarrow> NodeType_Container (n_Type n)"
    and S: "entered_all nodes limits depth nid (n_Children n) S" "nid \<notin> S" and d: "depth \<le> MaxDepth limits"
  shows "entered nodes limits depth nid (insert nid S)"
proof -
  have kids: "kid nodes nid c \<longleftrightarrow> c \<in> set (n_Children n)" for c using n by (simp add: kid_def)
  have "walked nodes limits (insert nid S)"
    using S n by (auto simp: entered_all_def walked_def node_ok_def)
  moreover have "insert nid S \<subseteq> below nodes nid"
    using S(1) kids by (auto simp: entered_all_def below_unfold [of nodes nid])
  moreover have "depth + int k \<le> MaxDepth limits" if "(kid nodes ^^ k) nid x" for x k
  proof (cases k)
    case (Suc j)
    with that obtain c where "kid nodes nid c" "(kid nodes ^^ j) c x" by (metis relpowp_Suc_E2)
    then have "depth + 1 + int j \<le> MaxDepth limits" using S(1) kids by (auto simp: entered_all_def)
    with Suc show ?thesis by simp
  qed (use d in simp)
  moreover have "\<not> kid nodes x nid" if "x \<in> insert nid S" for x
    using that S kids by (auto simp: entered_all_def walked_def kid_def)
  ultimately show ?thesis by (simp add: entered_def)
qed

lemma entered_Cons:
  assumes "fmlookup nodes cid = Some c" "n_Parent c = nid"
    "entered nodes limits (depth + 1) cid S" "entered_all nodes limits depth nid cs T" "S \<inter> T = {}"
  shows "entered_all nodes limits depth nid (cid # cs) (S \<union> T)"
proof -
  have "walked nodes limits (S \<union> T)"
    using assms(3,4) by (auto simp: entered_def entered_all_def intro: walked_Un)
  then show ?thesis using assms by (fastforce simp: entered_def entered_all_def)
qed

lemma inv_walk_sound:
  "inv_walk nodes limits depth nid w = Inr w' \<Longrightarrow> w_seen w \<subseteq> w_visited w \<Longrightarrow>
     \<exists>S. w' = w\<lparr>w_visited := w_visited w \<union> S\<rparr> \<and> S \<inter> w_visited w = {} \<and> entered nodes limits depth nid S"
  "inv_walk_children nodes limits depth nid cs w = Inr w' \<Longrightarrow> w_seen w \<subseteq> w_visited w \<Longrightarrow>
     \<exists>S. w' = w\<lparr>w_visited := w_visited w \<union> S\<rparr> \<and> S \<inter> w_visited w = {} \<and>
        entered_all nodes limits depth nid cs S"
proof (induction nodes limits depth nid w and nodes limits depth nid cs w
    arbitrary: w' and w' rule: inv_walk_inv_walk_children.induct)
  case (1 nodes limits depth nid w)
  let ?w = "w\<lparr>w_seen := insert nid (w_seen w), w_visited := insert nid (w_visited w)\<rparr>"
  from "1.prems"(1) obtain n w1 where g: "depth \<le> MaxDepth limits" "nid \<notin> w_seen w" "nid \<notin> w_visited w"
      and n: "fmlookup nodes nid = Some n" "n_ID n = nid" "NodeType_Valid (n_Type n)"
        "int (length (n_Children n)) \<le> MaxChildren limits"
        "n_Children n \<noteq> [] \<longrightarrow> NodeType_Container (n_Type n)"
      and w1: "inv_walk_children nodes limits depth nid (n_Children n) ?w = Inr w1"
      and w': "w' = w1\<lparr>w_seen := w_seen w1 - {nid}\<rparr>"
    by (auto simp: inv_walk.simps Let_def split: if_splits option.splits sum.splits)
  have "\<exists>S. w1 = ?w\<lparr>w_visited := w_visited ?w \<union> S\<rparr> \<and> S \<inter> w_visited ?w = {} \<and>
      entered_all nodes limits depth nid (n_Children n) S"
    using "1.IH" [of ?w n w1] g n w1 "1.prems"(2) by auto
  then obtain S where S: "w1 = ?w\<lparr>w_visited := w_visited ?w \<union> S\<rparr>" "S \<inter> w_visited ?w = {}"
      "entered_all nodes limits depth nid (n_Children n) S"
    by blast
  then have "entered nodes limits depth nid (insert nid S)"
    using entered_node [OF n] g(1) by auto
  then show ?case using w' S(1,2) g(2,3) by (intro exI [of _ "insert nid S"]) auto
next
  case (2 nodes limits depth nid w)
  then show ?case by (intro exI [of _ "{}"]) (simp add: entered_all_def)
next
  case (3 nodes limits depth nid cid cs w)
  from "3.prems"(1) obtain c w1 where c: "fmlookup nodes cid = Some c" "n_Parent c = nid"
      and w1: "inv_walk nodes limits (depth + 1) cid w = Inr w1"
      and w': "inv_walk_children nodes limits depth nid cs w1 = Inr w'"
    by (auto split: option.splits if_splits sum.splits)
  from "3.IH"(1) [OF c(1) _ w1 "3.prems"(2)] c(2) obtain S where
      S: "w1 = w\<lparr>w_visited := w_visited w \<union> S\<rparr>" "S \<inter> w_visited w = {}"
        "entered nodes limits (depth + 1) cid S"
    by blast
  have "w_seen w1 \<subseteq> w_visited w1" using S(1) "3.prems"(2) by auto
  from "3.IH"(2) [OF c(1) _ w1 w' this] c(2) obtain T where
      T: "w' = w1\<lparr>w_visited := w_visited w1 \<union> T\<rparr>" "T \<inter> w_visited w1 = {}"
        "entered_all nodes limits depth nid cs T"
    by blast
  have "entered_all nodes limits depth nid (cid # cs) (S \<union> T)"
    using entered_Cons [OF c S(3) T(3)] S(1) T(2) by auto
  then show ?case using S(1,2) T(1,2) by (intro exI [of _ "S \<union> T"]) (auto simp: Un_assoc)
qed

lemma inv_walk_complete:
  "tree nodes \<Longrightarrow> \<forall>x k. (kid nodes ^^ k) root_id x \<longrightarrow> int k \<le> MaxDepth limits \<Longrightarrow>
     \<forall>x n. fmlookup nodes x = Some n \<longrightarrow> int (length (n_Children n)) \<le> MaxChildren limits \<Longrightarrow>
     depth = int i \<Longrightarrow> (kid nodes ^^ i) root_id nid \<Longrightarrow> fmlookup nodes nid \<noteq> None \<Longrightarrow>
     w_seen w \<subseteq> w_visited w \<Longrightarrow> w_visited w \<inter> below nodes nid = {} \<Longrightarrow>
     inv_walk nodes limits depth nid w = Inr (w\<lparr>w_visited := w_visited w \<union> below nodes nid\<rparr>)"
  "tree nodes \<Longrightarrow> \<forall>x k. (kid nodes ^^ k) root_id x \<longrightarrow> int k \<le> MaxDepth limits \<Longrightarrow>
     \<forall>x n. fmlookup nodes x = Some n \<longrightarrow> int (length (n_Children n)) \<le> MaxChildren limits \<Longrightarrow>
     depth = int i \<Longrightarrow> (kid nodes ^^ i) root_id nid \<Longrightarrow> \<forall>c \<in> set cs. kid nodes nid c \<Longrightarrow> distinct cs \<Longrightarrow>
     w_seen w \<subseteq> w_visited w \<Longrightarrow> w_visited w \<inter> (\<Union>c \<in> set cs. below nodes c) = {} \<Longrightarrow>
     inv_walk_children nodes limits depth nid cs w =
       Inr (w\<lparr>w_visited := w_visited w \<union> (\<Union>c \<in> set cs. below nodes c)\<rparr>)"
proof (induction nodes limits depth nid w and nodes limits depth nid cs w
    arbitrary: i and i rule: inv_walk_inv_walk_children.induct)
  case (1 nodes limits depth nid w)
  let ?w = "w\<lparr>w_seen := insert nid (w_seen w), w_visited := insert nid (w_visited w)\<rparr>"
  from "1.prems"(6) obtain n where n: "fmlookup nodes nid = Some n" by auto
  then have ok: "node_ok nid n" using treeD(2) [OF "1.prems"(1)] by blast
  have len: "int (length (n_Children n)) \<le> MaxChildren limits" using "1.prems"(3) n by blast
  have g: "depth \<le> MaxDepth limits" using "1.prems"(2,4,5) by blast
  have nv: "nid \<notin> w_visited w" "nid \<notin> w_seen w" using "1.prems"(7,8) by auto
  have kids: "\<forall>c \<in> set (n_Children n). kid nodes nid c" using n by (auto simp: kid_def)
  have nb: "\<forall>c \<in> set (n_Children n). nid \<notin> below nodes c"
    using parent_not_below [OF "1.prems"(1,5)] kids by blast
  have un: "below nodes nid = insert nid (\<Union>c \<in> set (n_Children n). below nodes c)"
    using n by (subst below_unfold) (auto simp: kid_def)
  have "inv_walk_children nodes limits depth nid (n_Children n) ?w =
      Inr (?w\<lparr>w_visited := w_visited ?w \<union> (\<Union>c \<in> set (n_Children n). below nodes c)\<rparr>)"
    by (intro "1.IH" [where i = i] "1.prems"(1-5)) (use ok n len g nv kids nb un "1.prems"(7,8) in \<open>auto simp: node_ok_def\<close>)
  moreover have "n_Children n = [] \<or> NodeType_Container (n_Type n)" using ok by (auto simp: node_ok_def)
  ultimately show ?case
    using ok n len g nv un by (simp add: inv_walk.simps Let_def node_ok_def)
next
  case (2 nodes limits depth nid w)
  then show ?case by simp
next
  case (3 nodes limits depth nid cid cs w)
  then have kid: "kid nodes nid cid" by simp
  with 3 obtain c where c: "fmlookup nodes cid = Some c" "n_Parent c = nid" by (metis treeD(4))
  have up: "(kid nodes ^^ Suc i) root_id cid" using 3 kid by (auto intro: relpowp_Suc_I)
  let ?w1 = "w\<lparr>w_visited := w_visited w \<union> below nodes cid\<rparr>"
  have "inv_walk nodes limits (depth + 1) cid w = Inr ?w1"
    by (intro "3.IH"(1) [OF c(1) _ "3.prems"(1-3) _ up]) (use c "3.prems"(4,8,9) in auto)
  moreover have "below nodes cid \<inter> (\<Union>c \<in> set cs. below nodes c) = {}"
    using siblings_disjoint [OF "3.prems"(1,5)] "3.prems"(6,7) by auto
  then have "inv_walk_children nodes limits depth nid cs ?w1 =
      Inr (?w1\<lparr>w_visited := w_visited ?w1 \<union> (\<Union>c \<in> set cs. below nodes c)\<rparr>)"
    by (intro "3.IH"(2) [OF c(1) _ calculation "3.prems"(1-5)])
      (use c "3.prems"(6-9) in auto)
  ultimately show ?case using c by (simp add: Un_assoc)
qed

text \<open>Reading the walk from the root: it succeeds exactly on trees within the depth and width
  limits, and has then visited every reachable node.\<close>

lemma inv_walk_root_tree:
  assumes rv: "root_valid nodes" and w: "inv_walk nodes limits 0 root_id \<lparr>w_seen = {}, w_visited = {}\<rparr> = Inr w"
    and card: "card (w_visited w) = msize nodes"
  shows "tree nodes \<and> (\<forall>x k. (kid nodes ^^ k) root_id x \<longrightarrow> int k \<le> MaxDepth limits) \<and>
     (\<forall>x n. fmlookup nodes x = Some n \<longrightarrow> int (length (n_Children n)) \<le> MaxChildren limits)"
proof -
  from inv_walk_sound(1) [OF w] obtain S where S: "w_visited w = S" "entered nodes limits 0 root_id S"
    by auto
  have sub: "S \<subseteq> fset (fmdom nodes)"
    using S(2) by (auto simp: entered_def walked_def lookup_simps)
  have "S = fset (fmdom nodes)"
    using card S(1) by (intro card_subset_eq sub) (simp_all add: msize_card)
  then have all: "x \<in> S" if "fmlookup nodes x = Some n" for x n using that by (auto simp: lookup_simps)
  have nr: "\<not> kid nodes x root_id" if "x \<in> S" for x using that S(2) by (simp add: entered_def)
  have wk: "walked nodes limits S" using S(2) by (simp add: entered_def)
  have "tree nodes"
    unfolding tree_def
  proof (intro conjI allI impI rv)
    show "node_ok x n" if "fmlookup nodes x = Some n" for x n
      using that all [OF that] wk unfolding walked_def by (metis option.inject)
    show "c \<noteq> root_id" if "kid nodes p c" for p c
      using that all nr by (metis kid_def)
    show "\<exists>cn. fmlookup nodes c = Some cn \<and> n_Parent cn = p" if "kid nodes p c" for p c
      using that all wk unfolding walked_def kid_def by (metis option.inject)
    show "\<exists>k. (kid nodes ^^ k) root_id x" if "fmlookup nodes x = Some n" for x n
      using that all S(2) by (auto simp: entered_def below_relpow [symmetric])
  qed
  moreover have "\<forall>x n. fmlookup nodes x = Some n \<longrightarrow> int (length (n_Children n)) \<le> MaxChildren limits"
    using all wk unfolding walked_def by (metis option.inject)
  ultimately show ?thesis using S(2) by (auto simp: entered_def)
qed

lemma inv_walk_root_complete:
  assumes "tree nodes" "\<forall>x k. (kid nodes ^^ k) root_id x \<longrightarrow> int k \<le> MaxDepth limits"
    "\<forall>x n. fmlookup nodes x = Some n \<longrightarrow> int (length (n_Children n)) \<le> MaxChildren limits"
  shows "inv_walk nodes limits 0 root_id \<lparr>w_seen = {}, w_visited = {}\<rparr> =
     Inr \<lparr>w_seen = {}, w_visited = fset (fmdom nodes)\<rparr>"
proof -
  have "fmlookup nodes root_id \<noteq> None" using root_in_tree [OF assms(1)] by auto
  then show ?thesis
    using inv_walk_complete(1) [OF assms, of 0 0 root_id "\<lparr>w_seen = {}, w_visited = {}\<rparr>"]
    by (simp add: below_root [OF assms(1)])
qed

lemma validateInvariants_spec: "validateInvariants d limits = None \<longleftrightarrow> doc_spec d limits"
proof
  assume v: "validateInvariants d limits = None"
  then obtain w where "root_valid (d_Nodes d)"
      and "inv_walk (d_Nodes d) limits 0 root_id \<lparr>w_seen = {}, w_visited = {}\<rparr> = Inr w"
      and "card (w_visited w) = msize (d_Nodes d)"
    by (auto simp: validateInvariants_def Let_def split: if_splits sum.splits)
  from inv_walk_root_tree [OF this] v show "doc_spec d limits"
    by (auto simp: validateInvariants_def Let_def doc_spec_def within_limits_def
        split: if_splits sum.splits)
next
  assume "doc_spec d limits"
  then show "validateInvariants d limits = None"
    using inv_walk_root_complete [of "d_Nodes d" limits]
    by (simp add: doc_spec_def within_limits_def validateInvariants_def Let_def treeD(1) msize_card)
qed

end
