(* ===== verification/Trees.thy ===== *)
theory Trees
  imports Document
begin

text \<open>
  How the tree of a document survives the edits the reducer makes: adding a leaf, moving a
  subtree under a node outside it, rewriting nodes in place, cutting a subtree off. The facts
  are about the child relation only, so each operation of the reducer needs one of them.
\<close>

lemma depth_less_msize:
  assumes t: "tree nodes" and k: "(kid nodes ^^ k) root_id x"
  shows "k < msize nodes"
proof -
  have "\<exists>y. (kid nodes ^^ i) root_id y \<and> fmlookup nodes y \<noteq> None" if "i \<le> k" for i
  proof -
    from that k obtain y where y: "(kid nodes ^^ i) root_id y"
      by (metis le_add_diff_inverse relpowp_add relcomppE)
    then have "y \<in> below nodes root_id" by (auto simp: below_relpow)
    then show ?thesis using y below_root [OF t] by (auto simp: lookup_simps)
  qed
  then obtain f where f: "\<And>i. i \<le> k \<Longrightarrow> (kid nodes ^^ i) root_id (f i) \<and> fmlookup nodes (f i) \<noteq> None"
    by metis
  have "inj_on f {..k}" by (intro inj_onI) (metis atMost_iff depth_unique [OF t] f)
  then have "card (f ` {..k}) = Suc k" by (simp add: card_image)
  moreover have "f ` {..k} \<subseteq> fset (fmdom nodes)" using f by (auto simp: lookup_simps)
  then have "card (f ` {..k}) \<le> msize nodes" by (simp add: msize_card card_mono)
  ultimately show ?thesis by simp
qed

lemma below_path_less_msize:
  assumes "tree nodes" "fmlookup nodes a = Some n" "(kid nodes ^^ j) a x"
  shows "j < msize nodes"
proof -
  from treeD(5) [OF assms(1,2)] obtain i where "(kid nodes ^^ i) root_id a" ..
  then have "(kid nodes ^^ (i + j)) root_id x" using assms(3) by (auto simp: relpowp_add)
  then show ?thesis using depth_less_msize [OF assms(1)] by fastforce
qed

text \<open>A path from the root to a node outside a subtree avoids the subtree.\<close>

lemma path_avoids:
  "(kid nodes ^^ k) root_id x \<Longrightarrow> x \<notin> below nodes a \<Longrightarrow>
     ((\<lambda>p c. kid nodes p c \<and> p \<notin> below nodes a \<and> c \<notin> below nodes a) ^^ k) root_id x"
proof (induction k arbitrary: x)
  case 0
  then show ?case by simp
next
  case (Suc k)
  then obtain y where y: "(kid nodes ^^ k) root_id y" "kid nodes y x" by (auto elim: relpowp_Suc_E)
  then have "y \<notin> below nodes a" using Suc.prems(2) below_step by blast
  with y Suc.IH Suc.prems(2) show ?case by (auto intro!: relpowp_Suc_I)
qed

text \<open>Below a node of a tree no link leads back to it.\<close>

lemma path_below_not_back:
  assumes t: "tree nodes" and a: "fmlookup nodes a = Some n"
  shows "(kid nodes ^^ k) a x \<Longrightarrow> ((\<lambda>p c. kid nodes p c \<and> c \<noteq> a) ^^ k) a x"
proof (induction k arbitrary: x)
  case 0
  then show ?case by simp
next
  case (Suc k)
  from treeD(5) [OF t a] obtain i where i: "(kid nodes ^^ i) root_id a" ..
  have "(kid nodes ^^ (i + Suc k)) root_id x"
    using i Suc.prems by (rule relpowp_trans)
  then have "x \<noteq> a" using depth_unique [OF t i, of "i + Suc k"] by auto
  with Suc show ?case by (auto intro!: relpowp_Suc_I elim!: relpowp_Suc_E)
qed

subsection \<open>Rewriting nodes in place\<close>

lemma tree_same_kids:
  assumes t: "tree nodes" and kids: "\<And>p c. kid nodes' p c \<longleftrightarrow> kid nodes p c"
    and same: "\<And>x n'. fmlookup nodes' x = Some n' \<Longrightarrow>
        \<exists>n. fmlookup nodes x = Some n \<and> node_ok x n' \<and> n_Parent n' = n_Parent n"
    and dom: "\<And>x. fmlookup nodes' x = None \<Longrightarrow> fmlookup nodes x = None"
    and root: "root_valid nodes'"
  shows "tree nodes'"
proof -
  have eq: "kid nodes' = kid nodes" using kids by (intro ext) simp
  have child: "\<exists>cn. fmlookup nodes' c = Some cn \<and> n_Parent cn = p" if k: "kid nodes p c" for p c
  proof -
    from treeD(4) [OF t k] obtain cn where cn: "fmlookup nodes c = Some cn" "n_Parent cn = p" by blast
    then obtain cn' where "fmlookup nodes' c = Some cn'" using dom by fastforce
    with same cn show ?thesis by fastforce
  qed
  show ?thesis
    unfolding tree_def eq
    using root same child treeD(3) [OF t] treeD(5) [OF t] by blast
qed

subsection \<open>Adding a leaf\<close>

lemma tree_add_leaf:
  assumes t: "tree nodes" and p: "fmlookup nodes pid = Some p" and new: "fmlookup nodes nid = None"
    and n: "node_ok nid n" "n_Parent n = pid" "n_Children n = []"
    and p': "node_ok pid p'" "n_Parent p' = n_Parent p" "set (n_Children p') = insert nid (set (n_Children p))"
      "n_Type p' = n_Type p"
  shows "tree (fmupd pid p' (fmupd nid n nodes))"
proof -
  let ?nodes = "fmupd pid p' (fmupd nid n nodes)"
  have ne: "pid \<noteq> nid" "nid \<noteq> root_id" using p new root_in_tree [OF t] by auto
  have kid_new: "\<not> kid nodes x nid" for x using treeD(4) [OF t, of x nid] new by auto
  have kids: "kid ?nodes x c \<longleftrightarrow> kid nodes x c \<or> (x = pid \<and> c = nid)" for x c
  proof (cases "x = pid")
    case True
    then show ?thesis using p p'(3) by (auto simp: kid_def)
  next
    case False
    then show ?thesis using n(3) new by (cases "x = nid") (auto simp: kid_def)
  qed
  have mono: "(kid nodes ^^ k) a b \<Longrightarrow> (kid ?nodes ^^ k) a b" for k a b
    by (rule relpowp_mono) (simp_all add: kids)
  show ?thesis
    unfolding tree_def
  proof (intro conjI allI impI)
    show "root_valid ?nodes" using treeD(1) [OF t] p p' ne by (auto simp: root_valid_def node_ok_def)
    show "node_ok x m" if "fmlookup ?nodes x = Some m" for x m
      using that n p' treeD(2) [OF t] by (auto split: if_splits)
    show "c \<noteq> root_id" if "kid ?nodes x c" for x c using that treeD(3) [OF t] ne by (auto simp: kids)
    show "\<exists>cn. fmlookup ?nodes c = Some cn \<and> n_Parent cn = x" if k: "kid ?nodes x c" for x c
    proof (cases "c = nid")
      case True
      then show ?thesis using k kid_new kids n ne by auto
    next
      case False
      then have "kid nodes x c" using k kids by blast
      then show ?thesis using treeD(4) [OF t] p p' False by fastforce
    qed
    show "\<exists>k. (kid ?nodes ^^ k) root_id x" if "fmlookup ?nodes x = Some m" for x m
    proof (cases "x = nid")
      case True
      from treeD(5) [OF t p] obtain k where "(kid ?nodes ^^ k) root_id pid" using mono by blast
      then show ?thesis using True kids by (auto intro: relpowp_Suc_I)
    next
      case False
      then show ?thesis using that treeD(5) [OF t] p mono by (auto split: if_splits) blast+
    qed
  qed
qed

subsection \<open>Cutting a subtree off\<close>

lemma tree_cut:
  assumes t: "tree nodes" and a: "fmlookup nodes a = Some n" "a \<noteq> root_id"
    and kids: "\<And>p c. kid nodes' p c \<longleftrightarrow> kid nodes p c \<and> p \<notin> below nodes a \<and> c \<notin> below nodes a"
    and same: "\<And>x n'. fmlookup nodes' x = Some n' \<Longrightarrow> x \<notin> below nodes a \<and>
        (\<exists>n. fmlookup nodes x = Some n \<and> node_ok x n' \<and> n_Parent n' = n_Parent n)"
    and dom: "\<And>x m. fmlookup nodes x = Some m \<Longrightarrow> x \<notin> below nodes a \<Longrightarrow> fmlookup nodes' x \<noteq> None"
    and root: "root_valid nodes'"
  shows "tree nodes'"
  unfolding tree_def
proof (intro conjI allI impI)
  show "root_valid nodes'" by (rule root)
  show "node_ok x m" if "fmlookup nodes' x = Some m" for x m using same that by blast
  show "c \<noteq> root_id" if "kid nodes' p c" for p c using that kids treeD(3) [OF t] by blast
  show "\<exists>cn. fmlookup nodes' c = Some cn \<and> n_Parent cn = p" if k: "kid nodes' p c" for p c
  proof -
    from k kids treeD(4) [OF t] obtain cn where cn: "fmlookup nodes c = Some cn" "n_Parent cn = p" by blast
    then obtain cn' where "fmlookup nodes' c = Some cn'" using dom k kids by blast
    with same cn show ?thesis by fastforce
  qed
  show "\<exists>k. (kid nodes' ^^ k) root_id x" if x: "fmlookup nodes' x = Some m" for x m
  proof -
    from same [OF x] obtain k where k: "(kid nodes ^^ k) root_id x" "x \<notin> below nodes a"
      using treeD(5) [OF t] by blast
    have "(kid nodes' ^^ k) root_id x"
      by (rule relpowp_mono [OF _ path_avoids [OF k]]) (simp add: kids)
    then show ?thesis ..
  qed
qed

subsection \<open>Moving a subtree\<close>

lemma tree_move:
  assumes t: "tree nodes" and a: "fmlookup nodes a = Some n" "a \<noteq> root_id"
    and T: "fmlookup nodes T = Some tn" "T \<notin> below nodes a"
    and kids: "\<And>p c. kid nodes' p c \<longleftrightarrow> (kid nodes p c \<and> c \<noteq> a) \<or> (p = T \<and> c = a)"
    and same: "\<And>x n'. fmlookup nodes' x = Some n' \<Longrightarrow>
        (\<exists>n. fmlookup nodes x = Some n \<and> node_ok x n' \<and> n_Parent n' = (if x = a then T else n_Parent n))"
    and dom: "\<And>x. fmlookup nodes' x = None \<Longrightarrow> fmlookup nodes x = None"
    and root: "root_valid nodes'"
  shows "tree nodes'"
  unfolding tree_def
proof (intro conjI allI impI)
  show "root_valid nodes'" by (rule root)
  show "node_ok x m" if "fmlookup nodes' x = Some m" for x m using same that by blast
  show "c \<noteq> root_id" if "kid nodes' p c" for p c
    using that treeD(3) [OF t, of p c] a(2) by (auto simp: kids)
  show "\<exists>cn. fmlookup nodes' c = Some cn \<and> n_Parent cn = p" if k: "kid nodes' p c" for p c
  proof -
    have "\<exists>cn. fmlookup nodes c = Some cn \<and> (c = a \<and> p = T \<or> c \<noteq> a \<and> n_Parent cn = p)"
      using k kids treeD(4) [OF t] a by blast
    then obtain cn where cn: "fmlookup nodes c = Some cn" "c = a \<and> p = T \<or> c \<noteq> a \<and> n_Parent cn = p"
      by blast
    then obtain cn' where "fmlookup nodes' c = Some cn'" using dom by fastforce
    with same cn show ?thesis by fastforce
  qed
  have outside: "(kid nodes' ^^ k) root_id x" if "(kid nodes ^^ k) root_id x" "x \<notin> below nodes a" for k x
    by (rule relpowp_mono [OF _ path_avoids [OF that]]) (auto simp: kids)
  show "\<exists>k. (kid nodes' ^^ k) root_id x" if x: "fmlookup nodes' x = Some m" for x m
  proof (cases "x \<in> below nodes a")
    case False
    then show ?thesis using same [OF x] treeD(5) [OF t] outside by blast
  next
    case True
    then obtain j where p: "(kid nodes ^^ j) a x" by (auto simp: below_relpow)
    have j: "(kid nodes' ^^ j) a x"
      by (rule relpowp_mono [OF _ path_below_not_back [OF t a(1) p]]) (auto simp: kids)
    from treeD(5) [OF t T(1)] obtain i where "(kid nodes' ^^ i) root_id T" using outside T(2) by blast
    then have "(kid nodes' ^^ Suc i) root_id a" using kids by (auto intro: relpowp_Suc_I)
    then have "(kid nodes' ^^ (Suc i + j)) root_id x" using j by (rule relpowp_trans)
    then show ?thesis ..
  qed
qed

end
