(* ===== verification/Reducer.thy ===== *)
theory Reducer
  imports Trees
begin

text \<open>
  The transactional reducer of \<open>document/reducer.go\<close>. Go mutates a clone through a pointer;
  the model passes the candidate and the effect and returns them. A call that panics or never
  returns is an outcome of its own (\<open>go\<close>): \<open>wouldCreateCycle\<close> follows parent links
  with no bound of its own and is a partial function, \<open>sweep\<close> recurses over child links and
  is given one unit of fuel per recursion level, one more than the number of nodes, which a
  recursion without a repeated node on its path cannot exhaust.
\<close>

subsection \<open>Helpers\<close>

definition explicitPropKeys :: "bytes \<Rightarrow> bool gomap" where
  "explicitPropKeys raw =
     (if raw = [] then fmempty
      else case unm_map raw of
        (m, ok) \<Rightarrow> if \<not> ok then fmempty else fmmap (\<lambda>_. True) (fmdrop ''force'' (nil_map m)))"

definition removeChild :: "string list \<Rightarrow> string \<Rightarrow> string list" where
  "removeChild children nid = filter (\<lambda>child. child \<noteq> nid) children"

definition insertChild :: "string list \<Rightarrow> string \<Rightarrow> int option \<Rightarrow> string list" where
  "insertChild children nid index =
     (let idx = (case index of
          Some i \<Rightarrow> if 0 \<le> i \<and> i < int (length children) then nat i else length children
        | None \<Rightarrow> length children)
      in take idx children @ nid # drop idx children)"

partial_function (option) wouldCreateCycle :: "Node gomap \<Rightarrow> string \<Rightarrow> string \<Rightarrow> bool option" where
  "wouldCreateCycle nodes nid current =
     (if current = [] then Some False
      else if current = nid then Some True
      else case fmlookup nodes current of
        None \<Rightarrow> Some False
      | Some n \<Rightarrow> wouldCreateCycle nodes nid (n_Parent n))"

declare wouldCreateCycle.simps [code]

definition validateTableLimits :: "Node \<Rightarrow> Limits \<Rightarrow> Error option" where
  "validateTableLimits n limits =
     (if n_Type n \<noteq> NodeTable then None
      else
        (let raw = get_raw (n_Props n) ''columns'';
             cols = (if raw = [] then [] else fst (unm_raws raw)) in
         if int (length cols) > MaxTableColumns limits
         then Some (NewError ''resource.table_columns_limit'' (Lit ''too many table columns''))
         else
           (let raw = get_raw (n_Props n) ''rows'';
                rows = (if raw = [] then [] else fst (unm_raws raw)) in
            if int (length rows) > MaxTableRows limits
            then Some (NewError ''resource.table_rows_limit'' (Lit ''too many table rows''))
            else None)))"

subsection \<open>upsert\<close>

text \<open>The topology part for an existing node: the error it returns, or the nodes, the node
  and whether anything moved.\<close>

definition upsert_topology ::
    "Node gomap \<Rightarrow> Operation \<Rightarrow> Node \<Rightarrow> (Error + (Node gomap \<times> Node \<times> bool)) go" where
  "upsert_topology nodes op n =
     (let targetParentID = (if op_Parent op \<noteq> [] then op_Parent op else n_Parent n);
          parentChanged = (targetParentID \<noteq> n_Parent n);
          topologyRequested = (parentChanged \<or> op_Index op \<noteq> None) in
      if \<not> topologyRequested then Ret (Inr (nodes, n, False))
      else case fmlookup nodes targetParentID of
        None \<Rightarrow> Ret (Inl (NewError ''document.parent_not_found'' (Sprintf ''parent %q not found'' [FStr targetParentID])))
      | Some targetParent \<Rightarrow>
          (case wouldCreateCycle nodes (op_ID op) targetParentID of
             None \<Rightarrow> Diverge
           | Some True \<Rightarrow> Ret (Inl (NewError ''document.cycle''
                 (Sprintf ''node %q cannot move under %q'' [FStr (op_ID op), FStr targetParentID])))
           | Some False \<Rightarrow>
               if \<not> NodeType_Container (n_Type targetParent)
               then Ret (Inl (NewError ''document.parent_not_container''
                      (Sprintf ''parent %q is %s'' [FStr targetParentID, FStr (nodetype_string (n_Type targetParent))])))
               else
                 (let oldParent = node_at nodes (n_Parent n) in
                  if parentChanged then
                    (let oldParent = oldParent\<lparr>n_Children := removeChild (n_Children oldParent) (op_ID op)\<rparr>;
                         targetParent = targetParent\<lparr>n_Children := insertChild (n_Children targetParent) (op_ID op) (op_Index op)\<rparr>
                     in Ret (Inr (fmupd targetParentID targetParent (fmupd (n_Parent n) oldParent nodes),
                                  n\<lparr>n_Parent := targetParentID\<rparr>, True)))
                  else
                    (let reordered = insertChild (removeChild (n_Children oldParent) (op_ID op)) (op_ID op) (op_Index op) in
                     if n_Children oldParent \<noteq> reordered
                     then Ret (Inr (fmupd (n_Parent n) (oldParent\<lparr>n_Children := reordered\<rparr>) nodes, n, True))
                     else Ret (Inr (nodes, n, False))))))"

definition upsert_existing ::
    "Document \<Rightarrow> Operation \<Rightarrow> Effect \<Rightarrow> Limits \<Rightarrow> rawProps \<Rightarrow> bool gomap \<Rightarrow> Node \<Rightarrow>
     (Document \<times> Effect \<times> Error option) go" where
  "upsert_existing d op eff limits normalized explicit n =
     go_bind (upsert_topology (d_Nodes d) op n) (\<lambda>r.
       case r of
         Inl e \<Rightarrow> Ret (d, eff, Some e)
       | Inr (nodes, n, topologyChanged) \<Rightarrow>
           (let d = d\<lparr>d_Nodes := nodes\<rparr>; typeChanged = (n_Type n \<noteq> op_Type op) in
            if typeChanged \<and> n_Children n \<noteq> [] \<and> \<not> NodeType_Container (op_Type op)
            then Ret (d, eff, Some (NewError ''document.parent_not_container'' (Lit ''container with children cannot change to leaf'')))
            else
              (let d = (if typeChanged then d\<lparr>d_TotalTextBytes := d_TotalTextBytes d - int (length (n_Text n))\<rparr> else d);
                   n = (if typeChanged then n\<lparr>n_Type := op_Type op, n_Text := []\<rparr> else n);
                   eff = (if typeChanged then eff\<lparr>eff_TypeChanged := True\<rparr> else eff);
                   propsChanged = (n_Props n \<noteq> normalized);
                   explicitChanged = (n_ExplicitProps n \<noteq> Some explicit);
                   n = (if propsChanged then n\<lparr>n_Props := normalized\<rparr> else n);
                   n = (if explicitChanged then n\<lparr>n_ExplicitProps := Some explicit\<rparr> else n) in
               case validateTableLimits n limits of
                 Some e \<Rightarrow> Ret (d, eff, Some e)
               | None \<Rightarrow>
                   if topologyChanged \<or> typeChanged \<or> propsChanged \<or> explicitChanged
                   then Ret (d\<lparr>d_Nodes := fmupd (op_ID op) n (d_Nodes d)\<rparr>, eff\<lparr>eff_Changed := True\<rparr>, None)
                   else Ret (d, eff, None))))"

definition upsert_new ::
    "Document \<Rightarrow> Operation \<Rightarrow> Effect \<Rightarrow> Limits \<Rightarrow> rawProps \<Rightarrow> bool gomap \<Rightarrow>
     (Document \<times> Effect \<times> Error option) go" where
  "upsert_new d op eff limits normalized explicit =
     (let parentID = (if op_Parent op = [] then root_id else op_Parent op) in
      case fmlookup (d_Nodes d) parentID of
        None \<Rightarrow> Ret (d, eff, Some (NewError ''document.parent_not_found'' (Sprintf ''parent %q not found'' [FStr parentID])))
      | Some p \<Rightarrow>
          if \<not> NodeType_Container (n_Type p)
          then Ret (d, eff, Some (NewError ''document.parent_not_container''
                 (Sprintf ''parent %q is %s'' [FStr parentID, FStr (nodetype_string (n_Type p))])))
          else
            (let n = \<lparr>n_ID = op_ID op, n_Type = op_Type op, n_Parent = parentID, n_Children = [],
                      n_Props = normalized, n_ExplicitProps = Some explicit, n_Text = []\<rparr>;
                 nodes = fmupd (op_ID op) n (d_Nodes d);
                 p = p\<lparr>n_Children := insertChild (n_Children p) (op_ID op) (op_Index op)\<rparr>;
                 nodes = fmupd parentID p nodes in
             Ret (d\<lparr>d_Nodes := nodes\<rparr>, eff\<lparr>eff_Changed := True\<rparr>, validateTableLimits n limits)))"

definition applyUpsert ::
    "Document \<Rightarrow> Operation \<Rightarrow> Effect \<Rightarrow> Limits \<Rightarrow> (Document \<times> Effect \<times> Error option) go" where
  "applyUpsert d op eff limits =
     (if op_ID op = root_id
      then Ret (d, eff, Some (NewError ''document.root_immutable'' (Lit ''root cannot be upserted'')))
      else case NormalizeProps (op_Type op) (op_Props op) True of
        Inl e \<Rightarrow> Ret (d, eff, Some e)
      | Inr (normalized, policy) \<Rightarrow>
          (let eff = eff\<lparr>eff_Policy := policy\<rparr>; explicit = explicitPropKeys (op_Props op) in
           case fmlookup (d_Nodes d) (op_ID op) of
             Some n \<Rightarrow> upsert_existing d op eff limits normalized explicit n
           | None \<Rightarrow> upsert_new d op eff limits normalized explicit))"

subsection \<open>props, text, remove\<close>

text \<open>Writing a key into a nil map panics; ranging over an empty set of keys does not write.\<close>

definition set_explicit :: "bool gomap option \<Rightarrow> bool gomap \<Rightarrow> bool gomap option go" where
  "set_explicit explicit keys =
     (case explicit of
        None \<Rightarrow> if keys = fmempty then Ret None else Panic ''assignment to entry in nil map''
      | Some m \<Rightarrow> Ret (Some (fmadd m keys)))"

definition applyProps ::
    "Document \<Rightarrow> Operation \<Rightarrow> Effect \<Rightarrow> Limits \<Rightarrow> (Document \<times> Effect \<times> Error option) go" where
  "applyProps d op eff limits =
     (case fmlookup (d_Nodes d) (op_ID op) of
        None \<Rightarrow> Ret (d, eff, Some (NewError ''document.node_not_found'' (Sprintf ''node %q not found'' [FStr (op_ID op)])))
      | Some n \<Rightarrow>
          (case MergeNormalized (n_Type n) (n_Props n) (op_Props op) of
             Inl e \<Rightarrow> Ret (d, eff, Some e)
           | Inr (merged, policy) \<Rightarrow>
               (let eff = eff\<lparr>eff_Policy := policy\<rparr> in
                go_bind (set_explicit (n_ExplicitProps n) (explicitPropKeys (op_Props op))) (\<lambda>explicit.
                  if n_Props n = merged \<and> n_ExplicitProps n = explicit then Ret (d, eff, None)
                  else
                    (let n = n\<lparr>n_Props := merged, n_ExplicitProps := explicit\<rparr> in
                     case validateTableLimits n limits of
                       Some e \<Rightarrow> Ret (d, eff, Some e)
                     | None \<Rightarrow>
                         Ret (d\<lparr>d_Nodes := fmupd (op_ID op) n (d_Nodes d)\<rparr>, eff\<lparr>eff_Changed := True\<rparr>, None))))))"

definition applyText ::
    "Document \<Rightarrow> Operation \<Rightarrow> Effect \<Rightarrow> Limits \<Rightarrow> Document \<times> Effect \<times> Error option" where
  "applyText d op eff limits =
     (case fmlookup (d_Nodes d) (op_ID op) of
        None \<Rightarrow> (d, eff, Some (NewError ''document.node_not_found'' (Sprintf ''node %q not found'' [FStr (op_ID op)])))
      | Some n \<Rightarrow>
          if n_Type n \<noteq> NodeText \<and> n_Type n \<noteq> NodeViewport
          then (d, eff, Some (NewError ''document.text_unsupported''
                 (Sprintf ''node %q does not support text append'' [FStr (op_ID op)])))
          else if op_Text op = [] then (d, eff, None)
          else if int (length (n_Text n)) + int (length (op_Text op)) > MaxTextBytesPerNode limits
          then (d, eff, Some (NewError ''resource.text_too_large'' (Lit ''node retained text limit exceeded'')))
          else if d_TotalTextBytes d + int (length (op_Text op)) > MaxTotalTextBytes limits
          then (d, eff, Some (NewError ''resource.text_too_large'' (Lit ''total retained text limit exceeded'')))
          else
            (let n = n\<lparr>n_Text := n_Text n @ op_Text op\<rparr> in
             (d\<lparr>d_TotalTextBytes := d_TotalTextBytes d + int (length (op_Text op)),
                d_Nodes := fmupd (op_ID op) n (d_Nodes d)\<rparr>,
              eff\<lparr>eff_Changed := True\<rparr>, None)))"

fun sweep :: "nat \<Rightarrow> string \<Rightarrow> Document \<times> string list \<Rightarrow> (Document \<times> string list) option" where
  "sweep 0 nid st = None"
| "sweep (Suc fuel) nid st =
     (let n = node_at (d_Nodes (fst st)) nid in
      case ofold (sweep fuel) (n_Children n) st of
        None \<Rightarrow> None
      | Some (d, removed) \<Rightarrow>
          Some (d\<lparr>d_TotalTextBytes := d_TotalTextBytes d - int (length (n_Text n)),
                  d_Nodes := fmdrop nid (d_Nodes d)\<rparr>, removed @ [nid]))"

definition applyRemove :: "Document \<Rightarrow> Operation \<Rightarrow> Effect \<Rightarrow> (Document \<times> Effect \<times> Error option) go" where
  "applyRemove d op eff =
     (if op_ID op = root_id
      then Ret (d, eff, Some (NewError ''document.root_immutable'' (Lit ''root cannot be removed'')))
      else case fmlookup (d_Nodes d) (op_ID op) of
        None \<Rightarrow> Ret (d, eff, Some (NewError ''document.node_not_found'' (Sprintf ''node %q not found'' [FStr (op_ID op)])))
      | Some n \<Rightarrow>
          (let p = node_at (d_Nodes d) (n_Parent n);
               p = p\<lparr>n_Children := remove1 (op_ID op) (n_Children p)\<rparr>;
               d = d\<lparr>d_Nodes := fmupd (n_Parent n) p (d_Nodes d)\<rparr> in
           go_bind (go_of_option (sweep (Suc (msize (d_Nodes d))) (op_ID op) (d, eff_Removed eff))) (\<lambda>(d, removed).
             Ret (d, eff\<lparr>eff_Removed := removed, eff_Changed := True\<rparr>, None))))"

subsection \<open>Apply\<close>

definition locate :: "Operation \<Rightarrow> Error \<Rightarrow> Error" where
  "locate op e = e\<lparr>e_Seq := op_Seq op, e_NodeID := op_ID op\<rparr>"

text \<open>The switch over the operation, on the clone.\<close>

definition apply_op :: "Document \<Rightarrow> Operation \<Rightarrow> Effect \<Rightarrow> Limits \<Rightarrow> (Document \<times> Effect \<times> Error option) go" where
  "apply_op cand op eff limits =
     (case op_Op op of
        OpUpsert \<Rightarrow> applyUpsert cand op eff limits
      | OpProps \<Rightarrow> applyProps cand op eff limits
      | OpText \<Rightarrow> Ret (applyText cand op eff limits)
      | OpRemove \<Rightarrow> applyRemove cand op eff
      | OpFocus \<Rightarrow>
          Ret (cand, eff, if fmlookup (d_Nodes cand) (op_ID op) = None
             then Some (NewError ''document.node_not_found'' (Sprintf ''node %q not found'' [FStr (op_ID op)])) else None)
      | _ \<Rightarrow> Ret (cand, eff, None))"

definition Apply :: "Document \<Rightarrow> Operation \<Rightarrow> Limits \<Rightarrow> (Document \<times> Effect \<times> Error option) go" where
  "Apply current op limits =
     (let eff = zero_effect\<lparr>eff_Frame := op_Frame op, eff_ThroughSeq := op_Seq op\<rparr> in
      case ValidateOperation op limits of
        Some e \<Rightarrow> Ret (current, eff, Some (locate op e))
      | None \<Rightarrow>
          if op_Op op = OpCommit then Ret (current, eff\<lparr>eff_Commit := True\<rparr>, None)
          else
            go_bind (apply_op current op eff limits) (\<lambda>(cand, eff, err).
              case err of
                Some e \<Rightarrow> Ret (current, eff, Some (locate op e))
              | None \<Rightarrow>
                  if eff_Changed eff then
                    (case validateInvariants cand limits of
                       Some e \<Rightarrow> Ret (current, zero_effect, Some (locate op e))
                     | None \<Rightarrow> Ret (cand\<lparr>d_Revision := d_Revision current + 1\<rparr>, eff, None))
                  else Ret (cand, eff, None)))"

end
