(* ===== verification/Transaction.thy ===== *)
theory Transaction
  imports Reducer
begin

text \<open>
  Correctness of the reducer: the invariant every accepted operation keeps, what each
  operation changes, and that a refused one changes nothing.
\<close>

subsection \<open>The invariant of a document\<close>

text \<open>What the reducer itself keeps, whatever the limits are: the tree, the text account, no
  node with an empty id, validated property maps, and a nil explicit-key map exactly at the
  root.\<close>

definition node_clean :: "string \<Rightarrow> Node \<Rightarrow> bool" where
  "node_clean nid n \<longleftrightarrow> nid \<noteq> [] \<and> validateNormalized (n_Type n) (n_Props n) = None \<and>
     fset (fmdom (n_Props n)) \<subseteq> set (allowedProps (n_Type n)) - {''force''} \<and>
     (n_ExplicitProps n = None \<longleftrightarrow> nid = root_id)"

definition consistent :: "Document \<Rightarrow> bool" where
  "consistent d \<longleftrightarrow> tree (d_Nodes d) \<and> d_TotalTextBytes d = text_bytes (d_Nodes d) \<and>
     (\<forall>nid n. fmlookup (d_Nodes d) nid = Some n \<longrightarrow> node_clean nid n)"

definition node_limits :: "Limits \<Rightarrow> Node \<Rightarrow> bool" where
  "node_limits limits n \<longleftrightarrow> validateTableLimits n limits = None \<and>
     int (length (n_Text n)) \<le> MaxTextBytesPerNode limits"

definition doc_inv :: "Limits \<Rightarrow> Document \<Rightarrow> bool" where
  "doc_inv limits d \<longleftrightarrow> consistent d \<and> within_limits d limits \<and>
     (\<forall>nid n. fmlookup (d_Nodes d) nid = Some n \<longrightarrow> node_limits limits n)"

lemma doc_inv_valid: "doc_inv limits d \<Longrightarrow> validateInvariants d limits = None"
  by (simp add: validateInvariants_spec doc_spec_def doc_inv_def consistent_def)

lemma tree_parent:
  assumes t: "tree nodes" and n: "fmlookup nodes nid = Some n" "nid \<noteq> root_id"
  shows "kid nodes (n_Parent n) nid"
proof -
  from treeD(5) [OF t n(1)] obtain k where "(kid nodes ^^ k) root_id nid" ..
  with n(2) obtain p where "kid nodes p nid" by (cases k) (auto elim: relpowp_Suc_E)
  with treeD(4) [OF t this] n show ?thesis by auto
qed

lemma tree_parent_lookup:
  assumes "tree nodes" "fmlookup nodes nid = Some n" "nid \<noteq> root_id"
  obtains p where "fmlookup nodes (n_Parent n) = Some p" "nid \<in> set (n_Children p)"
  using tree_parent [OF assms] by (auto simp: kid_def)

lemma tree_not_own_kid: "tree nodes \<Longrightarrow> \<not> kid nodes a a"
proof
  assume t: "tree nodes" and k: "kid nodes a a"
  then obtain n where "fmlookup nodes a = Some n" by (auto simp: kid_def)
  from treeD(5) [OF t this] obtain i where i: "(kid nodes ^^ i) root_id a" ..
  with k have "(kid nodes ^^ Suc i) root_id a" by (auto intro: relpowp_Suc_I)
  then show False using depth_unique [OF t i] by fastforce
qed

lemma consistentD:
  assumes "consistent d"
  shows "tree (d_Nodes d)" and "d_TotalTextBytes d = text_bytes (d_Nodes d)"
    and "fmlookup (d_Nodes d) nid = Some n \<Longrightarrow> node_clean nid n" and "fmlookup (d_Nodes d) [] = None"
proof -
  show "tree (d_Nodes d)" and "d_TotalTextBytes d = text_bytes (d_Nodes d)"
    using assms by (simp_all add: consistent_def)
  have clean: "node_clean x m" if "fmlookup (d_Nodes d) x = Some m" for x m
    using assms that by (simp add: consistent_def)
  then show "fmlookup (d_Nodes d) nid = Some n \<Longrightarrow> node_clean nid n" .
  show "fmlookup (d_Nodes d) [] = None"
    using clean [of "[]"] by (cases "fmlookup (d_Nodes d) []") (auto simp: node_clean_def)
qed

subsection \<open>Child lists\<close>

lemma set_removeChild [simp]: "set (removeChild cs nid) = set cs - {nid}"
  by (auto simp: removeChild_def)

lemma distinct_removeChild [simp]: "distinct cs \<Longrightarrow> distinct (removeChild cs nid)"
  by (simp add: removeChild_def)

lemma insertChild_split:
  obtains xs ys where "cs = xs @ ys" "insertChild cs nid index = xs @ nid # ys"
proof -
  define idx where "idx = (case index of
      Some i \<Rightarrow> if 0 \<le> i \<and> i < int (length cs) then nat i else length cs | None \<Rightarrow> length cs)"
  then show thesis using that [of "take idx cs" "drop idx cs"] by (simp add: insertChild_def Let_def)
qed

lemma set_insertChild [simp]: "set (insertChild cs nid index) = insert nid (set cs)"
  by (rule insertChild_split [of cs nid index]) auto

lemma distinct_insertChild [simp]: "nid \<notin> set cs \<Longrightarrow> distinct (insertChild cs nid index) = distinct cs"
  by (rule insertChild_split [of cs nid index]) auto

lemma insertChild_nth:
  assumes "0 \<le> i" "i < int (length cs)"
  shows "insertChild cs nid (Some i) ! nat i = nid"
  using assms by (simp add: insertChild_def Let_def nth_append)

lemma insertChild_append: "(case index of None \<Rightarrow> True | Some i \<Rightarrow> i < 0 \<or> int (length cs) \<le> i) \<Longrightarrow>
   insertChild cs nid index = cs @ [nid]"
  by (auto simp: insertChild_def Let_def split: option.splits)

lemma removeChild_id [simp]: "nid \<notin> set cs \<Longrightarrow> removeChild cs nid = cs"
  by (auto simp: removeChild_def filter_id_conv)

lemma removeChild_middle: "removeChild (xs @ nid # ys) nid = removeChild xs nid @ removeChild ys nid"
  by (simp add: removeChild_def)

lemma removeChild_insertChild: "nid \<notin> set cs \<Longrightarrow> removeChild (insertChild cs nid index) nid = cs"
  by (rule insertChild_split [of cs nid index]) (auto simp: removeChild_middle)

subsection \<open>Termination of the ancestor loop\<close>

lemma wouldCreateCycle_tree:
  assumes t: "tree nodes" and e: "fmlookup nodes [] = None"
  shows "(kid nodes ^^ k) root_id cur \<Longrightarrow> fmlookup nodes cur \<noteq> None \<Longrightarrow>
     wouldCreateCycle nodes nid cur = Some (cur \<in> below nodes nid)"
proof (induction k arbitrary: cur)
  case 0
  then have cur: "cur = root_id" by simp
  obtain r where r: "fmlookup nodes root_id = Some r" "n_Parent r = []" using root_in_tree [OF t] by blast
  have "root_id \<in> below nodes nid \<longleftrightarrow> root_id = nid"
    using treeD(3) [OF t] by (metis below_def below_refl mem_Collect_eq rtranclp.cases)
  with r cur show ?case by (subst wouldCreateCycle.simps, auto) (subst wouldCreateCycle.simps, simp)
next
  case (Suc k)
  then obtain p where p: "(kid nodes ^^ k) root_id p" "kid nodes p cur" by (auto elim: relpowp_Suc_E)
  obtain cn where cn: "fmlookup nodes cur = Some cn" "n_Parent cn = p" using treeD(4) [OF t p(2)] by blast
  have ih: "wouldCreateCycle nodes nid p = Some (p \<in> below nodes nid)"
    using Suc.IH [OF p(1)] p(2) by (auto simp: kid_def)
  have ne: "cur \<noteq> []" using cn e by auto
  have "cur \<noteq> nid \<Longrightarrow> cur \<in> below nodes nid \<longleftrightarrow> p \<in> below nodes nid"
  proof
    assume "cur \<noteq> nid" "cur \<in> below nodes nid"
    then obtain y where "y \<in> below nodes nid" "kid nodes y cur" by (auto simp: below_def elim: rtranclp.cases)
    then show "p \<in> below nodes nid" using kid_parent_unique [OF t p(2)] by blast
  qed (use p(2) below_step in blast)
  then show ?case using ne cn ih by (subst wouldCreateCycle.simps) auto
qed

lemma wouldCreateCycle_decides:
  assumes "consistent d" "fmlookup (d_Nodes d) p = Some pn"
  shows "wouldCreateCycle (d_Nodes d) nid p = Some (p \<in> below (d_Nodes d) nid)"
proof -
  from assms(1) have t: "tree (d_Nodes d)" by (rule consistentD)
  from treeD(5) [OF t assms(2)] obtain k where "(kid (d_Nodes d) ^^ k) root_id p" ..
  then show ?thesis using wouldCreateCycle_tree [OF t consistentD(4) [OF assms(1)]] assms(2) by simp
qed

subsection \<open>upsert of an existing node\<close>

text \<open>Editing one child list leaves every other field of every node.\<close>

definition bare :: "Node \<Rightarrow> Node" where
  "bare n = n\<lparr>n_Children := []\<rparr>"

lemma bare_children [simp]: "bare (n\<lparr>n_Children := cs\<rparr>) = bare n"
  by (simp add: bare_def)

lemma bare_eqD:
  assumes "bare m = bare n"
  shows "n_ID m = n_ID n" "n_Type m = n_Type n" "n_Parent m = n_Parent n" "n_Props m = n_Props n"
    "n_ExplicitProps m = n_ExplicitProps n" "n_Text m = n_Text n"
  using assms by (cases m, cases n, simp add: bare_def)+

definition only_children :: "Node gomap \<Rightarrow> Node gomap \<Rightarrow> bool" where
  "only_children nodes nodes' \<longleftrightarrow> fmmap bare nodes' = fmmap bare nodes"

lemma only_children_lookup:
  "only_children nodes nodes' \<Longrightarrow> map_option bare (fmlookup nodes' x) = map_option bare (fmlookup nodes x)"
  by (metis fmlookup_map only_children_def)

lemma only_children_Some:
  assumes "only_children nodes nodes'" "fmlookup nodes' x = Some m'"
  obtains m where "fmlookup nodes x = Some m" "bare m' = bare m"
  using only_children_lookup [OF assms(1), of x] assms(2) that by (cases "fmlookup nodes x") auto

lemma only_children_refl [simp]: "only_children nodes nodes"
  by (simp add: only_children_def)

lemma only_children_fmupd:
  "only_children nodes nodes' \<Longrightarrow> fmlookup nodes' p = Some m \<Longrightarrow>
     only_children nodes (fmupd p (m\<lparr>n_Children := cs\<rparr>) nodes')"
proof -
  assume oc: "only_children nodes nodes'" and "fmlookup nodes' p = Some m"
  then have "fmmap bare (fmupd p (m\<lparr>n_Children := cs\<rparr>) nodes') = fmmap bare nodes'"
    by (simp add: fmmap_fmupd)
  with oc show ?thesis by (simp add: only_children_def)
qed

lemma text_bytes_fmupd:
  "text_bytes (fmupd k v nodes) = text_bytes nodes + int (length (n_Text v))
     - (case fmlookup nodes k of None \<Rightarrow> 0 | Some w \<Rightarrow> int (length (n_Text w)))"
  by (simp add: text_bytes_def msum_fmupd)

lemma text_bytes_bare: "text_bytes (fmmap bare nodes) = text_bytes nodes"
  unfolding text_bytes_def msum_def by (rule sum.cong) (auto simp: lookup_simps bare_def)

lemma only_children_text: "only_children nodes nodes' \<Longrightarrow> text_bytes nodes' = text_bytes nodes"
  by (metis only_children_def text_bytes_bare)

text \<open>The three ways the topology part can succeed.\<close>

lemma upsert_topology_cases:
  assumes c: "consistent d" and n: "fmlookup (d_Nodes d) (op_ID op) = Some n" "op_ID op \<noteq> root_id"
    and r: "upsert_topology (d_Nodes d) op n = Ret (Inr (nodes1, n1, chg))"
  obtains
    (stay) "nodes1 = d_Nodes d" "n1 = n" "\<not> chg"
  | (reorder) p where "fmlookup (d_Nodes d) (n_Parent n) = Some p" "op_ID op \<in> set (n_Children p)"
      "nodes1 = fmupd (n_Parent n) (p\<lparr>n_Children :=
         insertChild (removeChild (n_Children p) (op_ID op)) (op_ID op) (op_Index op)\<rparr>) (d_Nodes d)"
      "n1 = n" "chg"
  | (move) p t where "fmlookup (d_Nodes d) (n_Parent n) = Some p" "op_ID op \<in> set (n_Children p)"
      "fmlookup (d_Nodes d) (op_Parent op) = Some t" "op_Parent op \<noteq> n_Parent n"
      "op_Parent op \<notin> below (d_Nodes d) (op_ID op)" "NodeType_Container (n_Type t)"
      "nodes1 = fmupd (op_Parent op) (t\<lparr>n_Children := insertChild (n_Children t) (op_ID op) (op_Index op)\<rparr>)
         (fmupd (n_Parent n) (p\<lparr>n_Children := removeChild (n_Children p) (op_ID op)\<rparr>) (d_Nodes d))"
      "n1 = n\<lparr>n_Parent := op_Parent op\<rparr>" "chg"
proof -
  obtain p where p: "fmlookup (d_Nodes d) (n_Parent n) = Some p" "op_ID op \<in> set (n_Children p)"
    using tree_parent_lookup [OF consistentD(1) [OF c] n] .
  consider (old) "op_Parent op = [] \<or> op_Parent op = n_Parent n"
    | (new) "op_Parent op \<noteq> []" "op_Parent op \<noteq> n_Parent n" by blast
  then show thesis
  proof cases
    case old
    then have T: "(if op_Parent op \<noteq> [] then op_Parent op else n_Parent n) = n_Parent n" by auto
    have "nodes1 = d_Nodes d \<and> n1 = n \<and> \<not> chg \<or>
        nodes1 = fmupd (n_Parent n) (p\<lparr>n_Children :=
           insertChild (removeChild (n_Children p) (op_ID op)) (op_ID op) (op_Index op)\<rparr>) (d_Nodes d) \<and>
        n1 = n \<and> chg"
      using r p(1) unfolding upsert_topology_def Let_def T
      by (auto split: if_splits option.splits bool.splits)
    then show thesis using p stay reorder by metis
  next
    case new
    then obtain t where t: "fmlookup (d_Nodes d) (op_Parent op) = Some t" "NodeType_Container (n_Type t)"
        "wouldCreateCycle (d_Nodes d) (op_ID op) (op_Parent op) = Some False"
      using r by (auto simp: upsert_topology_def Let_def split: if_splits option.splits bool.splits)
    then have "op_Parent op \<notin> below (d_Nodes d) (op_ID op)"
      using wouldCreateCycle_decides [OF c t(1)] by simp
    with r p t new show thesis
      by (intro move [of p t]) (auto simp: upsert_topology_def Let_def)
  qed
qed

lemma upsert_topology_frame:
  assumes "consistent d" "fmlookup (d_Nodes d) (op_ID op) = Some n" "op_ID op \<noteq> root_id"
    and "upsert_topology (d_Nodes d) op n = Ret (Inr (nodes1, n1, chg))"
  shows "only_children (d_Nodes d) nodes1 \<and> fmlookup nodes1 (op_ID op) = Some n \<and>
     n1 = n\<lparr>n_Parent := n_Parent n1\<rparr>"
proof -
  have t: "tree (d_Nodes d)" using assms(1) by (rule consistentD)
  have "n_Parent n \<noteq> op_ID op" using tree_parent [OF t assms(2,3)] tree_not_own_kid [OF t] by metis
  show ?thesis
    using assms
  proof (cases rule: upsert_topology_cases)
    case stay
    then show ?thesis using assms(2) by simp
  next
    case reorder
    then show ?thesis using assms(2) \<open>n_Parent n \<noteq> op_ID op\<close> by (auto intro: only_children_fmupd)
  next
    case (move p t)
    then have "op_Parent op \<noteq> op_ID op" using below_refl by metis
    with move show ?thesis using assms(2) \<open>n_Parent n \<noteq> op_ID op\<close>
      by (auto intro!: only_children_fmupd)
  qed
qed

lemma root_valid_fmupd_other: "x \<noteq> root_id \<Longrightarrow> root_valid (fmupd x n nodes) = root_valid nodes"
  by (simp add: root_valid_def)

lemma root_valid_only_children: "only_children nodes nodes' \<Longrightarrow> root_valid nodes' = root_valid nodes"
  using only_children_lookup [of nodes nodes' root_id]
  by (auto simp: root_valid_def split: option.splits) (metis bare_eqD)+

lemma node_ok_remove: "node_ok q p \<Longrightarrow> node_ok q (p\<lparr>n_Children := removeChild (n_Children p) a\<rparr>)"
  by (auto simp: node_ok_def removeChild_def)

lemma node_ok_insert:
  "node_ok q p \<Longrightarrow> a \<notin> set (n_Children p) \<Longrightarrow> NodeType_Container (n_Type p) \<Longrightarrow>
     node_ok q (p\<lparr>n_Children := insertChild (n_Children p) a i\<rparr>)"
  by (simp add: node_ok_def)

lemma node_ok_reorder:
  assumes "node_ok q p" "a \<in> set (n_Children p)"
  shows "node_ok q (p\<lparr>n_Children := insertChild (removeChild (n_Children p) a) a i\<rparr>)"
proof -
  have "NodeType_Container (n_Type p)" using assms by (auto simp: node_ok_def)
  then show ?thesis using node_ok_insert [OF node_ok_remove [OF assms(1), of a], of a i] by simp
qed

text \<open>The tree after the moved or rewritten node is stored.\<close>

lemma upsert_existing_tree:
  assumes c: "consistent d" and n: "fmlookup (d_Nodes d) (op_ID op) = Some n" "op_ID op \<noteq> root_id"
    and r: "upsert_topology (d_Nodes d) op n = Ret (Inr (nodes1, n1, chg))"
    and n': "node_ok (op_ID op) n'" "n_Parent n' = n_Parent n1" "n_Children n' = n_Children n"
  shows "tree (fmupd (op_ID op) n' nodes1)"
proof -
  let ?a = "op_ID op" and ?nodes = "d_Nodes d"
  let ?nodes' = "fmupd ?a n' nodes1"
  have t: "tree ?nodes" using c by (rule consistentD)
  have frame: "only_children ?nodes nodes1" using upsert_topology_frame [OF c n r] by simp
  have root: "root_valid ?nodes'"
    using treeD(1) [OF t] n(2) frame by (simp add: root_valid_fmupd_other root_valid_only_children)
  have dom: "fmlookup ?nodes' x = None \<Longrightarrow> fmlookup ?nodes x = None" for x
    using only_children_lookup [OF frame, of x] by (auto split: if_splits)
  have nself: "?a \<notin> set (n_Children n)" using tree_not_own_kid [OF t, of ?a] n(1) by (auto simp: kid_def)
  have npar: "n_Parent n \<noteq> ?a" using tree_parent [OF t n] tree_not_own_kid [OF t] by metis
  show ?thesis
    using c n r
  proof (cases rule: upsert_topology_cases)
    case stay
    show ?thesis
    proof (rule tree_same_kids [OF t _ _ dom root])
      show "kid ?nodes' p c \<longleftrightarrow> kid ?nodes p c" for p c using n n' stay by (auto simp: kid_def)
      show "\<exists>m. fmlookup ?nodes x = Some m \<and> node_ok x m' \<and> n_Parent m' = n_Parent m"
        if "fmlookup ?nodes' x = Some m'" for x m'
        using that n n' stay treeD(2) [OF t] by (auto split: if_splits)
    qed
  next
    case (reorder p)
    have ok: "node_ok (n_Parent n) p" using treeD(2) [OF t reorder(1)] .
    show ?thesis
    proof (rule tree_same_kids [OF t _ _ dom root])
      show "kid ?nodes' q c \<longleftrightarrow> kid ?nodes q c" for q c
        using n n' reorder npar by (auto simp: kid_def)
      show "\<exists>m. fmlookup ?nodes x = Some m \<and> node_ok x m' \<and> n_Parent m' = n_Parent m"
        if "fmlookup ?nodes' x = Some m'" for x m'
        using that n n' reorder npar node_ok_reorder [OF ok reorder(2)] treeD(2) [OF t]
        by (auto split: if_splits)
    qed
  next
    case (move p tn)
    have ok: "node_ok (n_Parent n) p" "node_ok (op_Parent op) tn"
      using treeD(2) [OF t] move by blast+
    have T: "op_Parent op \<noteq> ?a" using move(5) by auto
    have nT: "?a \<notin> set (n_Children tn)"
      using kid_parent_unique [OF t tree_parent [OF t n], of "op_Parent op"] move(3,4) by (auto simp: kid_def)
    show ?thesis
    proof (rule tree_move [OF t n move(3,5) _ _ dom root])
      show "kid ?nodes' q c \<longleftrightarrow> kid ?nodes q c \<and> c \<noteq> ?a \<or> q = op_Parent op \<and> c = ?a" for q c
      proof -
        have "kid ?nodes q ?a \<longleftrightarrow> q = n_Parent n"
          using kid_parent_unique [OF t] tree_parent [OF t n] by metis
        then show ?thesis using n n' move npar T nself nT by (auto simp: kid_def)
      qed
      show "\<exists>m. fmlookup ?nodes x = Some m \<and> node_ok x m' \<and>
          n_Parent m' = (if x = ?a then op_Parent op else n_Parent m)"
        if "fmlookup ?nodes' x = Some m'" for x m'
        using that n n' move npar T node_ok_remove [OF ok(1)] node_ok_insert [OF ok(2) nT move(6)]
          treeD(2) [OF t]
        by (auto split: if_splits)
    qed
  qed
qed

text \<open>The node an accepted upsert stores.\<close>

definition upserted :: "Operation \<Rightarrow> rawProps \<Rightarrow> Node \<Rightarrow> Node" where
  "upserted op normalized n = n\<lparr>n_Type := op_Type op,
     n_Text := (if n_Type n = op_Type op then n_Text n else []),
     n_Props := normalized, n_ExplicitProps := Some (explicitPropKeys (op_Props op))\<rparr>"

lemma upserted_sel [simp]:
  "n_ID (upserted op m n) = n_ID n" "n_Type (upserted op m n) = op_Type op"
  "n_Parent (upserted op m n) = n_Parent n" "n_Children (upserted op m n) = n_Children n"
  "n_Props (upserted op m n) = m"
  "n_ExplicitProps (upserted op m n) = Some (explicitPropKeys (op_Props op))"
  "n_Text (upserted op m n) = (if n_Type n = op_Type op then n_Text n else [])"
  by (simp_all add: upserted_def)

lemma upserted_same_iff:
  "upserted op m n = n \<longleftrightarrow>
     n_Type n = op_Type op \<and> n_Props n = m \<and> n_ExplicitProps n = Some (explicitPropKeys (op_Props op))"
  by (cases n) (auto simp: upserted_def)

lemma upsert_existing_eq:
  assumes "upsert_topology (d_Nodes d) op n = Ret (Inr (nodes1, n1, chg))"
  shows "upsert_existing d op eff limits m (explicitPropKeys (op_Props op)) n =
    (if n_Type n1 \<noteq> op_Type op \<and> n_Children n1 \<noteq> [] \<and> \<not> NodeType_Container (op_Type op)
     then Ret (d\<lparr>d_Nodes := nodes1\<rparr>, eff, Some (NewError ''document.parent_not_container''
             (Lit ''container with children cannot change to leaf'')))
     else
       (let d = d\<lparr>d_Nodes := nodes1, d_TotalTextBytes := d_TotalTextBytes d -
                (if n_Type n1 = op_Type op then 0 else int (length (n_Text n1)))\<rparr>;
            eff = eff\<lparr>eff_TypeChanged := (eff_TypeChanged eff \<or> n_Type n1 \<noteq> op_Type op)\<rparr> in
        case validateTableLimits (upserted op m n1) limits of
          Some e \<Rightarrow> Ret (d, eff, Some e)
        | None \<Rightarrow>
            if chg \<or> upserted op m n1 \<noteq> n1
            then Ret (d\<lparr>d_Nodes := fmupd (op_ID op) (upserted op m n1) nodes1\<rparr>, eff\<lparr>eff_Changed := True\<rparr>, None)
            else Ret (d, eff, None)))"
proof -
  obtain i ty pa cs ps ex tx where n1: "n1 = \<lparr>n_ID = i, n_Type = ty, n_Parent = pa, n_Children = cs,
      n_Props = ps, n_ExplicitProps = ex, n_Text = tx\<rparr>" by (cases n1)
  obtain rv nd tt where d: "d = \<lparr>d_Revision = rv, d_Nodes = nd, d_TotalTextBytes = tt\<rparr>" by (cases d)
  show ?thesis
    using assms
    by (cases "ty = op_Type op"; cases "ps = m"; cases "ex = Some (explicitPropKeys (op_Props op))")
      (auto simp: upsert_existing_def n1 d upserted_def Let_def split: option.split)
qed

lemma upsert_existing_cases:
  assumes "upsert_existing d op eff limits m (explicitPropKeys (op_Props op)) n = Ret (d', eff', None)"
  obtains nodes1 n1 chg where
    "upsert_topology (d_Nodes d) op n = Ret (Inr (nodes1, n1, chg))"
    "n_Type n1 \<noteq> op_Type op \<longrightarrow> n_Children n1 = [] \<or> NodeType_Container (op_Type op)"
    "validateTableLimits (upserted op m n1) limits = None"
    "d' = d\<lparr>d_Nodes := (if chg \<or> upserted op m n1 \<noteq> n1 then fmupd (op_ID op) (upserted op m n1) nodes1 else nodes1),
        d_TotalTextBytes := d_TotalTextBytes d - (if n_Type n1 = op_Type op then 0 else int (length (n_Text n1)))\<rparr>"
    "eff_Changed eff' \<longleftrightarrow> eff_Changed eff \<or> chg \<or> upserted op m n1 \<noteq> n1"
    "eff_TypeChanged eff' \<longleftrightarrow> eff_TypeChanged eff \<or> n_Type n1 \<noteq> op_Type op"
proof -
  obtain r where "upsert_topology (d_Nodes d) op n = Ret r" "\<nexists>e. r = Inl e"
    using assms by (cases "upsert_topology (d_Nodes d) op n") (auto simp: upsert_existing_def split: sum.splits)
  then obtain nodes1 n1 chg where t: "upsert_topology (d_Nodes d) op n = Ret (Inr (nodes1, n1, chg))"
    by (cases r) auto
  show thesis
    using assms unfolding upsert_existing_eq [OF t] Let_def
    by (intro that [OF t]) (auto split: if_splits option.splits)
qed

end
