(* ===== verification/Edits.thy ===== *)
theory Edits
  imports Transaction
begin

text \<open>
  Each operation of the reducer keeps a consistent document consistent, and what it does to
  the node map: the effect of every accepted \<open>upsert\<close>, \<open>props\<close>, \<open>text\<close> and
  \<open>remove\<close>.
\<close>

subsection \<open>upsert\<close>

lemma node_clean_bare: "bare m' = bare m \<Longrightarrow> node_clean x m \<Longrightarrow> node_clean x m'"
  using bare_eqD [of m' m] by (simp add: node_clean_def)

lemma node_clean_upserted:
  assumes "NormalizeProps (op_Type op) (op_Props op) True = Inr (m, pol)" "x \<noteq> []" "x \<noteq> root_id"
  shows "node_clean x (upserted op m n)"
  using assms NormalizeProps_valid [OF assms(1)] NormalizeProps_names [OF assms(1)]
  by (simp add: node_clean_def)

lemma upsert_existing_nodes:
  assumes c: "consistent d" and n: "fmlookup (d_Nodes d) (op_ID op) = Some n" "op_ID op \<noteq> root_id"
    and u: "upsert_existing d op eff limits m (explicitPropKeys (op_Props op)) n = Ret (d', eff', None)"
  obtains nodes1 n1 chg where
    "upsert_topology (d_Nodes d) op n = Ret (Inr (nodes1, n1, chg))"
    "n_Type n \<noteq> op_Type op \<longrightarrow> n_Children n = [] \<or> NodeType_Container (op_Type op)"
    "validateTableLimits (upserted op m n1) limits = None"
    "n1 = n\<lparr>n_Parent := n_Parent n1\<rparr>" "only_children (d_Nodes d) nodes1" "fmlookup nodes1 (op_ID op) = Some n"
    "d' = d\<lparr>d_Nodes := fmupd (op_ID op) (upserted op m n1) nodes1,
        d_TotalTextBytes := d_TotalTextBytes d - (if n_Type n = op_Type op then 0 else int (length (n_Text n)))\<rparr>"
    "eff_Changed eff' \<longleftrightarrow> eff_Changed eff \<or> chg \<or> upserted op m n1 \<noteq> n1"
    "\<not> chg \<and> upserted op m n1 = n1 \<Longrightarrow> d' = d"
    "eff_TypeChanged eff' \<longleftrightarrow> eff_TypeChanged eff \<or> n_Type n \<noteq> op_Type op"
proof -
  from u obtain nodes1 n1 chg where t: "upsert_topology (d_Nodes d) op n = Ret (Inr (nodes1, n1, chg))"
      and ty: "n_Type n1 \<noteq> op_Type op \<longrightarrow> n_Children n1 = [] \<or> NodeType_Container (op_Type op)"
      and tl: "validateTableLimits (upserted op m n1) limits = None"
      and d': "d' = d\<lparr>d_Nodes := (if chg \<or> upserted op m n1 \<noteq> n1
            then fmupd (op_ID op) (upserted op m n1) nodes1 else nodes1),
        d_TotalTextBytes := d_TotalTextBytes d - (if n_Type n1 = op_Type op then 0 else int (length (n_Text n1)))\<rparr>"
      and e: "eff_Changed eff' \<longleftrightarrow> eff_Changed eff \<or> chg \<or> upserted op m n1 \<noteq> n1"
        "eff_TypeChanged eff' \<longleftrightarrow> eff_TypeChanged eff \<or> n_Type n1 \<noteq> op_Type op"
    by (rule upsert_existing_cases)
  have f: "only_children (d_Nodes d) nodes1" "fmlookup nodes1 (op_ID op) = Some n" "n1 = n\<lparr>n_Parent := n_Parent n1\<rparr>"
    using upsert_topology_frame [OF c n t] by simp_all
  then have s: "n_Type n1 = n_Type n" "n_Children n1 = n_Children n" "n_Text n1 = n_Text n"
    by (metis Node.simps Node.surjective)+
  have same: "nodes1 = d_Nodes d \<and> n1 = n" if "\<not> chg"
    by (rule upsert_topology_cases [OF c n t]) (use that in auto)
  show thesis
  proof (rule that [OF t _ tl f(3,1,2)])
    show "d' = d\<lparr>d_Nodes := fmupd (op_ID op) (upserted op m n1) nodes1,
        d_TotalTextBytes := d_TotalTextBytes d - (if n_Type n = op_Type op then 0 else int (length (n_Text n)))\<rparr>"
      using d' s n(1) same by (cases "chg \<or> upserted op m n1 \<noteq> n1") auto
    show "d' = d" if "\<not> chg \<and> upserted op m n1 = n1"
    proof -
      have "n_Type n1 = op_Type op" using that upserted_same_iff by metis
      then show ?thesis using d' that same by simp
    qed
  qed (use ty e s in simp_all)
qed

lemma upsert_existing_consistent:
  assumes c: "consistent d" and n: "fmlookup (d_Nodes d) (op_ID op) = Some n" "op_ID op \<noteq> root_id"
    and m: "NormalizeProps (op_Type op) (op_Props op) True = Inr (m, pol)"
    and u: "upsert_existing d op eff limits m (explicitPropKeys (op_Props op)) n = Ret (d', eff', None)"
  shows "consistent d'"
  using c n u
proof (rule upsert_existing_nodes)
  fix nodes1 n1 chg
  assume t: "upsert_topology (d_Nodes d) op n = Ret (Inr (nodes1, n1, chg))"
    and ty: "n_Type n \<noteq> op_Type op \<longrightarrow> n_Children n = [] \<or> NodeType_Container (op_Type op)"
    and n1: "n1 = n\<lparr>n_Parent := n_Parent n1\<rparr>" and oc: "only_children (d_Nodes d) nodes1"
    and a: "fmlookup nodes1 (op_ID op) = Some n"
    and d': "d' = d\<lparr>d_Nodes := fmupd (op_ID op) (upserted op m n1) nodes1,
        d_TotalTextBytes := d_TotalTextBytes d - (if n_Type n = op_Type op then 0 else int (length (n_Text n)))\<rparr>"
  have s: "n_ID n1 = n_ID n" "n_Type n1 = n_Type n" "n_Children n1 = n_Children n" "n_Text n1 = n_Text n"
    by (subst n1, simp)+
  have "node_ok (op_ID op) n" using treeD(2) [OF consistentD(1) [OF c] n(1)] .
  then have "node_ok (op_ID op) (upserted op m n1)"
    using s ty NormalizeProps_type [OF m] by (auto simp: node_ok_def)
  then have tr: "tree (d_Nodes d')"
    using upsert_existing_tree [OF c n t] s by (simp add: d')
  have ne: "op_ID op \<noteq> []" using consistentD(4) [OF c] n(1) by auto
  have "node_clean x k" if "fmlookup (d_Nodes d') x = Some k" for x k
  proof (cases "x = op_ID op")
    case True
    then show ?thesis using that node_clean_upserted [OF m ne n(2), of n1] by (auto simp: d')
  next
    case False
    then have "fmlookup nodes1 x = Some k" using that by (simp add: d')
    then show ?thesis using oc consistentD(3) [OF c] by (metis only_children_Some node_clean_bare)
  qed
  moreover have "d_TotalTextBytes d' = text_bytes (d_Nodes d')"
    using a s only_children_text [OF oc] consistentD(2) [OF c] by (simp add: d' text_bytes_fmupd)
  ultimately show ?thesis using tr by (simp add: consistent_def)
qed

text \<open>The node a fresh upsert creates.\<close>

definition created :: "Operation \<Rightarrow> rawProps \<Rightarrow> string \<Rightarrow> Node" where
  "created op m pid = \<lparr>n_ID = op_ID op, n_Type = op_Type op, n_Parent = pid, n_Children = [],
     n_Props = m, n_ExplicitProps = Some (explicitPropKeys (op_Props op)), n_Text = []\<rparr>"

definition target_parent :: "Operation \<Rightarrow> string" where
  "target_parent op = (if op_Parent op = [] then root_id else op_Parent op)"

lemma node_clean_created:
  assumes "NormalizeProps (op_Type op) (op_Props op) True = Inr (m, pol)" "op_ID op \<noteq> []" "op_ID op \<noteq> root_id"
  shows "node_clean (op_ID op) (created op m pid)"
  using assms NormalizeProps_valid [OF assms(1)] NormalizeProps_names [OF assms(1)]
  by (simp add: node_clean_def created_def)

lemma upsert_new_nodes:
  assumes "upsert_new d op eff limits m (explicitPropKeys (op_Props op)) = Ret (d', eff', None)"
  obtains p where "fmlookup (d_Nodes d) (target_parent op) = Some p" "NodeType_Container (n_Type p)"
    "validateTableLimits (created op m (target_parent op)) limits = None"
    "d' = d\<lparr>d_Nodes := fmupd (target_parent op)
        (p\<lparr>n_Children := insertChild (n_Children p) (op_ID op) (op_Index op)\<rparr>)
        (fmupd (op_ID op) (created op m (target_parent op)) (d_Nodes d))\<rparr>"
    "eff' = eff\<lparr>eff_Changed := True\<rparr>"
  using assms that
  by (auto simp: upsert_new_def target_parent_def [symmetric] created_def Let_def split: option.splits if_splits)

lemma upsert_new_consistent:
  assumes c: "consistent d" and new: "fmlookup (d_Nodes d) (op_ID op) = None" and ne: "op_ID op \<noteq> []"
    and m: "NormalizeProps (op_Type op) (op_Props op) True = Inr (m, pol)"
    and u: "upsert_new d op eff limits m (explicitPropKeys (op_Props op)) = Ret (d', eff', None)"
  shows "consistent d'"
  using u
proof (rule upsert_new_nodes)
  fix p :: Node
  let ?pid = "target_parent op" and ?n = "created op m (target_parent op)"
  let ?p = "p\<lparr>n_Children := insertChild (n_Children p) (op_ID op) (op_Index op)\<rparr>"
  assume p: "fmlookup (d_Nodes d) ?pid = Some p" "NodeType_Container (n_Type p)"
    and d': "d' = d\<lparr>d_Nodes := fmupd ?pid ?p (fmupd (op_ID op) ?n (d_Nodes d))\<rparr>"
  have t: "tree (d_Nodes d)" using c by (rule consistentD)
  have ne2: "op_ID op \<noteq> root_id" "?pid \<noteq> op_ID op" using root_in_tree [OF t] new p by auto
  have fresh: "op_ID op \<notin> set (n_Children p)" using treeD(4) [OF t, of ?pid "op_ID op"] p new by (auto simp: kid_def)
  have ok: "node_ok ?pid p" using treeD(2) [OF t p(1)] .
  have n: "node_ok (op_ID op) ?n" using NormalizeProps_type [OF m] by (simp add: node_ok_def created_def)
  have "tree (d_Nodes d')"
    using tree_add_leaf [OF t p(1) new n, of ?p] node_ok_insert [OF ok fresh p(2)]
    by (simp add: d' created_def)
  moreover have "d_TotalTextBytes d' = text_bytes (d_Nodes d')"
    using p new ne2 consistentD(2) [OF c] by (simp add: d' text_bytes_fmupd created_def)
  moreover have "node_clean x k" if "fmlookup (d_Nodes d') x = Some k" for x k
    using that p consistentD(3) [OF c] node_clean_bare [of ?p p ?pid] node_clean_created [OF m ne ne2(1)]
    by (auto simp: d' split: if_splits)
  ultimately show ?thesis by (simp add: consistent_def)
qed

lemma applyUpsert_consistent:
  assumes c: "consistent d" and ne: "op_ID op \<noteq> []" and u: "applyUpsert d op eff limits = Ret (d', eff', None)"
  shows "consistent d'"
proof -
  from u obtain m pol where m: "NormalizeProps (op_Type op) (op_Props op) True = Inr (m, pol)"
      and r: "op_ID op \<noteq> root_id"
    by (auto simp: applyUpsert_def split: if_splits sum.splits)
  show ?thesis
  proof (cases "fmlookup (d_Nodes d) (op_ID op)")
    case None
    then have "upsert_new d op (eff\<lparr>eff_Policy := pol\<rparr>) limits m (explicitPropKeys (op_Props op)) = Ret (d', eff', None)"
      using u m r by (simp add: applyUpsert_def Let_def)
    then show ?thesis by (rule upsert_new_consistent [OF c None ne m])
  next
    case (Some n)
    then have "upsert_existing d op (eff\<lparr>eff_Policy := pol\<rparr>) limits m (explicitPropKeys (op_Props op)) n = Ret (d', eff', None)"
      using u m r by (simp add: applyUpsert_def Let_def)
    then show ?thesis by (rule upsert_existing_consistent [OF c Some r m])
  qed
qed

subsection \<open>props and text\<close>

text \<open>Rewriting one node in place, with its identity, links and type kept.\<close>

lemma rewrite_consistent:
  assumes c: "consistent d" and n: "fmlookup (d_Nodes d) a = Some n"
    and same: "n_ID n' = n_ID n" "n_Type n' = n_Type n" "n_Parent n' = n_Parent n" "n_Children n' = n_Children n"
    and clean: "node_clean a n'"
  shows "consistent (d\<lparr>d_Nodes := fmupd a n' (d_Nodes d),
    d_TotalTextBytes := d_TotalTextBytes d + int (length (n_Text n')) - int (length (n_Text n))\<rparr>)"
proof -
  have t: "tree (d_Nodes d)" using c by (rule consistentD)
  have "node_ok a n'" using treeD(2) [OF t n] same by (simp add: node_ok_def)
  then have "tree (fmupd a n' (d_Nodes d))"
    using treeD(1,2) [OF t] n same
    by (intro tree_same_kids [OF t]) (auto simp: kid_def root_valid_def split: if_splits option.splits)
  then show ?thesis
    using n clean consistentD(2,3) [OF c]
    by (auto simp: consistent_def text_bytes_fmupd split: if_splits)
qed

lemma applyProps_nodes:
  assumes "applyProps d op eff limits = Ret (d', eff', None)"
  obtains n m pol ex where "fmlookup (d_Nodes d) (op_ID op) = Some n"
    "MergeNormalized (n_Type n) (n_Props n) (op_Props op) = Inr (m, pol)"
    "set_explicit (n_ExplicitProps n) (explicitPropKeys (op_Props op)) = Ret ex"
    "d' = d\<lparr>d_Nodes := fmupd (op_ID op) (n\<lparr>n_Props := m, n_ExplicitProps := ex\<rparr>) (d_Nodes d)\<rparr>"
    "eff_Changed eff' \<longleftrightarrow> eff_Changed eff \<or> n_Props n \<noteq> m \<or> n_ExplicitProps n \<noteq> ex"
    "\<not> eff_Changed eff' \<Longrightarrow> d' = d"
    "eff_Changed eff' \<Longrightarrow> \<not> eff_Changed eff \<Longrightarrow>
       validateTableLimits (n\<lparr>n_Props := m, n_ExplicitProps := ex\<rparr>) limits = None"
proof -
  from assms obtain n m pol ex where n: "fmlookup (d_Nodes d) (op_ID op) = Some n"
      and m: "MergeNormalized (n_Type n) (n_Props n) (op_Props op) = Inr (m, pol)"
      and ex: "set_explicit (n_ExplicitProps n) (explicitPropKeys (op_Props op)) = Ret ex"
    by (auto simp: applyProps_def Let_def go_simps split: option.splits sum.splits)
  let ?n = "n\<lparr>n_Props := m, n_ExplicitProps := ex\<rparr>"
  have eq: "n_Props n = m \<and> n_ExplicitProps n = ex \<longleftrightarrow> ?n = n" by (cases n) auto
  show thesis
    using assms n m ex eq
    by (intro that [OF n m ex]) (auto simp: applyProps_def Let_def split: option.splits if_splits)
qed

lemma set_explicit_None_iff: "set_explicit e ks = Ret ex \<Longrightarrow> ex = None \<longleftrightarrow> e = None"
  by (auto simp: set_explicit_def split: option.splits if_splits)

lemma applyProps_consistent:
  assumes c: "consistent d" and u: "applyProps d op eff limits = Ret (d', eff', None)"
  shows "consistent d'"
  using u
proof (rule applyProps_nodes)
  fix n :: Node and m pol ex
  let ?n = "n\<lparr>n_Props := m, n_ExplicitProps := ex\<rparr>"
  assume n: "fmlookup (d_Nodes d) (op_ID op) = Some n"
    and m: "MergeNormalized (n_Type n) (n_Props n) (op_Props op) = Inr (m, pol)"
    and ex: "set_explicit (n_ExplicitProps n) (explicitPropKeys (op_Props op)) = Ret ex"
    and d': "d' = d\<lparr>d_Nodes := fmupd (op_ID op) ?n (d_Nodes d)\<rparr>"
  have "node_clean (op_ID op) n" using consistentD(3) [OF c n] .
  moreover obtain patch where "NormalizeProps (n_Type n) (op_Props op) False = Inr (patch, pol)"
      "m = fmadd (n_Props n) patch" "validateNormalized (n_Type n) m = None"
    using m by (rule MergeNormalized_Inr)
  moreover from this have "fset (fmdom patch) \<subseteq> set (allowedProps (n_Type n)) - {''force''}"
    using NormalizeProps_names by blast
  ultimately have "node_clean (op_ID op) ?n"
    using set_explicit_None_iff [OF ex] by (auto simp: node_clean_def)
  then show ?thesis
    using rewrite_consistent [OF c n, of ?n] by (simp add: d')
qed

lemma applyText_nodes:
  assumes "applyText d op eff limits = (d', eff', None)"
  obtains n where "fmlookup (d_Nodes d) (op_ID op) = Some n" "n_Type n = NodeText \<or> n_Type n = NodeViewport"
    "d' = d\<lparr>d_Nodes := fmupd (op_ID op) (n\<lparr>n_Text := n_Text n @ op_Text op\<rparr>) (d_Nodes d),
       d_TotalTextBytes := d_TotalTextBytes d + int (length (op_Text op))\<rparr>"
    "eff_Changed eff' \<longleftrightarrow> eff_Changed eff \<or> op_Text op \<noteq> []"
    "op_Text op \<noteq> [] \<Longrightarrow> int (length (n_Text n)) + int (length (op_Text op)) \<le> MaxTextBytesPerNode limits"
    "op_Text op \<noteq> [] \<Longrightarrow> d_TotalTextBytes d + int (length (op_Text op)) \<le> MaxTotalTextBytes limits"
  using assms that
  by (auto simp: applyText_def Let_def split: option.splits if_splits)

lemma applyText_consistent:
  assumes c: "consistent d" and u: "applyText d op eff limits = (d', eff', None)"
  shows "consistent d'"
  using u
proof (rule applyText_nodes)
  fix n :: Node
  let ?n = "n\<lparr>n_Text := n_Text n @ op_Text op\<rparr>"
  assume n: "fmlookup (d_Nodes d) (op_ID op) = Some n"
    and d': "d' = d\<lparr>d_Nodes := fmupd (op_ID op) ?n (d_Nodes d),
       d_TotalTextBytes := d_TotalTextBytes d + int (length (op_Text op))\<rparr>"
  have "node_clean (op_ID op) ?n" using consistentD(3) [OF c n] by (simp add: node_clean_def)
  then show ?thesis using rewrite_consistent [OF c n, of ?n] by (simp add: d')
qed

subsection \<open>remove\<close>

text \<open>What a sweep of the subtrees in \<open>S\<close> leaves of the document and of the report.\<close>

definition swept :: "string set \<Rightarrow> Document \<times> string list \<Rightarrow> Document \<times> string list \<Rightarrow> bool" where
  "swept S st st' \<longleftrightarrow>
     d_Nodes (fst st') = fmfilter (\<lambda>x. x \<notin> S) (d_Nodes (fst st)) \<and>
     d_Revision (fst st') = d_Revision (fst st) \<and>
     d_TotalTextBytes (fst st') - text_bytes (d_Nodes (fst st')) =
       d_TotalTextBytes (fst st) - text_bytes (d_Nodes (fst st)) \<and>
     (\<exists>rs. snd st' = snd st @ rs \<and> set rs = S \<and> distinct rs)"

lemma swept_pair:
  "swept S (d, r) (d', r') \<longleftrightarrow>
     d_Nodes d' = fmfilter (\<lambda>x. x \<notin> S) (d_Nodes d) \<and> d_Revision d' = d_Revision d \<and>
     d_TotalTextBytes d' - text_bytes (d_Nodes d') = d_TotalTextBytes d - text_bytes (d_Nodes d) \<and>
     (\<exists>rs. r' = r @ rs \<and> set rs = S \<and> distinct rs)"
  unfolding swept_def fst_conv snd_conv ..

lemma swept_empty: "swept {} st st"
proof -
  have "fmfilter (\<lambda>x. x \<notin> {}) m = m" for m :: "Node gomap" by (rule fmap_ext) simp
  then show ?thesis by (simp add: swept_def)
qed

lemma swept_trans:
  assumes "swept S st st1" "swept T st1 st2" "S \<inter> T = {}"
  shows "swept (S \<union> T) st st2"
proof -
  from assms obtain rs ts where "snd st1 = snd st @ rs" "set rs = S" "distinct rs"
      "snd st2 = snd st1 @ ts" "set ts = T" "distinct ts"
    unfolding swept_def by blast
  then have "snd st2 = snd st @ (rs @ ts)" "set (rs @ ts) = S \<union> T" "distinct (rs @ ts)"
    using assms(3) by auto
  moreover have "fmfilter (\<lambda>x. x \<notin> T) (fmfilter (\<lambda>x. x \<notin> S) m) = fmfilter (\<lambda>x. x \<notin> S \<union> T) m" for m :: "Node gomap"
    by (rule fmap_ext) auto
  ultimately show ?thesis using assms(1,2) unfolding swept_def by metis
qed

lemma swept_one:
  assumes "fmlookup (d_Nodes d) a = Some n"
  shows "swept {a} (d, r) (d\<lparr>d_TotalTextBytes := d_TotalTextBytes d - int (length (n_Text n)),
      d_Nodes := fmdrop a (d_Nodes d)\<rparr>, r @ [a])"
proof -
  have "fmfilter (\<lambda>x. x \<notin> {a}) (d_Nodes d) = fmdrop a (d_Nodes d)" by (rule fmap_ext) auto
  then show ?thesis using assms by (simp add: swept_pair text_bytes_def msum_fmdrop)
qed

lemma swept_lookup: "swept S st st' \<Longrightarrow> x \<notin> S \<Longrightarrow> fmlookup (d_Nodes (fst st')) x = fmlookup (d_Nodes (fst st)) x"
  by (simp add: swept_def)

text \<open>On a tree the recursion visits every node of the subtree once; the fuel it needs is
  the length of the longest path below the node.\<close>

lemma sweep_children:
  assumes one: "\<And>c st. c \<in> set cs \<Longrightarrow> (\<forall>x \<in> below nodes c. fmlookup (d_Nodes (fst st)) x = fmlookup nodes x) \<Longrightarrow>
        \<exists>st'. f c st = Some st' \<and> swept (below nodes c) st st'"
    and disj: "\<And>a b. a \<in> set cs \<Longrightarrow> b \<in> set cs \<Longrightarrow> a \<noteq> b \<Longrightarrow> below nodes a \<inter> below nodes b = {}"
    and "distinct cs" and "\<forall>c \<in> set cs. \<forall>x \<in> below nodes c. fmlookup (d_Nodes (fst st)) x = fmlookup nodes x"
  shows "\<exists>st'. ofold f cs st = Some st' \<and> swept (\<Union>c \<in> set cs. below nodes c) st st'"
  using assms
proof (induction cs arbitrary: st)
  case Nil
  then show ?case by (simp add: swept_empty)
next
  case (Cons c cs)
  obtain st1 where st1: "f c st = Some st1" "swept (below nodes c) st st1"
    using Cons.prems(1) [of c st] Cons.prems(4) by auto
  have rest: "below nodes c \<inter> (\<Union>c \<in> set cs. below nodes c) = {}"
    using Cons.prems(2) [of c] Cons.prems(3) by fastforce
  have "\<exists>st'. ofold f cs st1 = Some st' \<and> swept (\<Union>c \<in> set cs. below nodes c) st1 st'"
  proof (rule Cons.IH)
    show "\<forall>c' \<in> set cs. \<forall>x \<in> below nodes c'. fmlookup (d_Nodes (fst st1)) x = fmlookup nodes x"
      using Cons.prems(4) swept_lookup [OF st1(2)] rest by fastforce
  qed (use Cons.prems in auto)
  then show ?case using st1 swept_trans [OF st1(2) _ rest] by auto
qed

lemma sweep_tree:
  assumes t: "tree nodes"
  shows "fmlookup nodes a = Some n \<Longrightarrow> \<forall>x \<in> below nodes a. fmlookup (d_Nodes (fst st)) x = fmlookup nodes x \<Longrightarrow>
     \<forall>x j. (kid nodes ^^ j) a x \<longrightarrow> j < fuel \<Longrightarrow>
     \<exists>st'. sweep fuel a st = Some st' \<and> swept (below nodes a) st st'"
proof (induction fuel arbitrary: a n st)
  case 0
  then show ?case by (metis less_zeroE relpowp_0_I)
next
  case (Suc fuel)
  have kids: "kid nodes a c \<longleftrightarrow> c \<in> set (n_Children n)" for c using Suc.prems(1) by (simp add: kid_def)
  have sub: "below nodes c \<subseteq> below nodes a" if "c \<in> set (n_Children n)" for c
    using that kids below_kid by blast
  obtain i where i: "(kid nodes ^^ i) root_id a" using treeD(5) [OF t Suc.prems(1)] by blast
  have at: "fmlookup (d_Nodes (fst st)) a = Some n" using Suc.prems(1,2) by auto
  have one: "\<exists>st'. sweep fuel c st = Some st' \<and> swept (below nodes c) st st'"
    if c: "c \<in> set (n_Children n)" and l: "\<forall>x \<in> below nodes c. fmlookup (d_Nodes (fst st)) x = fmlookup nodes x" for c st
  proof -
    obtain cn where "fmlookup nodes c = Some cn" using treeD(4) [OF t, of a c] kids c by blast
    moreover have "j < fuel" if "(kid nodes ^^ j) c x" for x j
      using Suc.prems(3) relpowp_Suc_I2 [of "kid nodes" a c j x] kids c that by (meson Suc_less_SucD)
    ultimately show ?thesis using Suc.IH l by blast
  qed
  have "\<exists>st'. ofold (sweep fuel) (n_Children n) st = Some st' \<and>
      swept (\<Union>c \<in> set (n_Children n). below nodes c) st st'"
  proof (rule sweep_children [OF one])
    show "below nodes b \<inter> below nodes c = {}" if "b \<in> set (n_Children n)" "c \<in> set (n_Children n)" "b \<noteq> c" for b c
      using siblings_disjoint [OF t i] that kids by blast
    show "distinct (n_Children n)" using treeD(2) [OF t Suc.prems(1)] by (simp add: node_ok_def)
  qed (use sub Suc.prems(2) in auto)
  then obtain d1 r1 where st1: "ofold (sweep fuel) (n_Children n) st = Some (d1, r1)"
      "swept (\<Union>c \<in> set (n_Children n). below nodes c) st (d1, r1)" by auto
  have self: "a \<notin> (\<Union>c \<in> set (n_Children n). below nodes c)" using parent_not_below [OF t i] kids by blast
  have "fmlookup (d_Nodes d1) a = Some n" using swept_lookup [OF st1(2) self] at by simp
  from swept_trans [OF st1(2) swept_one [OF this, of r1]] self
  have "swept (below nodes a) st (d1\<lparr>d_TotalTextBytes := d_TotalTextBytes d1 - int (length (n_Text n)),
      d_Nodes := fmdrop a (d_Nodes d1)\<rparr>, r1 @ [a])"
    using kids by (simp add: below_unfold [of nodes a])
  then show ?case using st1(1) at by simp
qed

text \<open>What a remove does: the subtree and its link are gone, nothing else changes.\<close>

lemma applyRemove_tree:
  assumes c: "consistent d" and n: "fmlookup (d_Nodes d) (op_ID op) = Some n" "op_ID op \<noteq> root_id"
    and p: "fmlookup (d_Nodes d) (n_Parent n) = Some p"
  obtains d' rs where
    "applyRemove d op eff = Ret (d', eff\<lparr>eff_Removed := eff_Removed eff @ rs, eff_Changed := True\<rparr>, None)"
    "set rs = below (d_Nodes d) (op_ID op)" "distinct rs"
    "d_Nodes d' = fmfilter (\<lambda>x. x \<notin> below (d_Nodes d) (op_ID op))
       (fmupd (n_Parent n) (p\<lparr>n_Children := remove1 (op_ID op) (n_Children p)\<rparr>) (d_Nodes d))"
    "d_Revision d' = d_Revision d" "d_TotalTextBytes d' = text_bytes (d_Nodes d')"
proof -
  let ?a = "op_ID op" and ?p = "p\<lparr>n_Children := remove1 (op_ID op) (n_Children p)\<rparr>"
  let ?d = "d\<lparr>d_Nodes := fmupd (n_Parent n) ?p (d_Nodes d)\<rparr>"
  have t: "tree (d_Nodes d)" using c by (rule consistentD)
  obtain i where i: "(kid (d_Nodes d) ^^ i) root_id (n_Parent n)" using treeD(5) [OF t p] by blast
  have np: "n_Parent n \<notin> below (d_Nodes d) ?a" by (rule parent_not_below [OF t i tree_parent [OF t n]])
  have size: "msize (d_Nodes ?d) = msize (d_Nodes d)" using p by (simp add: msize_fmupd lookup_simps)
  have "\<exists>st'. sweep (Suc (msize (d_Nodes ?d))) ?a (?d, eff_Removed eff) = Some st' \<and>
      swept (below (d_Nodes d) ?a) (?d, eff_Removed eff) st'"
  proof (rule sweep_tree [OF t n(1)])
    show "\<forall>x \<in> below (d_Nodes d) ?a. fmlookup (d_Nodes (fst (?d, eff_Removed eff))) x = fmlookup (d_Nodes d) x"
      using np by auto
    show "\<forall>x j. (kid (d_Nodes d) ^^ j) ?a x \<longrightarrow> j < Suc (msize (d_Nodes ?d))"
      unfolding size using below_path_less_msize [OF t n(1)] less_SucI by blast
  qed
  then obtain d' r where s: "sweep (Suc (msize (d_Nodes ?d))) ?a (?d, eff_Removed eff) = Some (d', r)"
      "swept (below (d_Nodes d) ?a) (?d, eff_Removed eff) (d', r)" by auto
  then obtain rs where rs: "r = eff_Removed eff @ rs" "set rs = below (d_Nodes d) ?a" "distinct rs"
    by (auto simp: swept_pair)
  have "text_bytes (d_Nodes ?d) = text_bytes (d_Nodes d)" using p by (simp add: text_bytes_fmupd)
  then have "d_TotalTextBytes d' = text_bytes (d_Nodes d')"
    using s(2) consistentD(2) [OF c] by (simp add: swept_pair)
  moreover have "applyRemove d op eff = Ret (d', eff\<lparr>eff_Removed := r, eff_Changed := True\<rparr>, None)"
    using s(1) n p by (simp add: applyRemove_def Let_def del: sweep.simps)
  ultimately show thesis
    using s(2) rs by (intro that [of d' rs]) (simp_all add: swept_pair)
qed

lemma kid_into_below:
  assumes t: "tree nodes" and k: "kid nodes q c" "q \<notin> below nodes a" "c \<in> below nodes a"
  shows "c = a"
proof (rule ccontr)
  assume "c \<noteq> a"
  with k(3) obtain y where "y \<in> below nodes a" "kid nodes y c" by (auto simp: below_def elim: rtranclp.cases)
  then show False using kid_parent_unique [OF t k(1)] k(2) by blast
qed

lemma node_ok_remove1: "node_ok q p \<Longrightarrow> node_ok q (p\<lparr>n_Children := remove1 a (n_Children p)\<rparr>)"
  by (auto simp: node_ok_def)

lemma applyRemove_Ret:
  assumes c: "consistent d" and u: "applyRemove d op eff = Ret (d', eff', None)"
  obtains n p rs where "fmlookup (d_Nodes d) (op_ID op) = Some n" "op_ID op \<noteq> root_id"
    "fmlookup (d_Nodes d) (n_Parent n) = Some p" "op_ID op \<in> set (n_Children p)"
    "n_Parent n \<notin> below (d_Nodes d) (op_ID op)"
    "eff' = eff\<lparr>eff_Removed := eff_Removed eff @ rs, eff_Changed := True\<rparr>"
    "set rs = below (d_Nodes d) (op_ID op)" "distinct rs"
    "d_Nodes d' = fmfilter (\<lambda>x. x \<notin> below (d_Nodes d) (op_ID op))
       (fmupd (n_Parent n) (p\<lparr>n_Children := remove1 (op_ID op) (n_Children p)\<rparr>) (d_Nodes d))"
    "d_Revision d' = d_Revision d" "d_TotalTextBytes d' = text_bytes (d_Nodes d')"
proof -
  have t: "tree (d_Nodes d)" using c by (rule consistentD)
  from u obtain n where n: "fmlookup (d_Nodes d) (op_ID op) = Some n" "op_ID op \<noteq> root_id"
    by (auto simp: applyRemove_def split: if_splits option.splits)
  obtain p where p: "fmlookup (d_Nodes d) (n_Parent n) = Some p" "op_ID op \<in> set (n_Children p)"
    using tree_parent_lookup [OF t n] .
  obtain i where i: "(kid (d_Nodes d) ^^ i) root_id (n_Parent n)" using treeD(5) [OF t p(1)] by blast
  have np: "n_Parent n \<notin> below (d_Nodes d) (op_ID op)" by (rule parent_not_below [OF t i tree_parent [OF t n]])
  show thesis
    using u by (rule_tac applyRemove_tree [OF c n p(1), of eff]) (auto intro: that [OF n p np])
qed

lemma applyRemove_consistent:
  assumes c: "consistent d" and u: "applyRemove d op eff = Ret (d', eff', None)"
  shows "consistent d'"
  using c u
proof (rule applyRemove_Ret)
  fix n p :: Node and rs
  let ?a = "op_ID op" and ?p = "p\<lparr>n_Children := remove1 (op_ID op) (n_Children p)\<rparr>"
  assume n: "fmlookup (d_Nodes d) ?a = Some n" "?a \<noteq> root_id"
    and p: "fmlookup (d_Nodes d) (n_Parent n) = Some p" "?a \<in> set (n_Children p)"
    and np: "n_Parent n \<notin> below (d_Nodes d) ?a"
    and d': "d_Nodes d' = fmfilter (\<lambda>x. x \<notin> below (d_Nodes d) ?a) (fmupd (n_Parent n) ?p (d_Nodes d))"
    and tx: "d_TotalTextBytes d' = text_bytes (d_Nodes d')"
  have t: "tree (d_Nodes d)" using c by (rule consistentD)
  have ok: "node_ok (n_Parent n) p" "distinct (n_Children p)"
    using treeD(2) [OF t p(1)] by (simp_all add: node_ok_def)
  have up: "kid (d_Nodes d) q ?a \<Longrightarrow> q = n_Parent n" for q
    using kid_parent_unique [OF t _ tree_parent [OF t n]] by blast
  have rootout: "root_id \<notin> below (d_Nodes d) ?a"
    unfolding below_def mem_Collect_eq using treeD(3) [OF t] n(2) by (metis rtranclp.cases)
  have "tree (d_Nodes d')"
  proof (rule tree_cut [OF t n])
    show "kid (d_Nodes d') q c \<longleftrightarrow> kid (d_Nodes d) q c \<and> q \<notin> below (d_Nodes d) ?a \<and> c \<notin> below (d_Nodes d) ?a" for q c
    proof (cases "q \<in> below (d_Nodes d) ?a")
      case False
      then have out: "kid (d_Nodes d) q c \<Longrightarrow> c \<in> below (d_Nodes d) ?a \<longleftrightarrow> c = ?a" using kid_into_below [OF t] by auto
      show ?thesis
      proof (cases "q = n_Parent n")
        case True
        then show ?thesis using np p ok out by (auto simp: kid_def d')
      next
        case other: False
        then show ?thesis using False out up by (auto simp: kid_def d')
      qed
    qed (auto simp: kid_def d')
    show "x \<notin> below (d_Nodes d) ?a \<and>
        (\<exists>m. fmlookup (d_Nodes d) x = Some m \<and> node_ok x m' \<and> n_Parent m' = n_Parent m)"
      if "fmlookup (d_Nodes d') x = Some m'" for x m'
      using that p node_ok_remove1 [OF ok(1)] treeD(2) [OF t] by (auto simp: d' split: if_splits)
    show "root_valid (d_Nodes d')" using treeD(1) [OF t] rootout p by (auto simp: d' root_valid_def)
  qed (auto simp: d')
  moreover have "node_clean x k" if "fmlookup (d_Nodes d') x = Some k" for x k
    using that p consistentD(3) [OF c] node_clean_bare [of ?p p "n_Parent n"] by (auto simp: d' split: if_splits)
  ultimately show ?thesis using tx by (simp add: consistent_def)
qed

end
