(* ===== verification/Atomic.thy ===== *)
theory Atomic
  imports Edits
begin

text \<open>
  The reducer as a whole: an operation is all or nothing, keeps the invariant of the document,
  returns on every document that meets it but for one operation on the root, and only ever
  reports errors the producer may recover from.
\<close>

subsection \<open>Recoverable errors\<close>

text \<open>\<open>soft x\<close>: a check that fails, fails with a recoverable error.\<close>

definition soft :: "Error option \<Rightarrow> bool" where
  "soft x \<longleftrightarrow> (\<forall>e. x = Some e \<longrightarrow> e_Recoverable e)"

lemma soft_simps [simp]: "soft None" "soft (Some e) \<longleftrightarrow> e_Recoverable e"
  by (simp_all add: soft_def)

lemma soft_first_err: "(\<forall>x \<in> set xs. soft x) \<Longrightarrow> soft (first_err xs)"
  by (auto simp: soft_def dest: first_err_Some_in)

lemma soft_scan_unique:
  "(\<And>i x. soft (bd i x)) \<Longrightarrow> (\<And>i x. e_Recoverable (dup i x)) \<Longrightarrow> soft (scan_unique bd dup seen i xs)"
  by (induction xs arbitrary: seen i) (auto simp: soft_def split: option.splits)

lemma soft_optField: "(\<And>v. soft (f v)) \<Longrightarrow> soft (optField p k f)"
  by (simp add: optField_def split: option.split)

lemma recoverable_bad [simp]: "e_Recoverable (bad p m)" "e_Recoverable (unknown_property p m)"
  by (simp_all add: bad_def unknown_property_def)

lemma recoverable_path [simp]: "e_Recoverable (e\<lparr>e_Path := p\<rparr>) = e_Recoverable e"
  by simp

lemma soft_fields [simp]:
  "soft (snd (intField p k mn))" "soft (snd (strField p k))" "soft (boolField p k)"
  "soft (dir_check p)" "soft (border_check p)" "soft (validateEnum p k ks)"
  by (auto simp: intField_def strField_def boolField_def dir_check_def border_check_def validateEnum_def
      Let_def case_prod_beta split: option.splits)

lemma soft_members [simp]:
  "soft (flex_member m k)" "soft (style_member m k)" "soft (column_check i c)" "soft (item_check i c)"
  by (auto simp: flex_member_def style_member_def column_check_def item_check_def Let_def case_prod_beta
      intro!: soft_first_err split: option.splits)

lemma soft_objects [simp]:
  "soft (validateFlex v)" "soft (validateStyle v)" "soft (columns_check v)" "soft (items_check v)"
  by (auto simp: validateFlex_def validateStyle_def columns_check_def items_check_def Let_def
      intro!: soft_first_err split: prod.splits option.splits bool.splits)

lemma soft_rows [simp]: "soft (rows_check p)" "soft (row_ids_check p)"
  by (auto simp: rows_check_def row_ids_check_def Let_def case_prod_beta
      intro!: soft_optField soft_scan_unique)

lemma soft_validateNormalized [simp]: "soft (validateNormalized t p)"
  unfolding validateNormalized_def
  by (rule soft_first_err, cases t) (auto intro!: soft_optField)

lemma recoverable_patch:
  "parse_patch raw = Inl e \<Longrightarrow> e_Recoverable e" "unknown_names t p = Some e \<Longrightarrow> e_Recoverable e" "take_force t p = Inl e \<Longrightarrow> e_Recoverable e"
  by (auto simp: parse_patch_def split: if_splits option.splits bool.splits sum.splits prod.splits)
    (auto simp: unknown_names_def dest!: first_err_Some_in split: if_splits option.splits bool.splits,
     auto simp: take_force_def Let_def split: if_splits option.splits bool.splits sum.splits prod.splits)

lemma recoverable_NormalizeProps: "NormalizeProps t raw full = Inl e \<Longrightarrow> e_Recoverable e"
  using soft_validateNormalized [of t]
  by (auto simp: NormalizeProps_def soft_def Let_def dest: recoverable_patch split: if_splits sum.splits option.splits)

lemma recoverable_MergeNormalized: "MergeNormalized t cur raw = Inl e \<Longrightarrow> e_Recoverable e"
  using soft_validateNormalized [of t]
  by (auto simp: MergeNormalized_def soft_def Let_def dest: recoverable_NormalizeProps
      split: sum.splits option.splits prod.splits)

lemma soft_ValidateOperation [simp]: "soft (ValidateOperation op limits)"
  by (auto simp: ValidateOperation_def soft_def dest: recoverable_NormalizeProps
      split: OpType.splits sum.splits option.splits prod.splits bool.splits)

lemma soft_validateTableLimits [simp]: "soft (validateTableLimits n limits)"
  by (simp add: validateTableLimits_def Let_def)

lemma soft_apply_op:
  assumes "apply_op d op eff limits = Ret (d', eff', err)"
  shows "soft err"
proof -
  have topo: "upsert_topology nodes op n = Ret (Inl e) \<Longrightarrow> e_Recoverable e" for nodes n e
    by (auto simp: upsert_topology_def Let_def split: if_splits option.splits bool.splits)
  have ex: "soft err"
    if u: "upsert_existing d op eff limits m (explicitPropKeys (op_Props op)) n = Ret (d', eff', err)" for eff m n
  proof (cases "upsert_topology (d_Nodes d) op n")
    case (Ret r)
    show ?thesis
    proof (cases r)
      case (Inl e)
      then show ?thesis using u Ret topo by (auto simp: upsert_existing_def)
    next
      case (Inr q)
      obtain nodes1 n1 chg where q: "q = (nodes1, n1, chg)" by (cases q)
      show ?thesis
        using u soft_validateTableLimits [of "upserted op m n1" limits]
        unfolding upsert_existing_eq [OF Ret [unfolded Inr q]] Let_def
        by (auto split: if_splits option.splits)
    qed
  qed (use u in \<open>simp_all add: upsert_existing_def\<close>)
  have new: "upsert_new d op eff limits m k = Ret (d', eff', err) \<Longrightarrow> soft err" for eff m k
    by (auto simp: upsert_new_def Let_def split: if_splits option.splits)
  have props: "applyProps d op eff limits = Ret (d', eff', err) \<Longrightarrow> soft err"
    using soft_validateTableLimits
    by (auto simp: applyProps_def Let_def go_simps soft_def dest: recoverable_MergeNormalized
        split: if_splits sum.splits option.splits)
  show ?thesis
    using assms ex new props
    by (auto simp: apply_op_def applyUpsert_def applyText_def applyRemove_def Let_def go_simps
        dest: recoverable_NormalizeProps
        split: OpType.splits if_splits sum.splits option.splits prod.splits)
qed

text \<open>The validator never reports a broken tree on a tree.\<close>

lemma inv_walk_soft:
  "tree nodes \<Longrightarrow> (kid nodes ^^ k) root_id nid \<Longrightarrow> fmlookup nodes nid \<noteq> None \<Longrightarrow>
     w_visited w \<inter> below nodes nid = {} \<Longrightarrow> w_seen w \<subseteq> w_visited w \<Longrightarrow>
     inv_walk nodes limits depth nid w = Inl e \<Longrightarrow> e_Recoverable e"
  "tree nodes \<Longrightarrow> (kid nodes ^^ k) root_id nid \<Longrightarrow> \<forall>c \<in> set cs. kid nodes nid c \<Longrightarrow> distinct cs \<Longrightarrow>
     \<forall>c \<in> set cs. w_visited w \<inter> below nodes c = {} \<Longrightarrow> w_seen w \<subseteq> w_visited w \<Longrightarrow>
     inv_walk_children nodes limits depth nid cs w = Inl e \<Longrightarrow> e_Recoverable e"
proof (induction nodes limits depth nid w and nodes limits depth nid cs w
    arbitrary: k and k rule: inv_walk_inv_walk_children.induct)
  case (1 nodes limits depth nid w)
  obtain n where n: "fmlookup nodes nid = Some n" using "1.prems"(3) by blast
  have ok: "node_ok nid n" using treeD(2) [OF "1.prems"(1) n] .
  have kids: "kid nodes nid c \<longleftrightarrow> c \<in> set (n_Children n)" for c using n by (simp add: kid_def)
  have fresh: "nid \<notin> w_visited w" "nid \<notin> w_seen w" using "1.prems"(4,5) by auto
  let ?w = "w\<lparr>w_seen := insert nid (w_seen w), w_visited := insert nid (w_visited w)\<rparr>"
  have step: "inv_walk_children nodes limits depth nid (n_Children n) ?w = Inl e \<Longrightarrow> e_Recoverable e"
    if g: "\<not> MaxDepth limits < depth" "\<not> MaxChildren limits < int (length (n_Children n))"
  proof (rule "1.IH" [of ?w n k])
    show "\<forall>c \<in> set (n_Children n). w_visited ?w \<inter> below nodes c = {}"
      using "1.prems"(4) parent_not_below [OF "1.prems"(1,2)] kids below_kid by fastforce
  qed (use 1 fresh n ok kids g in \<open>auto simp: node_ok_def\<close>)
  show ?case
    using "1.prems"(6) n ok fresh step
    by (auto simp: inv_walk.simps [of nodes limits depth nid w] Let_def node_ok_def
        split: if_splits sum.splits)
next
  case (2 nodes limits depth nid w)
  then show ?case by simp
next
  case (3 nodes limits depth nid cid cs w)
  obtain c where c: "fmlookup nodes cid = Some c" "n_Parent c = nid"
    using treeD(4) [OF "3.prems"(1), of nid cid] "3.prems"(3) by auto
  show ?case
  proof (cases "inv_walk nodes limits (depth + 1) cid w")
    case (Inl e')
    with "3.prems"(7) c have e: "e' = e" by simp
    have "(kid nodes ^^ Suc k) root_id cid" using "3.prems"(2,3) by (auto intro: relpowp_Suc_I)
    then show ?thesis
      using "3.IH"(1) [OF c(1) _ "3.prems"(1) _ _ _ "3.prems"(6) Inl [unfolded e], of "Suc k"] c "3.prems"(5)
      by auto
  next
    case (Inr w')
    obtain S where w': "w' = w\<lparr>w_visited := w_visited w \<union> S\<rparr>" and S: "S \<subseteq> below nodes cid"
      using inv_walk_sound(1) [OF Inr "3.prems"(6)] by (auto simp: entered_def)
    have "w_visited w' \<inter> below nodes b = {}" if "b \<in> set cs" for b
      using that "3.prems"(3-5) S siblings_disjoint [OF "3.prems"(1,2), of cid b] by (auto simp: w')
    then show ?thesis
      using "3.IH"(2) [OF c(1) _ Inr "3.prems"(1,2)] "3.prems" c Inr by (auto simp: w')
  qed
qed

lemma soft_validateInvariants:
  assumes t: "tree (d_Nodes d)" and x: "d_TotalTextBytes d = text_bytes (d_Nodes d)"
  shows "soft (validateInvariants d limits)"
proof -
  have soft_walk: "e_Recoverable e" if "inv_walk (d_Nodes d) limits 0 root_id \<lparr>w_seen = {}, w_visited = {}\<rparr> = Inl e" for e
    using inv_walk_soft(1) [OF t _ _ _ _ that, of 0] root_in_tree [OF t] by auto
  have "card (w_visited w) = msize (d_Nodes d)"
    if w: "inv_walk (d_Nodes d) limits 0 root_id \<lparr>w_seen = {}, w_visited = {}\<rparr> = Inr w" for w
  proof -
    obtain S where S: "w_visited w = S" "S \<subseteq> below (d_Nodes d) root_id" "root_id \<in> S" "walked (d_Nodes d) limits S"
      using inv_walk_sound(1) [OF w] by (auto simp: entered_def)
    have "x \<in> S" if "x \<in> below (d_Nodes d) root_id" for x
      using that unfolding below_def mem_Collect_eq
      by (induction rule: rtranclp_induct) (use S(3,4) in \<open>auto simp: walked_def kid_def\<close>)
    with S have "S = fset (fmdom (d_Nodes d))" using below_root [OF t] by blast
    then show ?thesis using S(1) by (simp add: msize_card)
  qed
  then show ?thesis
    using soft_walk treeD(1) [OF t] x
    by (auto simp: validateInvariants_def Let_def split: sum.split)
qed

subsection \<open>All or nothing\<close>

lemma apply_op_consistent:
  assumes c: "consistent d" and v: "ValidateOperation op limits = None"
    and u: "apply_op d op eff limits = Ret (d', eff', None)"
  shows "consistent d'"
proof (cases "op_Op op")
  case OpUpsert
  then have "op_ID op \<noteq> []" using ValidateOperation_upsert [OF v OpUpsert] by metis
  then show ?thesis using applyUpsert_consistent [OF c] u OpUpsert by (simp add: apply_op_def)
next
  case OpProps
  then show ?thesis using applyProps_consistent [OF c] u by (simp add: apply_op_def)
next
  case OpText
  then show ?thesis using applyText_consistent [OF c] u by (simp add: apply_op_def)
next
  case OpRemove
  then show ?thesis using applyRemove_consistent [OF c] u by (simp add: apply_op_def)
qed (use c u in \<open>simp_all add: apply_op_def\<close>)

text \<open>An operation that reports no change made none.\<close>

lemma apply_op_unchanged:
  assumes c: "consistent d" and u: "apply_op d op eff limits = Ret (d', eff', None)"
    and e: "\<not> eff_Changed eff'"
  shows "d' = d"
proof (cases "op_Op op")
  case OpUpsert
  then have a: "applyUpsert d op eff limits = Ret (d', eff', None)" using u by (simp add: apply_op_def)
  then obtain m pol where m: "NormalizeProps (op_Type op) (op_Props op) True = Inr (m, pol)" and r: "op_ID op \<noteq> root_id"
    by (auto simp: applyUpsert_def split: if_splits sum.splits)
  show ?thesis
  proof (cases "fmlookup (d_Nodes d) (op_ID op)")
    case None
    with a m r have "upsert_new d op (eff\<lparr>eff_Policy := pol\<rparr>) limits m (explicitPropKeys (op_Props op)) = Ret (d', eff', None)"
      by (simp add: applyUpsert_def Let_def)
    then show ?thesis using e by (rule_tac upsert_new_nodes) auto
  next
    case (Some n)
    with a m r have x: "upsert_existing d op (eff\<lparr>eff_Policy := pol\<rparr>) limits m (explicitPropKeys (op_Props op)) n = Ret (d', eff', None)"
      by (simp add: applyUpsert_def Let_def)
    show ?thesis using c Some r x by (rule upsert_existing_nodes) (use e in auto)
  qed
next
  case OpProps
  then have "applyProps d op eff limits = Ret (d', eff', None)" using u by (simp add: apply_op_def)
  then show ?thesis using e by (rule_tac applyProps_nodes) auto
next
  case OpText
  then have "applyText d op eff limits = (d', eff', None)" using u by (simp add: apply_op_def)
  then show ?thesis using e by (rule_tac applyText_nodes) auto
next
  case OpRemove
  then have "applyRemove d op eff = Ret (d', eff', None)" using u by (simp add: apply_op_def)
  with c show ?thesis by (rule applyRemove_Ret) (use e in simp)
qed (use u in \<open>simp_all add: apply_op_def\<close>)

text \<open>Every outcome of a call that returns.\<close>

lemma Apply_cases:
  assumes "Apply d op limits = Ret (d', eff', err)"
  obtains
    (refused) e where "err = Some e" "d' = d"
  | (commit) "err = None" "d' = d" "op_Op op = OpCommit" "\<not> eff_Changed eff'" "ValidateOperation op limits = None"
      "eff_Commit eff'"
  | (accepted) cand where "err = None" "ValidateOperation op limits = None" "op_Op op \<noteq> OpCommit"
      "apply_op d op (zero_effect\<lparr>eff_Frame := op_Frame op, eff_ThroughSeq := op_Seq op\<rparr>) limits = Ret (cand, eff', None)"
      "eff_Changed eff' \<Longrightarrow> validateInvariants cand limits = None \<and> d' = cand\<lparr>d_Revision := d_Revision d + 1\<rparr>"
      "\<not> eff_Changed eff' \<Longrightarrow> d' = cand"
  using assms that
  by (auto simp: Apply_def Let_def go_simps zero_effect_def split: option.splits if_splits)

lemma Apply_consistent:
  assumes c: "consistent d" and u: "Apply d op limits = Ret (d', eff', err)"
  shows "consistent d'"
  using u
proof (cases rule: Apply_cases)
  case (accepted cand)
  have "consistent cand" using apply_op_consistent [OF c accepted(2,4)] .
  then show ?thesis using accepted(5,6) by (cases "eff_Changed eff'") (auto simp: consistent_def)
qed (use c in simp_all)

lemma Apply_error_soft:
  assumes c: "consistent d" and u: "Apply d op limits = Ret (d', eff', Some e)"
  shows "e_Recoverable e"
proof (cases "ValidateOperation op limits")
  case None
  let ?eff = "zero_effect\<lparr>eff_Frame := op_Frame op, eff_ThroughSeq := op_Seq op\<rparr>"
  from None u obtain cand eff1 err1 where a: "apply_op d op ?eff limits = Ret (cand, eff1, err1)"
    by (auto simp: Apply_def Let_def go_simps split: if_splits)
  show ?thesis
  proof (cases err1)
    case err: None
    have "soft (validateInvariants cand limits)"
      using apply_op_consistent [OF c None] a err by (auto simp: consistent_def intro: soft_validateInvariants)
    then show ?thesis
      using u None a err by (auto simp: Apply_def Let_def locate_def split: option.splits if_splits)
  next
    case (Some e1)
    then show ?thesis
      using u None a soft_apply_op [OF a] by (auto simp: Apply_def Let_def locate_def split: if_splits)
  qed
next
  case (Some e1)
  then show ?thesis using u soft_ValidateOperation [of op limits] by (auto simp: Apply_def Let_def locate_def)
qed

subsection \<open>The call returns\<close>

lemma upsert_topology_returns:
  assumes "consistent d"
  shows "returns (upsert_topology (d_Nodes d) op n)"
proof -
  let ?T = "if op_Parent op \<noteq> [] then op_Parent op else n_Parent n"
  show ?thesis
  proof (cases "fmlookup (d_Nodes d) ?T")
    case None
    then show ?thesis unfolding upsert_topology_def Let_def by (simp only: option.case returns_Ret if_cancel split: if_split) simp
  next
    case (Some p)
    show ?thesis
      unfolding upsert_topology_def Let_def Some option.case wouldCreateCycle_decides [OF assms Some]
      by (simp only: returns_Ret if_True if_False simp_thms split: if_split bool.split)
  qed
qed

lemma applyUpsert_returns:
  assumes "consistent d"
  shows "returns (applyUpsert d op eff limits)"
proof -
  have "returns (upsert_existing d op eff limits m k n)" for eff m k n
    using upsert_topology_returns [OF assms, of op n]
    by (auto simp: upsert_existing_def Let_def split: sum.split option.split prod.split)
  moreover have "returns (upsert_new d op eff limits m k)" for eff m k
    by (auto simp: upsert_new_def Let_def split: option.split)
  ultimately show ?thesis
    by (auto simp: applyUpsert_def Let_def split: option.split sum.split prod.split)
qed

lemma applyRemove_returns:
  assumes c: "consistent d"
  shows "returns (applyRemove d op eff)"
proof (cases "op_ID op = root_id \<or> fmlookup (d_Nodes d) (op_ID op) = None")
  case False
  then obtain n where n: "fmlookup (d_Nodes d) (op_ID op) = Some n" "op_ID op \<noteq> root_id" by auto
  obtain p where p: "fmlookup (d_Nodes d) (n_Parent n) = Some p" using tree_parent_lookup [OF consistentD(1) [OF c] n] by blast
  show ?thesis by (rule applyRemove_tree [OF c n p, of eff]) simp
qed (auto simp: applyRemove_def)

text \<open>The one operation that panics: \<open>props\<close> on the root, whose explicit-key map is nil.\<close>

definition root_props_panics :: "Document \<Rightarrow> Operation \<Rightarrow> Limits \<Rightarrow> bool" where
  "root_props_panics d op limits \<longleftrightarrow>
     ValidateOperation op limits = None \<and> op_Op op = OpProps \<and> op_ID op = root_id \<and>
     (\<exists>r. MergeNormalized NodeBox (n_Props (node_at (d_Nodes d) root_id)) (op_Props op) = Inr r) \<and>
     explicitPropKeys (op_Props op) \<noteq> fmempty"

lemma applyProps_outcome:
  assumes c: "consistent d" and v: "ValidateOperation op limits = None" "op_Op op = OpProps"
  shows "if root_props_panics d op limits then applyProps d op eff limits = Panic ''assignment to entry in nil map''
    else returns (applyProps d op eff limits)"
proof (cases "fmlookup (d_Nodes d) (op_ID op)")
  case None
  have "op_ID op \<noteq> root_id" using None root_in_tree [OF consistentD(1) [OF c]] by auto
  then show ?thesis using None by (simp add: applyProps_def root_props_panics_def)
next
  case (Some n)
  have nil: "n_ExplicitProps n = None \<longleftrightarrow> op_ID op = root_id"
    using consistentD(3) [OF c Some] by (simp add: node_clean_def)
  have box: "n_Type n = NodeBox" if "op_ID op = root_id"
    using root_in_tree [OF consistentD(1) [OF c]] Some that by auto
  show ?thesis
  proof (cases "n_ExplicitProps n")
    case ex: None
    then show ?thesis
      using Some v nil box
      by (auto simp: applyProps_def root_props_panics_def set_explicit_def Let_def
          split: sum.split option.split)
  next
    case (Some ex)
    then have "op_ID op \<noteq> root_id" using nil by auto
    then show ?thesis
      using \<open>fmlookup _ _ = Some n\<close> Some
      by (auto simp: applyProps_def root_props_panics_def set_explicit_def Let_def
          split: sum.split option.split)
  qed
qed

lemma Apply_outcome:
  assumes c: "consistent d"
  shows "if root_props_panics d op limits then Apply d op limits = Panic ''assignment to entry in nil map''
    else returns (Apply d op limits)"
proof -
  let ?eff = "zero_effect\<lparr>eff_Frame := op_Frame op, eff_ThroughSeq := op_Seq op\<rparr>"
  have after: "returns (apply_op d op ?eff limits) \<Longrightarrow> returns (Apply d op limits)"
    by (auto simp: Apply_def Let_def split: option.split)
  show ?thesis
  proof (cases "ValidateOperation op limits = None \<and> op_Op op = OpProps")
    case True
    then have v: "ValidateOperation op limits = None" "op_Op op = OpProps" by auto
    show ?thesis
      using applyProps_outcome [OF c v, of ?eff] after v
      by (auto simp: Apply_def apply_op_def Let_def split: if_splits)
  next
    case False
    have "returns (apply_op d op ?eff limits)" if "op_Op op \<noteq> OpProps"
      using that applyUpsert_returns [OF c] applyRemove_returns [OF c]
      by (auto simp: apply_op_def split: OpType.split)
    then have "returns (Apply d op limits)"
      using False after by (cases "ValidateOperation op limits") (auto simp: Apply_def Let_def)
    then show ?thesis using False by (auto simp: root_props_panics_def)
  qed
qed

subsection \<open>The invariant is kept\<close>

lemma validateTableLimits_cong:
  "n_Type m' = n_Type m \<Longrightarrow> n_Props m' = n_Props m \<Longrightarrow> validateTableLimits m' limits = validateTableLimits m limits"
  unfolding validateTableLimits_def by (simp only:)

lemma node_limits_bare: "bare m' = bare m \<Longrightarrow> node_limits limits m \<Longrightarrow> node_limits limits m'"
  using bare_eqD [of m' m] validateTableLimits_cong [of m' m] by (simp add: node_limits_def)

definition all_nodes :: "(Node \<Rightarrow> bool) \<Rightarrow> Document \<Rightarrow> bool" where
  "all_nodes P d \<longleftrightarrow> (\<forall>nid n. fmlookup (d_Nodes d) nid = Some n \<longrightarrow> P n)"

lemma applyUpsert_limits:
  assumes c: "consistent d" and l: "all_nodes (node_limits limits) d" "0 \<le> MaxTextBytesPerNode limits"
    and u: "applyUpsert d op eff limits = Ret (d', eff', None)"
  shows "all_nodes (node_limits limits) d'"
proof -
  from u obtain m pol where m: "NormalizeProps (op_Type op) (op_Props op) True = Inr (m, pol)" and r: "op_ID op \<noteq> root_id"
    by (auto simp: applyUpsert_def split: if_splits sum.splits)
  show ?thesis
  proof (cases "fmlookup (d_Nodes d) (op_ID op)")
    case None
    with u m r have "upsert_new d op (eff\<lparr>eff_Policy := pol\<rparr>) limits m (explicitPropKeys (op_Props op)) = Ret (d', eff', None)"
      by (simp add: applyUpsert_def Let_def)
    then show ?thesis
    proof (rule upsert_new_nodes)
      fix p :: Node
      let ?p = "p\<lparr>n_Children := insertChild (n_Children p) (op_ID op) (op_Index op)\<rparr>"
      assume "fmlookup (d_Nodes d) (target_parent op) = Some p"
        "validateTableLimits (created op m (target_parent op)) limits = None"
        "d' = d\<lparr>d_Nodes := fmupd (target_parent op) ?p (fmupd (op_ID op) (created op m (target_parent op)) (d_Nodes d))\<rparr>"
      then show ?thesis
        using l node_limits_bare [of ?p p limits]
        by (auto simp: all_nodes_def node_limits_def created_def split: if_splits)
    qed
  next
    case (Some n)
    with u m r have x: "upsert_existing d op (eff\<lparr>eff_Policy := pol\<rparr>) limits m (explicitPropKeys (op_Props op)) n = Ret (d', eff', None)"
      by (simp add: applyUpsert_def Let_def)
    show ?thesis
      using c Some r x
    proof (rule upsert_existing_nodes)
      fix nodes1 n1 chg
      assume n1: "n1 = n\<lparr>n_Parent := n_Parent n1\<rparr>" and oc: "only_children (d_Nodes d) nodes1"
        and tl: "validateTableLimits (upserted op m n1) limits = None"
        and d': "d' = d\<lparr>d_Nodes := fmupd (op_ID op) (upserted op m n1) nodes1,
          d_TotalTextBytes := d_TotalTextBytes d - (if n_Type n = op_Type op then 0 else int (length (n_Text n)))\<rparr>"
      have "n_Text n1 = n_Text n" by (subst n1) simp
      then have "node_limits limits (upserted op m n1)"
        using tl l Some by (auto simp: node_limits_def all_nodes_def)
      moreover have "node_limits limits k" if "fmlookup nodes1 y = Some k" for y k
        using only_children_Some [OF oc that] l(1) node_limits_bare by (metis all_nodes_def)
      ultimately show ?thesis by (auto simp: all_nodes_def d' split: if_splits)
    qed
  qed
qed

lemma apply_op_limits:
  assumes c: "consistent d" and l: "all_nodes (node_limits limits) d" "0 \<le> MaxTextBytesPerNode limits"
    and e: "\<not> eff_Changed eff" and u: "apply_op d op eff limits = Ret (d', eff', None)"
  shows "all_nodes (node_limits limits) d'"
proof (cases "op_Op op")
  case OpUpsert
  then show ?thesis using applyUpsert_limits [OF c l] u by (simp add: apply_op_def)
next
  case OpProps
  then have a: "applyProps d op eff limits = Ret (d', eff', None)" using u by (simp add: apply_op_def)
  show ?thesis
  proof (cases "eff_Changed eff'")
    case True
    show ?thesis
      using a by (rule applyProps_nodes) (use True e l in \<open>auto simp: all_nodes_def node_limits_def\<close>)
  next
    case False
    then show ?thesis using apply_op_unchanged [OF c u] l by simp
  qed
next
  case OpText
  then have "applyText d op eff limits = (d', eff', None)" using u by (simp add: apply_op_def)
  then show ?thesis
    by (rule applyText_nodes)
      (use l in \<open>cases "op_Text op = []", auto simp: all_nodes_def node_limits_def validateTableLimits_def\<close>)
next
  case OpRemove
  then have "applyRemove d op eff = Ret (d', eff', None)" using u by (simp add: apply_op_def)
  with c show ?thesis
    by (rule applyRemove_Ret)
      (use l in \<open>auto simp: all_nodes_def split: if_splits intro: node_limits_bare [OF bare_children]\<close>)
qed (use l u in \<open>simp_all add: apply_op_def\<close>)

lemma doc_inv_alt: "doc_inv limits d \<longleftrightarrow> consistent d \<and> within_limits d limits \<and> all_nodes (node_limits limits) d"
  by (simp add: doc_inv_def all_nodes_def)

lemma Apply_keeps_inv:
  assumes i: "doc_inv limits d" and l: "0 \<le> MaxTextBytesPerNode limits"
    and u: "Apply d op limits = Ret (d', eff', err)"
  shows "doc_inv limits d'"
  using u
proof (cases rule: Apply_cases)
  case (accepted cand)
  let ?eff = "zero_effect\<lparr>eff_Frame := op_Frame op, eff_ThroughSeq := op_Seq op\<rparr>"
  have c: "consistent d" "all_nodes (node_limits limits) d" using i by (simp_all add: doc_inv_alt)
  show ?thesis
  proof (cases "eff_Changed eff'")
    case True
    then have v: "validateInvariants cand limits = None" and d': "d' = cand\<lparr>d_Revision := d_Revision d + 1\<rparr>"
      using accepted(5) by auto
    have "consistent cand" using apply_op_consistent [OF c(1) accepted(2,4)] .
    moreover have "all_nodes (node_limits limits) cand"
      using apply_op_limits [OF c l _ accepted(4)] by (simp add: zero_effect_def)
    moreover have "within_limits cand limits" using v by (simp add: validateInvariants_spec doc_spec_def)
    ultimately show ?thesis by (simp add: doc_inv_alt d' consistent_def within_limits_def all_nodes_def)
  next
    case False
    then show ?thesis using apply_op_unchanged [OF c(1) accepted(4)] accepted(6) i by simp
  qed
qed (use i in simp_all)

end
