(* ===== verification/Operations.thy ===== *)
theory Operations
  imports Atomic
begin

text \<open>
  What an accepted operation does to the document, stated on the outcome of \<open>Apply\<close>:
  placement and contents after an \<open>upsert\<close>, its idempotence, the exact subtree a
  \<open>remove\<close> takes and that it is never refused, and the text account of \<open>text\<close>.
  The document is also an instance of the machine contract of the prelude.
\<close>

subsection \<open>Placement of an upserted node\<close>

definition upsert_target :: "Node gomap \<Rightarrow> Operation \<Rightarrow> string" where
  "upsert_target nodes op =
     (if op_Parent op \<noteq> [] then op_Parent op
      else case fmlookup nodes (op_ID op) of None \<Rightarrow> root_id | Some n \<Rightarrow> n_Parent n)"

text \<open>The child list of the target after an upsert that names a parent or an index, or that
  creates the node.\<close>

definition placed :: "Node gomap \<Rightarrow> Operation \<Rightarrow> string list" where
  "placed nodes op =
     insertChild (removeChild (n_Children (node_at nodes (upsert_target nodes op))) (op_ID op)) (op_ID op) (op_Index op)"

lemma upsert_topology_place:
  assumes c: "consistent d" and n: "fmlookup (d_Nodes d) (op_ID op) = Some n" "op_ID op \<noteq> root_id"
    and r: "upsert_topology (d_Nodes d) op n = Ret (Inr (nodes1, n1, chg))"
  shows "n_Parent n1 = upsert_target (d_Nodes d) op"
    and "\<exists>tp. fmlookup nodes1 (n_Parent n1) = Some tp \<and> op_ID op \<in> set (n_Children tp) \<and>
        NodeType_Container (n_Type tp) \<and>
        (n_Parent n1 \<noteq> n_Parent n \<or> op_Index op \<noteq> None \<longrightarrow> n_Children tp = placed (d_Nodes d) op)"
proof -
  have t: "tree (d_Nodes d)" using c by (rule consistentD)
  obtain p0 where p0: "fmlookup (d_Nodes d) (n_Parent n) = Some p0" "op_ID op \<in> set (n_Children p0)"
    using tree_parent_lookup [OF t n] .
  have cont: "NodeType_Container (n_Type p0)" using treeD(2) [OF t p0(1)] p0(2) by (auto simp: node_ok_def)
  have T: "upsert_target (d_Nodes d) op = (if op_Parent op \<noteq> [] then op_Parent op else n_Parent n)"
    using n by (simp add: upsert_target_def)
  have old: "upsert_target (d_Nodes d) op = n_Parent n \<and>
      (op_Index op \<noteq> None \<longrightarrow> n_Children (node_at nodes1 (n_Parent n)) = placed (d_Nodes d) op)"
    if "n_Parent n1 = n_Parent n" "\<not> chg \<or> nodes1 = fmupd (n_Parent n) (p0\<lparr>n_Children :=
         insertChild (removeChild (n_Children p0) (op_ID op)) (op_ID op) (op_Index op)\<rparr>) (d_Nodes d)"
  proof -
    have "op_Parent op = [] \<or> op_Parent op = n_Parent n"
      using r that(1) by (auto simp: upsert_topology_def Let_def split: if_splits option.splits bool.splits)
    then have T': "(if op_Parent op \<noteq> [] then op_Parent op else n_Parent n) = n_Parent n" by auto
    then show ?thesis
      using r that p0 unfolding upsert_topology_def Let_def placed_def T T'
      by (auto split: if_splits option.splits bool.splits)
  qed
  have main: "n_Parent n1 = upsert_target (d_Nodes d) op \<and>
      (\<exists>tp. fmlookup nodes1 (n_Parent n1) = Some tp \<and> op_ID op \<in> set (n_Children tp) \<and>
        NodeType_Container (n_Type tp) \<and>
        (n_Parent n1 \<noteq> n_Parent n \<or> op_Index op \<noteq> None \<longrightarrow> n_Children tp = placed (d_Nodes d) op))"
    using c n r
  proof (cases rule: upsert_topology_cases)
    case stay
    then show ?thesis using old p0 cont by auto
  next
    case (reorder p)
    then have "p = p0" using p0 by simp
    then show ?thesis using old reorder cont by auto
  next
    case (move p tn)
    have "op_ID op \<notin> set (n_Children tn)"
      using kid_parent_unique [OF t tree_parent [OF t n], of "op_Parent op"] move(3,4) by (auto simp: kid_def)
    moreover have "op_Parent op \<noteq> []" using consistentD(4) [OF c] move(3) by auto
    ultimately show ?thesis using move T by (auto simp: placed_def)
  qed
  show "n_Parent n1 = upsert_target (d_Nodes d) op" using main ..
  show "\<exists>tp. fmlookup nodes1 (n_Parent n1) = Some tp \<and> op_ID op \<in> set (n_Children tp) \<and>
        NodeType_Container (n_Type tp) \<and>
        (n_Parent n1 \<noteq> n_Parent n \<or> op_Index op \<noteq> None \<longrightarrow> n_Children tp = placed (d_Nodes d) op)"
    using main ..
qed

text \<open>What an accepted upsert stores, for a fresh and for a known id.\<close>

definition upsert_result :: "Node gomap \<Rightarrow> Operation \<Rightarrow> rawProps \<Rightarrow> Node" where
  "upsert_result nodes op m =
     (case fmlookup nodes (op_ID op) of
        None \<Rightarrow> created op m (upsert_target nodes op)
      | Some n \<Rightarrow> upserted op m (n\<lparr>n_Parent := upsert_target nodes op\<rparr>))"

definition repositions :: "Node gomap \<Rightarrow> Operation \<Rightarrow> bool" where
  "repositions nodes op \<longleftrightarrow>
     (case fmlookup nodes (op_ID op) of
        None \<Rightarrow> True
      | Some n \<Rightarrow> upsert_target nodes op \<noteq> n_Parent n \<or> op_Index op \<noteq> None)"

lemma applyUpsert_effect:
  assumes c: "consistent d" and ne: "op_ID op \<noteq> []" and u: "applyUpsert d op eff limits = Ret (d', eff', None)"
  obtains m pol tp where "NormalizeProps (op_Type op) (op_Props op) True = Inr (m, pol)" "op_ID op \<noteq> root_id"
    "fmlookup (d_Nodes d') (op_ID op) = Some (upsert_result (d_Nodes d) op m)"
    "fmlookup (d_Nodes d') (upsert_target (d_Nodes d) op) = Some tp" "op_ID op \<in> set (n_Children tp)"
    "NodeType_Container (n_Type tp)"
    "repositions (d_Nodes d) op \<Longrightarrow> n_Children tp = placed (d_Nodes d) op"
    "\<And>x. x \<noteq> op_ID op \<Longrightarrow> map_option bare (fmlookup (d_Nodes d') x) = map_option bare (fmlookup (d_Nodes d) x)"
    "validateTableLimits (upsert_result (d_Nodes d) op m) limits = None" "d_Revision d' = d_Revision d"
proof -
  from u obtain m pol where m: "NormalizeProps (op_Type op) (op_Props op) True = Inr (m, pol)" and r: "op_ID op \<noteq> root_id"
    by (auto simp: applyUpsert_def split: if_splits sum.splits)
  have t: "tree (d_Nodes d)" using c by (rule consistentD)
  show thesis
  proof (cases "fmlookup (d_Nodes d) (op_ID op)")
    case None
    with u m r have x: "upsert_new d op (eff\<lparr>eff_Policy := pol\<rparr>) limits m (explicitPropKeys (op_Props op)) = Ret (d', eff', None)"
      by (simp add: applyUpsert_def Let_def)
    have T: "upsert_target (d_Nodes d) op = target_parent op" using None by (simp add: upsert_target_def target_parent_def)
    have fresh: "op_ID op \<notin> set (n_Children p)" if "fmlookup (d_Nodes d) q = Some p" for p q
      using treeD(4) [OF t, of q "op_ID op"] that None by (auto simp: kid_def)
    show thesis
      using x
    proof (rule upsert_new_nodes)
      fix p :: Node
      let ?p = "p\<lparr>n_Children := insertChild (n_Children p) (op_ID op) (op_Index op)\<rparr>"
      assume p: "fmlookup (d_Nodes d) (target_parent op) = Some p" "NodeType_Container (n_Type p)"
        and tl: "validateTableLimits (created op m (target_parent op)) limits = None"
        and d': "d' = d\<lparr>d_Nodes := fmupd (target_parent op) ?p (fmupd (op_ID op) (created op m (target_parent op)) (d_Nodes d))\<rparr>"
      have "target_parent op \<noteq> op_ID op" using p(1) None by auto
      then show thesis
        using p d' fresh [OF p(1)] None T tl
        by (intro that [OF m r, of ?p]) (auto simp: upsert_result_def placed_def)
    qed
  next
    case (Some n)
    with u m r have x: "upsert_existing d op (eff\<lparr>eff_Policy := pol\<rparr>) limits m (explicitPropKeys (op_Props op)) n = Ret (d', eff', None)"
      by (simp add: applyUpsert_def Let_def)
    show thesis
      using c Some r x
    proof (rule upsert_existing_nodes)
      fix nodes1 n1 chg
      assume tp: "upsert_topology (d_Nodes d) op n = Ret (Inr (nodes1, n1, chg))"
        and tl: "validateTableLimits (upserted op m n1) limits = None"
        and n1: "n1 = n\<lparr>n_Parent := n_Parent n1\<rparr>" and oc: "only_children (d_Nodes d) nodes1"
        and d': "d' = d\<lparr>d_Nodes := fmupd (op_ID op) (upserted op m n1) nodes1,
          d_TotalTextBytes := d_TotalTextBytes d - (if n_Type n = op_Type op then 0 else int (length (n_Text n)))\<rparr>"
      note place = upsert_topology_place [OF c Some r tp]
      obtain q where q: "fmlookup nodes1 (n_Parent n1) = Some q" "op_ID op \<in> set (n_Children q)"
          "NodeType_Container (n_Type q)"
          "n_Parent n1 \<noteq> n_Parent n \<or> op_Index op \<noteq> None \<longrightarrow> n_Children q = placed (d_Nodes d) op"
        using place(2) by blast
      have "n_Parent n1 \<noteq> op_ID op"
        using upsert_topology_frame [OF c Some r tp] q(1,2) tree_not_own_kid [OF t, of "op_ID op"] Some
        by (auto simp: kid_def)
      moreover have "upsert_result (d_Nodes d) op m = upserted op m n1"
        using Some n1 place(1) by (simp add: upsert_result_def)
      ultimately show thesis
        using q d' place(1) tl only_children_lookup [OF oc] Some
        by (intro that [OF m r, of q]) (auto simp: repositions_def)
    qed
  qed
qed

subsection \<open>upsert is idempotent\<close>

lemma insertChild_again: "nid \<notin> set cs \<Longrightarrow>
   insertChild (removeChild (insertChild cs nid i) nid) nid i = insertChild cs nid i"
  by (simp add: removeChild_insertChild)

text \<open>An upsert that finds the node as it would store it, placed as it would place it, changes
  nothing.\<close>

lemma upsert_existing_settled:
  assumes c: "consistent d" and n: "fmlookup (d_Nodes d) (op_ID op) = Some n" "op_ID op \<noteq> root_id"
    and same: "upserted op m n = n" "op_Parent op = [] \<or> op_Parent op = n_Parent n"
    and p: "fmlookup (d_Nodes d) (n_Parent n) = Some p" "NodeType_Container (n_Type p)"
      "op_Index op \<noteq> None \<Longrightarrow> n_Children p =
         insertChild (removeChild (n_Children p) (op_ID op)) (op_ID op) (op_Index op)"
    and tl: "validateTableLimits n limits = None"
  shows "upsert_existing d op eff limits m (explicitPropKeys (op_Props op)) n = Ret (d, eff, None)"
proof -
  have t: "tree (d_Nodes d)" using c by (rule consistentD)
  obtain i where i: "(kid (d_Nodes d) ^^ i) root_id (n_Parent n)" using treeD(5) [OF t p(1)] by blast
  have "n_Parent n \<notin> below (d_Nodes d) (op_ID op)" by (rule parent_not_below [OF t i tree_parent [OF t n]])
  then have cyc: "wouldCreateCycle (d_Nodes d) (op_ID op) (n_Parent n) = Some False"
    using wouldCreateCycle_decides [OF c p(1)] by simp
  have T: "(if op_Parent op \<noteq> [] then op_Parent op else n_Parent n) = n_Parent n" using same(2) by auto
  have top: "upsert_topology (d_Nodes d) op n = Ret (Inr (d_Nodes d, n, False))"
    unfolding upsert_topology_def Let_def T using p cyc by simp
  moreover have "n_Type n = op_Type op" using same(1) upserted_same_iff by metis
  ultimately show ?thesis using same(1) tl by (simp add: upsert_existing_eq [OF top] Let_def)
qed

lemma removeChild_twice [simp]: "removeChild (removeChild cs a) a = removeChild cs a"
  by (simp add: removeChild_def)

lemma upserted_again [simp]: "upserted op m (upserted op m n) = upserted op m n"
  by (simp add: upserted_same_iff)

lemma upserted_created [simp]: "upserted op m (created op m p) = created op m p"
  by (simp add: upserted_same_iff created_def)

lemma applyUpsert_again:
  assumes c: "consistent d" and ne: "op_ID op \<noteq> []" and u: "applyUpsert d op eff limits = Ret (d', eff', None)"
    and e: "\<not> eff_Changed eff2" and same: "consistent d2" "d_Nodes d2 = d_Nodes d'"
  shows "\<exists>eff3. applyUpsert d2 op eff2 limits = Ret (d2, eff3, None) \<and> \<not> eff_Changed eff3"
  using c ne u
proof (rule applyUpsert_effect)
  fix m pol and tp :: Node
  let ?n = "upsert_result (d_Nodes d) op m" and ?T = "upsert_target (d_Nodes d) op"
  assume m: "NormalizeProps (op_Type op) (op_Props op) True = Inr (m, pol)" and r: "op_ID op \<noteq> root_id"
    and n: "fmlookup (d_Nodes d') (op_ID op) = Some ?n"
    and tp: "fmlookup (d_Nodes d') ?T = Some tp" "op_ID op \<in> set (n_Children tp)" "NodeType_Container (n_Type tp)"
    and place: "repositions (d_Nodes d) op \<Longrightarrow> n_Children tp = placed (d_Nodes d) op"
    and tl: "validateTableLimits ?n limits = None"
  have par: "n_Parent ?n = ?T"
    by (auto simp: upsert_result_def created_def split: option.split)
  have "upsert_existing d2 op (eff2\<lparr>eff_Policy := pol\<rparr>) limits m (explicitPropKeys (op_Props op)) ?n =
      Ret (d2, eff2\<lparr>eff_Policy := pol\<rparr>, None)"
  proof (rule upsert_existing_settled [OF same(1) n [folded same(2)] r])
    show "upserted op m ?n = ?n" by (simp add: upsert_result_def split: option.split)
    show "op_Parent op = [] \<or> op_Parent op = n_Parent ?n" by (simp add: par upsert_target_def)
    show "fmlookup (d_Nodes d2) (n_Parent ?n) = Some tp" "NodeType_Container (n_Type tp)"
      using tp par same by simp_all
    show "n_Children tp = insertChild (removeChild (n_Children tp) (op_ID op)) (op_ID op) (op_Index op)"
      if "op_Index op \<noteq> None"
    proof -
      have "repositions (d_Nodes d) op" using that by (simp add: repositions_def split: option.split)
      then show ?thesis by (simp add: place placed_def insertChild_again)
    qed
  qed (use tl in simp)
  then show ?thesis using m r n e same by (simp add: applyUpsert_def Let_def)
qed

subsection \<open>remove is never refused\<close>

lemma msum_le_filter:
  assumes le: "\<And>k v'. fmlookup m' k = Some v' \<Longrightarrow> \<exists>v. fmlookup m k = Some v \<and> f k v' \<le> f k v"
    and nn: "\<And>k v. fmlookup m k = Some v \<Longrightarrow> 0 \<le> f k v"
  shows "msum f m' \<le> msum f m"
proof -
  have sub: "fset (fmdom m') \<subseteq> fset (fmdom m)" using le by (auto simp: lookup_simps) blast
  have "msum f m' \<le> (\<Sum>k \<in> fset (fmdom m'). f k (the (fmlookup m k)))"
    unfolding msum_def
  proof (rule sum_mono)
    fix k assume "k \<in> fset (fmdom m')"
    then obtain v' where "fmlookup m' k = Some v'" by (auto simp: lookup_simps)
    then show "f k (the (fmlookup m' k)) \<le> f k (the (fmlookup m k))" using le by fastforce
  qed
  also have "\<dots> \<le> msum f m"
    unfolding msum_def by (rule sum_mono2) (use sub nn in \<open>auto simp: lookup_simps\<close>)
  finally show ?thesis .
qed

lemma node_bytes_nonneg: "0 \<le> node_bytes x n"
proof -
  have "0 \<le> sum_list (map (\<lambda>c. int (length c)) cs)" for cs :: "string list" by (induction cs) auto
  moreover have "0 \<le> msum (\<lambda>k v. int (length k) + int (length v)) m" for m :: rawProps
    by (rule msum_nonneg) simp
  moreover have "0 \<le> msum (\<lambda>k ex. if ex then int (length k) + 1 else 0) m" for m :: "bool gomap"
    by (rule msum_nonneg) simp
  ultimately show ?thesis by (simp add: node_bytes_def split: option.split)
qed

lemma node_bytes_remove1: "node_bytes x (p\<lparr>n_Children := remove1 a (n_Children p)\<rparr>) \<le> node_bytes x p"
proof -
  have "sum_list (map (\<lambda>c. int (length c)) (remove1 a cs)) \<le> sum_list (map (\<lambda>c. int (length c)) cs)" for cs :: "string list"
    by (induction cs) auto
  then show ?thesis by (simp add: node_bytes_def)
qed

lemma applyRemove_within:
  assumes c: "consistent d" and w: "within_limits d limits" and u: "applyRemove d op eff = Ret (d', eff', None)"
  shows "within_limits d' limits"
  using c u
proof (rule applyRemove_Ret)
  fix n p :: Node and rs
  let ?a = "op_ID op" and ?p = "p\<lparr>n_Children := remove1 (op_ID op) (n_Children p)\<rparr>"
  assume p: "fmlookup (d_Nodes d) (n_Parent n) = Some p"
    and d': "d_Nodes d' = fmfilter (\<lambda>x. x \<notin> below (d_Nodes d) ?a) (fmupd (n_Parent n) ?p (d_Nodes d))"
    and tx: "d_TotalTextBytes d' = text_bytes (d_Nodes d')"
  have old: "\<exists>m. fmlookup (d_Nodes d) x = Some m \<and> (m' = m \<or> m' = m\<lparr>n_Children := remove1 ?a (n_Children m)\<rparr>)"
    if "fmlookup (d_Nodes d') x = Some m'" for x m'
    using that p by (auto simp: d' split: if_splits)
  have kids: "kid (d_Nodes d') q c \<Longrightarrow> kid (d_Nodes d) q c" for q c
  proof -
    assume "kid (d_Nodes d') q c"
    then obtain m' where m': "fmlookup (d_Nodes d') q = Some m'" "c \<in> set (n_Children m')" by (auto simp: kid_def)
    then show ?thesis using old [OF m'(1)] by (auto simp: kid_def dest: subsetD [OF set_remove1_subset])
  qed
  have "(kid (d_Nodes d') ^^ k) root_id x \<Longrightarrow> (kid (d_Nodes d) ^^ k) root_id x" for k x
    by (erule relpowp_mono [rotated]) (rule kids)
  moreover have "msize (d_Nodes d') \<le> msize (d_Nodes d)"
    unfolding msize_card using old by (intro card_mono) (auto simp: lookup_simps, blast)
  moreover have "int (length (n_Children m')) \<le> MaxChildren limits" if look: "fmlookup (d_Nodes d') x = Some m'" for x m'
  proof -
    obtain m where "fmlookup (d_Nodes d) x = Some m" "length (n_Children m') \<le> length (n_Children m)"
      using old [OF look] by (auto simp: length_remove1)
    then show ?thesis using w by (fastforce simp: within_limits_def)
  qed
  moreover have "document_bytes (d_Nodes d') \<le> document_bytes (d_Nodes d)"
    unfolding document_bytes_def
    by (rule msum_le_filter) (use old node_bytes_remove1 node_bytes_nonneg in fastforce)+
  moreover have "text_bytes (d_Nodes d') \<le> text_bytes (d_Nodes d)"
    unfolding text_bytes_def by (rule msum_le_filter) (use old in fastforce)+
  ultimately show ?thesis using w tx consistentD(2) [OF c] by (force simp: within_limits_def)
qed

subsection \<open>The document as a machine\<close>

text \<open>The producer's view: a call that does not return leaves the document as it was.\<close>

definition doc_step :: "Limits \<Rightarrow> Document \<Rightarrow> Operation \<Rightarrow> Document" where
  "doc_step limits d op = (case Apply d op limits of Ret (d', _, _) \<Rightarrow> d' | _ \<Rightarrow> d)"

lemma New_Document_props: "n_Props (node_at (d_Nodes New_Document) root_id) = defaults NodeBox"
proof -
  have n: "NormalizeProps NodeBox ''{}'' True = Inr (fmadd (defaults NodeBox) fmempty, no_policy)"
  proof -
    have p: "parse_patch ''{}'' = Inr fmempty" by code_simp
    have u: "unknown_names NodeBox fmempty = None" by (simp only: unknown_names_None) simp
    show ?thesis
      using defaults_valid [of NodeBox]
      by (simp add: NormalizeProps_def p u take_force_def Let_def)
  qed
  show ?thesis by (simp add: New_Document_def n)
qed

definition room_for_root :: "Limits \<Rightarrow> bool" where
  "room_for_root limits \<longleftrightarrow> limits_ok limits \<and> document_bytes (d_Nodes New_Document) \<le> MaxDocumentBytes limits"

definition doc_start :: "Limits \<Rightarrow> Document \<Rightarrow> bool" where
  "doc_start limits d \<longleftrightarrow> d = New_Document \<and> room_for_root limits"

definition doc_good :: "Limits \<Rightarrow> Document \<Rightarrow> bool" where
  "doc_good limits d \<longleftrightarrow> limits_ok limits \<and> doc_inv limits d"

lemma New_Document_inv:
  assumes "room_for_root limits"
  shows "doc_inv limits New_Document"
proof -
  let ?r = "\<lparr>n_ID = root_id, n_Type = NodeBox, n_Parent = [], n_Children = [], n_Props = defaults NodeBox,
      n_ExplicitProps = None, n_Text = []\<rparr>"
  have nodes: "d_Nodes New_Document = fmupd root_id ?r fmempty"
    using New_Document_props by (simp add: New_Document_def)
  have d: "d_TotalTextBytes New_Document = 0" by (simp add: New_Document_def)
  have kids: "\<not> kid (fmupd root_id ?r fmempty) p c" for p c by (simp add: kid_def)
  have pow: "(kid (fmupd root_id ?r fmempty) ^^ k) root_id x \<longleftrightarrow> k = 0 \<and> x = root_id" for k x
    using kids by (cases k) (auto elim: relpowp_Suc_E)
  have "tree (fmupd root_id ?r fmempty)"
    by (auto simp: tree_def root_valid_def node_ok_def kids pow split: if_splits)
  moreover have "node_clean root_id ?r"
    using defaults_valid [of NodeBox] defaults_names [of NodeBox] by (simp add: node_clean_def)
  ultimately have "consistent New_Document"
    by (auto simp: consistent_def nodes d text_bytes_def msum_fmupd split: if_splits)
  moreover have "within_limits New_Document limits"
    using assms pow by (auto simp: within_limits_def nodes d room_for_root_def limits_ok_simps msize_fmupd split: if_splits)
  moreover have "all_nodes (node_limits limits) New_Document"
    using assms by (auto simp: all_nodes_def nodes node_limits_def validateTableLimits_def room_for_root_def limits_ok_simps split: if_splits)
  ultimately show ?thesis by (simp add: doc_inv_alt)
qed

interpretation docm: machine "doc_start limits" "doc_step limits" "doc_good limits"
proof
  show "doc_start limits d \<Longrightarrow> doc_good limits d" for d
    using New_Document_inv by (simp add: doc_start_def doc_good_def room_for_root_def)
  show "doc_good limits (doc_step limits d op)" if "doc_good limits d" for d op
  proof -
    have "0 \<le> MaxTextBytesPerNode limits" "doc_inv limits d"
      using that by (simp_all add: doc_good_def limits_ok_simps)
    then show ?thesis
      using that Apply_keeps_inv [of limits d op] by (auto simp: doc_step_def doc_good_def split: go.split)
  qed
qed

subsection \<open>A sample document\<close>

text \<open>The operations the witnesses run: a column with a text, a table and an input.\<close>

definition base_op :: Operation where
  "base_op = \<lparr>op_V = 1, op_Seq = 1, op_Op = OpUpsert, op_ID = ''a'', op_Type = NodeBox, op_Parent = [],
     op_Index = None, op_Text = [], op_Frame = ''f'', op_Props = []\<rparr>"

definition sample_ops :: "Operation list" where
  "sample_ops =
     [base_op,
      base_op\<lparr>op_Seq := 2, op_ID := ''t'', op_Type := NodeText, op_Parent := ''a''\<rparr>,
      base_op\<lparr>op_Seq := 3, op_ID := ''t'', op_Op := OpText, op_Text := ''hi''\<rparr>,
      base_op\<lparr>op_Seq := 4, op_ID := ''i'', op_Type := NodeInput, op_Parent := ''a'', op_Index := Some 0\<rparr>]"

definition sample_doc :: Document where
  "sample_doc = run_steps (doc_step DefaultLimits) New_Document sample_ops"

lemma room_DefaultLimits: "room_for_root DefaultLimits"
  unfolding room_for_root_def by (intro conjI) code_simp+

lemma sample_inv: "doc_inv DefaultLimits sample_doc"
  using docm.inv_from_start [of DefaultLimits New_Document sample_ops] room_DefaultLimits
  by (simp add: doc_start_def sample_doc_def doc_good_def)

lemma DefaultLimits_ok: "limits_ok DefaultLimits"
  using room_DefaultLimits by (simp add: room_for_root_def)

subsection \<open>Properties\<close>

text \<open>C1. The reducer keeps the invariant of the document, whatever the operation and whether it
  is accepted or refused: the node map stays a tree rooted at \<open>root\<close> with matching parent
  and child links, every node keeps a validated property map, the retained-text account equals
  the text held, and every limit holds.\<close>

theorem Apply_preserves_invariant:
  assumes "limits_ok limits" "doc_inv limits d" "Apply d op limits = Ret (d', eff, err)"
  shows "doc_inv limits d'"
  using Apply_keeps_inv [OF assms(2) _ assms(3)] assms(1) by (simp add: limits_ok_simps)

theorem Apply_preserves_invariant_witness:
  "\<exists>d' eff. Apply sample_doc (base_op\<lparr>op_ID := ''b''\<rparr>) DefaultLimits = Ret (d', eff, None) \<and>
     d_Revision d' = 5 \<and> doc_inv DefaultLimits d'"
proof -
  have "case Apply sample_doc (base_op\<lparr>op_ID := ''b''\<rparr>) DefaultLimits of
      Ret (d', eff, err) \<Rightarrow> err = None \<and> d_Revision d' = 5 | _ \<Rightarrow> False" by code_simp
  then obtain d' eff where "Apply sample_doc (base_op\<lparr>op_ID := ''b''\<rparr>) DefaultLimits = Ret (d', eff, None)"
      "d_Revision d' = 5" by (auto split: go.splits)
  then show ?thesis using Apply_preserves_invariant [OF DefaultLimits_ok sample_inv] by blast
qed

text \<open>C7. An operation is all or nothing: a refused operation leaves the document as it was, an
  accepted one that reports no change leaves it too, and one that reports a change advances the
  revision by one (modulo 2 to the 64).\<close>

theorem Apply_all_or_nothing:
  assumes "doc_inv limits d" "Apply d op limits = Ret (d', eff, err)"
  shows "if err = None \<and> eff_Changed eff then d_Revision d' = d_Revision d + 1 else d' = d"
  using assms(2)
proof (cases rule: Apply_cases)
  case (accepted cand)
  have "consistent d" using assms(1) by (simp add: doc_inv_def)
  then show ?thesis using accepted apply_op_unchanged [of d op _ limits cand eff] by auto
qed simp_all

theorem Apply_all_or_nothing_witness:
  "\<exists>d' eff e. Apply sample_doc (base_op\<lparr>op_Op := OpRemove, op_ID := root_id\<rparr>) DefaultLimits = Ret (d', eff, Some e) \<and>
     d' = sample_doc"
proof -
  let ?op = "base_op\<lparr>op_Op := OpRemove, op_ID := root_id\<rparr>"
  have "case Apply sample_doc ?op DefaultLimits of Ret (d', eff, err) \<Rightarrow> err \<noteq> None | _ \<Rightarrow> False" by code_simp
  then obtain d' eff e where r: "Apply sample_doc ?op DefaultLimits = Ret (d', eff, Some e)" by (auto split: go.splits)
  then show ?thesis using Apply_all_or_nothing [OF sample_inv r] by auto
qed

text \<open>C8. On a document that meets the invariant the reducer never loops, and it panics in one
  case only: a valid \<open>props\<close> operation on the root that names a property (the explicit-key
  map of the root is nil). Every other operation returns a document or an error.\<close>

theorem Apply_returns_or_root_props:
  assumes "doc_inv limits d"
  shows "if root_props_panics d op limits then Apply d op limits = Panic ''assignment to entry in nil map''
    else (\<exists>r. Apply d op limits = Ret r)"
  using Apply_outcome [of d op limits] assms unfolding doc_inv_def returns_def by blast

theorem Apply_returns_or_root_props_witness:
  \<open>Apply sample_doc (base_op\<lparr>op_Op := OpProps, op_ID := root_id, op_Props := ''{"gap":1}''\<rparr>) DefaultLimits =
     Panic ''assignment to entry in nil map''\<close>
proof -
  let ?op = \<open>base_op\<lparr>op_Op := OpProps, op_ID := root_id, op_Props := ''{"gap":1}''\<rparr>\<close>
  have "ValidateOperation ?op DefaultLimits = None" by code_simp
  moreover have "case MergeNormalized NodeBox (n_Props (node_at (d_Nodes sample_doc) root_id)) (op_Props ?op) of
      Inl _ \<Rightarrow> False | Inr _ \<Rightarrow> True" by code_simp
  moreover have "explicitPropKeys (op_Props ?op) \<noteq> fmempty" by code_simp
  ultimately have "root_props_panics sample_doc ?op DefaultLimits"
    by (auto simp: root_props_panics_def base_op_def split: sum.splits)
  then show ?thesis using Apply_returns_or_root_props [OF sample_inv, of ?op] by simp
qed

text \<open>Every error the reducer reports on a document that meets the invariant is recoverable:
  the unrecoverable internal errors of the validator (a cycle, an orphan, a broken parent
  link, a text account that does not match) cannot be reached by any operation.\<close>

lemma Apply_errors_recoverable:
  assumes "doc_inv limits d" "Apply d op limits = Ret (d', eff, Some e)"
  shows "e_Recoverable e"
  using Apply_error_soft [OF _ assms(2)] assms(1) by (simp add: doc_inv_def)

text \<open>C33. A \<open>remove\<close> of a known node other than the root is never refused (it cannot exceed
  a limit), and it takes exactly the subtree of the node: the ids reported are that subtree,
  each once; they are gone from the document; every other node keeps all its fields, but for
  the link in the parent.\<close>

theorem Apply_remove_exact:
  assumes i: "doc_inv limits d" and v: "ValidateOperation op limits = None" "op_Op op = OpRemove"
    and k: "fmlookup (d_Nodes d) (op_ID op) \<noteq> None" "op_ID op \<noteq> root_id"
  shows "\<exists>d' eff. Apply d op limits = Ret (d', eff, None) \<and> eff_Changed eff \<and>
    distinct (eff_Removed eff) \<and> set (eff_Removed eff) = below (d_Nodes d) (op_ID op) \<and>
    (\<forall>x \<in> below (d_Nodes d) (op_ID op). fmlookup (d_Nodes d') x = None) \<and>
    (\<forall>x. x \<notin> below (d_Nodes d) (op_ID op) \<longrightarrow>
       map_option (\<lambda>n. n\<lparr>n_Children := removeChild (n_Children n) (op_ID op)\<rparr>) (fmlookup (d_Nodes d) x)
       = fmlookup (d_Nodes d') x)"
proof -
  have c: "consistent d" and w: "within_limits d limits" using i by (simp_all add: doc_inv_def)
  have t: "tree (d_Nodes d)" using c by (rule consistentD)
  let ?eff = "zero_effect\<lparr>eff_Frame := op_Frame op, eff_ThroughSeq := op_Seq op\<rparr>"
  from k obtain n where n: "fmlookup (d_Nodes d) (op_ID op) = Some n" by blast
  obtain p where p: "fmlookup (d_Nodes d) (n_Parent n) = Some p" using tree_parent_lookup [OF t n k(2)] by blast
  obtain d' rs where a: "applyRemove d op ?eff = Ret (d', ?eff\<lparr>eff_Removed := eff_Removed ?eff @ rs, eff_Changed := True\<rparr>, None)"
      and rs: "set rs = below (d_Nodes d) (op_ID op)" "distinct rs"
      and d': "d_Nodes d' = fmfilter (\<lambda>x. x \<notin> below (d_Nodes d) (op_ID op))
       (fmupd (n_Parent n) (p\<lparr>n_Children := remove1 (op_ID op) (n_Children p)\<rparr>) (d_Nodes d))"
    by (rule applyRemove_tree [OF c n k(2) p, of ?eff])
  have "validateInvariants d' limits = None"
    using applyRemove_consistent [OF c a] applyRemove_within [OF c w a]
    by (simp add: consistent_def doc_spec_def validateInvariants_spec)
  then have r: "Apply d op limits = Ret (d'\<lparr>d_Revision := d_Revision d + 1\<rparr>,
      ?eff\<lparr>eff_Removed := eff_Removed ?eff @ rs, eff_Changed := True\<rparr>, None)"
    using v a by (simp add: Apply_def apply_op_def Let_def)
  have other: "op_ID op \<notin> set (n_Children m)" if "fmlookup (d_Nodes d) x = Some m" "x \<noteq> n_Parent n" for x m
    using kid_parent_unique [OF t tree_parent [OF t n k(2)], of x] that by (auto simp: kid_def)
  have "distinct (n_Children p)" using treeD(2) [OF t p] by (simp add: node_ok_def)
  then have rem: "removeChild (n_Children p) (op_ID op) = remove1 (op_ID op) (n_Children p)"
    by (simp add: removeChild_def distinct_remove1_removeAll removeAll_filter_not_eq eq_commute)
  have "map_option (\<lambda>n. n\<lparr>n_Children := removeChild (n_Children n) (op_ID op)\<rparr>) (fmlookup (d_Nodes d) x)
       = fmlookup (d_Nodes d') x" if "x \<notin> below (d_Nodes d) (op_ID op)" for x
    using that other p rem by (cases "fmlookup (d_Nodes d) x") (auto simp: d')
  then show ?thesis using r rs by (auto simp: d' zero_effect_def)
qed

theorem Apply_remove_exact_witness:
  "\<exists>d' eff. Apply sample_doc (base_op\<lparr>op_Op := OpRemove\<rparr>) DefaultLimits = Ret (d', eff, None) \<and>
     distinct (eff_Removed eff) \<and> set (eff_Removed eff) = below (d_Nodes sample_doc) ''a''"
proof -
  let ?op = "base_op\<lparr>op_Op := OpRemove\<rparr>"
  have "ValidateOperation ?op DefaultLimits = None" "op_Op ?op = OpRemove"
    "fmlookup (d_Nodes sample_doc) (op_ID ?op) \<noteq> None" "op_ID ?op \<noteq> root_id" by code_simp+
  from Apply_remove_exact [OF sample_inv this] show ?thesis by (auto simp: base_op_def)
qed

text \<open>C34. An accepted \<open>upsert\<close> stores the node it names: its type, the defaults of the type
  overlaid with the properties given, exactly the given names as explicit, the text of a known
  node of the same type and none otherwise, its old children, and the parent asked for (else the
  old one, else the root). The parent is a container that lists the node once, at the index
  asked for and without reordering its other children; no other node changes in any field but
  its child list.\<close>

theorem Apply_upsert_stores:
  assumes i: "doc_inv limits d" and v: "op_Op op = OpUpsert" and a: "Apply d op limits = Ret (d', eff, None)"
  shows "\<exists>m pol tp. NormalizeProps (op_Type op) (op_Props op) True = Inr (m, pol) \<and>
    fmlookup (d_Nodes d') (op_ID op) = Some (upsert_result (d_Nodes d) op m) \<and>
    fmlookup (d_Nodes d') (upsert_target (d_Nodes d) op) = Some tp \<and>
    NodeType_Container (n_Type tp) \<and> op_ID op \<in> set (n_Children tp) \<and> distinct (n_Children tp) \<and>
    (repositions (d_Nodes d) op \<longrightarrow> n_Children tp = placed (d_Nodes d) op) \<and>
    (\<forall>x. x \<noteq> op_ID op \<longrightarrow> map_option bare (fmlookup (d_Nodes d') x) = map_option bare (fmlookup (d_Nodes d) x))"
  using a
proof (cases rule: Apply_cases)
  case (accepted cand)
  have c: "consistent d" using i by (simp add: doc_inv_def)
  have ne: "op_ID op \<noteq> []" using ValidateOperation_upsert [OF accepted(2) v] by metis
  have nodes: "d_Nodes d' = d_Nodes cand" using accepted(5,6) by (cases "eff_Changed eff") auto
  have u: "applyUpsert d op (zero_effect\<lparr>eff_Frame := op_Frame op, eff_ThroughSeq := op_Seq op\<rparr>) limits = Ret (cand, eff, None)"
    using accepted(4) v by (simp add: apply_op_def)
  have "distinct (n_Children tp)" if "fmlookup (d_Nodes d') x = Some tp" for x tp
    using treeD(2) [OF consistentD(1) [OF Apply_consistent [OF c a]] that] by (simp add: node_ok_def)
  then show ?thesis
    using c ne u nodes by (rule_tac applyUpsert_effect) auto
qed (use v in simp_all)

theorem Apply_upsert_stores_witness:
  "\<exists>d' eff m pol tp. Apply sample_doc (base_op\<lparr>op_ID := ''i'', op_Type := NodeInput, op_Index := Some 1, op_Parent := ''a''\<rparr>) DefaultLimits
       = Ret (d', eff, None) \<and> fmlookup (d_Nodes d') ''a'' = Some tp \<and>
     n_Children tp = placed (d_Nodes sample_doc) (base_op\<lparr>op_ID := ''i'', op_Type := NodeInput, op_Index := Some 1, op_Parent := ''a''\<rparr>) \<and>
     NormalizeProps NodeInput [] True = Inr (m, pol)"
proof -
  let ?op = "base_op\<lparr>op_ID := ''i'', op_Type := NodeInput, op_Index := Some 1, op_Parent := ''a''\<rparr>"
  have "case Apply sample_doc ?op DefaultLimits of Ret (d', eff, err) \<Rightarrow> err = None | _ \<Rightarrow> False" by code_simp
  then obtain d' eff where r: "Apply sample_doc ?op DefaultLimits = Ret (d', eff, None)" by (auto split: go.splits)
  have "repositions (d_Nodes sample_doc) ?op" "upsert_target (d_Nodes sample_doc) ?op = ''a''" "op_Op ?op = OpUpsert"
    by code_simp+
  then show ?thesis using Apply_upsert_stores [OF sample_inv _ r] r by (auto simp: base_op_def)
qed

text \<open>\<open>upsert\<close> is idempotent: applying an accepted upsert again is accepted, reports no
  change and returns the same document with the same revision.\<close>

lemma Apply_upsert_idempotent:
  assumes i: "doc_inv limits d" and v: "op_Op op = OpUpsert" and a: "Apply d op limits = Ret (d', eff, None)"
  shows "\<exists>eff2. Apply d' op limits = Ret (d', eff2, None) \<and> \<not> eff_Changed eff2"
  using a
proof (cases rule: Apply_cases)
  case (accepted cand)
  let ?eff = "zero_effect\<lparr>eff_Frame := op_Frame op, eff_ThroughSeq := op_Seq op\<rparr>"
  have c: "consistent d" using i by (simp add: doc_inv_def)
  have ne: "op_ID op \<noteq> []" using ValidateOperation_upsert [OF accepted(2) v] by metis
  have u: "applyUpsert d op ?eff limits = Ret (cand, eff, None)" using accepted(4) v by (simp add: apply_op_def)
  have c': "consistent d'" using Apply_consistent [OF c a] .
  have "d_Nodes d' = d_Nodes cand" using accepted(5,6) by (cases "eff_Changed eff") auto
  then obtain eff2 where "applyUpsert d' op ?eff limits = Ret (d', eff2, None)" "\<not> eff_Changed eff2"
    using applyUpsert_again [OF c ne u _ c', of ?eff] by (auto simp: zero_effect_def)
  then show ?thesis using accepted(2,3) v by (auto simp: Apply_def apply_op_def Let_def)
qed (use v in simp_all)

text \<open>An accepted \<open>text\<close> operation names a text or viewport node; it appends the chunk to
  that node, adds its length to the account, keeps the node and the document within their text
  limits, touches nothing else and reports a change exactly when the chunk is not empty.\<close>

lemma Apply_text_appends:
  assumes i: "doc_inv limits d" and v: "op_Op op = OpText" and a: "Apply d op limits = Ret (d', eff, None)"
  shows "\<exists>n. fmlookup (d_Nodes d) (op_ID op) = Some n \<and> (n_Type n = NodeText \<or> n_Type n = NodeViewport) \<and>
    d_Nodes d' = fmupd (op_ID op) (n\<lparr>n_Text := n_Text n @ op_Text op\<rparr>) (d_Nodes d) \<and>
    d_TotalTextBytes d' = d_TotalTextBytes d + int (length (op_Text op)) \<and>
    int (length (n_Text n @ op_Text op)) \<le> MaxTextBytesPerNode limits \<and>
    d_TotalTextBytes d' \<le> MaxTotalTextBytes limits \<and> (eff_Changed eff \<longleftrightarrow> op_Text op \<noteq> [])"
  using a
proof (cases rule: Apply_cases)
  case (accepted cand)
  have "applyText d op (zero_effect\<lparr>eff_Frame := op_Frame op, eff_ThroughSeq := op_Seq op\<rparr>) limits = (cand, eff, None)"
    using accepted(4) v by (simp add: apply_op_def)
  then show ?thesis
  proof (rule applyText_nodes)
    fix n :: Node
    assume n: "fmlookup (d_Nodes d) (op_ID op) = Some n" "n_Type n = NodeText \<or> n_Type n = NodeViewport"
      and cand: "cand = d\<lparr>d_Nodes := fmupd (op_ID op) (n\<lparr>n_Text := n_Text n @ op_Text op\<rparr>) (d_Nodes d),
         d_TotalTextBytes := d_TotalTextBytes d + int (length (op_Text op))\<rparr>"
      and e: "eff_Changed eff \<longleftrightarrow>
          eff_Changed (zero_effect\<lparr>eff_Frame := op_Frame op, eff_ThroughSeq := op_Seq op\<rparr>) \<or> op_Text op \<noteq> []"
      and l: "op_Text op \<noteq> [] \<Longrightarrow> int (length (n_Text n)) + int (length (op_Text op)) \<le> MaxTextBytesPerNode limits"
        "op_Text op \<noteq> [] \<Longrightarrow> d_TotalTextBytes d + int (length (op_Text op)) \<le> MaxTotalTextBytes limits"
    have d': "d_Nodes d' = d_Nodes cand \<and> d_TotalTextBytes d' = d_TotalTextBytes cand"
      using accepted(5,6) by (cases "eff_Changed eff") auto
    have "node_limits limits n" "d_TotalTextBytes d \<le> MaxTotalTextBytes limits"
      using i n(1) by (auto simp: doc_inv_def within_limits_def)
    then have "int (length (n_Text n @ op_Text op)) \<le> MaxTextBytesPerNode limits \<and>
        d_TotalTextBytes d + int (length (op_Text op)) \<le> MaxTotalTextBytes limits"
      using l by (cases "op_Text op = []") (auto simp: node_limits_def)
    then show ?thesis using n cand e d' by (simp add: zero_effect_def)
  qed
qed (use v in simp_all)

text \<open>From the new document every sequence of operations, accepted or not, leads through
  documents that meet the invariant, and the validator accepts each of them.\<close>

lemma every_reachable_document_valid:
  assumes "room_for_root limits"
  shows "Validate (run_steps (doc_step limits) New_Document ops) limits = None"
  using docm.inv_from_start [of limits New_Document ops] assms doc_inv_valid
  by (simp add: doc_start_def doc_good_def Validate_def)

end
