(* ===== verification/Runtime.thy ===== *)
theory Runtime
  imports Operations
begin

text \<open>
  The local interaction state of \<open>runtime/state.go\<close>, \<open>bindings.go\<close>,
  \<open>table_selection.go\<close> and \<open>publication.go\<close>. Loops over a Go map become
  \<open>for_keys\<close>, the recursions over the document get one unit of fuel per level (as in
  \<open>sweep\<close>), and a method with a pointer receiver returns the new state.
\<close>

subsection \<open>Loops over a map\<close>

definition for_keys :: "(string \<Rightarrow> 'v \<Rightarrow> 's \<Rightarrow> 's) \<Rightarrow> 'v gomap \<Rightarrow> 's \<Rightarrow> 's" where
  "for_keys f m s = fold (\<lambda>k s. f k (the (fmlookup m k)) s) (keys_of m) s"

text \<open>A loop whose body touches only the entry of its own key: the outcome at each key, which
  does not depend on the order of iteration.\<close>

lemma fold_own_key:
  assumes own: "\<And>k m x. fmlookup (f k m) x = (if x = k then g k (fmlookup m k) else fmlookup m x)"
    and "distinct ks"
  shows "fmlookup (fold f ks m) x = (if x \<in> set ks then g x (fmlookup m x) else fmlookup m x)"
  using assms(2) by (induction ks arbitrary: m) (auto simp: own)

lemma for_keys_lookup:
  assumes own: "\<And>k v m x. fmlookup (f k v m) x = (if x = k then g k v (fmlookup m k) else fmlookup m x)"
  shows "fmlookup (for_keys f M m) x =
    (case fmlookup M x of None \<Rightarrow> fmlookup m x | Some v \<Rightarrow> g x v (fmlookup m x))"
proof -
  have "fmlookup (for_keys f M m) x =
      (if x \<in> set (keys_of M) then g x (the (fmlookup M x)) (fmlookup m x) else fmlookup m x)"
    unfolding for_keys_def by (rule fold_own_key) (simp_all add: own)
  then show ?thesis by (auto simp: lookup_simps split: option.split)
qed

lemma returns_bind: "returns m \<Longrightarrow> (\<And>x. returns (f x)) \<Longrightarrow> returns (go_bind m f)"
  by (auto elim!: returnsE)

subsection \<open>State (state.go)\<close>

record Binding =
  bd_NodeID :: string
  bd_Key :: string
  bd_Label :: string
  bd_Action :: string
  bd_Args :: bytes

record TableSelection =
  ts_Index :: int
  ts_RowID :: string

record State =
  s_FocusedID :: string
  s_InputValues :: "string gomap"
  s_TableSelections :: "TableSelection gomap"
  s_Bindings :: "Binding gomap"
  s_DirtyRevision :: u64
  s_PublishedRevision :: u64
  s_RenderGeneration :: u64
  s_PublicationGeneration :: u64
  s_PublishedGeneration :: u64

definition NewState :: State where
  "NewState = \<lparr>s_FocusedID = [], s_InputValues = fmempty, s_TableSelections = fmempty,
     s_Bindings = fmempty, s_DirtyRevision = 0, s_PublishedRevision = 0, s_RenderGeneration = 0,
     s_PublicationGeneration = 0, s_PublishedGeneration = 0\<rparr>"

definition propString :: "Node \<Rightarrow> string \<Rightarrow> string" where
  "propString n key = (let raw = get_raw (n_Props n) key in if raw \<noteq> [] then fst (unm_string raw) else [])"

definition propBool :: "Node \<Rightarrow> string \<Rightarrow> bool" where
  "propBool n key = (let raw = get_raw (n_Props n) key in if raw \<noteq> [] then fst (unm_bool raw) else False)"

definition focusable :: "Node \<Rightarrow> bool" where
  "focusable n \<longleftrightarrow> n_Type n = NodeInput \<or> (n_Type n = NodeTable \<and> propBool n ''selectable'') \<or>
     (n_Type n = NodeViewport \<and> propBool n ''scrollable'')"

definition focusNeedsFallback :: "Operation \<Rightarrow> Effect \<Rightarrow> bool" where
  "focusNeedsFallback op eff \<longleftrightarrow>
     op_Op op = OpRemove \<or> op_Op op = OpProps \<or> op_Op op = OpUpsert \<or> eff_TypeChanged eff"

text \<open>The loop of \<open>firstFocusable\<close> over the children: the first non-empty answer.\<close>

fun first_found :: "(string \<Rightarrow> string option) \<Rightarrow> string list \<Rightarrow> string option" where
  "first_found f [] = Some []"
| "first_found f (c # cs) = (case f c of
      None \<Rightarrow> None
    | Some found \<Rightarrow> if found \<noteq> [] then Some found else first_found f cs)"

fun firstFocusable :: "nat \<Rightarrow> Node gomap \<Rightarrow> string \<Rightarrow> string option" where
  "firstFocusable 0 nodes nid = None"
| "firstFocusable (Suc fuel) nodes nid =
     (case fmlookup nodes nid of
        None \<Rightarrow> Some []
      | Some n \<Rightarrow> if nid \<noteq> root_id \<and> focusable n then Some nid
                  else first_found (firstFocusable fuel nodes) (n_Children n))"

fun focusable_walk :: "nat \<Rightarrow> Node gomap \<Rightarrow> string \<Rightarrow> string list \<Rightarrow> string list option" where
  "focusable_walk 0 nodes nid out = None"
| "focusable_walk (Suc fuel) nodes nid out =
     (case fmlookup nodes nid of
        None \<Rightarrow> Some out
      | Some n \<Rightarrow> ofold (focusable_walk fuel nodes) (n_Children n)
                    (if nid \<noteq> root_id \<and> focusable n then out @ [nid] else out))"

definition FocusableIDs :: "Document \<Rightarrow> string list go" where
  "FocusableIDs d = go_of_option (focusable_walk (Suc (msize (d_Nodes d))) (d_Nodes d) root_id [])"

subsection \<open>Key bindings (bindings.go)\<close>

record actionItem =
  it_Key :: string
  it_Label :: string
  it_Action :: string
  it_Args :: bytes

definition zero_item :: actionItem where
  "zero_item = \<lparr>it_Key = [], it_Label = [], it_Action = [], it_Args = []\<rparr>"

text \<open>Decoding into the struct: each member that matches a string field overwrites it, \<open>null\<close>
  leaves it, anything else is an error; a raw field takes the last match as it stands.\<close>

definition struct_string :: "string list \<Rightarrow> (string \<times> bytes) list \<Rightarrow> string \<Rightarrow> string \<times> bool" where
  "struct_string fs ms name =
     foldl (\<lambda>(v, ok) (k, raw).
       if key_matches fs name k then
         (case json_decode raw of
            Some JNull \<Rightarrow> (v, ok)
          | Some (JString s) \<Rightarrow> (s, ok)
          | _ \<Rightarrow> (v, False))
       else (v, ok)) ([], True) ms"

definition item_fields :: "string list" where
  "item_fields = [''key'', ''label'', ''action'', ''args'']"

definition unm_item :: "bytes \<Rightarrow> actionItem \<times> bool" where
  "unm_item raw =
     (case json_decode raw of
        Some JNull \<Rightarrow> (zero_item, True)
      | Some (JObject ms) \<Rightarrow>
          (let (key, ok1) = struct_string item_fields ms ''key'';
               (label, ok2) = struct_string item_fields ms ''label'';
               (action, ok3) = struct_string item_fields ms ''action'';
               args = (case struct_field item_fields ms ''args'' of None \<Rightarrow> [] | Some r \<Rightarrow> r) in
           (\<lparr>it_Key = key, it_Label = label, it_Action = action, it_Args = args\<rparr>, ok1 \<and> ok2 \<and> ok3))
      | _ \<Rightarrow> (zero_item, False))"

definition node_items :: "Node \<Rightarrow> Error + actionItem list" where
  "node_items n =
     (if n_Type n \<noteq> NodeActions then Inr []
      else
        (let raw = get_raw (n_Props n) ''items'' in
         if raw = [] then Inr []
         else case unm_list unm_item raw of
           (items, ok) \<Rightarrow> if ok then Inr items
                          else Inl (NewError ''runtime.invalid_actions'' (LibErr ''json.Unmarshal''))))"

definition nilOrConflict :: "string \<Rightarrow> string \<Rightarrow> string \<Rightarrow> Error" where
  "nilOrConflict key a b = NewError ''runtime.binding_conflict''
     (Sprintf ''key %q is bound by both %q and %q'' [FStr key, FStr a, FStr b])"

definition binding_of :: "string \<Rightarrow> actionItem \<Rightarrow> Binding" where
  "binding_of nid it = \<lparr>bd_NodeID = nid, bd_Key = it_Key it, bd_Label = it_Label it,
     bd_Action = it_Action it, bd_Args = it_Args it\<rparr>"

fun bind_items :: "string \<Rightarrow> actionItem list \<Rightarrow> Binding gomap \<Rightarrow> Error + Binding gomap" where
  "bind_items nid [] out = Inr out"
| "bind_items nid (it # its) out =
     (case fmlookup out (it_Key it) of
        Some old \<Rightarrow> Inl (nilOrConflict (it_Key it) (bd_NodeID old) nid)
      | None \<Rightarrow> bind_items nid its (fmupd (it_Key it) (binding_of nid it) out))"

text \<open>A loop over children that stops at the first error.\<close>

definition efold :: "('x \<Rightarrow> 's \<Rightarrow> ('e + 's) option) \<Rightarrow> 'x list \<Rightarrow> 's \<Rightarrow> ('e + 's) option" where
  "efold f xs s = ofold (\<lambda>x r. case r of Inl e \<Rightarrow> Some (Inl e) | Inr s \<Rightarrow> f x s) xs (Inr s)"

fun bindings_walk :: "nat \<Rightarrow> Node gomap \<Rightarrow> string \<Rightarrow> Binding gomap \<Rightarrow> (Error + Binding gomap) option" where
  "bindings_walk 0 nodes nid out = None"
| "bindings_walk (Suc fuel) nodes nid out =
     (let n = node_at nodes nid in
      case node_items n of
        Inl e \<Rightarrow> Some (Inl e)
      | Inr items \<Rightarrow>
          (case bind_items nid items out of
             Inl e \<Rightarrow> Some (Inl e)
           | Inr out \<Rightarrow> efold (bindings_walk fuel nodes) (n_Children n) out))"

definition buildBindings :: "Document \<Rightarrow> (Error + Binding gomap) go" where
  "buildBindings d = go_of_option (bindings_walk (Suc (msize (d_Nodes d))) (d_Nodes d) root_id fmempty)"

subsection \<open>Table selection (table_selection.go)\<close>

definition tableRows :: "Node \<Rightarrow> string list list" where
  "tableRows n = (let raw = get_raw (n_Props n) ''rows'' in if raw \<noteq> [] then fst (unm_matrix raw) else [])"

definition tableRowIDs :: "Node \<Rightarrow> string list" where
  "tableRowIDs n = (let raw = get_raw (n_Props n) ''row_ids'' in if raw \<noteq> [] then fst (unm_strings raw) else [])"

definition tableSelectionAt :: "Node \<Rightarrow> int \<Rightarrow> TableSelection option" where
  "tableSelectionAt n index =
     (let rows = tableRows n in
      if rows = [] then None
      else
        (let index = (if index < 0 then 0 else index);
             index = (if index \<ge> int (length rows) then int (length rows) - 1 else index);
             ids = tableRowIDs n;
             rowID = (if length ids = length rows then ids ! nat index else []) in
         Some \<lparr>ts_Index = index, ts_RowID = rowID\<rparr>))"

text \<open>The index of the first id equal to the given one.\<close>

fun row_index :: "string \<Rightarrow> int \<Rightarrow> string list \<Rightarrow> int option" where
  "row_index rid i [] = None"
| "row_index rid i (x # xs) = (if x = rid then Some i else row_index rid (i + 1) xs)"

definition reconcileSelection :: "Node \<Rightarrow> TableSelection option \<Rightarrow> TableSelection option" where
  "reconcileSelection n current =
     (if n_Type n \<noteq> NodeTable \<or> \<not> propBool n ''selectable'' then None
      else if tableRows n = [] then None
      else
        (let ids = tableRowIDs n;
             at_index = tableSelectionAt n (case current of None \<Rightarrow> 0 | Some c \<Rightarrow> ts_Index c) in
         case current of
           None \<Rightarrow> at_index
         | Some c \<Rightarrow>
             if ts_RowID c \<noteq> [] \<and> length ids = length (tableRows n)
             then (case row_index (ts_RowID c) 0 ids of
                     Some i \<Rightarrow> Some \<lparr>ts_Index = i, ts_RowID = ts_RowID c\<rparr>
                   | None \<Rightarrow> at_index)
             else at_index))"

definition selectable_table :: "Node \<Rightarrow> bool" where
  "selectable_table n \<longleftrightarrow> n_Type n = NodeTable \<and> propBool n ''selectable''"

definition set_or_delete :: "string \<Rightarrow> 'v option \<Rightarrow> 'v gomap \<Rightarrow> 'v gomap" where
  "set_or_delete k v m = (case v of Some x \<Rightarrow> fmupd k x m | None \<Rightarrow> fmdrop k m)"

lemma set_or_delete_lookup [simp]:
  "fmlookup (set_or_delete k v m) x = (if x = k then v else fmlookup m x)"
  by (simp add: set_or_delete_def split: option.split)

definition reconcileTableSelections :: "State \<Rightarrow> Document \<Rightarrow> State" where
  "reconcileTableSelections s nxt =
     (let sel = for_keys (\<lambda>nid _ m.
            case fmlookup (d_Nodes nxt) nid of
              None \<Rightarrow> fmdrop nid m
            | Some n \<Rightarrow> if \<not> selectable_table n \<or> tableRows n = [] then fmdrop nid m else m)
            (s_TableSelections s) (s_TableSelections s);
          sel = for_keys (\<lambda>nid n m.
            if \<not> selectable_table n then m
            else set_or_delete nid (reconcileSelection n (fmlookup m nid)) m)
            (d_Nodes nxt) sel in
      s\<lparr>s_TableSelections := sel\<rparr>)"

definition SetTableSelection :: "State \<Rightarrow> Document \<Rightarrow> string \<Rightarrow> int \<Rightarrow> State \<times> Error option" where
  "SetTableSelection s d nid index =
     (case fmlookup (d_Nodes d) nid of
        None \<Rightarrow> (s, Some (NewError ''document.node_not_found'' (Sprintf ''node %q not found'' [FStr nid])))
      | Some n \<Rightarrow>
          if n_Type n \<noteq> NodeTable
          then (s, Some (NewError ''runtime.not_table'' (Sprintf ''node %q is not table'' [FStr nid])))
          else if \<not> propBool n ''selectable''
          then (s, Some (NewError ''runtime.not_selectable'' (Sprintf ''table %q is not selectable'' [FStr nid])))
          else case tableSelectionAt n index of
            None \<Rightarrow>
              if fmlookup (s_TableSelections s) nid \<noteq> None
              then (s\<lparr>s_TableSelections := fmdrop nid (s_TableSelections s),
                      s_RenderGeneration := s_RenderGeneration s + 1\<rparr>, None)
              else (s, None)
          | Some nxt \<Rightarrow>
              if fmlookup (s_TableSelections s) nid = Some nxt then (s, None)
              else (s\<lparr>s_TableSelections := fmupd nid nxt (s_TableSelections s),
                      s_RenderGeneration := s_RenderGeneration s + 1\<rparr>, None))"

definition MoveTableSelection :: "State \<Rightarrow> Document \<Rightarrow> string \<Rightarrow> int \<Rightarrow> State \<times> Error option" where
  "MoveTableSelection s d nid delta =
     (case fmlookup (d_Nodes d) nid of
        None \<Rightarrow> (s, Some (NewError ''document.node_not_found'' (Sprintf ''node %q not found'' [FStr nid])))
      | Some n \<Rightarrow>
          if n_Type n \<noteq> NodeTable
          then (s, Some (NewError ''runtime.not_table'' (Sprintf ''node %q is not table'' [FStr nid])))
          else if \<not> propBool n ''selectable''
          then (s, Some (NewError ''runtime.not_selectable'' (Sprintf ''table %q is not selectable'' [FStr nid])))
          else if tableRows n = [] then (s, None)
          else
            (let current = (case fmlookup (s_TableSelections s) nid of None \<Rightarrow> 0 | Some sel \<Rightarrow> ts_Index sel) in
             SetTableSelection s d nid (wrap_int (current + delta))))"

subsection \<open>Reconciliation after an operation (state.go)\<close>

definition drop_removed :: "string \<Rightarrow> State \<Rightarrow> State" where
  "drop_removed nid s = s\<lparr>s_InputValues := fmdrop nid (s_InputValues s),
     s_FocusedID := (if s_FocusedID s = nid then [] else s_FocusedID s)\<rparr>"

definition reconcile_inputs :: "Document \<Rightarrow> Document \<Rightarrow> Operation \<Rightarrow> Effect \<Rightarrow> string gomap \<Rightarrow> string gomap" where
  "reconcile_inputs prev nxt op eff inputs =
     for_keys (\<lambda>nid n m.
       if n_Type n \<noteq> NodeInput then m
       else if (case fmlookup (d_Nodes prev) nid of None \<Rightarrow> True | Some old \<Rightarrow> n_Type old \<noteq> NodeInput)
       then fmupd nid (propString n ''value'') m
       else if ForceInputValue (eff_Policy eff) \<and> nid = op_ID op
       then fmupd nid (propString n ''value'') m
       else if fmlookup m nid = None then fmupd nid (propString n ''value'') m
       else m) (d_Nodes nxt) inputs"

definition focus_valid :: "Document \<Rightarrow> string \<Rightarrow> bool" where
  "focus_valid d nid = (case fmlookup (d_Nodes d) nid of None \<Rightarrow> False | Some n \<Rightarrow> focusable n)"

text \<open>The parts of \<open>Reconcile\<close> in the order of the code: what the removal and retyping of
  nodes clears, the focus, and the last step that stores bindings and counts generations.\<close>

definition clear_state :: "State \<Rightarrow> Operation \<Rightarrow> Effect \<Rightarrow> State" where
  "clear_state s op eff =
     (let cand = fold drop_removed (eff_Removed eff) s in
      if eff_TypeChanged eff then drop_removed (op_ID op) cand else cand)"

definition settle_focus :: "bool \<Rightarrow> State \<Rightarrow> Document \<Rightarrow> Operation \<Rightarrow> Effect \<Rightarrow> State go" where
  "settle_focus hadFocus cand nxt op eff =
     (let cand = (if op_Op op = OpFocus then cand\<lparr>s_FocusedID := op_ID op\<rparr> else cand);
          cand = (if s_FocusedID cand \<noteq> [] \<and> \<not> focus_valid nxt (s_FocusedID cand)
                  then cand\<lparr>s_FocusedID := []\<rparr> else cand) in
      if hadFocus \<and> s_FocusedID cand = [] \<and> focusNeedsFallback op eff
      then go_bind (go_of_option (firstFocusable (Suc (msize (d_Nodes nxt))) (d_Nodes nxt) root_id))
             (\<lambda>found. Ret (cand\<lparr>s_FocusedID := found\<rparr>))
      else Ret cand)"

definition finish_state :: "State \<Rightarrow> State \<Rightarrow> Document \<Rightarrow> Effect \<Rightarrow> Binding gomap \<Rightarrow> State" where
  "finish_state s cand nxt eff bindings =
     (let cand = cand\<lparr>s_Bindings := bindings\<rparr>;
          cand = (if eff_Changed eff then cand\<lparr>s_DirtyRevision := d_Revision nxt\<rparr> else cand);
          projectionChanged = (eff_Changed eff \<or> s_FocusedID cand \<noteq> s_FocusedID s \<or>
            s_InputValues cand \<noteq> s_InputValues s \<or> s_TableSelections cand \<noteq> s_TableSelections s \<or>
            s_Bindings cand \<noteq> s_Bindings s) in
      if projectionChanged
      then cand\<lparr>s_RenderGeneration := s_RenderGeneration s + 1,
                s_PublicationGeneration := s_PublicationGeneration s + 1\<rparr>
      else cand)"

definition Reconcile :: "State \<Rightarrow> Document \<Rightarrow> Document \<Rightarrow> Operation \<Rightarrow> Effect \<Rightarrow> (State \<times> Error option) go" where
  "Reconcile s prev nxt op eff =
     (let hadFocus = (s_FocusedID s \<noteq> []);
          cand = clear_state s op eff;
          cand = cand\<lparr>s_InputValues := reconcile_inputs prev nxt op eff (s_InputValues cand)\<rparr> in
      if op_Op op = OpFocus \<and> fmlookup (d_Nodes nxt) (op_ID op) = None
      then Ret (s, Some (NewError ''runtime.node_not_found'' (Lit ''focus target missing'')))
      else if op_Op op = OpFocus \<and> \<not> focus_valid nxt (op_ID op)
      then Ret (s, Some (NewError ''runtime.not_focusable'' (Lit ''focus target is not interactive'')))
      else
        go_bind (settle_focus hadFocus cand nxt op eff) (\<lambda>cand.
          let cand = reconcileTableSelections cand nxt in
          go_bind (buildBindings nxt) (\<lambda>r.
            case r of
              Inl berr \<Rightarrow> Ret (s, Some berr)
            | Inr bindings \<Rightarrow> Ret (finish_state s cand nxt eff bindings, None))))"

subsection \<open>Local interaction and publication\<close>

definition SetLocalFocus :: "State \<Rightarrow> Document \<Rightarrow> string \<Rightarrow> State \<times> Error option" where
  "SetLocalFocus s d nid =
     (case fmlookup (d_Nodes d) nid of
        None \<Rightarrow> (s, Some (NewError ''runtime.node_not_found'' (Lit ''focus target missing'')))
      | Some n \<Rightarrow>
          if \<not> focusable n
          then (s, Some (NewError ''runtime.not_focusable'' (Lit ''focus target is not interactive'')))
          else if s_FocusedID s = nid then (s, None)
          else (s\<lparr>s_FocusedID := nid, s_RenderGeneration := s_RenderGeneration s + 1\<rparr>, None))"

text \<open>Reading a missing key of \<open>map[string]string\<close> gives the empty string.\<close>

definition str_at :: "string gomap \<Rightarrow> string \<Rightarrow> string" where
  "str_at m k = (case fmlookup m k of None \<Rightarrow> [] | Some v \<Rightarrow> v)"

definition SetInputValue :: "State \<Rightarrow> string \<Rightarrow> string \<Rightarrow> State \<times> bool" where
  "SetInputValue s nid value =
     (if str_at (s_InputValues s) nid = value then (s, False)
      else (s\<lparr>s_InputValues := fmupd nid value (s_InputValues s),
              s_RenderGeneration := s_RenderGeneration s + 1\<rparr>, True))"

definition NeedsPublish :: "State \<Rightarrow> bool" where
  "NeedsPublish s \<longleftrightarrow> s_PublicationGeneration s > s_PublishedGeneration s"

definition Publish :: "State \<Rightarrow> State" where
  "Publish s =
     (let s = (if s_PublicationGeneration s > s_PublishedGeneration s
               then s\<lparr>s_PublishedGeneration := s_PublicationGeneration s\<rparr> else s) in
      if s_DirtyRevision s > s_PublishedRevision s
      then s\<lparr>s_PublishedRevision := s_DirtyRevision s\<rparr> else s)"

end
