(* ===== verification/Interaction.thy ===== *)
theory Interaction
  imports Runtime
begin

text \<open>
  Correctness of the interaction state: the three walks over the document agree with one
  preorder traversal, reconciliation returns on every well-formed document and keeps the
  invariant that ties focus, inputs, selections and bindings to the document.
\<close>

subsection \<open>The preorder of the document\<close>

text \<open>The reference traversal, with the same fuel as the walks.\<close>

fun preorder :: "nat \<Rightarrow> Node gomap \<Rightarrow> string \<Rightarrow> string list option" where
  "preorder 0 nodes a = None"
| "preorder (Suc fuel) nodes a =
     (case fmlookup nodes a of
        None \<Rightarrow> Some []
      | Some n \<Rightarrow> ofold (\<lambda>c acc. map_option (\<lambda>xs. acc @ xs) (preorder fuel nodes c)) (n_Children n) [a])"

lemma ofold_prefix:
  assumes "ofold (\<lambda>c acc. map_option (\<lambda>xs. acc @ xs) (g c)) cs acc = Some ys"
  obtains xss where "list_all2 (\<lambda>c xs. g c = Some xs) cs xss" "ys = acc @ concat xss"
  using assms
proof (induction cs arbitrary: acc thesis)
  case Nil
  then show ?case by simp
next
  case (Cons c cs)
  then obtain xs where xs: "g c = Some xs"
      "ofold (\<lambda>c acc. map_option (\<lambda>xs. acc @ xs) (g c)) cs (acc @ xs) = Some ys"
    by (auto split: option.splits)
  from Cons.IH [OF _ xs(2)] obtain xss where "list_all2 (\<lambda>c xs. g c = Some xs) cs xss" "ys = (acc @ xs) @ concat xss"
    by metis
  then show ?case using xs(1) by (intro Cons.prems(1) [of "xs # xss"]) auto
qed

text \<open>What \<open>preorder\<close> computed for a node: its id and the preorders of its children.\<close>

lemma preorder_Suc:
  assumes "preorder (Suc fuel) nodes a = Some ys" "fmlookup nodes a = Some n"
  obtains xss where "list_all2 (\<lambda>c xs. preorder fuel nodes c = Some xs) (n_Children n) xss" "ys = a # concat xss"
  using assms by (auto elim!: ofold_prefix)

lemma list_all2_induct_fold:
  assumes "list_all2 P cs xss"
    and step: "\<And>c xs s. P c xs \<Longrightarrow> f c s = h xs s"
    and nil: "\<And>s. h [] s = Some s" and app: "\<And>xs ys s. h (xs @ ys) s = (case h xs s of None \<Rightarrow> None | Some s' \<Rightarrow> h ys s')"
  shows "ofold f cs s = h (concat xss) s"
  using assms(1)
proof (induction arbitrary: s rule: list_all2_induct)
  case Nil
  then show ?case by (simp add: nil)
next
  case (Cons c cs xs xss)
  then show ?case using step [OF Cons(1)] by (simp add: app split: option.split)
qed

subsection \<open>Focus order\<close>

definition can_focus :: "Node gomap \<Rightarrow> string \<Rightarrow> bool" where
  "can_focus nodes x \<longleftrightarrow> x \<noteq> root_id \<and> (case fmlookup nodes x of None \<Rightarrow> False | Some n \<Rightarrow> focusable n)"

lemma can_focus_Some: "fmlookup nodes x = Some n \<Longrightarrow> can_focus nodes x \<longleftrightarrow> x \<noteq> root_id \<and> focusable n"
  by (simp add: can_focus_def)

lemma focusable_walk_preorder:
  "preorder fuel nodes a = Some xs \<Longrightarrow>
     focusable_walk fuel nodes a out = Some (out @ filter (can_focus nodes) xs)"
proof (induction fuel arbitrary: a xs out)
  case 0
  then show ?case by simp
next
  case (Suc fuel)
  show ?case
  proof (cases "fmlookup nodes a")
    case None
    then show ?thesis using Suc.prems by simp
  next
    case (Some n)
    obtain xss where xss: "list_all2 (\<lambda>c xs. preorder fuel nodes c = Some xs) (n_Children n) xss" "xs = a # concat xss"
      using preorder_Suc [OF Suc.prems Some] .
    have "ofold (focusable_walk fuel nodes) (n_Children n) s = Some (s @ filter (can_focus nodes) (concat xss))" for s
      by (rule list_all2_induct_fold [OF xss(1)]) (simp_all add: Suc.IH)
    then show ?thesis using Some xss(2) by (simp add: can_focus_Some)
  qed
qed

definition head_or_empty :: "string list \<Rightarrow> string" where
  "head_or_empty xs = (case xs of [] \<Rightarrow> [] | x # _ \<Rightarrow> x)"

lemma head_or_empty_append: "[] \<notin> set xs \<Longrightarrow>
   head_or_empty (xs @ ys) = (if head_or_empty xs \<noteq> [] then head_or_empty xs else head_or_empty ys)"
  by (cases xs) (auto simp: head_or_empty_def)

lemma firstFocusable_preorder:
  assumes e: "fmlookup nodes [] = None"
  shows "preorder fuel nodes a = Some xs \<Longrightarrow>
     firstFocusable fuel nodes a = Some (head_or_empty (filter (can_focus nodes) xs))"
proof (induction fuel arbitrary: a xs)
  case 0
  then show ?case by simp
next
  case (Suc fuel)
  show ?case
  proof (cases "fmlookup nodes a")
    case None
    then show ?thesis using Suc.prems by (simp add: head_or_empty_def)
  next
    case (Some n)
    obtain xss where xss: "list_all2 (\<lambda>c xs. preorder fuel nodes c = Some xs) (n_Children n) xss" "xs = a # concat xss"
      using preorder_Suc [OF Suc.prems Some] .
    have ne: "[] \<notin> set (filter (can_focus nodes) ys)" for ys using e by (auto simp: can_focus_def)
    have "first_found (firstFocusable fuel nodes) (n_Children n) =
        Some (head_or_empty (filter (can_focus nodes) (concat xss)))"
      using xss(1)
    proof (induction rule: list_all2_induct)
      case Nil
      then show ?case by (simp add: head_or_empty_def)
    next
      case (Cons c cs ys yss)
      then show ?case using Suc.IH [OF Cons(1)] by (simp add: head_or_empty_append [OF ne])
    qed
    moreover have "a \<noteq> []" using Some e by auto
    ultimately show ?thesis using Some xss(2) by (auto simp: can_focus_Some head_or_empty_def)
  qed
qed

subsection \<open>Bindings\<close>

fun bind_all :: "Node gomap \<Rightarrow> string list \<Rightarrow> Binding gomap \<Rightarrow> Error + Binding gomap" where
  "bind_all nodes [] out = Inr out"
| "bind_all nodes (x # xs) out =
     (case node_items (node_at nodes x) of
        Inl e \<Rightarrow> Inl e
      | Inr items \<Rightarrow>
          (case bind_items x items out of Inl e \<Rightarrow> Inl e | Inr out \<Rightarrow> bind_all nodes xs out))"

lemma bind_all_append:
  "bind_all nodes (xs @ ys) out =
     (case bind_all nodes xs out of Inl e \<Rightarrow> Inl e | Inr out \<Rightarrow> bind_all nodes ys out)"
  by (induction xs arbitrary: out) (auto split: sum.split)

lemma bindings_walk_preorder:
  "preorder fuel nodes a = Some xs \<Longrightarrow> bindings_walk fuel nodes a out = Some (bind_all nodes xs out)"
proof (induction fuel arbitrary: a xs out)
  case 0
  then show ?case by simp
next
  case (Suc fuel)
  show ?case
  proof (cases "fmlookup nodes a")
    case None
    then show ?thesis using Suc.prems
      by (simp add: node_at_def zero_node_def node_items_def efold_def)
  next
    case (Some n)
    obtain xss where xss: "list_all2 (\<lambda>c xs. preorder fuel nodes c = Some xs) (n_Children n) xss" "xs = a # concat xss"
      using preorder_Suc [OF Suc.prems Some] .
    let ?h = "\<lambda>xs r. case r of Inl e \<Rightarrow> Some (Inl e) | Inr s \<Rightarrow> Some (bind_all nodes xs s)"
    have "efold (bindings_walk fuel nodes) (n_Children n) s = ?h (concat xss) (Inr s)" for s
      unfolding efold_def
      by (rule list_all2_induct_fold [OF xss(1), where h = ?h])
        (auto simp: Suc.IH bind_all_append split: sum.split)
    then show ?thesis using Some xss(2) by (simp split: sum.split)
  qed
qed

subsection \<open>The traversal visits the tree\<close>

lemma preorder_tree:
  assumes t: "tree nodes"
  shows "fmlookup nodes a = Some n \<Longrightarrow> \<forall>x j. (kid nodes ^^ j) a x \<longrightarrow> j < fuel \<Longrightarrow>
     \<exists>xs. preorder fuel nodes a = Some xs \<and> set xs = below nodes a \<and> distinct xs"
proof (induction fuel arbitrary: a n)
  case 0
  then show ?case by (metis less_zeroE relpowp_0_I)
next
  case (Suc fuel)
  have kids: "kid nodes a c \<longleftrightarrow> c \<in> set (n_Children n)" for c using Suc.prems(1) by (simp add: kid_def)
  obtain i where i: "(kid nodes ^^ i) root_id a" using treeD(5) [OF t Suc.prems(1)] by blast
  have one: "\<exists>xs. preorder fuel nodes c = Some xs \<and> set xs = below nodes c \<and> distinct xs" if c: "c \<in> set (n_Children n)" for c
  proof -
    obtain cn where "fmlookup nodes c = Some cn" using treeD(4) [OF t, of a c] kids c by blast
    moreover have "j < fuel" if "(kid nodes ^^ j) c x" for x j
      using Suc.prems(2) relpowp_Suc_I2 [of "kid nodes" a c j x] kids c that by (meson Suc_less_SucD)
    ultimately show ?thesis using Suc.IH by blast
  qed
  have disj: "below nodes b \<inter> below nodes c = {}" if "b \<in> set (n_Children n)" "c \<in> set (n_Children n)" "b \<noteq> c" for b c
    using siblings_disjoint [OF t i] that kids by blast
  have self: "a \<notin> below nodes c" if "c \<in> set (n_Children n)" for c using parent_not_below [OF t i] kids that by blast
  have "\<exists>ys. ofold (\<lambda>c acc. map_option (\<lambda>xs. acc @ xs) (preorder fuel nodes c)) cs acc = Some (acc @ ys) \<and>
      set ys = (\<Union>c \<in> set cs. below nodes c) \<and> distinct ys"
    if "distinct cs" "set cs \<subseteq> set (n_Children n)" for cs acc
    using that
  proof (induction cs arbitrary: acc)
    case Nil
    then show ?case by simp
  next
    case (Cons c cs)
    obtain xs where xs: "preorder fuel nodes c = Some xs" "set xs = below nodes c" "distinct xs"
      using one [of c] Cons.prems by auto
    have sep: "below nodes c \<inter> (\<Union>c \<in> set cs. below nodes c) = {}" using disj [of c] Cons.prems by fastforce
    obtain ys where "ofold (\<lambda>c acc. map_option (\<lambda>xs. acc @ xs) (preorder fuel nodes c)) cs (acc @ xs) = Some ((acc @ xs) @ ys)"
        "set ys = (\<Union>c \<in> set cs. below nodes c)" "distinct ys"
      using Cons.IH [of "acc @ xs"] Cons.prems by auto
    then show ?case using xs sep by (intro exI [of _ "xs @ ys"]) auto
  qed
  from this [of "n_Children n" "[a]"] obtain ys where
    "preorder (Suc fuel) nodes a = Some (a # ys)" "set ys = (\<Union>c \<in> set (n_Children n). below nodes c)" "distinct ys"
    using Suc.prems(1) treeD(2) [OF t Suc.prems(1)] by (auto simp: node_ok_def)
  then show ?case
    using self kids below_unfold [of nodes a] by (intro exI [of _ "a # ys"]) auto
qed

definition doc_order :: "Document \<Rightarrow> string list" where
  "doc_order d = (case preorder (Suc (msize (d_Nodes d))) (d_Nodes d) root_id of None \<Rightarrow> [] | Some xs \<Rightarrow> xs)"

lemma doc_order:
  assumes "tree (d_Nodes d)"
  shows "preorder (Suc (msize (d_Nodes d))) (d_Nodes d) root_id = Some (doc_order d)"
    and "set (doc_order d) = fset (fmdom (d_Nodes d))" and "distinct (doc_order d)"
proof -
  obtain r where r: "fmlookup (d_Nodes d) root_id = Some r" using root_in_tree [OF assms] by blast
  obtain xs where xs: "preorder (Suc (msize (d_Nodes d))) (d_Nodes d) root_id = Some xs"
      "set xs = below (d_Nodes d) root_id" "distinct xs"
    using preorder_tree [OF assms r, of "Suc (msize (d_Nodes d))"] below_path_less_msize [OF assms r] less_SucI
    by blast
  have eq: "doc_order d = xs" unfolding doc_order_def xs(1) by simp
  show "preorder (Suc (msize (d_Nodes d))) (d_Nodes d) root_id = Some (doc_order d)" unfolding eq by (rule xs(1))
  show "set (doc_order d) = fset (fmdom (d_Nodes d))" unfolding eq xs(2) by (rule below_root [OF assms])
  show "distinct (doc_order d)" unfolding eq by (rule xs(3))
qed

lemmas walks_preorder = focusable_walk_preorder firstFocusable_preorder bindings_walk_preorder

lemma FocusableIDs_eq: "tree (d_Nodes d) \<Longrightarrow> FocusableIDs d = Ret (filter (can_focus (d_Nodes d)) (doc_order d))"
  by (simp add: FocusableIDs_def focusable_walk_preorder [OF doc_order(1)] del: focusable_walk.simps)

lemma firstFocusable_eq:
  "consistent d \<Longrightarrow> firstFocusable (Suc (msize (d_Nodes d))) (d_Nodes d) root_id =
     Some (head_or_empty (filter (can_focus (d_Nodes d)) (doc_order d)))"
  using firstFocusable_preorder [OF consistentD(4) doc_order(1)] consistentD(1) by blast

lemma buildBindings_eq: "tree (d_Nodes d) \<Longrightarrow> buildBindings d = Ret (bind_all (d_Nodes d) (doc_order d) fmempty)"
  by (simp add: buildBindings_def bindings_walk_preorder [OF doc_order(1)] del: bindings_walk.simps)

subsection \<open>What the bindings hold\<close>

definition items_of :: "Node gomap \<Rightarrow> string \<Rightarrow> actionItem list" where
  "items_of nodes x = (case node_items (node_at nodes x) of Inl _ \<Rightarrow> [] | Inr its \<Rightarrow> its)"

definition all_items :: "Node gomap \<Rightarrow> string list \<Rightarrow> (string \<times> actionItem) list" where
  "all_items nodes xs = concat (map (\<lambda>x. map (Pair x) (items_of nodes x)) xs)"

definition item_key :: "string \<times> actionItem \<Rightarrow> string" where
  "item_key xi = it_Key (snd xi)"

definition bound_pairs :: "(string \<times> actionItem) list \<Rightarrow> (string \<times> Binding) list" where
  "bound_pairs ps = map (\<lambda>p. (item_key p, binding_of (fst p) (snd p))) ps"

lemma fmadd_fmupd_fresh: "fmlookup m k = None \<Longrightarrow> fmadd (fmupd k v out) m = fmadd out (fmupd k v m)"
  by (rule fmap_ext) (auto simp: fmlookup_dom_iff)

lemma fst_bound_pairs [simp]: "map fst (bound_pairs ps) = map item_key ps"
  by (simp add: bound_pairs_def comp_def)

lemma bound_pairs_None: "fmlookup (fmap_of_list (bound_pairs ps)) k = None \<longleftrightarrow> k \<notin> item_key ` set ps"
  unfolding fmlookup_of_list map_of_eq_None_iff set_map [symmetric] fst_bound_pairs ..

fun bind_pairs :: "(string \<times> actionItem) list \<Rightarrow> Binding gomap \<Rightarrow> Error + Binding gomap" where
  "bind_pairs [] out = Inr out"
| "bind_pairs ((x, it) # ps) out =
     (case fmlookup out (it_Key it) of
        Some old \<Rightarrow> Inl (nilOrConflict (it_Key it) (bd_NodeID old) x)
      | None \<Rightarrow> bind_pairs ps (fmupd (it_Key it) (binding_of x it) out))"

lemma bind_items_pairs:
  "bind_pairs (map (Pair x) its @ ps) out =
     (case bind_items x its out of Inl e \<Rightarrow> Inl e | Inr out \<Rightarrow> bind_pairs ps out)"
  by (induction its arbitrary: out) (auto split: option.split)

lemma bind_all_pairs:
  "\<forall>x \<in> set xs. \<exists>its. node_items (node_at nodes x) = Inr its \<Longrightarrow>
     bind_all nodes xs out = bind_pairs (all_items nodes xs) out"
proof (induction xs arbitrary: out)
  case Nil
  then show ?case by (simp add: all_items_def)
next
  case (Cons x xs)
  then obtain its where "node_items (node_at nodes x) = Inr its" by auto
  then show ?case
    using Cons by (simp add: all_items_def items_of_def bind_items_pairs split: sum.split)
qed

lemma bind_all_items_ok:
  "bind_all nodes xs out = Inr out' \<Longrightarrow> x \<in> set xs \<Longrightarrow> \<exists>its. node_items (node_at nodes x) = Inr its"
  by (induction xs arbitrary: out) (auto split: sum.splits)

lemma bind_pairs_Inr:
  "bind_pairs ps out = Inr out' \<longleftrightarrow>
     distinct (map item_key ps) \<and> (\<forall>p \<in> set ps. fmlookup out (item_key p) = None) \<and>
     out' = fmadd out (fmap_of_list (bound_pairs ps))"
proof (induction ps arbitrary: out)
  case Nil
  then show ?case by (auto simp: bound_pairs_def intro: fmap_ext)
next
  case (Cons p ps)
  obtain x it where p: "p = (x, it)" by (cases p)
  let ?m = "fmap_of_list (bound_pairs ps)"
  have m: "fmap_of_list (bound_pairs (p # ps)) = fmupd (it_Key it) (binding_of x it) ?m"
    by (simp add: bound_pairs_def p item_key_def)
  show ?case
  proof (cases "fmlookup out (it_Key it) = None \<and> it_Key it \<notin> item_key ` set ps")
    case True
    then have "fmlookup ?m (it_Key it) = None" by (simp add: bound_pairs_None)
    then have "fmadd (fmupd (it_Key it) (binding_of x it) out) ?m = fmadd out (fmupd (it_Key it) (binding_of x it) ?m)"
      by (rule fmadd_fmupd_fresh)
    then show ?thesis using True unfolding m by (auto simp: p Cons.IH item_key_def)
  next
    case False
    then show ?thesis unfolding m by (auto simp: p Cons.IH item_key_def split: option.split)
  qed
qed

text \<open>The bindings of a document: every action item of every node, provided no key is used
  twice.\<close>

definition doc_items :: "Document \<Rightarrow> (string \<times> actionItem) list" where
  "doc_items d = all_items (d_Nodes d) (doc_order d)"

lemma buildBindings_Inr:
  assumes t: "tree (d_Nodes d)" and b: "buildBindings d = Ret (Inr b)"
  shows "distinct (map item_key (doc_items d))"
    and "fmlookup b k = Some bd \<longleftrightarrow> (\<exists>(x, it) \<in> set (doc_items d). it_Key it = k \<and> bd = binding_of x it)"
proof -
  have a: "bind_all (d_Nodes d) (doc_order d) fmempty = Inr b" using b buildBindings_eq [OF t] by simp
  then have "bind_pairs (doc_items d) fmempty = Inr b"
    using bind_all_pairs [of "doc_order d" "d_Nodes d"] bind_all_items_ok [OF a] by (auto simp: doc_items_def)
  then have d: "distinct (map item_key (doc_items d))"
    and b: "b = fmap_of_list (bound_pairs (doc_items d))"
    by (auto simp: bind_pairs_Inr)
  show "distinct (map item_key (doc_items d))" by (rule d)
  have "distinct (map fst (bound_pairs (doc_items d)))" using d by simp
  then show "fmlookup b k = Some bd \<longleftrightarrow> (\<exists>(x, it) \<in> set (doc_items d). it_Key it = k \<and> bd = binding_of x it)"
    by (auto simp: b fmlookup_of_list bound_pairs_def item_key_def intro!: rev_image_eqI)
qed

lemma doc_items_iff:
  assumes t: "tree (d_Nodes d)"
  shows "(x, it) \<in> set (doc_items d) \<longleftrightarrow>
    (\<exists>n its. fmlookup (d_Nodes d) x = Some n \<and> node_items n = Inr its \<and> it \<in> set its)"
  using doc_order(2) [OF t]
  by (auto simp: doc_items_def all_items_def items_of_def lookup_simps split: sum.splits) force+

subsection \<open>Selections\<close>

definition sel_ok :: "Node \<Rightarrow> TableSelection \<Rightarrow> bool" where
  "sel_ok n ts \<longleftrightarrow> 0 \<le> ts_Index ts \<and> ts_Index ts < int (length (tableRows n)) \<and>
     ts_RowID ts = (if length (tableRowIDs n) = length (tableRows n) then tableRowIDs n ! nat (ts_Index ts) else [])"

lemma tableSelectionAt_ok: "tableSelectionAt n i = Some ts \<Longrightarrow> sel_ok n ts"
  by (auto simp: tableSelectionAt_def sel_ok_def Let_def split: if_splits)

lemma tableSelectionAt_None: "tableSelectionAt n i = None \<longleftrightarrow> tableRows n = []"
  by (auto simp: tableSelectionAt_def Let_def)

lemma row_index_Some: "row_index r i xs = Some j \<Longrightarrow> i \<le> j \<and> j < i + int (length xs) \<and> xs ! nat (j - i) = r"
proof (induction xs arbitrary: i)
  case Nil
  then show ?case by simp
next
  case (Cons x xs)
  show ?case
  proof (cases "x = r")
    case False
    then have "row_index r (i + 1) xs = Some j" using Cons.prems by simp
    from Cons.IH [OF this] have "i < j" "j < i + 1 + int (length xs)" "xs ! nat (j - (i + 1)) = r" by auto
    moreover from this have "nat (j - i) = Suc (nat (j - (i + 1)))" by simp
    ultimately show ?thesis by simp
  qed (use Cons.prems in simp)
qed

lemma row_index_None: "row_index r i xs = None \<longleftrightarrow> r \<notin> set xs"
  by (induction xs arbitrary: i) auto

lemma reconcileSelection_ok:
  assumes "reconcileSelection n cur = Some ts"
  shows "selectable_table n \<and> tableRows n \<noteq> [] \<and> sel_ok n ts"
proof -
  have g: "selectable_table n" "tableRows n \<noteq> []"
    using assms by (auto simp: reconcileSelection_def selectable_table_def split: if_splits)
  have "sel_ok n ts"
    using assms row_index_Some [of _ 0 "tableRowIDs n"]
    by (auto simp: reconcileSelection_def Let_def sel_ok_def [of n "\<lparr>ts_Index = _, ts_RowID = _\<rparr>"]
        dest: tableSelectionAt_ok split: if_splits option.splits)
  with g show ?thesis by simp
qed

lemma reconcileSelection_None: "reconcileSelection n cur = None \<longleftrightarrow> \<not> selectable_table n \<or> tableRows n = []"
  using tableSelectionAt_None
  by (auto simp: reconcileSelection_def selectable_table_def Let_def simp del: not_None_eq split: option.split)

lemma reconcileTableSelections_lookup:
  "fmlookup (s_TableSelections (reconcileTableSelections s d)) x =
     (case fmlookup (d_Nodes d) x of
        None \<Rightarrow> None
      | Some n \<Rightarrow> if selectable_table n \<and> tableRows n \<noteq> [] then reconcileSelection n (fmlookup (s_TableSelections s) x) else None)"
proof -
  let ?sel = "for_keys (\<lambda>nid _ m.
            case fmlookup (d_Nodes d) nid of
              None \<Rightarrow> fmdrop nid m
            | Some n \<Rightarrow> if \<not> selectable_table n \<or> tableRows n = [] then fmdrop nid m else m)
            (s_TableSelections s) (s_TableSelections s)"
  have first: "fmlookup ?sel x =
      (case fmlookup (d_Nodes d) x of
        None \<Rightarrow> None
      | Some n \<Rightarrow> if selectable_table n \<and> tableRows n \<noteq> [] then fmlookup (s_TableSelections s) x else None)" for x
    by (subst for_keys_lookup [where g = "\<lambda>k v old. case fmlookup (d_Nodes d) k of None \<Rightarrow> None
          | Some n \<Rightarrow> if \<not> selectable_table n \<or> tableRows n = [] then None else old"])
      (auto split: option.split)
  show ?thesis
    unfolding reconcileTableSelections_def Let_def
    by (simp, subst for_keys_lookup [where g = "\<lambda>k n old. if \<not> selectable_table n then old else reconcileSelection n old"])
      (auto simp: first reconcileSelection_None split: option.split)
qed

subsection \<open>The invariant of the interaction state\<close>

definition input_ids :: "Document \<Rightarrow> string set" where
  "input_ids d = {x. \<exists>n. fmlookup (d_Nodes d) x = Some n \<and> n_Type n = NodeInput}"

definition focus_ok :: "Document \<Rightarrow> State \<Rightarrow> bool" where
  "focus_ok d s \<longleftrightarrow> s_FocusedID s = [] \<or> focus_valid d (s_FocusedID s)"

definition selections_ok :: "Document \<Rightarrow> State \<Rightarrow> bool" where
  "selections_ok d s \<longleftrightarrow> (\<forall>x. case fmlookup (s_TableSelections s) x of
       Some ts \<Rightarrow> (\<exists>n. fmlookup (d_Nodes d) x = Some n \<and> selectable_table n \<and> sel_ok n ts)
     | None \<Rightarrow> (\<forall>n. fmlookup (d_Nodes d) x = Some n \<longrightarrow> \<not> selectable_table n \<or> tableRows n = []))"

definition rt_inv :: "Document \<Rightarrow> State \<Rightarrow> bool" where
  "rt_inv d s \<longleftrightarrow> focus_ok d s \<and> fset (fmdom (s_InputValues s)) = input_ids d \<and> selections_ok d s \<and>
     buildBindings d = Ret (Inr (s_Bindings s))"

lemma fold_drop_removed:
  "s_InputValues (fold drop_removed rs s) = fmfilter (\<lambda>x. x \<notin> set rs) (s_InputValues s)"
  "s_TableSelections (fold drop_removed rs s) = s_TableSelections s"
  "s_FocusedID (fold drop_removed rs s) = (if s_FocusedID s \<in> set rs then [] else s_FocusedID s)"
proof -
  show "s_TableSelections (fold drop_removed rs s) = s_TableSelections s"
    by (induction rs arbitrary: s) (simp_all add: drop_removed_def)
  have "fmlookup (s_InputValues (fold drop_removed rs s)) x = (if x \<in> set rs then None else fmlookup (s_InputValues s) x)" for x
    by (induction rs arbitrary: s) (simp_all add: drop_removed_def)
  then show "s_InputValues (fold drop_removed rs s) = fmfilter (\<lambda>x. x \<notin> set rs) (s_InputValues s)"
    by (intro fmap_ext) simp
  show "s_FocusedID (fold drop_removed rs s) = (if s_FocusedID s \<in> set rs then [] else s_FocusedID s)"
    by (induction rs arbitrary: s) (auto simp: drop_removed_def)
qed

lemma reconcile_inputs_lookup:
  "fmlookup (reconcile_inputs prev nxt op eff m) x =
     (case fmlookup (d_Nodes nxt) x of
        None \<Rightarrow> fmlookup m x
      | Some n \<Rightarrow>
          if n_Type n \<noteq> NodeInput then fmlookup m x
          else if x \<notin> input_ids prev \<or> (ForceInputValue (eff_Policy eff) \<and> x = op_ID op) \<or> fmlookup m x = None
          then Some (propString n ''value'') else fmlookup m x)"
  unfolding reconcile_inputs_def
  by (subst for_keys_lookup [where g = "\<lambda>k n old.
        if n_Type n \<noteq> NodeInput then old
        else if k \<notin> input_ids prev \<or> (ForceInputValue (eff_Policy eff) \<and> k = op_ID op) \<or> old = None
        then Some (propString n ''value'') else old"])
    (auto simp: input_ids_def split: option.split)

text \<open>A node an operation neither removes nor retypes keeps its type.\<close>

lemma Apply_type_stable:
  assumes c: "consistent d" and a: "Apply d op limits = Ret (d', eff, None)"
    and x: "fmlookup (d_Nodes d) x = Some n" "x \<notin> set (eff_Removed eff)" "\<not> (eff_TypeChanged eff \<and> x = op_ID op)"
  shows "\<exists>n'. fmlookup (d_Nodes d') x = Some n' \<and> n_Type n' = n_Type n"
  using a
proof (cases rule: Apply_cases)
  case (accepted cand)
  have nodes: "d_Nodes d' = d_Nodes cand" using accepted(5,6) by (cases "eff_Changed eff") auto
  let ?eff = "zero_effect\<lparr>eff_Frame := op_Frame op, eff_ThroughSeq := op_Seq op\<rparr>"
  show ?thesis
  proof (cases "op_Op op")
    case OpUpsert
    have ne: "op_ID op \<noteq> []" using ValidateOperation_upsert [OF accepted(2) OpUpsert] by metis
    have u: "applyUpsert d op ?eff limits = Ret (cand, eff, None)" using accepted(4) OpUpsert by (simp add: apply_op_def)
    show ?thesis
    proof (cases "x = op_ID op")
      case False
      have "map_option bare (fmlookup (d_Nodes cand) x) = map_option bare (fmlookup (d_Nodes d) x)"
        by (rule applyUpsert_effect [OF c ne u]) (use False in blast)
      then obtain m' where "fmlookup (d_Nodes cand) x = Some m'" "bare m' = bare n" using x(1) by auto
      then show ?thesis using nodes bare_eqD(2) [of m' n] by simp
    next
      case True
      from u obtain m pol where m: "NormalizeProps (op_Type op) (op_Props op) True = Inr (m, pol)" and r: "op_ID op \<noteq> root_id"
        by (auto simp: applyUpsert_def split: if_splits sum.splits)
      with u True x(1) have e: "upsert_existing d op (?eff\<lparr>eff_Policy := pol\<rparr>) limits m (explicitPropKeys (op_Props op)) n = Ret (cand, eff, None)"
        by (simp add: applyUpsert_def Let_def)
      have n: "fmlookup (d_Nodes d) (op_ID op) = Some n" using x(1) True by simp
      show ?thesis
        by (rule upsert_existing_nodes [OF c n r e]) (use x(3) True nodes in \<open>simp add: zero_effect_def\<close>)
    qed
  next
    case OpProps
    then have "applyProps d op ?eff limits = Ret (cand, eff, None)" using accepted(4) by (simp add: apply_op_def)
    then show ?thesis using x(1) nodes by (rule_tac applyProps_nodes) auto
  next
    case OpText
    then have "applyText d op ?eff limits = (cand, eff, None)" using accepted(4) by (simp add: apply_op_def)
    then show ?thesis using x(1) nodes by (rule_tac applyText_nodes) auto
  next
    case OpRemove
    then have u: "applyRemove d op ?eff = Ret (cand, eff, None)" using accepted(4) by (simp add: apply_op_def)
    show ?thesis
      using c u
    proof (rule applyRemove_Ret)
      fix m p :: Node and rs
      assume p: "fmlookup (d_Nodes d) (n_Parent m) = Some p"
        and rs: "set rs = below (d_Nodes d) (op_ID op)" "eff = ?eff\<lparr>eff_Removed := eff_Removed ?eff @ rs, eff_Changed := True\<rparr>"
        and cand: "d_Nodes cand = fmfilter (\<lambda>x. x \<notin> below (d_Nodes d) (op_ID op))
          (fmupd (n_Parent m) (p\<lparr>n_Children := remove1 (op_ID op) (n_Children p)\<rparr>) (d_Nodes d))"
      have "eff_Removed eff = rs" by (simp add: rs(2) zero_effect_def)
      then have "x \<notin> below (d_Nodes d) (op_ID op)" using x(2) rs(1) by simp
      then show ?thesis using x(1) p by (auto simp: nodes cand)
    qed
  qed (use accepted x(1) nodes in \<open>simp_all add: apply_op_def\<close>)
qed (use x in simp_all)

text \<open>Every way a reconciliation can return without an error.\<close>

definition cleared_inputs :: "State \<Rightarrow> Operation \<Rightarrow> Effect \<Rightarrow> string gomap" where
  "cleared_inputs s op eff =
     fmfilter (\<lambda>x. x \<notin> set (eff_Removed eff) \<and> \<not> (eff_TypeChanged eff \<and> x = op_ID op)) (s_InputValues s)"

lemma clear_state_sel:
  "s_InputValues (clear_state s op eff) = cleared_inputs s op eff"
  "s_TableSelections (clear_state s op eff) = s_TableSelections s"
proof -
  show "s_InputValues (clear_state s op eff) = cleared_inputs s op eff"
    by (rule fmap_ext) (auto simp: clear_state_def cleared_inputs_def drop_removed_def fold_drop_removed Let_def)
  show "s_TableSelections (clear_state s op eff) = s_TableSelections s"
    by (simp add: clear_state_def drop_removed_def fold_drop_removed Let_def)
qed

lemma finish_state_sel [simp]:
  "s_InputValues (finish_state s cand nxt eff b) = s_InputValues cand"
  "s_TableSelections (finish_state s cand nxt eff b) = s_TableSelections cand"
  "s_FocusedID (finish_state s cand nxt eff b) = s_FocusedID cand"
  "s_Bindings (finish_state s cand nxt eff b) = b"
  by (simp_all add: finish_state_def Let_def)

lemma can_focus_valid: "can_focus (d_Nodes d) x \<Longrightarrow> focus_valid d x"
  by (auto simp: can_focus_def focus_valid_def split: option.splits)

text \<open>The focus after reconciliation is valid; the other fields are untouched.\<close>

lemma settle_focus_returns:
  assumes c: "consistent nxt"
  shows "\<exists>f. settle_focus had cand nxt op eff = Ret (cand\<lparr>s_FocusedID := f\<rparr>) \<and> (f = [] \<or> focus_valid nxt f)"
proof -
  let ?g = "head_or_empty (filter (can_focus (d_Nodes nxt)) (doc_order nxt))"
  have g: "?g = [] \<or> focus_valid nxt ?g"
    using can_focus_valid by (cases "filter (can_focus (d_Nodes nxt)) (doc_order nxt)")
      (auto simp: head_or_empty_def filter_eq_Cons_iff)
  have same: "cand\<lparr>s_FocusedID := s_FocusedID cand\<rparr> = cand" by simp
  show ?thesis
    unfolding settle_focus_def Let_def firstFocusable_eq [OF c]
    using g same by (cases "op_Op op = OpFocus") (auto intro: exI [of _ "s_FocusedID cand"])
qed

lemma reconcileTableSelections_sel [simp]:
  "s_InputValues (reconcileTableSelections s d) = s_InputValues s"
  "s_FocusedID (reconcileTableSelections s d) = s_FocusedID s"
  by (simp_all add: reconcileTableSelections_def Let_def)

lemma Reconcile_Ret:
  assumes r: "Reconcile s prev nxt op eff = Ret (s', None)" and c: "consistent nxt"
  shows "s_InputValues s' = reconcile_inputs prev nxt op eff (cleared_inputs s op eff)"
    and "fmlookup (s_TableSelections s') x = (case fmlookup (d_Nodes nxt) x of
        None \<Rightarrow> None
      | Some n \<Rightarrow> if selectable_table n \<and> tableRows n \<noteq> [] then reconcileSelection n (fmlookup (s_TableSelections s) x) else None)"
    and "buildBindings nxt = Ret (Inr (s_Bindings s'))"
    and "focus_ok nxt s'"
proof -
  let ?c1 = "clear_state s op eff"
  let ?c2 = "?c1\<lparr>s_InputValues := reconcile_inputs prev nxt op eff (s_InputValues ?c1)\<rparr>"
  obtain f where f: "settle_focus (s_FocusedID s \<noteq> []) ?c2 nxt op eff = Ret (?c2\<lparr>s_FocusedID := f\<rparr>)" "f = [] \<or> focus_valid nxt f"
    using settle_focus_returns [OF c] by blast
  obtain b where b: "buildBindings nxt = Ret (Inr b)"
      and s': "s' = finish_state s (reconcileTableSelections (?c2\<lparr>s_FocusedID := f\<rparr>) nxt) nxt eff b"
    using r buildBindings_eq [OF consistentD(1) [OF c]]
    by (cases "bind_all (d_Nodes nxt) (doc_order nxt) fmempty")
      (auto simp: Reconcile_def Let_def f(1) split: if_splits)
  show "s_InputValues s' = reconcile_inputs prev nxt op eff (cleared_inputs s op eff)"
    by (simp add: s' clear_state_sel)
  show "fmlookup (s_TableSelections s') x = (case fmlookup (d_Nodes nxt) x of
        None \<Rightarrow> None
      | Some n \<Rightarrow> if selectable_table n \<and> tableRows n \<noteq> [] then reconcileSelection n (fmlookup (s_TableSelections s) x) else None)"
    by (simp add: s' reconcileTableSelections_lookup clear_state_sel split: option.split)
  show "buildBindings nxt = Ret (Inr (s_Bindings s'))" using b by (simp add: s')
  show "focus_ok nxt s'" using f(2) by (simp add: s' focus_ok_def)
qed

lemma Reconcile_returns:
  assumes c: "consistent nxt"
  shows "returns (Reconcile s prev nxt op eff)"
proof -
  have "returns (settle_focus had cand nxt op eff)" for had cand
    using settle_focus_returns [OF c] by (metis returns_Ret)
  then show ?thesis
    using buildBindings_eq [OF consistentD(1) [OF c]]
    by (auto simp: Reconcile_def Let_def intro!: returns_bind split: sum.split)
qed

lemma Reconcile_error_unchanged:
  assumes c: "consistent nxt" and r: "Reconcile s prev nxt op eff = Ret (s', Some e)"
  shows "s' = s"
proof -
  let ?c1 = "clear_state s op eff"
  let ?c2 = "?c1\<lparr>s_InputValues := reconcile_inputs prev nxt op eff (s_InputValues ?c1)\<rparr>"
  obtain f where "settle_focus (s_FocusedID s \<noteq> []) ?c2 nxt op eff = Ret (?c2\<lparr>s_FocusedID := f\<rparr>)"
    using settle_focus_returns [OF c] by blast
  then show ?thesis
    using r buildBindings_eq [OF consistentD(1) [OF c]]
    by (cases "bind_all (d_Nodes nxt) (doc_order nxt) fmempty") (auto simp: Reconcile_def Let_def split: if_splits)
qed

lemma Reconcile_keeps_inv:
  assumes c: "consistent prev" "consistent nxt" and i: "rt_inv prev s"
    and a: "Apply prev op limits = Ret (nxt, eff, None)" and r: "Reconcile s prev nxt op eff = Ret (s', None)"
  shows "rt_inv nxt s'"
proof -
  note R = Reconcile_Ret [OF r c(2)]
  have "x \<in> fset (fmdom (s_InputValues s')) \<longleftrightarrow> x \<in> input_ids nxt" for x
  proof -
    have dom: "fmlookup (cleared_inputs s op eff) x \<noteq> None \<Longrightarrow> x \<in> input_ids nxt"
    proof -
      assume "fmlookup (cleared_inputs s op eff) x \<noteq> None"
      then have g: "x \<notin> set (eff_Removed eff)" "\<not> (eff_TypeChanged eff \<and> x = op_ID op)" "x \<in> fset (fmdom (s_InputValues s))"
        by (auto simp: cleared_inputs_def lookup_simps split: if_splits)
      then obtain n where "fmlookup (d_Nodes prev) x = Some n" "n_Type n = NodeInput"
        using i by (auto simp: rt_inv_def input_ids_def)
      then show ?thesis using Apply_type_stable [OF c(1) a _ g(1,2)] by (fastforce simp: input_ids_def)
    qed
    show ?thesis
      using dom unfolding R(1) lookup_simps reconcile_inputs_lookup
      by (cases "fmlookup (cleared_inputs s op eff) x") (auto simp: input_ids_def split: option.splits if_splits)
  qed
  moreover have "selections_ok nxt s'"
    using reconcileSelection_ok reconcileSelection_None
    by (fastforce simp: selections_ok_def R(2) split: option.splits if_splits)
  ultimately show ?thesis using R(3,4) by (auto simp: rt_inv_def)
qed

subsection \<open>Local interaction keeps the invariant\<close>

lemma SetLocalFocus_inv: "rt_inv d s \<Longrightarrow> rt_inv d (fst (SetLocalFocus s d nid))"
  by (auto simp: SetLocalFocus_def rt_inv_def focus_ok_def focus_valid_def selections_ok_def split: option.split)

lemma SetInputValue_inv:
  assumes "rt_inv d s" "nid \<in> input_ids d"
  shows "rt_inv d (fst (SetInputValue s nid v))"
  using assms by (auto simp: SetInputValue_def rt_inv_def focus_ok_def selections_ok_def)

lemma selections_ok_update:
  assumes "selections_ok d s" "fmlookup (d_Nodes d) nid = Some n" "selectable_table n"
    and "case v of Some ts \<Rightarrow> sel_ok n ts | None \<Rightarrow> tableRows n = []"
  shows "selections_ok d (s\<lparr>s_TableSelections := set_or_delete nid v (s_TableSelections s), s_RenderGeneration := g\<rparr>)"
  using assms by (auto simp: selections_ok_def split: option.splits)

lemma SetTableSelection_eq:
  "SetTableSelection s d nid i =
     (case fmlookup (d_Nodes d) nid of
        Some n \<Rightarrow>
          if selectable_table n then
            (let v = tableSelectionAt n i in
             if fmlookup (s_TableSelections s) nid = v then (s, None)
             else (s\<lparr>s_TableSelections := set_or_delete nid v (s_TableSelections s),
                     s_RenderGeneration := s_RenderGeneration s + 1\<rparr>, None))
          else (s, snd (SetTableSelection s d nid i))
      | None \<Rightarrow> (s, snd (SetTableSelection s d nid i)))"
  by (auto simp: SetTableSelection_def selectable_table_def set_or_delete_def Let_def split: option.split)

lemma SetTableSelection_inv:
  assumes i: "rt_inv d s"
  shows "rt_inv d (fst (SetTableSelection s d nid i))"
proof (cases "fmlookup (d_Nodes d) nid")
  case None
  then show ?thesis using i by (subst SetTableSelection_eq) simp
next
  case (Some n)
  have ok: "case tableSelectionAt n i of Some ts \<Rightarrow> sel_ok n ts | None \<Rightarrow> tableRows n = []"
    using tableSelectionAt_ok tableSelectionAt_None [of n i] by (auto split: option.split)
  show ?thesis
    using Some i selections_ok_update [OF _ Some _ ok, of s]
    by (subst SetTableSelection_eq) (auto simp: rt_inv_def focus_ok_def Let_def)
qed

lemma MoveTableSelection_inv: "rt_inv d s \<Longrightarrow> rt_inv d (fst (MoveTableSelection s d nid delta))"
  using SetTableSelection_inv by (auto simp: MoveTableSelection_def Let_def split: option.split)

lemma Publish_inv: "rt_inv d (Publish s) \<longleftrightarrow> rt_inv d s"
  by (simp add: Publish_def rt_inv_def focus_ok_def selections_ok_def Let_def)

lemma NewState_inv: "rt_inv New_Document NewState"
proof -
  have "tree (d_Nodes New_Document)"
    using New_Document_inv [OF room_DefaultLimits] by (simp add: doc_inv_def consistent_def)
  moreover have nodes: "fmlookup (d_Nodes New_Document) x = Some n \<Longrightarrow> n_Type n = NodeBox" for x n
    by (auto simp: New_Document_def split: if_splits)
  moreover have "buildBindings New_Document = Ret (Inr fmempty)" by code_simp
  ultimately show ?thesis
    by (auto simp: rt_inv_def NewState_def focus_ok_def input_ids_def selections_ok_def selectable_table_def dest!: nodes)
qed

end
