(* ===== verification/Events.thy ===== *)
theory Events
  imports Protocol
begin

text \<open>
  The event broker of \<open>runtime/events.go\<close>: a bounded store of three classes of events, and
  its contract. Every method runs under the broker's mutex, so a concurrent history is some
  sequence of these calls; the results below hold for every such sequence.
\<close>

subsection \<open>The broker\<close>

datatype EventClass = EventCritical | EventCoalescible | EventTelemetry | EventClassOther int

record EventBroker =
  b_cap :: int
  b_nextOrder :: u64
  b_nextSeq :: u64
  b_critical :: "Event list"
  b_coalesced :: "Event gomap"
  b_telemetry :: "Event list"

definition NewEventBroker :: "int \<Rightarrow> EventBroker" where
  "NewEventBroker capacity = \<lparr>b_cap = (if capacity < 1 then 1 else capacity), b_nextOrder = 0, b_nextSeq = 0,
     b_critical = [], b_coalesced = fmempty, b_telemetry = []\<rparr>"

definition order :: "EventBroker \<Rightarrow> Event \<Rightarrow> EventBroker \<times> Event" where
  "order b ev = (let b = b\<lparr>b_nextOrder := b_nextOrder b + 1\<rparr> in (b, ev\<lparr>ev_Seq := b_nextOrder b\<rparr>))"

definition depthLocked :: "EventBroker \<Rightarrow> int" where
  "depthLocked b = int (length (b_critical b)) + int (msize (b_coalesced b)) + int (length (b_telemetry b))"

definition backpressure :: "EventBroker \<Rightarrow> Error" where
  "backpressure b = NewError ''runtime.backpressure_exceeded''
     (Sprintf ''pending event queue limit %d reached'' [FInt (b_cap b)])"

definition class_number :: "EventClass \<Rightarrow> int" where
  "class_number c = (case c of EventCritical \<Rightarrow> 0 | EventCoalescible \<Rightarrow> 1 | EventTelemetry \<Rightarrow> 2 | EventClassOther i \<Rightarrow> i)"

definition coalesce_key :: "Event \<Rightarrow> string" where
  "coalesce_key ev = ev_Ev ev @ ''|'' @ ev_ID ev"

definition Enqueue :: "EventBroker \<Rightarrow> Event \<Rightarrow> EventClass \<Rightarrow> EventBroker \<times> Error option" where
  "Enqueue b ev cls =
     (case cls of
        EventCritical \<Rightarrow>
          if depthLocked b \<ge> b_cap b then (b, Some (backpressure b))
          else (let (b, ev) = order b ev in (b\<lparr>b_critical := b_critical b @ [ev]\<rparr>, None))
      | EventCoalescible \<Rightarrow>
          (let key = coalesce_key ev in
           if fmlookup (b_coalesced b) key = None \<and> depthLocked b \<ge> b_cap b then (b, Some (backpressure b))
           else (let (b, ev) = order b ev in (b\<lparr>b_coalesced := fmupd key ev (b_coalesced b)\<rparr>, None)))
      | EventTelemetry \<Rightarrow>
          if depthLocked b \<ge> b_cap b \<and> b_telemetry b = [] then (b, None)
          else
            (let b = (if depthLocked b \<ge> b_cap b then b\<lparr>b_telemetry := tl (b_telemetry b)\<rparr> else b);
                 (b, ev) = order b ev in
             (b\<lparr>b_telemetry := b_telemetry b @ [ev]\<rparr>, None))
      | EventClassOther i \<Rightarrow>
          (b, Some (NewError ''runtime.invalid_event_class'' (Sprintf ''unknown event class %d'' [FInt i]))))"

fun append_critical :: "EventBroker \<Rightarrow> Event list \<Rightarrow> EventBroker" where
  "append_critical b [] = b"
| "append_critical b (ev # evs) =
     (let (b, ev) = order b ev in append_critical (b\<lparr>b_critical := b_critical b @ [ev]\<rparr>) evs)"

definition EnqueueCriticalBatch :: "EventBroker \<Rightarrow> Event list \<Rightarrow> EventBroker \<times> Error option" where
  "EnqueueCriticalBatch b events =
     (if events = [] then (b, None)
      else if depthLocked b + int (length events) > b_cap b then (b, Some (backpressure b))
      else (append_critical b events, None))"

definition deliver :: "EventBroker \<Rightarrow> Event \<Rightarrow> EventBroker \<times> Event" where
  "deliver b ev = (let b = b\<lparr>b_nextSeq := b_nextSeq b + 1\<rparr> in (b, ev\<lparr>ev_V := Version, ev_Seq := b_nextSeq b\<rparr>))"

text \<open>The scan for the oldest coalesced event; an empty chosen key means none chosen yet.\<close>

definition choose_step :: "Event gomap \<Rightarrow> string \<Rightarrow> string \<times> Event \<Rightarrow> string \<times> Event" where
  "choose_step m k c =
     (let ev = the (fmlookup m k) in if fst c = [] \<or> ev_Seq ev < ev_Seq (snd c) then (k, ev) else c)"

definition choose_oldest :: "Event gomap \<Rightarrow> string \<times> Event" where
  "choose_oldest m = fold (choose_step m) (keys_of m) ([], zero_event)"

definition Next :: "EventBroker \<Rightarrow> EventBroker \<times> Event option" where
  "Next b =
     (if b_critical b \<noteq> [] then
        (let (b', ev) = deliver (b\<lparr>b_critical := tl (b_critical b)\<rparr>) (hd (b_critical b)) in (b', Some ev))
      else if b_coalesced b \<noteq> fmempty then
        (let (key, chosen) = choose_oldest (b_coalesced b);
             (b', ev) = deliver (b\<lparr>b_coalesced := fmdrop key (b_coalesced b)\<rparr>) chosen in (b', Some ev))
      else if b_telemetry b \<noteq> [] then
        (let (b', ev) = deliver (b\<lparr>b_telemetry := tl (b_telemetry b)\<rparr>) (hd (b_telemetry b)) in (b', Some ev))
      else (b, None))"

definition Depth :: "EventBroker \<Rightarrow> int" where
  "Depth b = depthLocked b"

subsection \<open>The calls as labels\<close>

datatype broker_call = CEnqueue Event EventClass | CBatch "Event list" | CNext

definition broker_step :: "EventBroker \<Rightarrow> broker_call \<Rightarrow> EventBroker" where
  "broker_step b c =
     (case c of
        CEnqueue ev cls \<Rightarrow> fst (Enqueue b ev cls)
      | CBatch evs \<Rightarrow> fst (EnqueueCriticalBatch b evs)
      | CNext \<Rightarrow> fst (Next b))"

definition delivered :: "EventBroker \<Rightarrow> broker_call \<Rightarrow> Event list" where
  "delivered b c = (case c of CNext \<Rightarrow> (case snd (Next b) of None \<Rightarrow> [] | Some ev \<Rightarrow> [ev]) | _ \<Rightarrow> [])"

fun deliveries :: "EventBroker \<Rightarrow> broker_call list \<Rightarrow> Event list" where
  "deliveries b [] = []"
| "deliveries b (c # cs) = delivered b c @ deliveries (broker_step b c) cs"

subsection \<open>The depth never exceeds the capacity\<close>

definition broker_inv :: "EventBroker \<Rightarrow> bool" where
  "broker_inv b \<longleftrightarrow> 1 \<le> b_cap b \<and> depthLocked b \<le> b_cap b \<and> fmlookup (b_coalesced b) [] = None"

lemma order_simps [simp]:
  "fst (order b ev) = b\<lparr>b_nextOrder := b_nextOrder b + 1\<rparr>" "snd (order b ev) = ev\<lparr>ev_Seq := b_nextOrder b + 1\<rparr>"
  by (simp_all add: order_def Let_def)

lemma deliver_simps [simp]:
  "fst (deliver b ev) = b\<lparr>b_nextSeq := b_nextSeq b + 1\<rparr>"
  "snd (deliver b ev) = ev\<lparr>ev_V := Version, ev_Seq := b_nextSeq b + 1\<rparr>"
  by (simp_all add: deliver_def Let_def)

lemma append_critical_sel:
  "b_cap (append_critical b evs) = b_cap b" "b_coalesced (append_critical b evs) = b_coalesced b"
  "b_telemetry (append_critical b evs) = b_telemetry b" "b_nextSeq (append_critical b evs) = b_nextSeq b"
  by (induction evs arbitrary: b) (simp_all add: Let_def case_prod_beta)

lemma append_critical_events:
  "\<exists>evs'. b_critical (append_critical b evs) = b_critical b @ evs' \<and>
     map (\<lambda>e. e\<lparr>ev_Seq := 0\<rparr>) evs' = map (\<lambda>e. e\<lparr>ev_Seq := 0\<rparr>) evs"
proof (induction evs arbitrary: b)
  case Nil
  then show ?case by simp
next
  case (Cons ev evs)
  let ?b = "b\<lparr>b_nextOrder := b_nextOrder b + 1, b_critical := b_critical b @ [ev\<lparr>ev_Seq := b_nextOrder b + 1\<rparr>]\<rparr>"
  obtain evs' where "b_critical (append_critical ?b evs) = b_critical ?b @ evs'"
      "map (\<lambda>e. e\<lparr>ev_Seq := 0\<rparr>) evs' = map (\<lambda>e. e\<lparr>ev_Seq := 0\<rparr>) evs"
    using Cons.IH by blast
  then show ?case
    by (intro exI [of _ "ev\<lparr>ev_Seq := b_nextOrder b + 1\<rparr> # evs'"]) (simp add: Let_def case_prod_beta)
qed

lemma append_critical_length [simp]: "length (b_critical (append_critical b evs)) = length (b_critical b) + length evs"
  by (metis append_critical_events length_append length_map)

lemma coalesce_key_not_empty [simp]: "coalesce_key ev \<noteq> []"
  by (simp add: coalesce_key_def)

lemma msize_fmdrop: "fmlookup m k \<noteq> None \<Longrightarrow> Suc (msize (fmdrop k m)) = msize m"
proof -
  assume "fmlookup m k \<noteq> None"
  then have "k \<in> fset (fmdom m)" by (auto simp: lookup_simps)
  then have "card (fset (fmdom m)) = Suc (card (fset (fmdom m) - {k}))" by (rule card.remove [rotated]) simp
  then show ?thesis by (simp add: msize_card)
qed

lemma choose_fold:
  assumes "\<forall>k \<in> set ks. fmlookup m k \<noteq> None \<and> k \<noteq> []"
    and "fst c = [] \<or> fmlookup m (fst c) = Some (snd c)" and "fst c \<noteq> [] \<or> ks \<noteq> []"
  shows "\<exists>k ev. fold (choose_step m) ks c = (k, ev) \<and> k \<noteq> [] \<and> fmlookup m k = Some ev \<and>
     (\<forall>k' \<in> set ks. ev_Seq ev \<le> ev_Seq (the (fmlookup m k'))) \<and> (fst c \<noteq> [] \<longrightarrow> ev_Seq ev \<le> ev_Seq (snd c))"
  using assms
proof (induction ks arbitrary: c)
  case Nil
  then show ?case by (cases c) auto
next
  case (Cons k ks)
  let ?c = "choose_step m k c"
  have step: "fst ?c \<noteq> []" "fmlookup m (fst ?c) = Some (snd ?c)" "ev_Seq (snd ?c) \<le> ev_Seq (the (fmlookup m k))"
    "fst c \<noteq> [] \<longrightarrow> ev_Seq (snd ?c) \<le> ev_Seq (snd c)"
    using Cons.prems by (auto simp: choose_step_def Let_def)
  then obtain k' ev where "fold (choose_step m) ks ?c = (k', ev)" "k' \<noteq> []" "fmlookup m k' = Some ev"
      "\<forall>k' \<in> set ks. ev_Seq ev \<le> ev_Seq (the (fmlookup m k'))" "ev_Seq ev \<le> ev_Seq (snd ?c)"
    using Cons.IH [of ?c] Cons.prems by auto
  then show ?case using step by (auto intro: order_trans)
qed

text \<open>The scan finds an entry of the map, and none is older.\<close>

lemma choose_oldest:
  assumes "m \<noteq> fmempty" "fmlookup m [] = None"
  obtains k ev where "choose_oldest m = (k, ev)" "fmlookup m k = Some ev"
    "\<And>k' ev'. fmlookup m k' = Some ev' \<Longrightarrow> ev_Seq ev \<le> ev_Seq ev'"
proof -
  have "keys_of m \<noteq> []"
  proof
    assume "keys_of m = []"
    then have "fset (fmdom m) = {}" by (metis set_keys_of list.set(1))
    then have "\<And>k. fmlookup m k = None" by (metis empty_iff not_in_fmdom_iff)
    then have "m = fmempty" by (intro fmap_ext) simp
    with assms(1) show False ..
  qed
  moreover have "\<forall>k \<in> set (keys_of m). fmlookup m k \<noteq> None \<and> k \<noteq> []" using assms(2) by (auto simp: lookup_simps)
  ultimately obtain k ev where "choose_oldest m = (k, ev)" "fmlookup m k = Some ev"
      "\<forall>k' \<in> set (keys_of m). ev_Seq ev \<le> ev_Seq (the (fmlookup m k'))"
    using choose_fold [of "keys_of m" m "([], zero_event)"] by (auto simp: choose_oldest_def)
  moreover have "k' \<in> set (keys_of m)" if "fmlookup m k' = Some ev'" for k' ev'
    using that by (simp add: lookup_simps)
  ultimately show thesis by (intro that [of k ev]) (auto, metis option.sel)
qed

lemmas broker_defs = Enqueue_def EnqueueCriticalBatch_def Next_def depthLocked_def

lemma Enqueue_inv:
  assumes "broker_inv b"
  shows "broker_inv (fst (Enqueue b ev cls))"
  using assms
  by (cases cls) (auto simp: broker_inv_def Enqueue_def depthLocked_def Let_def case_prod_beta msize_fmupd lookup_simps
      of_nat_diff Suc_le_eq split: if_splits)

lemma Batch_inv: "broker_inv b \<Longrightarrow> broker_inv (fst (EnqueueCriticalBatch b evs))"
  by (auto simp: broker_inv_def EnqueueCriticalBatch_def depthLocked_def append_critical_sel)

lemma Next_inv:
  assumes i: "broker_inv b"
  shows "broker_inv (fst (Next b))"
proof (cases "b_critical b = [] \<and> b_coalesced b \<noteq> fmempty")
  case True
  then obtain k ev where c: "choose_oldest (b_coalesced b) = (k, ev)" "fmlookup (b_coalesced b) k = Some ev"
    using choose_oldest i unfolding broker_inv_def by metis
  then have "Suc (msize (fmdrop k (b_coalesced b))) = msize (b_coalesced b)" by (intro msize_fmdrop) simp
  then show ?thesis using i True c by (simp add: broker_inv_def Next_def depthLocked_def case_prod_beta)
next
  case False
  then show ?thesis
    using i by (auto simp: broker_inv_def Next_def depthLocked_def case_prod_beta)
qed

definition broker_start :: "EventBroker \<Rightarrow> bool" where
  "broker_start b \<longleftrightarrow> (\<exists>capacity. b = NewEventBroker capacity)"

interpretation brokerm: machine broker_start broker_step broker_inv
proof
  show "broker_start b \<Longrightarrow> broker_inv b" for b
    by (auto simp: broker_start_def NewEventBroker_def broker_inv_def depthLocked_def)
  show "broker_inv b \<Longrightarrow> broker_inv (broker_step b c)" for b c
    by (cases c) (simp_all add: broker_step_def Enqueue_inv Batch_inv Next_inv)
qed

subsection \<open>Delivery sequence\<close>

lemma nextSeq_Enqueue [simp]:
  "b_nextSeq (fst (Enqueue b ev cls)) = b_nextSeq b" "b_nextSeq (fst (EnqueueCriticalBatch b evs)) = b_nextSeq b"
  by (auto simp: Enqueue_def EnqueueCriticalBatch_def append_critical_sel Let_def case_prod_beta split: EventClass.split)

lemma Next_seq:
  "case snd (Next b) of
     None \<Rightarrow> fst (Next b) = b
   | Some ev \<Rightarrow> b_nextSeq (fst (Next b)) = b_nextSeq b + 1 \<and> ev_Seq ev = b_nextSeq b + 1 \<and> ev_V ev = Version"
  by (simp add: Next_def case_prod_beta Let_def)

text \<open>The numbers \<open>s + 1, s + 2, ...\<close> of a run of deliveries.\<close>

fun count_from :: "u64 \<Rightarrow> nat \<Rightarrow> u64 list" where
  "count_from s 0 = []"
| "count_from s (Suc n) = (s + 1) # count_from (s + 1) n"

lemma deliveries_seq: "map ev_Seq (deliveries b cs) = count_from (b_nextSeq b) (length (deliveries b cs))"
proof (induction cs arbitrary: b)
  case Nil
  then show ?case by simp
next
  case (Cons c cs)
  show ?case
  proof (cases "\<exists>ev. c = CNext \<and> snd (Next b) = Some ev")
    case True
    then show ?thesis using Next_seq [of b] Cons.IH [of "fst (Next b)"] by (auto simp: delivered_def broker_step_def)
  next
    case False
    then have "delivered b c = []" "b_nextSeq (broker_step b c) = b_nextSeq b"
      using Next_seq [of b] by (auto simp: delivered_def broker_step_def split: broker_call.splits option.splits)
    then show ?thesis using Cons.IH [of "broker_step b c"] by simp
  qed
qed

subsection \<open>Critical events form a queue\<close>

text \<open>What a consumer sees of an event, besides the stamps of the broker.\<close>

definition payload :: "Event \<Rightarrow> Event" where
  "payload ev = ev\<lparr>ev_V := 0, ev_Seq := 0\<rparr>"

lemma payload_stamps [simp]: "payload (ev\<lparr>ev_Seq := s\<rparr>) = payload ev" "payload (ev\<lparr>ev_V := v\<rparr>) = payload ev"
  by (simp_all add: payload_def)

definition critical_payloads :: "EventBroker \<Rightarrow> Event list" where
  "critical_payloads b = map payload (b_critical b)"

definition critical_taken :: "EventBroker \<Rightarrow> broker_call \<Rightarrow> Event list" where
  "critical_taken b c =
     (case c of
        CEnqueue ev cls \<Rightarrow> if cls = EventCritical \<and> snd (Enqueue b ev cls) = None then [payload ev] else []
      | CBatch evs \<Rightarrow> if snd (EnqueueCriticalBatch b evs) = None then map payload evs else []
      | CNext \<Rightarrow> [])"

definition critical_given :: "EventBroker \<Rightarrow> broker_call \<Rightarrow> Event list" where
  "critical_given b c = (if c = CNext \<and> b_critical b \<noteq> [] then map payload (delivered b c) else [])"

lemma append_critical_payloads: "critical_payloads (append_critical b evs) = critical_payloads b @ map payload evs"
  by (induction evs arbitrary: b) (simp_all add: critical_payloads_def Let_def case_prod_beta)

interpretation critq: conserving broker_start broker_step broker_inv critical_payloads critical_taken critical_given
proof
  show "critical_payloads b @ critical_taken b c = critical_given b c @ critical_payloads (broker_step b c)" for b c
  proof (cases c)
    case (CEnqueue ev cls)
    then show ?thesis
      by (cases cls) (auto simp: critical_payloads_def critical_taken_def critical_given_def broker_step_def Enqueue_def
          Let_def case_prod_beta)
  next
    case (CBatch evs)
    then show ?thesis
      using append_critical_payloads [of b evs]
      by (auto simp: critical_taken_def critical_given_def broker_step_def EnqueueCriticalBatch_def)
  next
    case CNext
    then show ?thesis
      by (cases "b_critical b") (auto simp: critical_payloads_def critical_taken_def critical_given_def delivered_def
          broker_step_def Next_def Let_def case_prod_beta)
  qed
qed

subsection \<open>Properties\<close>

definition sample_event :: Event where
  "sample_event = zero_event\<lparr>ev_Ev := ''submit'', ev_ID := ''i''\<rparr>"

text \<open>C29. The broker is bounded: after any sequence of calls on a new broker, whatever the events
  and classes, the number of pending events is at most the capacity (at least one).\<close>

theorem broker_bounded:
  "Depth (run_steps broker_step (NewEventBroker capacity) calls) \<le> max 1 capacity"
proof -
  let ?b = "run_steps broker_step (NewEventBroker capacity) calls"
  have inv: "broker_inv ?b" by (rule brokerm.inv_from_start) (auto simp: broker_start_def)
  have "b_cap (broker_step b c) = b_cap b" for b c
    by (cases c) (auto simp: broker_step_def Enqueue_def EnqueueCriticalBatch_def Next_def append_critical_sel Let_def
        case_prod_beta split: EventClass.split)
  then have "b_cap (run_steps broker_step b calls) = b_cap b" for b
    by (induction calls arbitrary: b) simp_all
  then have "b_cap ?b = max 1 capacity" by (simp add: NewEventBroker_def)
  with inv show ?thesis by (simp add: broker_inv_def Depth_def)
qed

text \<open>The sequence numbers a consumer sees are contiguous: whatever calls are interleaved, the
  events delivered by a new broker carry 1, 2, 3, ... in the order of delivery (modulo 2 to the
  64).\<close>

lemma broker_sequence_contiguous:
  "map ev_Seq (deliveries (NewEventBroker capacity) calls) =
     count_from 0 (length (deliveries (NewEventBroker capacity) calls))"
  using deliveries_seq [of "NewEventBroker capacity"] by (simp add: NewEventBroker_def)

text \<open>C30. Critical events are reliable: on any run the events accepted as critical (singly or in a
  batch) are exactly the critical events delivered followed by those still pending, in order and
  with their contents; nothing is lost, duplicated or overtaken.\<close>

theorem broker_critical_reliable:
  "along broker_step critical_taken (NewEventBroker capacity) calls =
     along broker_step critical_given (NewEventBroker capacity) calls
     @ critical_payloads (run_steps broker_step (NewEventBroker capacity) calls)"
proof -
  have "broker_inv (NewEventBroker capacity)" by (rule brokerm.inv_start) (auto simp: broker_start_def)
  from critq.conserve_run [OF this, of calls] show ?thesis by (simp add: critical_payloads_def NewEventBroker_def)
qed

text \<open>A batch is atomic: it is refused exactly when it does not fit, and then the broker is
  unchanged; otherwise every event of it is appended, in order, and nothing else changes but the
  internal order counter.\<close>

lemma batch_atomic:
  "if evs \<noteq> [] \<and> depthLocked b + int (length evs) > b_cap b
   then EnqueueCriticalBatch b evs = (b, Some (backpressure b))
   else (\<exists>b'. EnqueueCriticalBatch b evs = (b', None) \<and>
     critical_payloads b' = critical_payloads b @ map payload evs \<and> b_coalesced b' = b_coalesced b \<and>
     b_telemetry b' = b_telemetry b \<and> b_nextSeq b' = b_nextSeq b)"
  using append_critical_payloads [of b evs] by (auto simp: EnqueueCriticalBatch_def append_critical_sel)

text \<open>Telemetry is lossy and harmless: it is never refused, never displaces a critical or a
  coalesced event, and at capacity it replaces the oldest telemetry event or is dropped.\<close>

lemma telemetry_never_displaces:
  "snd (Enqueue b ev EventTelemetry) = None \<and>
   b_critical (fst (Enqueue b ev EventTelemetry)) = b_critical b \<and>
   b_coalesced (fst (Enqueue b ev EventTelemetry)) = b_coalesced b \<and>
   map payload (b_telemetry (fst (Enqueue b ev EventTelemetry))) =
     (if depthLocked b < b_cap b then map payload (b_telemetry b) @ [payload ev]
      else if b_telemetry b = [] then []
      else map payload (tl (b_telemetry b)) @ [payload ev])"
  by (auto simp: Enqueue_def Let_def case_prod_beta)

text \<open>Coalesced events keep the latest value per kind and node: a coalescible event is refused
  exactly when its key is new and the queue is full; otherwise it is the one stored under its
  key, and an earlier one is replaced without growing the queue.\<close>

lemma coalesced_latest:
  "if fmlookup (b_coalesced b) (coalesce_key ev) = None \<and> depthLocked b \<ge> b_cap b
   then Enqueue b ev EventCoalescible = (b, Some (backpressure b))
   else (\<exists>b'. Enqueue b ev EventCoalescible = (b', None) \<and>
     b_coalesced b' = fmupd (coalesce_key ev) (ev\<lparr>ev_Seq := b_nextOrder b + 1\<rparr>) (b_coalesced b) \<and>
     b_critical b' = b_critical b \<and> b_telemetry b' = b_telemetry b \<and>
     Depth b' = Depth b + (if fmlookup (b_coalesced b) (coalesce_key ev) = None then 1 else 0))"
  by (auto simp: Enqueue_def Depth_def depthLocked_def Let_def case_prod_beta msize_fmupd lookup_simps)

text \<open>With no critical event pending, \<open>Next\<close> delivers a coalesced event that no other
  precedes in enqueue order, and removes just that one.\<close>

lemma coalesced_oldest_first:
  assumes i: "broker_inv b" and b: "b_critical b = []" "b_coalesced b \<noteq> fmempty"
  shows "\<exists>k e. fmlookup (b_coalesced b) k = Some e \<and>
    (\<forall>k' e'. fmlookup (b_coalesced b) k' = Some e' \<longrightarrow> ev_Seq e \<le> ev_Seq e') \<and>
    map_option payload (snd (Next b)) = Some (payload e) \<and> b_coalesced (fst (Next b)) = fmdrop k (b_coalesced b)"
proof -
  obtain k e where c: "choose_oldest (b_coalesced b) = (k, e)" "fmlookup (b_coalesced b) k = Some e"
      "\<And>k' e'. fmlookup (b_coalesced b) k' = Some e' \<Longrightarrow> ev_Seq e \<le> ev_Seq e'"
    using choose_oldest [OF b(2)] i unfolding broker_inv_def by metis
  have "map_option payload (snd (Next b)) = Some (payload e)" "b_coalesced (fst (Next b)) = fmdrop k (b_coalesced b)"
    using b c(1) by (simp_all add: Next_def Let_def case_prod_beta)
  with c show ?thesis by blast
qed

end
