(* ===== verification/Actions.thy ===== *)
theory Actions
  imports Protocol
begin

text \<open>
  The action registry of \<open>runtime/actions.go\<close>. What a handler, a context and a timer do is not
  decided by this code, so a dispatch takes those answers as an argument (\<open>dispatch_env\<close>) and
  the model gives the event for every combination of them. The semaphore that bounds the number
  of running handlers is shared by concurrent dispatches; it is a step relation over the phases
  of all of them.
\<close>

subsection \<open>The registry\<close>

record 'h ActionRegistry =
  r_handlers :: "'h gomap"
  r_timeout :: int
  r_sem :: int
  r_counter :: u64

text \<open>Durations are in nanoseconds.\<close>

definition NewActionRegistry :: "int \<Rightarrow> int \<Rightarrow> 'h ActionRegistry" where
  "NewActionRegistry timeout maxInflight =
     \<lparr>r_handlers = fmempty, r_timeout = (if timeout \<le> 0 then 5 * 10 ^ 9 else timeout),
      r_sem = (if maxInflight < 1 then 1 else maxInflight), r_counter = 0\<rparr>"

text \<open>A nil registry and a nil handler are \<open>None\<close>.\<close>

definition Register :: "'h ActionRegistry option \<Rightarrow> string \<Rightarrow> 'h option \<Rightarrow> 'h ActionRegistry option \<times> gomsg option" where
  "Register r aid h =
     (case r of
        None \<Rightarrow> (r, Some (Lit ''nil registry''))
      | Some reg \<Rightarrow>
          if aid = [] then (r, Some (Lit ''empty action id''))
          else case h of
            None \<Rightarrow> (r, Some (Sprintf ''nil handler for %s'' [FStr aid]))
          | Some f \<Rightarrow> (Some (reg\<lparr>r_handlers := fmupd aid f (r_handlers reg)\<rparr>), None))"

definition Keys :: "'h ActionRegistry option \<Rightarrow> string list" where
  "Keys r = (case r of None \<Rightarrow> [] | Some reg \<Rightarrow> keys_of (r_handlers reg))"

subsection \<open>Dispatch\<close>

text \<open>The answers a dispatch gets: the parent's error on entry, how the wait for a slot ended,
  how the wait for the handler ended, and the parent's error when a context error is
  classified.\<close>

datatype slot_wait =
    SlotTaken "gomsg option"     \<comment> \<open>the slot, with the context's error read right after\<close>
  | SlotGivenUp gomsg            \<comment> \<open>the context was done first\<close>

datatype handler_wait =
    HandlerDone "gomsg option" "gomsg option"  \<comment> \<open>the handler's error (or recovered panic) and the context's\<close>
  | HandlerOverdue gomsg                       \<comment> \<open>the context was done first\<close>

record dispatch_env =
  de_parent :: "gomsg option"
  de_slot :: slot_wait
  de_handler :: handler_wait
  de_parent_late :: "gomsg option"

definition invocation_id :: "u64 \<Rightarrow> string" where
  "invocation_id n = ''a-'' @ decimal (unat n)"

definition fail :: "Event \<Rightarrow> string \<Rightarrow> gomsg \<Rightarrow> Event" where
  "fail base code msg = base\<lparr>ev_Ev := ''error'', ev_Code := code, ev_Msg := msg\<rparr>"

definition classifyContext :: "dispatch_env \<Rightarrow> Event \<Rightarrow> gomsg \<Rightarrow> Event" where
  "classifyContext env base err =
     (case de_parent_late env of
        Some perr \<Rightarrow> fail base ''action.cancelled'' perr
      | None \<Rightarrow> fail base ''action.timeout'' err)"

text \<open>The event, and whether the handler was started.\<close>

definition Dispatch ::
    "'h ActionRegistry option \<Rightarrow> dispatch_env \<Rightarrow> string \<Rightarrow> string \<Rightarrow> bytes \<Rightarrow> 'h ActionRegistry option \<times> Event \<times> bool" where
  "Dispatch r env nodeID actionID args =
     (case r of
        None \<Rightarrow> (r, fail (zero_event\<lparr>ev_V := Version, ev_ID := nodeID, ev_Action := actionID\<rparr>)
                   ''action.not_permitted'' (Lit ''action registry unavailable''), False)
      | Some reg \<Rightarrow>
          (let reg = reg\<lparr>r_counter := r_counter reg + 1\<rparr>;
               base = zero_event\<lparr>ev_V := Version, ev_ID := nodeID, ev_Action := actionID,
                        ev_InvocationID := invocation_id (r_counter reg), ev_Args := args\<rparr> in
           if fmlookup (r_handlers reg) actionID = None
           then (Some reg, fail base ''action.not_permitted'' (Lit ''action is not registered''), False)
           else case de_parent env of
             Some err \<Rightarrow> (Some reg, fail base ''action.cancelled'' err, False)
           | None \<Rightarrow>
               (case de_slot env of
                  SlotGivenUp err \<Rightarrow> (Some reg, classifyContext env base err, False)
                | SlotTaken (Some err) \<Rightarrow> (Some reg, classifyContext env base err, False)
                | SlotTaken None \<Rightarrow>
                    (case de_handler env of
                       HandlerOverdue err \<Rightarrow> (Some reg, classifyContext env base err, True)
                     | HandlerDone (Some err) (Some cerr) \<Rightarrow> (Some reg, classifyContext env base cerr, True)
                     | HandlerDone (Some err) None \<Rightarrow> (Some reg, fail base ''action.failed'' err, True)
                     | HandlerDone None _ \<Rightarrow> (Some reg, base\<lparr>ev_Ev := ''action_result''\<rparr>, True)))))"

lemma invocation_id_inject [simp]: "invocation_id m = invocation_id n \<longleftrightarrow> m = n"
  by (simp add: invocation_id_def word_unat_eq_iff)

subsection \<open>The semaphore\<close>

datatype phase = Waiting | Holding | Running | Finished

record pool =
  pl_sem :: nat
  pl_phases :: "phase list"

definition in_slot :: "phase \<Rightarrow> bool" where
  "in_slot p \<longleftrightarrow> p = Holding \<or> p = Running"

text \<open>One dispatch is one entry of \<open>pl_phases\<close>: it waits for a slot or gives up, may find its
  context done and hand the slot back, starts the handler, and the handler's goroutine hands the
  slot back when it ends, whether or not the dispatch still waits for it.\<close>

inductive pool_step :: "nat \<Rightarrow> pool \<Rightarrow> pool \<Rightarrow> bool" for maxInflight where
  Start: "pool_step maxInflight p (p\<lparr>pl_phases := pl_phases p @ [Waiting]\<rparr>)"
| Acquire: "i < length (pl_phases p) \<Longrightarrow> pl_phases p ! i = Waiting \<Longrightarrow> pl_sem p < maxInflight \<Longrightarrow>
    pool_step maxInflight p (p\<lparr>pl_sem := Suc (pl_sem p), pl_phases := (pl_phases p)[i := Holding]\<rparr>)"
| GiveUp: "i < length (pl_phases p) \<Longrightarrow> pl_phases p ! i = Waiting \<Longrightarrow>
    pool_step maxInflight p (p\<lparr>pl_phases := (pl_phases p)[i := Finished]\<rparr>)"
| Abort: "i < length (pl_phases p) \<Longrightarrow> pl_phases p ! i = Holding \<Longrightarrow> 0 < pl_sem p \<Longrightarrow>
    pool_step maxInflight p (p\<lparr>pl_sem := pl_sem p - 1, pl_phases := (pl_phases p)[i := Finished]\<rparr>)"
| Launch: "i < length (pl_phases p) \<Longrightarrow> pl_phases p ! i = Holding \<Longrightarrow>
    pool_step maxInflight p (p\<lparr>pl_phases := (pl_phases p)[i := Running]\<rparr>)"
| Finish: "i < length (pl_phases p) \<Longrightarrow> pl_phases p ! i = Running \<Longrightarrow> 0 < pl_sem p \<Longrightarrow>
    pool_step maxInflight p (p\<lparr>pl_sem := pl_sem p - 1, pl_phases := (pl_phases p)[i := Finished]\<rparr>)"

inductive pool_reachable :: "nat \<Rightarrow> pool \<Rightarrow> bool" for maxInflight where
  Init: "pool_reachable maxInflight \<lparr>pl_sem = 0, pl_phases = []\<rparr>"
| Step: "pool_reachable maxInflight p \<Longrightarrow> pool_step maxInflight p q \<Longrightarrow> pool_reachable maxInflight q"

inductive_cases pool_stepE: "pool_step maxInflight p q"

lemma in_slot_simps [simp]: "\<not> in_slot Waiting" "in_slot Holding" "in_slot Running" "\<not> in_slot Finished"
  by (simp_all add: in_slot_def)

lemma length_filter_update:
  "i < length xs \<Longrightarrow> length (filter P (xs[i := x])) + (if P (xs ! i) then 1 else 0)
     = length (filter P xs) + (if P x then 1 else 0)"
proof (induction xs arbitrary: i)
  case Nil
  then show ?case by simp
next
  case (Cons y ys)
  show ?case
  proof (cases i)
    case (Suc j)
    then show ?thesis using Cons.IH [of j] Cons.prems by (auto split: if_splits)
  qed simp
qed

lemma length_filter_mono: "(\<And>x. P x \<Longrightarrow> Q x) \<Longrightarrow> length (filter P xs) \<le> length (filter Q xs)"
  by (induction xs) (auto intro: le_SucI)

lemma pool_inv:
  "pool_reachable maxInflight p \<Longrightarrow> pl_sem p = length (filter in_slot (pl_phases p)) \<and> pl_sem p \<le> maxInflight"
proof (induction rule: pool_reachable.induct)
  case Init
  then show ?case by simp
next
  case (Step p q)
  from Step.hyps(2) show ?case
  proof (cases rule: pool_step.cases)
    case Start
    then show ?thesis using Step.IH by simp
  next
    case (Acquire i)
    then show ?thesis using Step.IH length_filter_update [of i "pl_phases p" in_slot Holding] by simp
  next
    case (GiveUp i)
    then show ?thesis using Step.IH length_filter_update [of i "pl_phases p" in_slot Finished] by simp
  next
    case (Abort i)
    then show ?thesis using Step.IH length_filter_update [of i "pl_phases p" in_slot Finished] by auto
  next
    case (Launch i)
    then show ?thesis using Step.IH length_filter_update [of i "pl_phases p" in_slot Running] by simp
  next
    case (Finish i)
    then show ?thesis using Step.IH length_filter_update [of i "pl_phases p" in_slot Finished] by auto
  qed
qed

subsection \<open>Properties\<close>

text \<open>The number of handlers that run at any moment is at most the configured limit, in every
  interleaving of dispatches, give-ups and handlers that outlive their dispatch; and a goroutine
  that hands its slot back never blocks on an empty semaphore.\<close>

lemma running_handlers_bounded:
  assumes "pool_reachable maxInflight p"
  shows "length (filter (\<lambda>ph. ph = Running) (pl_phases p)) \<le> maxInflight \<and>
    (\<forall>i < length (pl_phases p). in_slot (pl_phases p ! i) \<longrightarrow> 0 < pl_sem p)"
proof -
  note inv = pool_inv [OF assms]
  have "length (filter (\<lambda>ph. ph = Running) (pl_phases p)) \<le> length (filter in_slot (pl_phases p))"
    by (rule length_filter_mono) simp
  moreover have "0 < pl_sem p" if "i < length (pl_phases p)" "in_slot (pl_phases p ! i)" for i
  proof -
    have "pl_phases p ! i \<in> set (filter in_slot (pl_phases p))" using that by simp
    then show ?thesis using inv by (metis length_pos_if_in_set)
  qed
  ultimately show ?thesis using inv by auto
qed

text \<open>A dispatch answers with exactly one event: \<open>action_result\<close>, or an error with one of
  the four action codes. A handler that is not registered, or a parent that is already cancelled,
  starts nothing; a result is reported only for a registered handler that ended without an error;
  and every dispatch on a registry consumes a fresh invocation number.\<close>

lemma Dispatch_answer:
  "case Dispatch r env nid aid args of (r', ev, started) \<Rightarrow>
     ev_ID ev = nid \<and> ev_Action ev = aid \<and>
     (ev_Ev ev = ''action_result'' \<and> (\<exists>reg cerr. r = Some reg \<and> fmlookup (r_handlers reg) aid \<noteq> None \<and>
        de_handler env = HandlerDone None cerr) \<and> started \<or>
      ev_Ev ev = ''error'' \<and> ev_Code ev \<in> {''action.not_permitted'', ''action.cancelled'', ''action.timeout'', ''action.failed''}) \<and>
     (started \<longrightarrow> de_parent env = None \<and> (\<exists>reg. r = Some reg \<and> fmlookup (r_handlers reg) aid \<noteq> None)) \<and>
     (\<forall>reg. r = Some reg \<longrightarrow> ev_InvocationID ev = invocation_id (r_counter reg + 1) \<and>
        r' = Some (reg\<lparr>r_counter := r_counter reg + 1\<rparr>))"
  by (cases r; cases "de_parent env"; cases "de_slot env"; cases "de_handler env")
    (auto simp: Dispatch_def fail_def classifyContext_def Let_def split: option.split)

text \<open>Registration: an id is permitted exactly when it was registered with a non-empty name and a
  handler, and the listed keys are the registered ids in ascending order without repetition.\<close>

lemma Register_spec:
  "case Register (Some reg) aid h of (r', err) \<Rightarrow>
     (err = None \<longleftrightarrow> aid \<noteq> [] \<and> h \<noteq> None) \<and>
     Keys r' = (if err = None then sorted_list_of_set (insert aid (set (Keys (Some reg)))) else Keys (Some reg)) \<and>
     sorted (Keys r') \<and> distinct (Keys r')"
proof -
  have k: "Keys (Some r) = sorted_list_of_set (fset (fmdom (r_handlers r)))" for r :: "'a ActionRegistry"
    by (simp add: Keys_def keys_of_def sorted_list_of_fset.rep_eq)
  have s: "set (Keys (Some r)) = fset (fmdom (r_handlers r))" for r :: "'a ActionRegistry" by (simp add: k)
  show ?thesis
    unfolding Register_def by (auto simp: k s simp del: sorted_list_of_set_insert_remove split: option.split)
qed

end
