(* ===== verification/Engine.thy ===== *)
theory Engine
  imports Interaction Events Actions
begin

text \<open>
  The engine of \<open>engine/engine.go\<close>: one document, its interaction state, the event broker and
  the pending commits, behind one mutex. Every exported method locks it for its whole body
  (\<open>HandleKey\<close> dispatches the action outside it and takes the resulting event as an
  argument here), so a concurrent history is a sequence of the calls below.
\<close>

subsection \<open>State\<close>

record commitRequest =
  cr_through :: u64
  cr_frame :: string

record Engine =
  en_doc :: Document
  en_state :: State
  en_broker :: EventBroker
  en_limits :: Limits
  en_pendingCommits :: "commitRequest list"
  en_maxPendingCommits :: int
  en_publicationGeneration :: u64

definition New_Engine :: "Limits \<Rightarrow> int \<Rightarrow> Engine" where
  "New_Engine limits eventCapacity =
     (let limits = EffectiveLimits limits;
          eventCapacity = (if eventCapacity < 1 then MaxPendingEvents limits else eventCapacity);
          eventCapacity = (if eventCapacity > MaxPendingEvents limits then MaxPendingEvents limits else eventCapacity);
          maxPendingCommits = MaxPendingMutations limits;
          maxPendingCommits = (if eventCapacity < maxPendingCommits then eventCapacity else maxPendingCommits) in
      \<lparr>en_doc = New_Document, en_state = NewState, en_broker = NewEventBroker eventCapacity,
       en_limits = limits, en_pendingCommits = [], en_maxPendingCommits = maxPendingCommits,
       en_publicationGeneration = 0\<rparr>)"

record PresentationSnapshot =
  ps_Document :: Document
  ps_FocusedID :: string
  ps_InputValues :: "string gomap"
  ps_TableSelections :: "TableSelection gomap"
  ps_Bindings :: "Binding gomap"
  ps_RenderGeneration :: u64
  ps_PublicationGeneration :: u64
  ps_PublicationPending :: bool

definition max64 :: "int \<Rightarrow> int \<Rightarrow> int" where
  "max64 a b = (if a > b then a else b)"

subsection \<open>Operations\<close>

definition needsPublishLocked :: "Engine \<Rightarrow> bool" where
  "needsPublishLocked e \<longleftrightarrow> NeedsPublish (en_state e) \<or> en_pendingCommits e \<noteq> []"

definition snapshot :: "Engine \<Rightarrow> PresentationSnapshot" where
  "snapshot e = \<lparr>ps_Document = en_doc e, ps_FocusedID = s_FocusedID (en_state e),
     ps_InputValues = s_InputValues (en_state e), ps_TableSelections = s_TableSelections (en_state e),
     ps_Bindings = s_Bindings (en_state e), ps_RenderGeneration = s_RenderGeneration (en_state e),
     ps_PublicationGeneration = en_publicationGeneration e, ps_PublicationPending = needsPublishLocked e\<rparr>"

definition emitError :: "Engine \<Rightarrow> Operation \<Rightarrow> Error \<Rightarrow> Engine \<times> Error option" where
  "emitError e op perr =
     (let ev = zero_event\<lparr>ev_Ev := ''error'', ev_Code := e_Code perr, ev_Msg := e_Message perr, ev_ID := op_ID op,
                 ev_RelatedSeq := uint64_of_int (max64 (op_Seq op) 0)\<rparr>;
          (b, berr) = Enqueue (en_broker e) ev EventCritical in
      (e\<lparr>en_broker := b\<rparr>, case berr of Some be \<Rightarrow> Some be | None \<Rightarrow> Some perr))"

definition commit_request :: "Operation \<Rightarrow> commitRequest" where
  "commit_request op = \<lparr>cr_through = uint64_of_int (max64 (op_Seq op) 0), cr_frame = op_Frame op\<rparr>"

definition Engine_Apply :: "Engine \<Rightarrow> Operation \<Rightarrow> (Engine \<times> Error option) go" where
  "Engine_Apply e op =
     (let beforePublication = s_PublicationGeneration (en_state e) in
      go_bind (Apply (en_doc e) op (en_limits e)) (\<lambda>(nxt, eff, perr).
        case perr of
          Some err \<Rightarrow> Ret (emitError e op err)
        | None \<Rightarrow>
            if eff_Commit eff \<and> int (length (en_pendingCommits e)) \<ge> en_maxPendingCommits e
            then Ret (emitError e op (NewError ''runtime.backpressure_exceeded'' (Lit ''pending commit limit reached'')))
            else
              go_bind (Reconcile (en_state e) (en_doc e) nxt op eff) (\<lambda>(st, rerr).
                case rerr of
                  Some err \<Rightarrow> Ret (emitError (e\<lparr>en_state := st\<rparr>) op err)
                | None \<Rightarrow>
                    (let e = e\<lparr>en_state := st, en_doc := nxt\<rparr>;
                         e = (if eff_Commit eff
                              then e\<lparr>en_pendingCommits := en_pendingCommits e @ [commit_request op]\<rparr> else e);
                         e = (if s_PublicationGeneration (en_state e) \<noteq> beforePublication \<or> eff_Commit eff
                              then e\<lparr>en_publicationGeneration := en_publicationGeneration e + 1\<rparr> else e) in
                     Ret (e, None)))))"

definition PublicationGeneration :: "Engine \<Rightarrow> u64 \<times> bool" where
  "PublicationGeneration e = (en_publicationGeneration e, needsPublishLocked e)"

definition committed_event :: "u64 \<Rightarrow> commitRequest \<Rightarrow> Event" where
  "committed_event revision req = zero_event\<lparr>ev_Ev := ''committed'', ev_Revision := revision,
     ev_ThroughSeq := cr_through req, ev_Frame := cr_frame req\<rparr>"

definition publishLocked :: "Engine \<Rightarrow> Engine \<times> Error option" where
  "publishLocked e =
     (if \<not> needsPublishLocked e then (e, None)
      else
        (let revision = s_DirtyRevision (en_state e);
             revision = (if revision < s_PublishedRevision (en_state e) then s_PublishedRevision (en_state e) else revision);
             events = map (committed_event revision) (en_pendingCommits e) in
         case EnqueueCriticalBatch (en_broker e) events of
           (b, Some berr) \<Rightarrow> (e\<lparr>en_broker := b\<rparr>, Some berr)
         | (b, None) \<Rightarrow> (e\<lparr>en_broker := b, en_state := Publish (en_state e), en_pendingCommits := []\<rparr>, None)))"

definition Engine_Publish :: "Engine \<Rightarrow> Engine \<times> Error option" where
  "Engine_Publish e = publishLocked e"

definition PublishGeneration :: "Engine \<Rightarrow> u64 \<Rightarrow> Engine \<times> bool \<times> Error option" where
  "PublishGeneration e generation =
     (if generation \<noteq> en_publicationGeneration e \<or> \<not> needsPublishLocked e then (e, False, None)
      else case publishLocked e of
        (e', Some perr) \<Rightarrow> (e', False, Some perr)
      | (e', None) \<Rightarrow> (e', True, None))"

definition NextEvent :: "Engine \<Rightarrow> Engine \<times> Event option" where
  "NextEvent e = (let (b, ev) = Next (en_broker e) in (e\<lparr>en_broker := b\<rparr>, ev))"

definition SetInput :: "Engine \<Rightarrow> string \<Rightarrow> string \<Rightarrow> Engine \<times> Error option" where
  "SetInput e nid value =
     (case fmlookup (d_Nodes (en_doc e)) nid of
        None \<Rightarrow> (e, Some (NewError ''document.node_not_found'' (Sprintf ''node %q not found'' [FStr nid])))
      | Some n \<Rightarrow>
          if n_Type n \<noteq> NodeInput
          then (e, Some (NewError ''runtime.not_input'' (Sprintf ''node %q is not input'' [FStr nid])))
          else (e\<lparr>en_state := fst (SetInputValue (en_state e) nid value)\<rparr>, None))"

definition Engine_SetTableSelection :: "Engine \<Rightarrow> string \<Rightarrow> int \<Rightarrow> Engine \<times> Error option" where
  "Engine_SetTableSelection e nid index =
     (let (st, err) = SetTableSelection (en_state e) (en_doc e) nid index in (e\<lparr>en_state := st\<rparr>, err))"

definition Engine_MoveTableSelection :: "Engine \<Rightarrow> string \<Rightarrow> int \<Rightarrow> Engine \<times> Error option" where
  "Engine_MoveTableSelection e nid delta =
     (let (st, err) = MoveTableSelection (en_state e) (en_doc e) nid delta in (e\<lparr>en_state := st\<rparr>, err))"

definition enqueue_critical :: "Engine \<Rightarrow> Event \<Rightarrow> Engine \<times> Error option" where
  "enqueue_critical e ev = (let (b, err) = Enqueue (en_broker e) ev EventCritical in (e\<lparr>en_broker := b\<rparr>, err))"

definition ActivateTableSelection :: "Engine \<Rightarrow> string \<Rightarrow> Engine \<times> Error option" where
  "ActivateTableSelection e nid =
     (case fmlookup (d_Nodes (en_doc e)) nid of
        None \<Rightarrow> (e, Some (NewError ''document.node_not_found'' (Sprintf ''node %q not found'' [FStr nid])))
      | Some n \<Rightarrow>
          if n_Type n \<noteq> NodeTable
          then (e, Some (NewError ''runtime.not_table'' (Sprintf ''node %q is not table'' [FStr nid])))
          else if \<not> fst (unm_bool (get_raw (n_Props n) ''selectable''))
          then (e, Some (NewError ''runtime.not_selectable'' (Sprintf ''table %q is not selectable'' [FStr nid])))
          else case fmlookup (s_TableSelections (en_state e)) nid of
            None \<Rightarrow> (e, None)
          | Some sel \<Rightarrow>
              enqueue_critical e (zero_event\<lparr>ev_Ev := ''select'', ev_ID := nid, ev_Row := ts_Index sel, ev_RowID := ts_RowID sel,
                ev_Action := fst (unm_string (get_raw (n_Props n) ''action''))\<rparr>))"

definition Submit :: "Engine \<Rightarrow> string \<Rightarrow> Engine \<times> Error option" where
  "Submit e nid =
     (case fmlookup (d_Nodes (en_doc e)) nid of
        None \<Rightarrow> (e, Some (NewError ''document.node_not_found'' (Sprintf ''node %q not found'' [FStr nid])))
      | Some n \<Rightarrow>
          if n_Type n \<noteq> NodeInput
          then (e, Some (NewError ''runtime.not_input'' (Sprintf ''node %q is not input'' [FStr nid])))
          else enqueue_critical e (zero_event\<lparr>ev_Ev := ''submit'', ev_ID := nid,
                 ev_Action := fst (unm_string (get_raw (n_Props n) ''action'')), ev_Value := str_at (s_InputValues (en_state e)) nid\<rparr>))"

definition Focus :: "Engine \<Rightarrow> string \<Rightarrow> Engine \<times> Error option" where
  "Focus e nid = (let (st, err) = SetLocalFocus (en_state e) (en_doc e) nid in (e\<lparr>en_state := st\<rparr>, err))"

definition HasKeyBinding :: "Engine \<Rightarrow> string \<Rightarrow> bool" where
  "HasKeyBinding e key \<longleftrightarrow> fmlookup (s_Bindings (en_state e)) key \<noteq> None"

text \<open>The registry is shared with other dispatches; the call takes it and the answers of the
  dispatch, and returns it.\<close>

definition HandleKey ::
    "Engine \<Rightarrow> 'h ActionRegistry option \<Rightarrow> dispatch_env \<Rightarrow> string \<Rightarrow> Engine \<times> 'h ActionRegistry option \<times> Error option" where
  "HandleKey e reg env key =
     (case fmlookup (s_Bindings (en_state e)) key of
        None \<Rightarrow> (e, reg, None)
      | Some b \<Rightarrow>
          (let (reg, ev, _) = Dispatch reg env (bd_NodeID b) (bd_Action b) (bd_Args b);
               (e, err) = enqueue_critical e ev in
           (e, reg, err)))"

subsection \<open>Accessors\<close>

text \<open>Copies of the state under the lock; reading a missing input gives the empty string.\<close>

definition Engine_Document :: "Engine \<Rightarrow> Document" where
  "Engine_Document e = en_doc e"

definition FocusedID :: "Engine \<Rightarrow> string" where
  "FocusedID e = s_FocusedID (en_state e)"

definition InputValue :: "Engine \<Rightarrow> string \<Rightarrow> string" where
  "InputValue e nid = str_at (s_InputValues (en_state e)) nid"

definition InputValues :: "Engine \<Rightarrow> string gomap" where
  "InputValues e = s_InputValues (en_state e)"

definition Engine_NeedsPublish :: "Engine \<Rightarrow> bool" where
  "Engine_NeedsPublish e = needsPublishLocked e"

definition SelectedTableRow :: "Engine \<Rightarrow> string \<Rightarrow> TableSelection option" where
  "SelectedTableRow e nid = fmlookup (s_TableSelections (en_state e)) nid"

definition Engine_FocusableIDs :: "Engine \<Rightarrow> string list go" where
  "Engine_FocusableIDs e = FocusableIDs (en_doc e)"

subsection \<open>The calls as labels\<close>

text \<open>An action key is given with the event its dispatch answered.\<close>

datatype engine_call =
    EApply Operation
  | EPublish
  | EPublishGeneration u64
  | ENextEvent
  | ESetInput string string
  | ESetTableSelection string int
  | EMoveTableSelection string int
  | EActivate string
  | ESubmit string
  | EFocus string
  | EActionEvent Event

definition engine_step :: "Engine \<Rightarrow> engine_call \<Rightarrow> Engine" where
  "engine_step e c =
     (case c of
        EApply op \<Rightarrow> (case Engine_Apply e op of Ret (e', _) \<Rightarrow> e' | _ \<Rightarrow> e)
      | EPublish \<Rightarrow> fst (Engine_Publish e)
      | EPublishGeneration g \<Rightarrow> fst (PublishGeneration e g)
      | ENextEvent \<Rightarrow> fst (NextEvent e)
      | ESetInput nid v \<Rightarrow> fst (SetInput e nid v)
      | ESetTableSelection nid i \<Rightarrow> fst (Engine_SetTableSelection e nid i)
      | EMoveTableSelection nid dl \<Rightarrow> fst (Engine_MoveTableSelection e nid dl)
      | EActivate nid \<Rightarrow> fst (ActivateTableSelection e nid)
      | ESubmit nid \<Rightarrow> fst (Submit e nid)
      | EFocus nid \<Rightarrow> fst (Focus e nid)
      | EActionEvent ev \<Rightarrow> fst (enqueue_critical e ev))"

end
