(* ===== verification/Publication.thy ===== *)
theory Publication
  imports Engine
begin

text \<open>
  Correctness of the engine: its invariant, atomicity of an operation across document,
  interaction state and commits, and the publication protocol (commits are acknowledged once and
  in order, a stale token publishes nothing, an acknowledgement can always be made).
\<close>

subsection \<open>The interface to the broker\<close>

text \<open>
  What the engine relies on: a batch is all or nothing, an accepted one goes to the back in
  order, and one that fits is accepted. A holder of waiting items that flushes them through such
  a sink neither loses nor duplicates nor reorders any.
\<close>

locale event_sink =
  fixes put :: "'q \<Rightarrow> 'e list \<Rightarrow> 'q \<times> 'err option"
    and queued :: "'q \<Rightarrow> 'p list"
    and view :: "'e \<Rightarrow> 'p"
    and room :: "'q \<Rightarrow> int"
  assumes put_refused: "put q es = (q', Some err) \<Longrightarrow> q' = q"
    and put_accepted: "put q es = (q', None) \<Longrightarrow> queued q' = queued q @ map view es"
    and put_fits: "int (length es) \<le> room q \<Longrightarrow> snd (put q es) = None"
begin

lemma flush_conserves:
  assumes "put q (map f ws) = (q', err)"
  shows "queued q' @ map (view \<circ> f) (if err = None then [] else ws) = queued q @ map (view \<circ> f) ws"
  using assms by (cases err) (auto dest: put_refused put_accepted)

lemma flush_if_room: "int (length ws) \<le> room q \<Longrightarrow> \<exists>q'. put q (map f ws) = (q', None)"
  using put_fits [of "map f ws" q] by (cases "put q (map f ws)") auto

end

interpretation sink: event_sink EnqueueCriticalBatch critical_payloads payload "\<lambda>b. b_cap b - depthLocked b"
proof
  show "EnqueueCriticalBatch q es = (q', Some err) \<Longrightarrow> q' = q" for q es q' err
    by (auto simp: EnqueueCriticalBatch_def split: if_splits)
  show "EnqueueCriticalBatch q es = (q', None) \<Longrightarrow> critical_payloads q' = critical_payloads q @ map payload es" for q es q'
    by (auto simp: EnqueueCriticalBatch_def append_critical_payloads split: if_splits)
  show "int (length es) \<le> b_cap q - depthLocked q \<Longrightarrow> snd (EnqueueCriticalBatch q es) = None" for q es
    by (simp add: EnqueueCriticalBatch_def)
qed

subsection \<open>The invariant\<close>

definition engine_inv :: "Engine \<Rightarrow> bool" where
  "engine_inv e \<longleftrightarrow> limits_ok (en_limits e) \<and> doc_inv (en_limits e) (en_doc e) \<and> rt_inv (en_doc e) (en_state e) \<and>
     broker_inv (en_broker e) \<and> int (length (en_pendingCommits e)) \<le> en_maxPendingCommits e \<and>
     en_maxPendingCommits e \<le> b_cap (en_broker e)"

lemma engine_invD:
  assumes "engine_inv e"
  shows "limits_ok (en_limits e)" "doc_inv (en_limits e) (en_doc e)" "rt_inv (en_doc e) (en_state e)"
    "broker_inv (en_broker e)" "consistent (en_doc e)"
  using assms by (simp_all add: engine_inv_def doc_inv_def)

lemma b_cap_Enqueue [simp]:
  "b_cap (fst (Enqueue b ev c)) = b_cap b" "b_cap (fst (EnqueueCriticalBatch b evs)) = b_cap b" "b_cap (fst (Next b)) = b_cap b"
  by (auto simp: Enqueue_def EnqueueCriticalBatch_def Next_def append_critical_sel Let_def case_prod_beta split: EventClass.split)

text \<open>A call that only exchanges the broker for one that meets its invariant.\<close>

lemma engine_inv_broker:
  "engine_inv e \<Longrightarrow> broker_inv b \<Longrightarrow> b_cap b = b_cap (en_broker e) \<Longrightarrow> engine_inv (e\<lparr>en_broker := b\<rparr>)"
  by (simp add: engine_inv_def)

lemma engine_inv_state:
  "engine_inv e \<Longrightarrow> rt_inv (en_doc e) s \<Longrightarrow> engine_inv (e\<lparr>en_state := s\<rparr>)"
  by (simp add: engine_inv_def)

lemma emitError_eq:
  "\<exists>b. fst (emitError e op err) = e\<lparr>en_broker := b\<rparr> \<and> (broker_inv (en_broker e) \<longrightarrow> broker_inv b) \<and>
     b_cap b = b_cap (en_broker e) \<and> snd (emitError e op err) \<noteq> None"
  using Enqueue_inv [of "en_broker e"]
  by (auto simp: emitError_def Let_def case_prod_beta split: option.split)

lemma enqueue_critical_inv: "engine_inv e \<Longrightarrow> engine_inv (fst (enqueue_critical e ev))"
  using Enqueue_inv by (auto simp: enqueue_critical_def case_prod_beta engine_inv_def)

text \<open>The outcomes of an operation on the engine.\<close>

lemma Engine_Apply_cases:
  assumes i: "engine_inv e" and a: "Engine_Apply e op = Ret (e', err)"
  obtains
    (refused) b err1 where "e' = e\<lparr>en_broker := b\<rparr>" "err = Some err1" "broker_inv b" "b_cap b = b_cap (en_broker e)"
      "\<exists>err0. emitError e op err0 = (e', err)"
  | (accepted) nxt eff st where "err = None" "Apply (en_doc e) op (en_limits e) = Ret (nxt, eff, None)"
      "Reconcile (en_state e) (en_doc e) nxt op eff = Ret (st, None)"
      "eff_Commit eff \<Longrightarrow> int (length (en_pendingCommits e)) < en_maxPendingCommits e"
      "e' = e\<lparr>en_state := st, en_doc := nxt,
         en_pendingCommits := en_pendingCommits e @ (if eff_Commit eff then [commit_request op] else []),
         en_publicationGeneration := en_publicationGeneration e +
           (if s_PublicationGeneration st \<noteq> s_PublicationGeneration (en_state e) \<or> eff_Commit eff then 1 else 0)\<rparr>"
proof -
  have emit: thesis if m: "emitError e op err1 = (e', err)" for err1
  proof -
    obtain b where "fst (emitError e op err1) = e\<lparr>en_broker := b\<rparr>" "broker_inv b" "b_cap b = b_cap (en_broker e)"
      "snd (emitError e op err1) \<noteq> None"
      using emitError_eq [of e op err1] engine_invD(4) [OF i] by blast
    then show thesis using m by (intro refused [of b "the (snd (emitError e op err1))"]) auto
  qed
  from a obtain nxt eff perr where ap: "Apply (en_doc e) op (en_limits e) = Ret (nxt, eff, perr)"
    by (auto simp: Engine_Apply_def Let_def go_simps)
  show thesis
  proof (cases "perr \<noteq> None \<or> (eff_Commit eff \<and> int (length (en_pendingCommits e)) \<ge> en_maxPendingCommits e)")
    case True
    then have "\<exists>err1. emitError e op err1 = (e', err)"
      using a ap by (cases perr) (auto simp: Engine_Apply_def Let_def)
    then show thesis using emit by blast
  next
    case False
    then have p: "perr = None" and q: "\<not> (eff_Commit eff \<and> en_maxPendingCommits e \<le> int (length (en_pendingCommits e)))" by auto
    with a ap obtain st rerr where r: "Reconcile (en_state e) (en_doc e) nxt op eff = Ret (st, rerr)"
      by (auto simp: Engine_Apply_def Let_def go_simps split: if_splits)
    have c: "consistent nxt" using Apply_consistent [OF engine_invD(5) [OF i] ap] .
    show thesis
    proof (cases rerr)
      case None
      then show thesis
        using a ap r p q by (intro accepted [OF _ ap [unfolded p] r [unfolded None]]) (auto simp: Engine_Apply_def Let_def split: if_splits)
    next
      case (Some err1)
      then have "st = en_state e" using Reconcile_error_unchanged [OF c] r by simp
      then show thesis
        using a ap r p q Some by (intro emit [of err1]) (simp add: Engine_Apply_def Let_def)
    qed
  qed
qed

lemma Engine_Apply_inv:
  assumes i: "engine_inv e" and a: "Engine_Apply e op = Ret (e', err)"
  shows "engine_inv e'"
  using i a
proof (cases rule: Engine_Apply_cases)
  case (refused b err1)
  then show ?thesis using engine_inv_broker [OF i] by simp
next
  case (accepted nxt eff st)
  have l: "0 \<le> MaxTextBytesPerNode (en_limits e)" using engine_invD(1) [OF i] by (simp add: limits_ok_simps)
  have d: "doc_inv (en_limits e) nxt" using Apply_keeps_inv [OF engine_invD(2) [OF i] l accepted(2)] .
  then have c: "consistent nxt" by (simp add: doc_inv_def)
  have "rt_inv nxt st"
    using Reconcile_keeps_inv [OF engine_invD(5) [OF i] c engine_invD(3) [OF i] accepted(2,3)] .
  with d show ?thesis using i accepted(4) by (auto simp: engine_inv_def accepted(5))
qed

lemma publishLocked_cases:
  assumes "publishLocked e = (e', err)"
  obtains
    (idle) "\<not> needsPublishLocked e" "e' = e" "err = None"
  | (refused) be where "needsPublishLocked e" "e' = e" "err = Some be"
  | (published) rv b where "needsPublishLocked e" "err = None"
      "EnqueueCriticalBatch (en_broker e) (map (committed_event rv) (en_pendingCommits e)) = (b, None)"
      "e' = e\<lparr>en_broker := b, en_state := Publish (en_state e), en_pendingCommits := []\<rparr>"
proof (cases "needsPublishLocked e")
  case False
  then show thesis using assms by (intro idle) (auto simp: publishLocked_def)
next
  case True
  define rv where "rv = (if s_DirtyRevision (en_state e) < s_PublishedRevision (en_state e)
     then s_PublishedRevision (en_state e) else s_DirtyRevision (en_state e))"
  let ?evs = "map (committed_event rv) (en_pendingCommits e)"
  obtain b berr where b: "EnqueueCriticalBatch (en_broker e) ?evs = (b, berr)" by fastforce
  then have r: "(e', err) = (case berr of
       Some be \<Rightarrow> (e\<lparr>en_broker := b\<rparr>, Some be)
     | None \<Rightarrow> (e\<lparr>en_broker := b, en_state := Publish (en_state e), en_pendingCommits := []\<rparr>, None))"
    using assms True unfolding publishLocked_def Let_def rv_def [symmetric] by (auto split: option.split)
  show thesis
  proof (cases berr)
    case None
    then show thesis using r b True by (intro published [of rv b]) auto
  next
    case (Some be)
    then show thesis using r True sink.put_refused [of "en_broker e" ?evs b be] b by (intro refused [of be]) auto
  qed
qed

lemma publishLocked_inv:
  assumes i: "engine_inv e"
  shows "engine_inv (fst (publishLocked e))"
proof (cases "publishLocked e" rule: prod.exhaust)
  case (Pair e' err)
  then show ?thesis
  proof (cases rule: publishLocked_cases)
    case (published rv b)
    have "broker_inv b" "b_cap b = b_cap (en_broker e)"
      using Batch_inv [OF engine_invD(4) [OF i]] b_cap_Enqueue(2) [of "en_broker e"] published(3) by (metis fst_conv)+
    then show ?thesis using i Pair published(4) by (auto simp: engine_inv_def Publish_inv)
  qed (use i Pair in auto)
qed

lemma engine_step_inv:
  assumes i: "engine_inv e"
  shows "engine_inv (engine_step e c)"
proof (cases c)
  case (EApply op)
  then show ?thesis
    using Engine_Apply_inv [OF i, of op] i by (auto simp: engine_step_def split: go.split)
next
  case EPublish
  then show ?thesis using publishLocked_inv [OF i] by (simp add: engine_step_def Engine_Publish_def)
next
  case (EPublishGeneration g)
  then show ?thesis
    using publishLocked_inv [OF i] i
    by (auto simp: engine_step_def PublishGeneration_def split: prod.split option.split)
next
  case ENextEvent
  then show ?thesis
    using i Next_inv [OF engine_invD(4) [OF i]] engine_inv_broker [OF i]
    by (simp add: engine_step_def NextEvent_def case_prod_beta)
next
  case (ESetInput nid v)
  then show ?thesis
    using i SetInputValue_inv [OF engine_invD(3) [OF i], of nid v] engine_inv_state [OF i]
    by (auto simp: engine_step_def SetInput_def input_ids_def split: option.split)
next
  case (ESetTableSelection nid k)
  then show ?thesis
    using SetTableSelection_inv [OF engine_invD(3) [OF i]] engine_inv_state [OF i]
    by (auto simp: engine_step_def Engine_SetTableSelection_def case_prod_beta)
next
  case (EMoveTableSelection nid k)
  then show ?thesis
    using MoveTableSelection_inv [OF engine_invD(3) [OF i]] engine_inv_state [OF i]
    by (auto simp: engine_step_def Engine_MoveTableSelection_def case_prod_beta)
next
  case (EActivate nid)
  then show ?thesis
    using i enqueue_critical_inv [OF i] by (auto simp: engine_step_def ActivateTableSelection_def split: option.split)
next
  case (ESubmit nid)
  then show ?thesis
    using i enqueue_critical_inv [OF i] by (auto simp: engine_step_def Submit_def split: option.split)
next
  case (EFocus nid)
  then show ?thesis
    using SetLocalFocus_inv [OF engine_invD(3) [OF i]] engine_inv_state [OF i]
    by (auto simp: engine_step_def Focus_def case_prod_beta)
next
  case (EActionEvent ev)
  then show ?thesis using enqueue_critical_inv [OF i] by (simp add: engine_step_def)
qed

text \<open>Limits that leave room for the root, after the defaults are filled in.\<close>

definition engine_start :: "Engine \<Rightarrow> bool" where
  "engine_start e \<longleftrightarrow> (\<exists>limits cap. e = New_Engine limits cap \<and> room_for_root (EffectiveLimits limits))"

lemma New_Engine_inv:
  assumes "room_for_root (EffectiveLimits limits)"
  shows "engine_inv (New_Engine limits cap)"
proof -
  have l: "limits_ok (EffectiveLimits limits)" by (rule EffectiveLimits_ok)
  have b: "broker_inv (NewEventBroker c)" for c
    by (rule brokerm.inv_start) (auto simp: broker_start_def)
  show ?thesis
    using l New_Document_inv [OF assms] NewState_inv b
    by (auto simp: New_Engine_def engine_inv_def Let_def NewEventBroker_def limits_ok_simps)
qed

interpretation enginem: machine engine_start engine_step engine_inv
  by unfold_locales (auto simp: engine_start_def New_Engine_inv engine_step_inv)

subsection \<open>Commits form a queue\<close>

definition commit_taken :: "Engine \<Rightarrow> engine_call \<Rightarrow> commitRequest list" where
  "commit_taken e c =
     (case c of
        EApply op \<Rightarrow> (case Engine_Apply e op of
            Ret (_, None) \<Rightarrow> if op_Op op = OpCommit then [commit_request op] else []
          | _ \<Rightarrow> [])
      | _ \<Rightarrow> [])"

text \<open>The acknowledgements a call hands to the broker, read back from the events it appended.\<close>

definition request_of :: "Event \<Rightarrow> commitRequest" where
  "request_of ev = \<lparr>cr_through = ev_ThroughSeq ev, cr_frame = ev_Frame ev\<rparr>"

definition commit_acked :: "Engine \<Rightarrow> engine_call \<Rightarrow> commitRequest list" where
  "commit_acked e c =
     (if c = EPublish \<or> (\<exists>g. c = EPublishGeneration g)
      then map request_of (drop (length (b_critical (en_broker e))) (b_critical (en_broker (engine_step e c))))
      else [])"

lemma request_of_payload: "map request_of evs = map request_of (map payload evs)"
  by (simp add: request_of_def payload_def)

lemma request_of_committed [simp]: "request_of (payload (committed_event rv req)) = req"
  by (simp add: request_of_def payload_def committed_event_def)

text \<open>No operation but a commit sets the commit flag of the effect.\<close>

lemma commit_flag_existing:
  assumes u: "upsert_existing d op eff l np ex n = Ret (d', eff', err)"
  shows "eff_Commit eff' = eff_Commit eff"
proof -
  from u obtain r where t: "upsert_topology (d_Nodes d) op n = Ret r"
    by (auto simp: upsert_existing_def go_simps)
  show ?thesis
  proof (cases r)
    case (Inl e)
    then show ?thesis using u t by (simp add: upsert_existing_def)
  next
    case (Inr q)
    obtain nodes n1 chg where q: "q = (nodes, n1, chg)" by (cases q)
    show ?thesis
      using u [unfolded upsert_existing_def t Inr q]
      by (cases "n_Type n1 = op_Type op"; cases "n_Props n1 = np"; cases "n_ExplicitProps n1 = Some ex")
        (auto simp: Let_def split: option.splits if_splits)
  qed
qed

lemma commit_flag_new:
  "upsert_new d op eff l np ex = Ret (d', eff', err) \<Longrightarrow> eff_Commit eff' = eff_Commit eff"
  by (auto simp: upsert_new_def Let_def split: if_splits option.splits)

lemma commit_flag_props:
  "applyProps d op eff l = Ret (d', eff', err) \<Longrightarrow> eff_Commit eff' = eff_Commit eff"
  by (auto simp: applyProps_def Let_def go_simps split: if_splits option.splits sum.splits)

lemma commit_flag_text: "applyText d op eff l = (d', eff', err) \<Longrightarrow> eff_Commit eff' = eff_Commit eff"
  by (auto simp: applyText_def Let_def split: if_splits option.splits)

lemma commit_flag_remove: "applyRemove d op eff = Ret (d', eff', err) \<Longrightarrow> eff_Commit eff' = eff_Commit eff"
  by (auto simp: applyRemove_def Let_def go_simps split: if_splits option.splits)

lemma commit_flag_applyUpsert: "applyUpsert d op eff l = Ret (d', eff', err) \<Longrightarrow> eff_Commit eff' = eff_Commit eff"
  by (auto simp: applyUpsert_def Let_def split: if_splits option.splits sum.splits dest!: commit_flag_existing commit_flag_new)

lemma apply_op_commit_flag:
  "apply_op d op eff l = Ret (d', eff', err) \<Longrightarrow> eff_Commit eff' = eff_Commit eff"
  by (cases "op_Op op")
    (auto simp: apply_op_def dest: commit_flag_applyUpsert commit_flag_props commit_flag_text commit_flag_remove)

lemma Apply_commit_iff:
  assumes "Apply d op limits = Ret (nxt, eff, None)"
  shows "eff_Commit eff \<longleftrightarrow> op_Op op = OpCommit"
  using assms
proof (cases rule: Apply_cases)
  case (accepted cand)
  then show ?thesis using apply_op_commit_flag [OF accepted(4)] by (simp add: zero_effect_def)
qed simp_all

lemma publishLocked_commits:
  assumes "publishLocked e = (e', err)"
  shows "en_pendingCommits e =
    map request_of (drop (length (b_critical (en_broker e))) (b_critical (en_broker e'))) @ en_pendingCommits e'"
  using assms
proof (cases rule: publishLocked_cases)
  case (published rv b)
  let ?evs = "drop (length (b_critical (en_broker e))) (b_critical b)"
  have p: "map payload (b_critical b) = map payload (b_critical (en_broker e)) @ map payload (map (committed_event rv) (en_pendingCommits e))"
    using sink.put_accepted [OF published(3)] by (simp add: critical_payloads_def)
  have "map payload ?evs = drop (length (b_critical (en_broker e))) (map payload (b_critical b))" by (simp add: drop_map)
  also have "\<dots> = map payload (map (committed_event rv) (en_pendingCommits e))" unfolding p by simp
  finally have "map request_of ?evs = en_pendingCommits e"
    by (simp add: request_of_payload [of ?evs] comp_def)
  then show ?thesis using published(4) by simp
qed auto

lemma pending_other:
  assumes "\<And>op. c \<noteq> EApply op" "c \<noteq> EPublish" "\<And>g. c \<noteq> EPublishGeneration g"
  shows "en_pendingCommits (engine_step e c) = en_pendingCommits e"
  using assms
  by (cases c) (auto simp: engine_step_def NextEvent_def SetInput_def Engine_SetTableSelection_def Engine_MoveTableSelection_def
      ActivateTableSelection_def Submit_def Focus_def enqueue_critical_def case_prod_beta split: option.split)

interpretation commitq: conserving engine_start engine_step engine_inv en_pendingCommits commit_taken commit_acked
proof
  show "en_pendingCommits e @ commit_taken e c = commit_acked e c @ en_pendingCommits (engine_step e c)"
    if i: "engine_inv e" for e c
  proof (cases c)
    case (EApply op)
    show ?thesis
    proof (cases "Engine_Apply e op")
      case (Ret r)
      obtain e' err where r: "r = (e', err)" by (cases r)
      show ?thesis
        using i Ret [unfolded r]
      proof (cases rule: Engine_Apply_cases)
        case (refused b err1)
        then show ?thesis using EApply Ret r
          by (simp add: commit_taken_def commit_acked_def engine_step_def)
      next
        case (accepted nxt eff st)
        then show ?thesis using Apply_commit_iff [OF accepted(2)] EApply Ret r
          by (auto simp: commit_taken_def commit_acked_def engine_step_def)
      qed
    qed (use EApply in \<open>simp_all add: commit_taken_def commit_acked_def engine_step_def\<close>)
  next
    case EPublish
    then show ?thesis
      using publishLocked_commits [of e] by (cases "publishLocked e")
        (simp add: commit_taken_def commit_acked_def engine_step_def Engine_Publish_def)
  next
    case (EPublishGeneration g)
    then show ?thesis
      using publishLocked_commits [of e] by (cases "publishLocked e")
        (auto simp: commit_taken_def commit_acked_def engine_step_def PublishGeneration_def split: option.split)
  qed (use pending_other in \<open>auto simp: commit_taken_def commit_acked_def\<close>)
qed

subsection \<open>Publication tokens\<close>

text \<open>The calls that change the semantic frame: accepted operations that change the projection or
  queue a commit.\<close>

definition token_bump :: "Engine \<Rightarrow> engine_call \<Rightarrow> nat" where
  "token_bump e c =
     (case c of
        EApply op \<Rightarrow> (case Engine_Apply e op of
            Ret (e', None) \<Rightarrow> if s_PublicationGeneration (en_state e') \<noteq> s_PublicationGeneration (en_state e) \<or> op_Op op = OpCommit
                             then 1 else 0
          | _ \<Rightarrow> 0)
      | _ \<Rightarrow> 0)"

fun token_bumps :: "Engine \<Rightarrow> engine_call list \<Rightarrow> nat" where
  "token_bumps e [] = 0"
| "token_bumps e (c # cs) = token_bump e c + token_bumps (engine_step e c) cs"

lemma token_step:
  assumes i: "engine_inv e"
  shows "en_publicationGeneration (engine_step e c) = en_publicationGeneration e + of_nat (token_bump e c)"
proof (cases "\<exists>op. c = EApply op")
  case True
  then obtain op where c: "c = EApply op" ..
  show ?thesis
  proof (cases "Engine_Apply e op")
    case (Ret r)
    obtain e' err where r: "r = (e', err)" by (cases r)
    show ?thesis
      using i Ret [unfolded r]
    proof (cases rule: Engine_Apply_cases)
      case (refused b err1)
      then show ?thesis using c Ret r by (simp add: token_bump_def engine_step_def)
    next
      case (accepted nxt eff st)
      then show ?thesis using Apply_commit_iff [OF accepted(2)] c Ret r
        by (auto simp: token_bump_def engine_step_def)
    qed
  qed (use c in \<open>simp_all add: token_bump_def engine_step_def\<close>)
next
  case False
  have "en_publicationGeneration (fst (publishLocked e)) = en_publicationGeneration e"
    by (cases "publishLocked e") (auto elim: publishLocked_cases)
  then show ?thesis
    using False
    by (cases c) (auto simp: token_bump_def engine_step_def NextEvent_def SetInput_def Engine_SetTableSelection_def
        Engine_MoveTableSelection_def ActivateTableSelection_def Submit_def Focus_def enqueue_critical_def case_prod_beta
        Engine_Publish_def PublishGeneration_def split: option.split prod.split)
qed

lemma token_run:
  "engine_inv e \<Longrightarrow> en_publicationGeneration (run_steps engine_step e cs) = en_publicationGeneration e + of_nat (token_bumps e cs)"
proof (induction cs arbitrary: e)
  case Nil
  then show ?case by simp
next
  case (Cons c cs)
  then show ?case using token_step [OF Cons.prems, of c] enginem.inv_step [OF Cons.prems] by (simp add: algebra_simps)
qed

lemma PublishedGeneration_parts:
  "s_PublishedGeneration (finish_state s cand nxt eff b) = s_PublishedGeneration cand"
  "s_PublishedGeneration (reconcileTableSelections cand nxt) = s_PublishedGeneration cand"
  by (simp_all add: finish_state_def reconcileTableSelections_def Let_def)

lemma Reconcile_PublishedGeneration:
  assumes c: "consistent nxt" and r: "Reconcile s prev nxt op eff = Ret (s', err)"
  shows "s_PublishedGeneration s' = s_PublishedGeneration s"
proof -
  let ?c1 = "clear_state s op eff"
  let ?c2 = "?c1\<lparr>s_InputValues := reconcile_inputs prev nxt op eff (s_InputValues ?c1)\<rparr>"
  obtain f where "settle_focus (s_FocusedID s \<noteq> []) ?c2 nxt op eff = Ret (?c2\<lparr>s_FocusedID := f\<rparr>)"
    using settle_focus_returns [OF c] by blast
  moreover have "s_PublishedGeneration (fold drop_removed xs s) = s_PublishedGeneration s" for xs
    by (induction xs arbitrary: s) (simp_all add: drop_removed_def)
  then have "s_PublishedGeneration ?c1 = s_PublishedGeneration s" by (simp add: clear_state_def drop_removed_def Let_def)
  ultimately show ?thesis using r
    by (cases "buildBindings nxt") (auto simp: Reconcile_def Let_def PublishedGeneration_parts split: sum.splits if_splits)
qed

text \<open>A call that does not move the token makes nothing pending.\<close>

lemma quiet_step:
  assumes i: "engine_inv e" and q: "token_bump e c = 0" and p: "needsPublishLocked (engine_step e c)"
  shows "needsPublishLocked e"
proof (cases "\<exists>op. c = EApply op")
  case True
  then obtain op where c: "c = EApply op" ..
  show ?thesis
  proof (cases "Engine_Apply e op")
    case (Ret r)
    obtain e' err where r: "r = (e', err)" by (cases r)
    have e': "engine_step e c = e'" using c Ret r by (simp add: engine_step_def)
    show ?thesis
      using i Ret [unfolded r]
    proof (cases rule: Engine_Apply_cases)
      case (refused b err1)
      then show ?thesis using p unfolding e' by (simp add: needsPublishLocked_def)
    next
      case (accepted nxt eff st)
      have "consistent nxt" using engine_invD(5) [OF engine_step_inv [OF i, of c]] accepted(5) unfolding e' by simp
      from Reconcile_PublishedGeneration [OF this accepted(3)]
      have "s_PublishedGeneration st = s_PublishedGeneration (en_state e)" .
      then show ?thesis using p q accepted Apply_commit_iff [OF accepted(2)] c Ret r unfolding e'
        by (auto simp: needsPublishLocked_def NeedsPublish_def token_bump_def split: if_splits)
    qed
  qed (use c p in \<open>simp_all add: engine_step_def\<close>)
next
  case False
  have "needsPublishLocked (fst (publishLocked e)) \<Longrightarrow> needsPublishLocked e"
    by (cases "publishLocked e") (auto simp: publishLocked_def needsPublishLocked_def split: if_splits)
  then show ?thesis
    using False p
    by (cases c) (auto simp: engine_step_def NextEvent_def SetInput_def SetInputValue_def Engine_SetTableSelection_def SetTableSelection_def
        MoveTableSelection_def SetLocalFocus_def needsPublishLocked_def NeedsPublish_def
        Engine_MoveTableSelection_def ActivateTableSelection_def Submit_def Focus_def enqueue_critical_def case_prod_beta
        Engine_Publish_def PublishGeneration_def Let_def split: option.splits prod.splits if_splits)
qed

subsection \<open>Draining the broker\<close>

lemma Next_depth:
  assumes i: "broker_inv b"
  shows "depthLocked (fst (Next b)) = (if depthLocked b = 0 then 0 else depthLocked b - 1)"
proof (cases "b_critical b = [] \<and> b_coalesced b \<noteq> fmempty")
  case True
  then obtain k ev where c: "choose_oldest (b_coalesced b) = (k, ev)" "fmlookup (b_coalesced b) k = Some ev"
    using choose_oldest i unfolding broker_inv_def by metis
  then have "Suc (msize (fmdrop k (b_coalesced b))) = msize (b_coalesced b)" by (intro msize_fmdrop) simp
  then show ?thesis using True c by (simp add: Next_def depthLocked_def case_prod_beta)
next
  case False
  then show ?thesis
    by (cases "b_critical b"; cases "b_telemetry b") (auto simp: Next_def depthLocked_def case_prod_beta)
qed

lemma drain_run:
  "engine_inv e \<Longrightarrow> let e' = run_steps engine_step e (replicate n ENextEvent) in
     engine_inv e' \<and> depthLocked (en_broker e') = max 0 (depthLocked (en_broker e) - int n) \<and>
     e' = e\<lparr>en_broker := en_broker e'\<rparr>"
proof (induction n arbitrary: e)
  case 0
  then show ?case by (simp add: depthLocked_def)
next
  case (Suc n)
  let ?e = "engine_step e ENextEvent"
  have s: "?e = e\<lparr>en_broker := fst (Next (en_broker e))\<rparr>" by (simp add: engine_step_def NextEvent_def case_prod_beta)
  have d: "depthLocked (en_broker ?e) = (if depthLocked (en_broker e) = 0 then 0 else depthLocked (en_broker e) - 1)"
    using Next_depth [OF engine_invD(4) [OF Suc.prems]] s by simp
  have nn: "0 \<le> depthLocked (en_broker e)" by (simp add: depthLocked_def)
  have r: "run_steps engine_step e (replicate (Suc n) ENextEvent) = run_steps engine_step ?e (replicate n ENextEvent)" by simp
  let ?r = "run_steps engine_step ?e (replicate n ENextEvent)"
  have ih: "engine_inv ?r" "depthLocked (en_broker ?r) = max 0 (depthLocked (en_broker ?e) - int n)"
      "?r = ?e\<lparr>en_broker := en_broker ?r\<rparr>"
    using Suc.IH [OF engine_step_inv [OF Suc.prems, of ENextEvent]] by (simp_all add: Let_def)
  have "?r = e\<lparr>en_broker := en_broker ?r\<rparr>" using ih(3) unfolding s by simp
  moreover have "depthLocked (en_broker ?r) = max 0 (depthLocked (en_broker e) - int (Suc n))"
    using ih(2) d nn by (auto simp: max_def)
  ultimately show ?case unfolding r Let_def using ih(1) by blast
qed

lemma not_NeedsPublish_Publish [simp]: "\<not> NeedsPublish (Publish s)"
  by (simp add: NeedsPublish_def Publish_def Let_def)

lemma publish_if_room:
  assumes "int (length (en_pendingCommits e)) \<le> b_cap (en_broker e) - depthLocked (en_broker e)"
  shows "\<exists>e'. publishLocked e = (e', None) \<and> \<not> needsPublishLocked e' \<and> en_doc e' = en_doc e \<and>
    critical_payloads (en_broker e') = critical_payloads (en_broker e) @
      (if needsPublishLocked e then map (payload \<circ> committed_event (max (s_DirtyRevision (en_state e)) (s_PublishedRevision (en_state e))))
         (en_pendingCommits e) else [])"
proof (cases "needsPublishLocked e")
  case True
  let ?rv = "if s_DirtyRevision (en_state e) < s_PublishedRevision (en_state e)
     then s_PublishedRevision (en_state e) else s_DirtyRevision (en_state e)"
  obtain b where b: "EnqueueCriticalBatch (en_broker e) (map (committed_event ?rv) (en_pendingCommits e)) = (b, None)"
    using sink.flush_if_room [OF assms] by blast
  then have "publishLocked e = (e\<lparr>en_broker := b, en_state := Publish (en_state e), en_pendingCommits := []\<rparr>, None)"
    using True by (simp add: publishLocked_def Let_def)
  moreover have "?rv = max (s_DirtyRevision (en_state e)) (s_PublishedRevision (en_state e))"
    by (simp add: max_def word_le_less_eq)
  ultimately show ?thesis using sink.put_accepted [OF b] True by (simp add: needsPublishLocked_def)
qed (simp add: publishLocked_def)

subsection \<open>Properties\<close>

definition sample_commit :: Operation where
  "sample_commit = base_op\<lparr>op_Op := OpCommit, op_Seq := 7, op_Frame := ''f1''\<rparr>"

definition sample_engine :: Engine where
  "sample_engine = run_steps engine_step (New_Engine DefaultLimits 2) [EApply sample_commit]"

lemma room_Effective: "room_for_root (EffectiveLimits DefaultLimits)"
proof -
  have "EffectiveLimits DefaultLimits = DefaultLimits" by code_simp
  then show ?thesis by (simp add: room_DefaultLimits)
qed

lemma sample_engine_inv: "engine_inv sample_engine"
  unfolding sample_engine_def
  by (rule enginem.inv_from_start) (use room_Effective in \<open>auto simp: engine_start_def\<close>)

text \<open>C6. The engine keeps its invariant on every interleaving of its methods: the document is a
  bounded tree within the limits, focus, inputs, selections and bindings refer to it, the broker
  is within its capacity, and the pending commits are at most the maximum, which the capacity of
  the broker covers.\<close>

theorem engine_invariant:
  assumes "room_for_root (EffectiveLimits limits)"
  shows "engine_inv (run_steps engine_step (New_Engine limits cap) calls)"
  by (rule enginem.inv_from_start) (use assms in \<open>auto simp: engine_start_def\<close>)

theorem engine_invariant_witness:
  "engine_inv (run_steps engine_step (New_Engine DefaultLimits 2) [EApply sample_commit])"
  by (rule engine_invariant) (rule room_Effective)

text \<open>C17. A refused operation is atomic across the engine: document, interaction state, pending
  commits and publication token are unchanged, and when the broker has room the only effect is one
  critical event, an error that names the node and the sequence number of the operation and the
  code that is returned.\<close>

theorem Engine_Apply_atomic:
  assumes i: "engine_inv e" and a: "Engine_Apply e op = Ret (e', Some err)"
  shows "e' = e\<lparr>en_broker := en_broker e'\<rparr> \<and>
    (depthLocked (en_broker e) < b_cap (en_broker e) \<longrightarrow>
      critical_payloads (en_broker e') = critical_payloads (en_broker e) @
        [zero_event\<lparr>ev_Ev := ''error'', ev_Code := e_Code err, ev_Msg := e_Message err, ev_ID := op_ID op,
           ev_RelatedSeq := uint64_of_int (max64 (op_Seq op) 0)\<rparr>])"
  using i a
proof (cases rule: Engine_Apply_cases)
  case (refused b err1)
  then obtain err0 where m: "emitError e op err0 = (e', Some err)" by auto
  then have "critical_payloads (en_broker e') = critical_payloads (en_broker e) @
        [zero_event\<lparr>ev_Ev := ''error'', ev_Code := e_Code err, ev_Msg := e_Message err, ev_ID := op_ID op,
           ev_RelatedSeq := uint64_of_int (max64 (op_Seq op) 0)\<rparr>]"
    if "depthLocked (en_broker e) < b_cap (en_broker e)"
    using that
    by (auto simp: emitError_def Enqueue_def Let_def case_prod_beta critical_payloads_def payload_def zero_event_def)
  then show ?thesis using refused(1) by simp
qed simp

theorem Engine_Apply_atomic_witness:
  "case Engine_Apply sample_engine (base_op\<lparr>op_Op := OpText, op_ID := ''missing'', op_Text := ''x''\<rparr>) of
     Ret (e', Some err) \<Rightarrow> e' = sample_engine\<lparr>en_broker := en_broker e'\<rparr> \<and> length (b_critical (en_broker e')) = 1
   | _ \<Rightarrow> False"
proof -
  let ?op = "base_op\<lparr>op_Op := OpText, op_ID := ''missing'', op_Text := ''x''\<rparr>"
  have "case Engine_Apply sample_engine ?op of Ret (e', Some err) \<Rightarrow> length (b_critical (en_broker e')) = 1 | _ \<Rightarrow> False"
    by code_simp
  then obtain e' err where r: "Engine_Apply sample_engine ?op = Ret (e', Some err)" "length (b_critical (en_broker e')) = 1"
    by (auto split: go.splits option.splits)
  then show ?thesis using Engine_Apply_atomic [OF sample_engine_inv r(1)] by simp
qed

text \<open>C5. Commits are acknowledged exactly once and in order: on every run from a new engine the
  commits accepted are those acknowledged by publications followed by those still pending, each
  with its sequence number and frame.\<close>

theorem commits_acknowledged_in_order:
  assumes "room_for_root (EffectiveLimits limits)"
  shows "along engine_step commit_taken (New_Engine limits cap) calls =
    along engine_step commit_acked (New_Engine limits cap) calls
    @ en_pendingCommits (run_steps engine_step (New_Engine limits cap) calls)"
  using commitq.conserve_run [OF New_Engine_inv [OF assms], of cap calls] by (simp add: New_Engine_def Let_def)

theorem commits_acknowledged_in_order_witness:
  "along engine_step commit_acked (New_Engine DefaultLimits 2) [EApply sample_commit, EPublish] = [commit_request sample_commit]"
proof -
  let ?cs = "[EApply sample_commit, EPublish]"
  have "along engine_step commit_taken (New_Engine DefaultLimits 2) ?cs = [commit_request sample_commit]" by code_simp
  moreover have "en_pendingCommits (run_steps engine_step (New_Engine DefaultLimits 2) ?cs) = []" by code_simp
  ultimately show ?thesis
    using commits_acknowledged_in_order [OF room_Effective, of 2 ?cs] by simp
qed

text \<open>C18. Publication can always be completed: from every state the engine reaches, once the consumer
  has taken the pending events, a publication succeeds, nothing is left to publish, and the
  acknowledgements in the broker are exactly the commits that were pending, in order.\<close>

theorem publication_live:
  assumes i: "engine_inv e" and n: "depthLocked (en_broker e) \<le> int n"
  shows "\<exists>e'. Engine_Publish (run_steps engine_step e (replicate n ENextEvent)) = (e', None) \<and>
    \<not> needsPublishLocked e' \<and> en_doc e' = en_doc e \<and>
    map request_of (b_critical (en_broker e')) = en_pendingCommits e"
proof -
  let ?d = "run_steps engine_step e (replicate n ENextEvent)"
  have d: "engine_inv ?d" "depthLocked (en_broker ?d) = 0" "?d = e\<lparr>en_broker := en_broker ?d\<rparr>"
    using drain_run [OF i, of n] n by (simp_all add: Let_def)
  have f: "en_pendingCommits ?d = en_pendingCommits e" "en_doc ?d = en_doc e"
    using arg_cong [OF d(3), of en_pendingCommits] arg_cong [OF d(3), of en_doc] by simp_all
  have cr: "b_critical b = []" if "depthLocked b = 0" for b
    using that unfolding depthLocked_def by (metis add_nonneg_eq_0_iff length_0_conv of_nat_0_eq_iff of_nat_0_le_iff add_nonneg_nonneg)
  obtain e' where e': "publishLocked ?d = (e', None)" "\<not> needsPublishLocked e'" "en_doc e' = en_doc ?d"
    using publish_if_room [of ?d] d(1,2) unfolding engine_inv_def by fastforce
  have "en_pendingCommits ?d = map request_of (b_critical (en_broker e')) @ en_pendingCommits e'"
    using publishLocked_commits [OF e'(1)] cr [OF d(2)] by simp
  moreover have "en_pendingCommits e' = []" using e'(2) by (simp add: needsPublishLocked_def)
  ultimately show ?thesis using e' f by (simp add: Engine_Publish_def)
qed

theorem publication_live_witness:
  "\<exists>e'. Engine_Publish (run_steps engine_step sample_engine (replicate 1 ENextEvent)) = (e', None) \<and>
     \<not> needsPublishLocked e' \<and> map request_of (b_critical (en_broker e')) = en_pendingCommits sample_engine"
proof -
  have "depthLocked (en_broker sample_engine) \<le> int 1" by code_simp
  then show ?thesis using publication_live [OF sample_engine_inv] by blast
qed

text \<open>A publication token acknowledges just the frame it was taken for: after any calls, as long
  as fewer than 2 to the 64 of them changed the frame, \<open>PublishGeneration\<close> with the token
  read before publishes exactly when none of them changed it (local interaction does not count)
  and something is pending; with a stale token it changes nothing.\<close>

lemma publication_token:
  assumes i: "engine_inv e" and b: "token_bumps e calls < 2 ^ 64"
  shows "PublishGeneration (run_steps engine_step e calls) (fst (PublicationGeneration e)) =
    (let e' = run_steps engine_step e calls in
     if token_bumps e calls = 0 \<and> needsPublishLocked e'
     then (fst (publishLocked e'), snd (publishLocked e') = None, snd (publishLocked e')) else (e', False, None))"
proof -
  let ?e = "run_steps engine_step e calls"
  have "of_nat (token_bumps e calls) = (0 :: u64) \<longleftrightarrow> token_bumps e calls = 0"
    using b by (simp add: word_of_nat_eq_0_iff dvd_imp_le) (metis dvd_0_right gr0I nat_dvd_not_less)
  then have "en_publicationGeneration ?e = en_publicationGeneration e \<longleftrightarrow> token_bumps e calls = 0"
    using token_run [OF i, of calls] by (simp del: of_nat_eq_0_iff)
  then show ?thesis
    by (auto simp: PublishGeneration_def PublicationGeneration_def Let_def split: prod.split option.split)
qed

end
