(* ===== verification/Session.thy ===== *)
theory Session
  imports Events
begin

text \<open>
  The session of \<open>session/session.go\<close>: hello negotiation, the reliable mutation sequence
  and the states NEW, READY, DRAINING and CLOSED.
\<close>

subsection \<open>State and operations\<close>

datatype SessionState = SessionNew | Ready | Draining | Closed

record Session =
  ss_id :: string
  ss_state :: SessionState
  ss_limits :: Limits
  ss_version :: int
  ss_expectedMutation :: u64
  ss_features :: "string list"

definition New_Session :: "string \<Rightarrow> Limits \<Rightarrow> Session" where
  "New_Session sid limits = \<lparr>ss_id = sid, ss_state = SessionNew, ss_limits = EffectiveLimits limits, ss_version = 0,
     ss_expectedMutation = 1, ss_features = []\<rparr>"

definition available :: "string list" where
  "available = [''commit-barrier'', ''incremental-props'', ''action-events'', ''bounded-resources'', ''udp-telemetry'']"

definition Negotiate :: "Session \<Rightarrow> Hello \<Rightarrow> Session \<times> (Error + HelloAck)" where
  "Negotiate s h =
     (if ss_state s \<noteq> SessionNew
      then (s, Inl (NewError ''protocol.invalid_state'' (Lit ''hello only allowed in NEW'')))
      else case ValidateHello h of
        Some err \<Rightarrow> (s, Inl err)
      | None \<Rightarrow>
          if Version \<notin> set (h_Versions h)
          then (s, Inl ((NewError ''protocol.version_mismatch'' (Lit ''no mutually supported protocol version''))
                  \<lparr>e_Recoverable := False\<rparr>))
          else
            (let features = sort (filter (\<lambda>f. f \<in> set available) (h_Features h)) in
             (s\<lparr>ss_version := Version, ss_features := features, ss_state := Ready\<rparr>,
              Inr \<lparr>a_Version = Version, a_Features = features, a_Components = AllNodeTypes, a_Limits = ss_limits s\<rparr>)))"

text \<open>The answer is the pair of the flag for a duplicate and the error.\<close>

definition AcceptMutation :: "Session \<Rightarrow> u64 \<Rightarrow> Session \<times> bool \<times> Error option" where
  "AcceptMutation s seq =
     (if ss_state s \<noteq> Ready
      then (s, False, Some (NewError ''protocol.invalid_state'' (Lit ''session is not READY'')))
      else if seq = 0
      then (s\<lparr>ss_state := Closed\<rparr>, False,
            Some ((NewError ''protocol.invalid_sequence'' (Lit ''reliable mutation seq must start at 1''))\<lparr>e_Recoverable := False\<rparr>))
      else if seq < ss_expectedMutation s then (s, True, None)
      else if seq > ss_expectedMutation s
      then (s\<lparr>ss_state := Closed\<rparr>, False,
            Some ((NewError ''protocol.sequence_gap''
              (Sprintf ''expected mutation seq %d, got %d'' [FInt (uint (ss_expectedMutation s)), FInt (uint seq)]))
                \<lparr>e_Recoverable := False\<rparr>))
      else (s\<lparr>ss_expectedMutation := ss_expectedMutation s + 1\<rparr>, False, None))"

definition Drain :: "Session \<Rightarrow> Session" where
  "Drain s = (if ss_state s = Ready then s\<lparr>ss_state := Draining\<rparr> else s)"

definition Close :: "Session \<Rightarrow> Session" where
  "Close s = s\<lparr>ss_state := Closed\<rparr>"

subsection \<open>The calls as labels\<close>

datatype session_call = SNegotiate Hello | SAccept u64 | SDrain | SClose

definition session_step :: "Session \<Rightarrow> session_call \<Rightarrow> Session" where
  "session_step s c =
     (case c of
        SNegotiate h \<Rightarrow> fst (Negotiate s h)
      | SAccept seq \<Rightarrow> fst (AcceptMutation s seq)
      | SDrain \<Rightarrow> Drain s
      | SClose \<Rightarrow> Close s)"

text \<open>The mutations a call lets through: neither refused nor a duplicate.\<close>

definition session_accepts :: "Session \<Rightarrow> session_call \<Rightarrow> u64 list" where
  "session_accepts s c =
     (case c of SAccept seq \<Rightarrow> (if snd (AcceptMutation s seq) = (False, None) then [seq] else []) | _ \<Rightarrow> [])"

subsection \<open>Invariant and rank\<close>

text \<open>The version, the features and the sequence are those of a negotiation, or still initial.\<close>

definition session_inv :: "Session \<Rightarrow> bool" where
  "session_inv s \<longleftrightarrow> limits_ok (ss_limits s) \<and> set (ss_features s) \<subseteq> set available \<and> sorted (ss_features s) \<and>
     distinct (ss_features s) \<and> (ss_state s \<in> {Ready, Draining} \<longrightarrow> ss_version s = Version) \<and>
     (ss_state s = SessionNew \<longrightarrow> ss_expectedMutation s = 1 \<and> ss_version s = 0)"

fun state_rank :: "SessionState \<Rightarrow> nat" where
  "state_rank SessionNew = 0"
| "state_rank Ready = 1"
| "state_rank Draining = 2"
| "state_rank Closed = 3"

definition session_start :: "Session \<Rightarrow> bool" where
  "session_start s \<longleftrightarrow> (\<exists>sid limits. s = New_Session sid limits)"

lemma Negotiate_cases:
  obtains
    (refused) err where "Negotiate s h = (s, Inl err)"
  | (ready) fs where "ss_state s = SessionNew" "ValidateHello h = None" "Version \<in> set (h_Versions h)"
      "fs = sort (filter (\<lambda>f. f \<in> set available) (h_Features h))"
      "Negotiate s h = (s\<lparr>ss_version := Version, ss_features := fs, ss_state := Ready\<rparr>,
         Inr \<lparr>a_Version = Version, a_Features = fs, a_Components = AllNodeTypes, a_Limits = ss_limits s\<rparr>)"
proof -
  show thesis
    by (cases "ss_state s = SessionNew"; cases "ValidateHello h"; cases "Version \<in> set (h_Versions h)")
      (auto simp: Negotiate_def Let_def intro: refused ready)
qed

lemma AcceptMutation_cases:
  obtains
    (refused) err where "AcceptMutation s seq = (s, False, Some err)" "ss_state s \<noteq> Ready"
  | (violation) err where "AcceptMutation s seq = (s\<lparr>ss_state := Closed\<rparr>, False, Some err)" "ss_state s = Ready"
      "seq = 0 \<or> ss_expectedMutation s < seq" "\<not> e_Recoverable err"
  | (duplicate) "AcceptMutation s seq = (s, True, None)" "ss_state s = Ready" "0 < seq" "seq < ss_expectedMutation s"
  | (fresh) "AcceptMutation s seq = (s\<lparr>ss_expectedMutation := seq + 1\<rparr>, False, None)" "ss_state s = Ready"
      "seq = ss_expectedMutation s" "seq \<noteq> 0"
proof -
  show thesis
  proof (cases "ss_state s = Ready")
    case False
    then show thesis using refused by (simp add: AcceptMutation_def)
  next
    case True
    consider "seq = 0" | "seq \<noteq> 0" "seq < ss_expectedMutation s" | "seq \<noteq> 0" "seq > ss_expectedMutation s"
      | "seq \<noteq> 0" "seq = ss_expectedMutation s"
      by fastforce
    then show thesis
    proof cases
      case 1
      then show thesis using True by (intro violation, simp add: AcceptMutation_def, simp_all)
    next
      case 2
      then show thesis using True by (intro duplicate) (simp_all add: AcceptMutation_def word_neq_0_conv)
    next
      case 3
      then have "\<not> seq < ss_expectedMutation s" by simp
      then show thesis using 3 True by (intro violation, simp add: AcceptMutation_def, simp_all)
    next
      case 4
      then show thesis using True by (intro fresh) (simp_all add: AcceptMutation_def)
    qed
  qed
qed

lemma sorted_features: "distinct fs \<Longrightarrow> distinct (sort (filter P fs)) \<and> sorted (sort (filter P fs))"
  by simp

interpretation sessionm: monotone_machine session_start session_step session_inv "\<lambda>s. state_rank (ss_state s)"
proof
  show "session_inv s" if "session_start s" for s
    using that by (auto simp: session_start_def New_Session_def session_inv_def EffectiveLimits_ok)
  have step: "session_inv (session_step s c) \<and> state_rank (ss_state s) \<le> state_rank (ss_state (session_step s c))"
    if i: "session_inv s" for s c
  proof (cases c)
    case (SNegotiate h)
    show ?thesis
    proof (cases rule: Negotiate_cases [where s = s and h = h])
      case (ready fs)
      then show ?thesis
        using i SNegotiate ready(2) by (auto simp: session_inv_def session_step_def ValidateHello_iff)
    qed (use i SNegotiate in \<open>simp add: session_step_def\<close>)
  next
    case (SAccept seq)
    show ?thesis
      by (cases rule: AcceptMutation_cases [where s = s and seq = seq]) (use i SAccept in \<open>auto simp: session_step_def session_inv_def\<close>)
  next
    case SDrain
    then show ?thesis using i by (auto simp: session_step_def Drain_def session_inv_def)
  next
    case SClose
    then show ?thesis using i by (cases "ss_state s") (auto simp: session_step_def Close_def session_inv_def)
  qed
  show "session_inv s \<Longrightarrow> session_inv (session_step s c)" for s c using step by blast
  show "session_inv s \<Longrightarrow> state_rank (ss_state s) \<le> state_rank (ss_state (session_step s c))" for s c using step by blast
qed

lemma accept_step:
  assumes "session_inv s"
  shows "session_accepts s c @ count_from (ss_expectedMutation (session_step s c) - 1) n =
    count_from (ss_expectedMutation s - 1) (length (session_accepts s c) + n)"
proof (cases c)
  case (SNegotiate h)
  then show ?thesis
    by (cases rule: Negotiate_cases [where s = s and h = h]) (simp_all add: session_accepts_def session_step_def)
next
  case (SAccept seq)
  then show ?thesis
    by (cases rule: AcceptMutation_cases [where s = s and seq = seq]) (simp_all add: session_accepts_def session_step_def)
qed (simp_all add: session_accepts_def session_step_def Drain_def Close_def)

lemma length_count_from [simp]: "length (count_from a n) = n"
  by (induction n arbitrary: a) simp_all

lemma accepts_run:
  "session_inv s \<Longrightarrow> along session_step session_accepts s cs =
     count_from (ss_expectedMutation s - 1) (length (along session_step session_accepts s cs))"
proof (induction cs arbitrary: s)
  case Nil
  then show ?case by simp
next
  case (Cons c cs)
  show ?case
    using Cons.IH [OF sessionm.inv_step [OF Cons.prems, of c]]
      accept_step [OF Cons.prems, of c "length (along session_step session_accepts (session_step s c) cs)"]
    by simp
qed

subsection \<open>Properties\<close>

text \<open>C11. Mutations get through exactly once and in order: whatever sequence numbers a client sends,
  and whatever other calls are made, the mutations a session lets through are 1, 2, 3, ... without
  gap or repetition.\<close>

theorem mutations_exactly_once:
  "along session_step session_accepts (New_Session sid limits) calls =
     count_from 0 (length (along session_step session_accepts (New_Session sid limits) calls))"
proof -
  have "session_inv (New_Session sid limits)" by (rule sessionm.inv_start) (auto simp: session_start_def)
  from accepts_run [OF this, of calls] show ?thesis by (simp add: New_Session_def)
qed

text \<open>The life cycle only moves forward: no call sequence takes a session back to an earlier of the
  states NEW, READY, DRAINING, CLOSED, and once it is not READY any more no mutation gets
  through.\<close>

lemma session_forward:
  assumes "session_inv s"
  shows "state_rank (ss_state s) \<le> state_rank (ss_state (run_steps session_step s calls)) \<and>
    (state_rank (ss_state s) > 1 \<longrightarrow> along session_step session_accepts s calls = [])"
proof
  show "state_rank (ss_state s) \<le> state_rank (ss_state (run_steps session_step s calls))"
    by (rule sessionm.rank_run [OF assms])
  show "state_rank (ss_state s) > 1 \<longrightarrow> along session_step session_accepts s calls = []"
    using assms
  proof (induction calls arbitrary: s)
    case (Cons c calls)
    have "state_rank (ss_state (session_step s c)) > 1" if "state_rank (ss_state s) > 1"
      using that sessionm.rank_step [OF Cons.prems, of c] by linarith
    moreover have "session_accepts s c = []" if "state_rank (ss_state s) > 1"
      using that by (auto simp: session_accepts_def AcceptMutation_def split: session_call.split)
    ultimately show ?case using Cons.IH [OF sessionm.inv_step [OF Cons.prems, of c]] by simp
  qed simp
qed

text \<open>A successful hello answers with an acknowledgement that the peer's own validation accepts: the
  one version, the features both sides know in sorted order, every component type and positive
  limits; the session is READY and expects mutation 1.\<close>

lemma Negotiate_answer:
  fixes s :: Session and h :: Hello
  assumes i: "session_inv s" and n: "Negotiate s h = (s', Inr ack)"
  shows "ValidateHelloAck ack = None \<and> set (a_Features ack) = set (h_Features h) \<inter> set available \<and> sorted (a_Features ack) \<and>
    a_Limits ack = ss_limits s \<and> ss_state s' = Ready \<and> ss_expectedMutation s' = 1 \<and> ss_features s' = a_Features ack"
proof (cases rule: Negotiate_cases [where s = s and h = h])
  case (ready fs)
  have "distinct AllNodeTypes" "\<forall>c \<in> set AllNodeTypes. NodeType_Valid c" by (simp_all add: AllNodeTypes_def)
  with ready n i show ?thesis
    by (auto simp: ValidateHelloAck_iff ValidateHello_iff session_inv_def Version_def)
qed (use n in simp)

end
