(* ===== verification/Framing.thy ===== *)
theory Framing
  imports Prelude
begin

text \<open>
  Newline framing of byte streams: the readers of \<open>wire/ndjson.go\<close> and
  \<open>ipc/codec.go\<close>. A stream is the bytes still to come and what follows them (the end, or a
  read error). Both readers take slices of a fixed buffer (\<open>bufio.Reader.ReadSlice\<close>),
  collect them up to their limit and answer the record, whether it was too large, and the rest of
  the stream. They differ in how much of an oversized record they keep.
\<close>

subsection \<open>Slices\<close>

abbreviation LF :: char where "LF \<equiv> CHR 0x0A"
abbreviation CR :: char where "CR \<equiv> CHR 0x0D"

datatype slice_end = SliceDelim | SliceFull | SliceEnd

text \<open>\<open>ReadSlice\<close> on a buffer of the given size, which \<open>bufio\<close> makes at least 16.\<close>

definition buffer_size :: "int \<Rightarrow> nat" where
  "buffer_size sz = nat (if sz < 16 then 16 else sz)"

definition ReadSlice :: "int \<Rightarrow> bytes \<Rightarrow> bytes \<times> bytes \<times> slice_end" where
  "ReadSlice sz s =
     (let n = buffer_size sz; p = takeWhile (\<lambda>c. c \<noteq> LF) s in
      if length p < length s \<and> length p < n then (p @ [LF], drop (Suc (length p)) s, SliceDelim)
      else if n \<le> length s then (take n s, drop n s, SliceFull)
      else (s, [], SliceEnd))"

definition strip_framing :: "bytes \<Rightarrow> bytes" where
  "strip_framing part = (let part = butlast part in if part \<noteq> [] \<and> last part = CR then butlast part else part)"

subsection \<open>The loop of a reader\<close>

text \<open>What has been collected: the bytes kept and the flag for a record that is too large.\<close>

type_synonym collected = "bytes \<times> bool"

datatype line_result =
    LineEOF
  | LineErr string
  | Line bytes bool bytes

lemma buffer_size_pos [simp]: "0 < buffer_size sz"
  by (simp add: buffer_size_def)

lemma ReadSlice_full: "ReadSlice sz s = (part, rest, SliceFull) \<Longrightarrow> length rest < length s"
  using buffer_size_pos [of sz] by (auto simp: ReadSlice_def Let_def simp del: buffer_size_pos split: if_splits)

function read_loop :: "(collected \<Rightarrow> bytes \<Rightarrow> collected) \<Rightarrow> int \<Rightarrow> string option \<Rightarrow> bytes \<Rightarrow> collected \<Rightarrow> line_result" where
  "read_loop appendPart sz fail s st =
     (case ReadSlice sz s of
        (part, rest, SliceDelim) \<Rightarrow> (let (buf, tooLarge) = appendPart st (strip_framing part) in Line buf tooLarge rest)
      | (part, rest, SliceFull) \<Rightarrow> read_loop appendPart sz fail rest (appendPart st part)
      | (part, rest, SliceEnd) \<Rightarrow>
          (let (buf, tooLarge) = appendPart st part in
           case fail of
             Some err \<Rightarrow> LineErr err
           | None \<Rightarrow> if part = [] \<and> buf = [] \<and> \<not> tooLarge then LineEOF else Line buf tooLarge rest))"
  by pat_completeness auto
termination
  by (relation "measure (\<lambda>(_, _, _, s, _). length s)") (auto intro: ReadSlice_full [OF sym])

declare read_loop.simps [simp del]

subsection \<open>The two collectors\<close>

text \<open>\<open>appendPart\<close> of \<open>wire/ndjson.go\<close> and of \<open>ipc/codec.go\<close>.\<close>

definition append_wire :: "int \<Rightarrow> collected \<Rightarrow> bytes \<Rightarrow> collected" where
  "append_wire mx st part =
     (let (buf, tooLarge) = st in
      if tooLarge then st
      else
        (let remaining = mx - int (length buf) in
         if int (length part) > remaining
         then (if remaining > 0 then buf @ take (nat remaining) part else buf, True)
         else (buf @ part, False)))"

definition append_ipc :: "int \<Rightarrow> collected \<Rightarrow> bytes \<Rightarrow> collected" where
  "append_ipc mx st part =
     (let (buf, tooLarge) = st in
      if tooLarge then st
      else if int (length buf) + int (length part) > mx
      then (let remaining = mx + 1 - int (length buf) in
            (if remaining > 0 then buf @ take (nat (min remaining (int (length part)))) part else buf, True))
      else (buf @ part, False))"

definition ndjson_max :: "int \<Rightarrow> int" where
  "ndjson_max mx = (if mx < 1 then 1 else mx)"

definition ndjson_size :: "int \<Rightarrow> int" where
  "ndjson_size mx =
     (let sz = 64 * 1024; sz = (if mx + 1 < sz then mx + 1 else sz) in if sz < 16 then 16 else sz)"

definition DefaultMaxMessageBytes :: int where
  "DefaultMaxMessageBytes = 16777216"

definition ipc_max :: "int \<Rightarrow> int" where
  "ipc_max mx = (if mx < 1 then DefaultMaxMessageBytes else mx)"

definition minInt :: "int \<Rightarrow> int \<Rightarrow> int" where
  "minInt a b = (if a < b then a else b)"

definition readLine :: "int \<Rightarrow> string option \<Rightarrow> bytes \<Rightarrow> line_result" where
  "readLine mx fail s = read_loop (append_wire mx) (ndjson_size mx) fail s ([], False)"

definition readRecord :: "int \<Rightarrow> string option \<Rightarrow> bytes \<Rightarrow> line_result" where
  "readRecord mx fail s = read_loop (append_ipc mx) (minInt (mx + 1) 65536) fail s ([], False)"

text \<open>The end of a record: a carriage return before the newline belongs to the framing, unless
  it is the last byte of a full buffer.\<close>

definition record_of :: "int \<Rightarrow> bytes \<Rightarrow> bytes" where
  "record_of sz line =
     (if line \<noteq> [] \<and> last line = CR \<and> length line mod buffer_size sz \<noteq> 0 then butlast line else line)"

subsection \<open>The contract of a collector\<close>

text \<open>The first \<open>limit\<close> bytes are kept exactly; past them the record is marked and at most
  \<open>slack\<close> more bytes are held.\<close>

locale collector =
  fixes appendPart :: "collected \<Rightarrow> bytes \<Rightarrow> collected" and limit :: int and slack :: int
  assumes fits: "int (length buf) + int (length part) \<le> limit \<Longrightarrow> appendPart (buf, False) part = (buf @ part, False)"
    and exceeds: "int (length buf) \<le> limit \<Longrightarrow> limit < int (length buf) + int (length part) \<Longrightarrow>
        \<exists>kept. appendPart (buf, False) part = (kept, True) \<and> int (length kept) \<le> limit + slack"
    and marked: "appendPart (buf, True) part = (buf, True)"
    and slack: "0 \<le> slack"
begin

text \<open>What collecting \<open>data\<close> in any number of parts amounts to.\<close>

definition collects :: "bytes \<Rightarrow> collected \<Rightarrow> bool" where
  "collects data st \<longleftrightarrow> (if int (length data) \<le> limit then st = (data, False)
     else snd st \<and> int (length (fst st)) \<le> limit + slack)"

lemma collects_Nil: "0 \<le> limit \<Longrightarrow> collects [] ([], False)"
  by (simp add: collects_def)

lemma collects_append:
  assumes "collects data st"
  shows "collects (data @ part) (appendPart st part)"
proof (cases "int (length data) \<le> limit")
  case True
  then have st: "st = (data, False)" using assms by (simp add: collects_def)
  show ?thesis
  proof (cases "int (length data) + int (length part) \<le> limit")
    case True
    then show ?thesis using fits by (simp add: st collects_def)
  next
    case False
    then show ?thesis using exceeds [OF True, of part] by (auto simp: st collects_def)
  qed
next
  case False
  then show ?thesis using assms by (cases st) (auto simp: collects_def marked)
qed

lemma ReadSlice_short:
  assumes "LF \<notin> set line" "length line < buffer_size sz"
  shows "ReadSlice sz (line @ LF # rest) = (line @ [LF], rest, SliceDelim)"
proof -
  have "takeWhile (\<lambda>c. c \<noteq> LF) (line @ LF # rest) = line"
    using assms(1) by (induction line) auto
  then show ?thesis using assms(2) by (simp add: ReadSlice_def Let_def)
qed

lemma ReadSlice_long:
  assumes "LF \<notin> set line" "buffer_size sz \<le> length line"
  shows "ReadSlice sz (line @ LF # rest) =
    (take (buffer_size sz) line, drop (buffer_size sz) line @ LF # rest, SliceFull)"
proof -
  have "takeWhile (\<lambda>c. c \<noteq> LF) (line @ LF # rest) = line"
    using assms(1) by (induction line) auto
  then show ?thesis using assms(2) by (simp add: ReadSlice_def Let_def)
qed

lemma read_line:
  assumes "LF \<notin> set line" "collects data st"
  shows "\<exists>buf tooLarge. read_loop appendPart sz fail (line @ LF # rest) st = Line buf tooLarge rest \<and>
    collects (data @ record_of sz line) (buf, tooLarge)"
  using assms
proof (induction "length line" arbitrary: line data st rule: less_induct)
  case less
  let ?n = "buffer_size sz"
  show ?case
  proof (cases "length line < ?n")
    case True
    have "strip_framing (line @ [LF]) = record_of sz line"
      using True by (auto simp: strip_framing_def record_of_def Let_def)
    moreover obtain buf tooLarge where a: "appendPart st (record_of sz line) = (buf, tooLarge)" by fastforce
    ultimately have "read_loop appendPart sz fail (line @ LF # rest) st = Line buf tooLarge rest"
      using ReadSlice_short [OF less.prems(1) True] by (subst read_loop.simps) simp
    moreover have "collects (data @ record_of sz line) (buf, tooLarge)"
      using collects_append [OF less.prems(2), of "record_of sz line"] a by simp
    ultimately show ?thesis by blast
  next
    case False
    let ?l = "drop ?n line"
    have lt: "length ?l < length line" using False buffer_size_pos [of sz] by (simp del: buffer_size_pos)
    have lf: "LF \<notin> set ?l" using less.prems(1) by (meson in_set_dropD)
    have c: "collects (data @ take ?n line) (appendPart st (take ?n line))" by (rule collects_append [OF less.prems(2)])
    obtain buf tooLarge where r: "read_loop appendPart sz fail (?l @ LF # rest) (appendPart st (take ?n line)) = Line buf tooLarge rest"
        "collects ((data @ take ?n line) @ record_of sz ?l) (buf, tooLarge)"
      using less.hyps [OF lt lf c] by blast
    have md: "length line mod ?n = length ?l mod ?n" using False by (simp add: le_mod_geq)
    have "take ?n line @ record_of sz ?l = record_of sz line"
    proof (cases "?l = []")
      case True
      then have "length line = ?n" using False by simp
      then show ?thesis using True by (simp add: record_of_def)
    next
      case ne: False
      have "last line = last ?l" using ne by (simp add: last_drop)
      moreover have "butlast line = take ?n line @ butlast ?l"
        using ne by (metis append_take_drop_id butlast_append)
      ultimately show ?thesis using ne md append_take_drop_id [of ?n line] by (auto simp: record_of_def)
    qed
    moreover have "read_loop appendPart sz fail (line @ LF # rest) st = Line buf tooLarge rest"
      using ReadSlice_long [OF less.prems(1)] False r(1) by (subst read_loop.simps) simp
    ultimately show ?thesis using r(2) by (metis append_assoc)
  qed
qed

text \<open>A record within the limit comes out whole; one above it is marked; either way the reader is
  at the next record.\<close>

lemma read_record:
  assumes "LF \<notin> set line" "0 \<le> limit"
  shows "\<exists>buf tooLarge. read_loop appendPart sz fail (line @ LF # rest) ([], False) = Line buf tooLarge rest \<and>
    (tooLarge \<longleftrightarrow> limit < int (length (record_of sz line))) \<and> (\<not> tooLarge \<longrightarrow> buf = record_of sz line) \<and>
    int (length buf) \<le> limit + slack"
  using read_line [OF assms(1) collects_Nil [OF assms(2)], of sz fail rest] slack
  by (auto simp: collects_def split: if_splits)

end

interpretation wirec: collector "append_wire mx" mx 0 for mx
proof
  show "int (length buf) \<le> mx \<Longrightarrow> mx < int (length buf) + int (length part) \<Longrightarrow>
     \<exists>kept. append_wire mx (buf, False) part = (kept, True) \<and> int (length kept) \<le> mx + 0" for buf part
    by (auto simp: append_wire_def Let_def min_def)
qed (auto simp: append_wire_def)

interpretation ipcc: collector "append_ipc mx" mx 1 for mx
proof
  show "int (length buf) \<le> mx \<Longrightarrow> mx < int (length buf) + int (length part) \<Longrightarrow>
     \<exists>kept. append_ipc mx (buf, False) part = (kept, True) \<and> int (length kept) \<le> mx + 1" for buf part
    by (auto simp: append_ipc_def Let_def min_def)
qed (auto simp: append_ipc_def)

text \<open>Every record a reader returns shortens the stream.\<close>

lemma ReadSlice_Nil: "ReadSlice sz [] = ([], [], SliceEnd)"
  using buffer_size_pos [of sz] by (simp add: ReadSlice_def Let_def)

lemma ReadSlice_rest:
  "ReadSlice sz s = (part, rest, e) \<Longrightarrow> s \<noteq> [] \<Longrightarrow> length rest < length s"
  using buffer_size_pos [of sz] by (auto simp: ReadSlice_def Let_def simp del: buffer_size_pos split: if_splits)

lemma read_loop_rest:
  "read_loop app sz fail s st = Line buf tooLarge rest \<Longrightarrow> s \<noteq> [] \<Longrightarrow> length rest < length s"
proof (induction app sz fail s st rule: read_loop.induct)
  case (1 app sz fail s st)
  obtain part r e where p: "ReadSlice sz s = (part, r, e)" by (metis prod_cases3)
  have l: "length r < length s" using ReadSlice_rest [OF p 1(3)] .
  show ?case
  proof (cases e)
    case SliceFull
    then have r: "read_loop app sz fail r (app st part) = Line buf tooLarge rest"
      using 1(2) p by (subst (asm) read_loop.simps) simp
    show ?thesis
    proof (cases "r = []")
      case True
      then have "rest = []" using r by (subst (asm) read_loop.simps)
        (auto simp: ReadSlice_Nil split: if_splits option.splits prod.splits)
      then show ?thesis using 1(3) by simp
    next
      case False
      then show ?thesis using 1(1) [OF p [symmetric] refl SliceFull r] l by simp
    qed
  qed (use 1(2) p l in \<open>subst (asm) read_loop.simps, auto split: prod.splits option.splits if_splits\<close>)+
qed

lemma readLine_rest:
  assumes "readLine mx fail s = Line buf tooLarge rest" "0 \<le> mx"
  shows "length rest < length s"
proof -
  have "s \<noteq> []"
  proof
    assume "s = []"
    then show False
      using assms by (subst (asm) readLine_def, subst (asm) read_loop.simps)
        (simp add: ReadSlice_Nil append_wire_def split: option.splits)
  qed
  then show ?thesis using assms(1) read_loop_rest by (simp add: readLine_def)
qed

subsection \<open>Reading a whole stream\<close>

text \<open>A consumer that reads records until the end; every record shortens the stream.\<close>

function read_all :: "(bytes \<Rightarrow> line_result) \<Rightarrow> bytes \<Rightarrow> collected list" where
  "read_all rd s =
     (case rd s of
        Line buf tooLarge rest \<Rightarrow> (buf, tooLarge) # (if length rest < length s then read_all rd rest else [])
      | _ \<Rightarrow> [])"
  by pat_completeness auto
termination
  by (relation "measure (\<lambda>(_, s). length s)") auto

declare read_all.simps [simp del]

definition framed :: "bytes list \<Rightarrow> bytes" where
  "framed rs = concat (map (\<lambda>r. r @ [LF]) rs)"

lemma read_all_framed:
  assumes "\<And>r rest. r \<in> set rs \<Longrightarrow> rd (r @ LF # rest) = Line r False rest" and "rd [] = LineEOF"
  shows "read_all rd (framed rs) = map (\<lambda>r. (r, False)) rs"
  using assms(1)
proof (induction rs)
  case Nil
  then show ?case using assms(2) by (simp add: framed_def read_all.simps)
next
  case (Cons r rs)
  have "rd (framed (r # rs)) = Line r False (framed rs)" using Cons.prems [of r "framed rs"] by (simp add: framed_def)
  moreover have "length (framed rs) < length (framed (r # rs))" by (simp add: framed_def)
  ultimately show ?case using Cons by (subst read_all.simps) simp
qed

lemma ndjson_buffer: "buffer_size (ndjson_size mx) = nat (max 16 (min (mx + 1) 65536))"
  by (auto simp: buffer_size_def ndjson_size_def Let_def)

text \<open>A record that does not end in a carriage return, within the limit.\<close>

definition plain_record :: "int \<Rightarrow> bytes \<Rightarrow> bool" where
  "plain_record mx r \<longleftrightarrow> LF \<notin> set r \<and> (r \<noteq> [] \<longrightarrow> last r \<noteq> CR) \<and> int (length r) \<le> mx"

lemma plain_record_of: "plain_record mx r \<Longrightarrow> record_of sz r = r"
  by (auto simp: plain_record_def record_of_def)

subsection \<open>Properties\<close>



text \<open>Round trip: writing records one per line and reading the stream back gives the same records in
  order, for the reader of the agent protocol and for the one of the daemon, whatever the
  contents as long as each fits the limit, holds no newline and does not end in a carriage
  return.\<close>

lemma framing_roundtrip:
  assumes "\<forall>r \<in> set rs. plain_record mx r" and "0 \<le> mx"
  shows "read_all (readLine mx None) (framed rs) = map (\<lambda>r. (r, False)) rs \<and>
    read_all (readRecord mx None) (framed rs) = map (\<lambda>r. (r, False)) rs"
proof
  have lf: "LF \<notin> set r" if "r \<in> set rs" for r using assms that by (auto simp: plain_record_def)
  have le: "int (length r) \<le> mx" "\<And>sz. record_of sz r = r" if "r \<in> set rs" for r
    using assms that plain_record_of by (auto simp: plain_record_def)
  show "read_all (readLine mx None) (framed rs) = map (\<lambda>r. (r, False)) rs"
  proof (rule read_all_framed)
    show "readLine mx None (r @ LF # rest) = Line r False rest" if "r \<in> set rs" for r rest
      using wirec.read_record [OF lf [OF that] assms(2), of "ndjson_size mx" None rest] le [OF that]
      by (auto simp: readLine_def)
    show "readLine mx None [] = LineEOF"
      using assms(2) by (subst readLine_def, subst read_loop.simps) (simp add: ReadSlice_Nil append_wire_def)
  qed
  show "read_all (readRecord mx None) (framed rs) = map (\<lambda>r. (r, False)) rs"
  proof (rule read_all_framed)
    show "readRecord mx None (r @ LF # rest) = Line r False rest" if "r \<in> set rs" for r rest
      using ipcc.read_record [OF lf [OF that] assms(2), of "minInt (mx + 1) 65536" None rest] le [OF that]
      by (auto simp: readRecord_def)
    show "readRecord mx None [] = LineEOF"
      using assms(2) by (subst readRecord_def, subst read_loop.simps) (simp add: ReadSlice_Nil append_ipc_def)
  qed
qed

text \<open>The limit depends on the line ending: a record of exactly the limit is accepted when it ends in a
  newline and rejected as too large when it ends in carriage return and newline, because the
  buffer of limit + 1 bytes is full before the newline is seen.\<close>

lemma crlf_at_limit_rejected:
  assumes r: "plain_record mx r" "int (length r) = mx" and mx: "15 \<le> mx" "mx < 65536"
  shows "readLine mx None (r @ [LF]) = Line r False [] \<and>
    (\<exists>buf. readLine mx None (r @ [CR, LF]) = Line buf True [])"
proof
  have lf: "LF \<notin> set r" "LF \<notin> set (r @ [CR])" using r(1) by (auto simp: plain_record_def)
  have n: "0 \<le> mx" using mx by simp
  show "readLine mx None (r @ [LF]) = Line r False []"
    using wirec.read_record [OF lf(1) n, of "ndjson_size mx" None "[]"] plain_record_of [OF r(1)] r(2)
    by (auto simp: readLine_def)
  have "buffer_size (ndjson_size mx) = length (r @ [CR])" using mx r(2) by (simp add: ndjson_buffer)
  then have "record_of (ndjson_size mx) (r @ [CR]) = r @ [CR]" by (simp add: record_of_def)
  then show "\<exists>buf. readLine mx None (r @ [CR, LF]) = Line buf True []"
    using wirec.read_record [OF lf(2) n, of "ndjson_size mx" None "[]"] r(2) by (auto simp: readLine_def)
qed

lemma crlf_at_limit_rejected_witness:
  "\<exists>buf. readLine 16 None (replicate 16 (CHR ''a'') @ [CR, LF]) = Line buf True []"
proof -
  have "plain_record 16 (replicate 16 (CHR ''a''))" by code_simp
  from crlf_at_limit_rejected [OF this] show ?thesis by simp
qed

end
