(* ===== verification/Wire.thy ===== *)
theory Wire
  imports Protocol Framing
begin

text \<open>
  The strict decoding of \<open>wire/json.go\<close> and the record reader of \<open>wire/ndjson.go\<close>.

  The check for duplicate keys runs over the tokens of \<open>json.Decoder\<close>, so its token
  interface is modelled: a stack of token states over the bytes still to come. Decoding into a
  struct with \<open>DisallowUnknownFields\<close> takes the fields as a list of names and setters.
\<close>

subsection \<open>Errors of the decoder\<close>

datatype jerr = JDuplicate string | JUnknownField string | JMultiple | JLib string

definition jerr_text :: "jerr \<Rightarrow> gomsg" where
  "jerr_text e =
     (case e of
        JDuplicate k \<Rightarrow> Sprintf ''duplicate JSON object key %q'' [FStr k]
      | JUnknownField k \<Rightarrow> Sprintf ''json: unknown field %q'' [FStr k]
      | JMultiple \<Rightarrow> Lit ''multiple JSON values in one record''
      | JLib m \<Rightarrow> LibErr m)"

definition duplicateOrMalformed :: "jerr \<Rightarrow> Error" where
  "duplicateOrMalformed e =
     (case e of JDuplicate k \<Rightarrow> NewError ''wire.duplicate_key'' (ErrOf (jerr_text e))
      | _ \<Rightarrow> NewError ''wire.malformed'' (ErrOf (jerr_text e)))"

definition wireDecodeError :: "jerr \<Rightarrow> Error" where
  "wireDecodeError e =
     (case e of JUnknownField k \<Rightarrow> NewError ''wire.unknown_field'' (ErrOf (jerr_text e))
      | _ \<Rightarrow> NewError ''wire.malformed'' (ErrOf (jerr_text e)))"

subsection \<open>Tokens\<close>

datatype tokenState =
    TokenTopValue | TokenArrayStart | TokenArrayValue | TokenArrayComma
  | TokenObjectStart | TokenObjectKey | TokenObjectColon | TokenObjectValue | TokenObjectComma

record decoder =
  dc_state :: tokenState
  dc_stack :: "tokenState list"
  dc_rest :: bytes

datatype token = Delim char | TString string | TLiteral

datatype token_result = TokenErr string | TokenEOF | Token token decoder

definition skip_space :: "bytes \<Rightarrow> bytes" where
  "skip_space s = dropWhile json_space s"

text \<open>A value is complete when a space after it would end it at the top level.\<close>

definition value_complete :: "scan \<Rightarrow> pstate list \<Rightarrow> bool" where
  "value_complete st ps \<longleftrightarrow> ps = [] \<and> (case scan_step st [] (CHR '' '') of Some (SEndTop, _) \<Rightarrow> True | _ \<Rightarrow> False)"

text \<open>\<open>readValue\<close>: the bytes of the next value and what follows it.\<close>

fun read_value :: "scan \<Rightarrow> pstate list \<Rightarrow> bytes \<Rightarrow> bytes \<Rightarrow> (bytes \<times> bytes) option" where
  "read_value st ps acc [] = (if value_complete st ps then Some (rev acc, []) else None)"
| "read_value st ps acc (c # cs) =
     (if value_complete st ps \<and> (json_space c \<or> scan_step st ps c = None) then Some (rev acc, c # cs)
      else case scan_step st ps c of
        None \<Rightarrow> None
      | Some (st', ps') \<Rightarrow> read_value st' ps' (c # acc) cs)"

definition readValue :: "bytes \<Rightarrow> (bytes \<times> bytes) option" where
  "readValue s = read_value SBeginValue [] [] s"

definition tokenValueAllowed :: "tokenState \<Rightarrow> bool" where
  "tokenValueAllowed s \<longleftrightarrow> s \<in> {TokenTopValue, TokenArrayStart, TokenArrayValue, TokenObjectValue}"

definition tokenValueEnd :: "tokenState \<Rightarrow> tokenState" where
  "tokenValueEnd s =
     (case s of
        TokenArrayStart \<Rightarrow> TokenArrayComma
      | TokenArrayValue \<Rightarrow> TokenArrayComma
      | TokenObjectValue \<Rightarrow> TokenObjectComma
      | _ \<Rightarrow> s)"

definition open_token :: "decoder \<Rightarrow> char \<Rightarrow> tokenState \<Rightarrow> bytes \<Rightarrow> token_result" where
  "open_token d c st cs =
     (if \<not> tokenValueAllowed (dc_state d) then TokenErr ''invalid character''
      else Token (Delim c) \<lparr>dc_state = st, dc_stack = dc_state d # dc_stack d, dc_rest = cs\<rparr>)"

definition close_token :: "decoder \<Rightarrow> char \<Rightarrow> tokenState set \<Rightarrow> bytes \<Rightarrow> token_result" where
  "close_token d c allowed cs =
     (if dc_state d \<notin> allowed then TokenErr ''invalid character''
      else case dc_stack d of
        [] \<Rightarrow> TokenErr ''invalid character''
      | s # ss \<Rightarrow> Token (Delim c) \<lparr>dc_state = tokenValueEnd s, dc_stack = ss, dc_rest = cs\<rparr>)"

text \<open>A literal (or, in key position, a string) read with \<open>Decode\<close>.\<close>

definition literal_token :: "decoder \<Rightarrow> bytes \<Rightarrow> token_result" where
  "literal_token d s =
     (let key = (dc_state d = TokenObjectStart \<or> dc_state d = TokenObjectKey) in
      if \<not> (key \<and> hd s = CHR 0x22) \<and> \<not> tokenValueAllowed (dc_state d) then TokenErr ''invalid character''
      else case readValue s of
        None \<Rightarrow> TokenErr ''unexpected end or invalid character''
      | Some (v, cs) \<Rightarrow>
          Token (if hd s = CHR 0x22 then TString (unquote (inner v)) else TLiteral)
            (d\<lparr>dc_state := (if key \<and> hd s = CHR 0x22 then TokenObjectColon else tokenValueEnd (dc_state d)), dc_rest := cs\<rparr>))"

function next_token :: "decoder \<Rightarrow> token_result" where
  "next_token d =
     (case skip_space (dc_rest d) of
        [] \<Rightarrow> TokenEOF
      | c # cs \<Rightarrow>
          if c = CHR ''['' then open_token d c TokenArrayStart cs
          else if c = CHR '']'' then close_token d c {TokenArrayStart, TokenArrayComma} cs
          else if c = CHR ''{'' then open_token d c TokenObjectStart cs
          else if c = CHR ''}'' then close_token d c {TokenObjectStart, TokenObjectComma} cs
          else if c = CHR '':'' then
            (if dc_state d \<noteq> TokenObjectColon then TokenErr ''invalid character''
             else next_token (d\<lparr>dc_state := TokenObjectValue, dc_rest := cs\<rparr>))
          else if c = CHR '','' then
            (if dc_state d = TokenArrayComma then next_token (d\<lparr>dc_state := TokenArrayValue, dc_rest := cs\<rparr>)
             else if dc_state d = TokenObjectComma then next_token (d\<lparr>dc_state := TokenObjectKey, dc_rest := cs\<rparr>)
             else TokenErr ''invalid character'')
          else literal_token d (c # cs))"
  by pat_completeness auto

lemma skip_space_length: "length (skip_space s) \<le> length s"
  by (simp add: skip_space_def length_dropWhile_le)

lemma skip_space_Cons: "skip_space s = c # cs \<Longrightarrow> length cs < length s"
  using skip_space_length [of s] by simp

termination next_token
  by (relation "measure (\<lambda>d. length (dc_rest d))") (auto dest: skip_space_Cons)

declare next_token.simps [simp del]

definition More :: "decoder \<Rightarrow> bool" where
  "More d \<longleftrightarrow> (case skip_space (dc_rest d) of [] \<Rightarrow> False | c # _ \<Rightarrow> c \<noteq> CHR '']'' \<and> c \<noteq> CHR ''}'')"

subsection \<open>rejectDuplicateKeys\<close>

text \<open>The closure \<open>parseValue\<close> and its two loops, with fuel; \<open>None\<close> is out of fuel.\<close>

definition lib_err :: "token_result \<Rightarrow> jerr" where
  "lib_err t = (case t of TokenErr m \<Rightarrow> JLib m | _ \<Rightarrow> JLib ''EOF'')"

fun parseValue :: "nat \<Rightarrow> decoder \<Rightarrow> (jerr + decoder) option"
  and parse_members :: "nat \<Rightarrow> string list \<Rightarrow> decoder \<Rightarrow> (jerr + decoder) option"
  and parse_elements :: "nat \<Rightarrow> decoder \<Rightarrow> (jerr + decoder) option" where
  "parseValue 0 d = None"
| "parseValue (Suc n) d =
     (case next_token d of
        Token (Delim c) d' \<Rightarrow>
          if c = CHR ''{'' then parse_members n [] d'
          else if c = CHR ''['' then parse_elements n d'
          else Some (Inl (JLib ''unexpected delimiter''))
      | Token _ d' \<Rightarrow> Some (Inr d')
      | t \<Rightarrow> Some (Inl (lib_err t)))"
| "parse_members 0 seen d = None"
| "parse_members (Suc n) seen d =
     (if More d then
        (case next_token d of
           Token (TString key) d' \<Rightarrow>
             if key \<in> set seen then Some (Inl (JDuplicate key))
             else (case parseValue n d' of
                None \<Rightarrow> None
              | Some (Inl e) \<Rightarrow> Some (Inl e)
              | Some (Inr d'') \<Rightarrow> parse_members n (key # seen) d'')
         | Token _ d' \<Rightarrow> Some (Inl (JLib ''object key is not a string''))
         | t \<Rightarrow> Some (Inl (lib_err t)))
      else (case next_token d of
           Token _ d' \<Rightarrow> Some (Inr d')
         | t \<Rightarrow> Some (Inl (lib_err t))))"
| "parse_elements 0 d = None"
| "parse_elements (Suc n) d =
     (if More d then
        (case parseValue n d of
           None \<Rightarrow> None
         | Some (Inl e) \<Rightarrow> Some (Inl e)
         | Some (Inr d') \<Rightarrow> parse_elements n d')
      else (case next_token d of
           Token _ d' \<Rightarrow> Some (Inr d')
         | t \<Rightarrow> Some (Inl (lib_err t))))"

definition new_decoder :: "bytes \<Rightarrow> decoder" where
  "new_decoder raw = \<lparr>dc_state = TokenTopValue, dc_stack = [], dc_rest = raw\<rparr>"

definition rejectDuplicateKeys :: "bytes \<Rightarrow> jerr option go" where
  "rejectDuplicateKeys raw =
     (case parseValue (Suc (2 * length raw)) (new_decoder raw) of
        None \<Rightarrow> Diverge
      | Some (Inl e) \<Rightarrow> Ret (Some e)
      | Some (Inr d) \<Rightarrow>
          Ret (case next_token d of
             TokenEOF \<Rightarrow> None
           | Token _ _ \<Rightarrow> Some JMultiple
           | t \<Rightarrow> Some (lib_err t)))"

subsection \<open>Decoding into a struct\<close>

text \<open>A setter decodes the raw value of a member into the struct; \<open>null\<close> leaves plain fields
  as they are.\<close>

type_synonym 'r setter = "bytes \<Rightarrow> 'r \<Rightarrow> 'r \<times> jerr option"

definition type_error :: "jerr" where
  "type_error = JLib ''cannot unmarshal''"

definition set_string :: "(string \<Rightarrow> 'r \<Rightarrow> 'r) \<Rightarrow> 'r setter" where
  "set_string upd raw r = (case json_decode raw of
      Some JNull \<Rightarrow> (r, None) | Some (JString s) \<Rightarrow> (upd s r, None) | _ \<Rightarrow> (r, Some type_error))"

definition set_bool :: "(bool \<Rightarrow> 'r \<Rightarrow> 'r) \<Rightarrow> 'r setter" where
  "set_bool upd raw r = (case json_decode raw of
      Some JNull \<Rightarrow> (r, None) | Some (JBool b) \<Rightarrow> (upd b r, None) | _ \<Rightarrow> (r, Some type_error))"

definition set_int :: "(int \<Rightarrow> 'r \<Rightarrow> 'r) \<Rightarrow> 'r setter" where
  "set_int upd raw r = (case json_decode raw of
      Some JNull \<Rightarrow> (r, None)
    | Some (JNumber s) \<Rightarrow> (case parse_int s of Some v \<Rightarrow> (upd v r, None) | None \<Rightarrow> (r, Some type_error))
    | _ \<Rightarrow> (r, Some type_error))"

definition parse_uint :: "string \<Rightarrow> u64 option" where
  "parse_uint s = (if s \<noteq> [] \<and> list_all is_digit s \<and> decimal_val s < 2 ^ 64 then Some (word_of_int (decimal_val s)) else None)"

definition set_uint :: "(u64 \<Rightarrow> 'r \<Rightarrow> 'r) \<Rightarrow> 'r setter" where
  "set_uint upd raw r = (case json_decode raw of
      Some JNull \<Rightarrow> (r, None)
    | Some (JNumber s) \<Rightarrow> (case parse_uint s of Some v \<Rightarrow> (upd v r, None) | None \<Rightarrow> (r, Some type_error))
    | _ \<Rightarrow> (r, Some type_error))"

text \<open>A pointer is allocated for a value and cleared by \<open>null\<close>.\<close>

definition set_int_ptr :: "(int option \<Rightarrow> 'r \<Rightarrow> 'r) \<Rightarrow> 'r setter" where
  "set_int_ptr upd raw r = (case json_decode raw of
      Some JNull \<Rightarrow> (upd None r, None)
    | Some (JNumber s) \<Rightarrow> (case parse_int s of Some v \<Rightarrow> (upd (Some v) r, None) | None \<Rightarrow> (r, Some type_error))
    | _ \<Rightarrow> (r, Some type_error))"

definition set_raw :: "(bytes \<Rightarrow> 'r \<Rightarrow> 'r) \<Rightarrow> 'r setter" where
  "set_raw upd raw r = (upd raw r, None)"

definition set_slice :: "(bytes \<Rightarrow> 'a \<times> bool) \<Rightarrow> ('a list \<Rightarrow> 'r \<Rightarrow> 'r) \<Rightarrow> 'r setter" where
  "set_slice f upd raw r = (let (xs, ok) = unm_list f raw in (upd xs r, if ok then None else Some type_error))"

definition find_setter :: "(string \<times> 'r setter) list \<Rightarrow> string \<Rightarrow> 'r setter option" where
  "find_setter fs key =
     (case map_of fs key of
        Some f \<Rightarrow> Some f
      | None \<Rightarrow> map_option snd (find (\<lambda>(name, f). fold_key name = fold_key key) fs))"

text \<open>Members in order; the first error is kept and decoding goes on.\<close>

definition set_member :: "(string \<times> 'r setter) list \<Rightarrow> string \<times> bytes \<Rightarrow> 'r \<times> jerr option \<Rightarrow> 'r \<times> jerr option" where
  "set_member fs kv st =
     (let (key, raw) = kv; (r, err) = st;
          (r, err') = (case find_setter fs key of None \<Rightarrow> (r, Some (JUnknownField key)) | Some f \<Rightarrow> f raw r) in
      (r, case err of Some e \<Rightarrow> Some e | None \<Rightarrow> err'))"

definition decode_struct :: "(string \<times> 'r setter) list \<Rightarrow> 'r setter" where
  "decode_struct fs raw r =
     (case json_decode raw of
        Some JNull \<Rightarrow> (r, None)
      | Some (JObject ms) \<Rightarrow> fold (set_member fs) ms (r, None)
      | _ \<Rightarrow> (r, Some type_error))"

text \<open>A \<open>map[string]json.RawMessage\<close>, nil for \<open>null\<close>.\<close>

definition decode_map :: "bytes gomap option setter" where
  "decode_map raw m = (case unm_map raw of (m', ok) \<Rightarrow> (m', if ok then None else Some type_error))"

definition strictDecode :: "'r setter \<Rightarrow> bytes \<Rightarrow> 'r \<Rightarrow> 'r \<times> jerr option" where
  "strictDecode dst raw r =
     (case readValue (skip_space raw) of
        None \<Rightarrow> (r, Some (JLib ''syntax error''))
      | Some (v, rest) \<Rightarrow>
          (case dst v r of
             (r, Some e) \<Rightarrow> (r, Some e)
           | (r, None) \<Rightarrow>
               (case skip_space rest of
                  [] \<Rightarrow> (r, None)
                | cs \<Rightarrow> (case readValue cs of
                     None \<Rightarrow> (r, Some (JLib ''syntax error''))
                   | Some (v2, _) \<Rightarrow> (r, case snd (decode_struct [] v2 ()) of Some e \<Rightarrow> Some e | None \<Rightarrow> Some JMultiple)))))"

definition StrictUnmarshal :: "'r setter \<Rightarrow> 'r \<Rightarrow> bytes \<Rightarrow> (Error + 'r) go" where
  "StrictUnmarshal dst r raw =
     (let raw = TrimSpace raw in
      if raw = [] then Ret (Inl (NewError ''wire.empty'' (Lit ''empty JSON value'')))
      else go_bind (rejectDuplicateKeys raw) (\<lambda>dup.
        case dup of
          Some e \<Rightarrow> Ret (Inl (duplicateOrMalformed e))
        | None \<Rightarrow> (case strictDecode dst raw r of
              (_, Some e) \<Rightarrow> Ret (Inl (wireDecodeError e))
            | (r, None) \<Rightarrow> Ret (Inr r))))"

subsection \<open>The fields of the protocol types\<close>

definition kind_of_string :: "string \<Rightarrow> EnvelopeKind" where
  "kind_of_string s =
     (if s = ''hello'' then KindHello else if s = ''hello_ack'' then KindHelloAck
      else if s = ''operation'' then KindOperation else if s = ''event'' then KindEvent
      else if s = ''telemetry'' then KindTelemetry else KindOther s)"

fun kind_string :: "EnvelopeKind \<Rightarrow> string" where
  "kind_string KindHello = ''hello''"
| "kind_string KindHelloAck = ''hello_ack''"
| "kind_string KindOperation = ''operation''"
| "kind_string KindEvent = ''event''"
| "kind_string KindTelemetry = ''telemetry''"
| "kind_string (KindOther s) = s"

definition zero_envelope :: Envelope where
  "zero_envelope = \<lparr>env_V = 0, env_Session = [], env_Kind = KindOther [], env_Seq = 0, env_Payload = []\<rparr>"

definition envelope_fields :: "(string \<times> Envelope setter) list" where
  "envelope_fields =
     [(''v'', set_int (\<lambda>v e. e\<lparr>env_V := v\<rparr>)), (''session'', set_string (\<lambda>v e. e\<lparr>env_Session := v\<rparr>)),
      (''kind'', set_string (\<lambda>v e. e\<lparr>env_Kind := kind_of_string v\<rparr>)), (''seq'', set_uint (\<lambda>v e. e\<lparr>env_Seq := v\<rparr>)),
      (''payload'', set_raw (\<lambda>v e. e\<lparr>env_Payload := v\<rparr>))]"

definition zero_operation :: Operation where
  "zero_operation = \<lparr>op_V = 0, op_Seq = 0, op_Op = OpOther [], op_ID = [], op_Type = NodeOther [], op_Parent = [],
     op_Index = None, op_Text = [], op_Frame = [], op_Props = []\<rparr>"

definition operation_fields :: "(string \<times> Operation setter) list" where
  "operation_fields =
     [(''v'', set_int (\<lambda>v e. e\<lparr>op_V := v\<rparr>)), (''seq'', set_int (\<lambda>v e. e\<lparr>op_Seq := v\<rparr>)),
      (''op'', set_string (\<lambda>v e. e\<lparr>op_Op := optype_of_string v\<rparr>)), (''id'', set_string (\<lambda>v e. e\<lparr>op_ID := v\<rparr>)),
      (''type'', set_string (\<lambda>v e. e\<lparr>op_Type := nodetype_of_string v\<rparr>)), (''parent'', set_string (\<lambda>v e. e\<lparr>op_Parent := v\<rparr>)),
      (''index'', set_int_ptr (\<lambda>v e. e\<lparr>op_Index := v\<rparr>)), (''text'', set_string (\<lambda>v e. e\<lparr>op_Text := v\<rparr>)),
      (''frame'', set_string (\<lambda>v e. e\<lparr>op_Frame := v\<rparr>)), (''props'', set_raw (\<lambda>v e. e\<lparr>op_Props := v\<rparr>))]"

definition event_fields :: "(string \<times> Event setter) list" where
  "event_fields =
     [(''v'', set_int (\<lambda>v e. e\<lparr>ev_V := v\<rparr>)), (''seq'', set_uint (\<lambda>v e. e\<lparr>ev_Seq := v\<rparr>)),
      (''ev'', set_string (\<lambda>v e. e\<lparr>ev_Ev := v\<rparr>)), (''id'', set_string (\<lambda>v e. e\<lparr>ev_ID := v\<rparr>)),
      (''code'', set_string (\<lambda>v e. e\<lparr>ev_Code := v\<rparr>)), (''msg'', set_string (\<lambda>v e. e\<lparr>ev_Msg := Lit v\<rparr>)),
      (''action'', set_string (\<lambda>v e. e\<lparr>ev_Action := v\<rparr>)),
      (''invocation_id'', set_string (\<lambda>v e. e\<lparr>ev_InvocationID := v\<rparr>)), (''value'', set_string (\<lambda>v e. e\<lparr>ev_Value := v\<rparr>)),
      (''row'', set_int (\<lambda>v e. e\<lparr>ev_Row := v\<rparr>)), (''row_id'', set_string (\<lambda>v e. e\<lparr>ev_RowID := v\<rparr>)),
      (''w'', set_int (\<lambda>v e. e\<lparr>ev_W := v\<rparr>)), (''h'', set_int (\<lambda>v e. e\<lparr>ev_H := v\<rparr>)),
      (''revision'', set_uint (\<lambda>v e. e\<lparr>ev_Revision := v\<rparr>)), (''related_seq'', set_uint (\<lambda>v e. e\<lparr>ev_RelatedSeq := v\<rparr>)),
      (''through_seq'', set_uint (\<lambda>v e. e\<lparr>ev_ThroughSeq := v\<rparr>)), (''frame'', set_string (\<lambda>v e. e\<lparr>ev_Frame := v\<rparr>)),
      (''args'', set_raw (\<lambda>v e. e\<lparr>ev_Args := v\<rparr>))]"

definition zero_hello :: Hello where
  "zero_hello = \<lparr>h_Versions = [], h_Features = []\<rparr>"

definition hello_fields :: "(string \<times> Hello setter) list" where
  "hello_fields =
     [(''versions'', set_slice unm_int (\<lambda>v e. e\<lparr>h_Versions := v\<rparr>)),
      (''features'', set_slice unm_string (\<lambda>v e. e\<lparr>h_Features := v\<rparr>))]"

definition zero_limits :: Limits where
  "zero_limits = \<lparr>MaxMessageBytes = 0, MaxDocumentBytes = 0, MaxNodes = 0, MaxDepth = 0, MaxChildren = 0,
     MaxTextBytesPerNode = 0, MaxTotalTextBytes = 0, MaxTableRows = 0, MaxTableColumns = 0, MaxPendingEvents = 0,
     MaxPendingMutations = 0, MaxInflightActions = 0, MaxDatagramBytes = 0\<rparr>"

definition limits_fields :: "(string \<times> Limits setter) list" where
  "limits_fields =
     [(''max_message_bytes'', set_int (\<lambda>v e. e\<lparr>MaxMessageBytes := v\<rparr>)),
      (''max_document_bytes'', set_int (\<lambda>v e. e\<lparr>MaxDocumentBytes := v\<rparr>)),
      (''max_nodes'', set_int (\<lambda>v e. e\<lparr>MaxNodes := v\<rparr>)), (''max_depth'', set_int (\<lambda>v e. e\<lparr>MaxDepth := v\<rparr>)),
      (''max_children'', set_int (\<lambda>v e. e\<lparr>MaxChildren := v\<rparr>)),
      (''max_text_bytes_per_node'', set_int (\<lambda>v e. e\<lparr>MaxTextBytesPerNode := v\<rparr>)),
      (''max_total_text_bytes'', set_int (\<lambda>v e. e\<lparr>MaxTotalTextBytes := v\<rparr>)),
      (''max_table_rows'', set_int (\<lambda>v e. e\<lparr>MaxTableRows := v\<rparr>)),
      (''max_table_columns'', set_int (\<lambda>v e. e\<lparr>MaxTableColumns := v\<rparr>)),
      (''max_pending_events'', set_int (\<lambda>v e. e\<lparr>MaxPendingEvents := v\<rparr>)),
      (''max_pending_mutations'', set_int (\<lambda>v e. e\<lparr>MaxPendingMutations := v\<rparr>)),
      (''max_inflight_actions'', set_int (\<lambda>v e. e\<lparr>MaxInflightActions := v\<rparr>)),
      (''max_datagram_bytes'', set_int (\<lambda>v e. e\<lparr>MaxDatagramBytes := v\<rparr>))]"

definition zero_ack :: HelloAck where
  "zero_ack = \<lparr>a_Version = 0, a_Features = [], a_Components = [], a_Limits = zero_limits\<rparr>"

definition ack_fields :: "(string \<times> HelloAck setter) list" where
  "ack_fields =
     [(''version'', set_int (\<lambda>v e. e\<lparr>a_Version := v\<rparr>)),
      (''features'', set_slice unm_string (\<lambda>v e. e\<lparr>a_Features := v\<rparr>)),
      (''components'', set_slice unm_string (\<lambda>v e. e\<lparr>a_Components := map nodetype_of_string v\<rparr>)),
      (''limits'', \<lambda>raw e. let (l, err) = decode_struct limits_fields raw (a_Limits e) in (e\<lparr>a_Limits := l\<rparr>, err))]"

subsection \<open>Records\<close>

definition malformed :: "string \<Rightarrow> Error" where
  "malformed m = NewError ''wire.malformed'' (Lit m)"

definition objectProbe :: "bytes \<Rightarrow> Error + bytes gomap" where
  "objectProbe raw =
     (case unm_map raw of
        (_, False) \<Rightarrow> Inl (NewError ''wire.malformed'' (LibErr ''json''))
      | (None, True) \<Rightarrow> Inl (malformed ''JSON record must be an object'')
      | (Some probe, True) \<Rightarrow> Inr probe)"

definition missing_field :: "string \<Rightarrow> string \<Rightarrow> Error" where
  "missing_field what field = NewError ''wire.missing_field'' (Sprintf what [FStr field])"

definition version_mismatch :: "int \<Rightarrow> Error" where
  "version_mismatch v = NewError ''protocol.version_mismatch'' (Sprintf ''unsupported version %d'' [FInt v])"

text \<open>The probe, the required fields and the strict decoding that operations and events share.\<close>

definition decode_direct :: "string \<Rightarrow> string list \<Rightarrow> (string \<times> 'r setter) list \<Rightarrow> 'r \<Rightarrow> bytes \<Rightarrow> Error + 'r" where
  "decode_direct what required fs zero raw =
     (case objectProbe raw of
        Inl e \<Rightarrow> Inl e
      | Inr probe \<Rightarrow>
          (case find (\<lambda>field. fmlookup probe field = None) required of
             Some field \<Rightarrow> Inl (missing_field what field)
           | None \<Rightarrow> (case strictDecode (decode_struct fs) raw zero of
                 (_, Some e) \<Rightarrow> Inl (wireDecodeError e)
               | (r, None) \<Rightarrow> Inr r)))"

definition decodeLegacyOperation :: "bytes \<Rightarrow> Error + Operation" where
  "decodeLegacyOperation raw =
     (case decode_direct ''legacy operation requires %s'' [''v'', ''seq'', ''op''] operation_fields zero_operation raw of
        Inl e \<Rightarrow> Inl e
      | Inr op \<Rightarrow>
          if op_V op \<noteq> Version then Inl (version_mismatch (op_V op))
          else if op_Seq op < 0 then Inl (NewError ''protocol.invalid_sequence'' (Lit ''legacy seq must be >= 0''))
          else Inr op)"

definition decodeDirectEvent :: "bytes \<Rightarrow> Error + Event" where
  "decodeDirectEvent raw =
     (case decode_direct ''event requires %s'' [''v'', ''seq'', ''ev''] event_fields zero_event raw of
        Inl e \<Rightarrow> Inl e
      | Inr ev \<Rightarrow>
          if ev_V ev \<noteq> Version then Inl (version_mismatch (ev_V ev))
          else if ev_Ev ev = [] then Inl (NewError ''wire.missing_field'' (Lit ''event requires ev''))
          else Inr ev)"

definition requires_seq :: "bytes gomap \<Rightarrow> string \<Rightarrow> Error option" where
  "requires_seq probe m = (if fmlookup probe ''seq'' = None then Some (NewError ''wire.missing_field'' (Lit m)) else None)"

definition validateEnvelopePayload :: "Envelope \<Rightarrow> bytes gomap \<Rightarrow> Error option go" where
  "validateEnvelopePayload env probe =
     (if fmlookup probe ''payload'' = None
      then Ret (Some (missing_field ''%s envelope requires payload'' (kind_string (env_Kind env))))
      else case env_Kind env of
        KindHello \<Rightarrow>
          go_bind (StrictUnmarshal (decode_struct hello_fields) zero_hello (env_Payload env)) (\<lambda>r.
            Ret (case r of Inl e \<Rightarrow> Some e | Inr h \<Rightarrow> ValidateHello h))
      | KindHelloAck \<Rightarrow>
          go_bind (StrictUnmarshal (decode_struct ack_fields) zero_ack (env_Payload env)) (\<lambda>r.
            Ret (case r of Inl e \<Rightarrow> Some e | Inr ack \<Rightarrow> ValidateHelloAck ack))
      | KindOperation \<Rightarrow>
          Ret (case requires_seq probe ''operation envelope requires seq'' of
             Some e \<Rightarrow> Some e
           | None \<Rightarrow> (case decodeLegacyOperation (env_Payload env) of
               Inl e \<Rightarrow> Some e
             | Inr op \<Rightarrow>
                 if uint64_of_int (op_Seq op) \<noteq> env_Seq env
                 then Some (NewError ''protocol.sequence_mismatch''
                   (Sprintf ''envelope seq %d differs from operation seq %d'' [FInt (uint (env_Seq env)), FInt (op_Seq op)]))
                 else None))
      | KindEvent \<Rightarrow>
          Ret (case requires_seq probe ''event envelope requires seq'' of
             Some e \<Rightarrow> Some e
           | None \<Rightarrow> (case decodeDirectEvent (env_Payload env) of
               Inl e \<Rightarrow> Some e
             | Inr ev \<Rightarrow>
                 if ev_Seq ev \<noteq> env_Seq env
                 then Some (NewError ''protocol.sequence_mismatch''
                   (Sprintf ''envelope seq %d differs from event seq %d'' [FInt (uint (env_Seq env)), FInt (uint (ev_Seq ev))]))
                 else None))
      | KindTelemetry \<Rightarrow>
          (case requires_seq probe ''telemetry envelope requires seq'' of
             Some e \<Rightarrow> Ret (Some e)
           | None \<Rightarrow>
               go_bind (StrictUnmarshal decode_map None (env_Payload env)) (\<lambda>r.
                 Ret (case r of
                    Inl e \<Rightarrow> Some e
                  | Inr None \<Rightarrow> Some (malformed ''telemetry payload must be a JSON object'')
                  | Inr (Some _) \<Rightarrow> None)))
      | KindOther k \<Rightarrow> Ret (Some (NewError ''wire.unknown_kind'' (Sprintf ''unknown kind %q'' [FStr k]))))"

definition DecodeRecord :: "bytes \<Rightarrow> (Error + Envelope) go" where
  "DecodeRecord raw =
     (let raw = TrimSpace raw in
      if raw = [] then Ret (Inl (NewError ''wire.empty'' (Lit ''empty record'')))
      else go_bind (rejectDuplicateKeys raw) (\<lambda>dup.
        case dup of
          Some e \<Rightarrow> Ret (Inl (duplicateOrMalformed e))
        | None \<Rightarrow>
            (case objectProbe raw of
               Inl e \<Rightarrow> Ret (Inl e)
             | Inr probe \<Rightarrow>
                 if fmlookup probe ''kind'' \<noteq> None then
                   (if fmlookup probe ''v'' = None
                    then Ret (Inl (NewError ''wire.missing_field'' (Lit ''envelope requires v'')))
                    else case strictDecode (decode_struct envelope_fields) raw zero_envelope of
                      (_, Some e) \<Rightarrow> Ret (Inl (wireDecodeError e))
                    | (env, None) \<Rightarrow>
                        if env_V env \<noteq> Version then Ret (Inl (version_mismatch (env_V env)))
                        else go_bind (validateEnvelopePayload env probe) (\<lambda>perr.
                          Ret (case perr of Some e \<Rightarrow> Inl e | None \<Rightarrow> Inr env)))
                 else if fmlookup probe ''op'' \<noteq> None then
                   Ret (case decodeLegacyOperation raw of
                      Inl e \<Rightarrow> Inl e
                    | Inr op \<Rightarrow> Inr \<lparr>env_V = op_V op, env_Session = [], env_Kind = KindOperation,
                        env_Seq = uint64_of_int (op_Seq op), env_Payload = raw\<rparr>)
                 else if fmlookup probe ''ev'' \<noteq> None then
                   Ret (case decodeDirectEvent raw of
                      Inl e \<Rightarrow> Inl e
                    | Inr ev \<Rightarrow> Inr \<lparr>env_V = ev_V ev, env_Session = [], env_Kind = KindEvent,
                        env_Seq = ev_Seq ev, env_Payload = raw\<rparr>)
                 else Ret (Inl (malformed ''record is neither envelope nor legacy operation/event'')))))"

subsection \<open>The record reader (ndjson.go)\<close>

datatype next_result =
    NextEOF
  | NextErr string
  | NextRecord "Error + Envelope" bytes

text \<open>Blank lines are skipped. The reader is its limit and the rest of the stream.\<close>

function NDJSONReader_Next :: "int \<Rightarrow> string option \<Rightarrow> bytes \<Rightarrow> next_result go" where
  "NDJSONReader_Next mx fail s =
     (case readLine (ndjson_max mx) fail s of
        LineEOF \<Rightarrow> Ret NextEOF
      | LineErr err \<Rightarrow> Ret (NextErr err)
      | Line line tooLarge rest \<Rightarrow>
          if tooLarge
          then Ret (NextRecord (Inl (NewError ''resource.record_too_large'' (Lit ''NDJSON record exceeds configured limit''))) rest)
          else
            (let line = TrimSpace line in
             if line = [] then NDJSONReader_Next mx fail rest
             else go_bind (DecodeRecord line) (\<lambda>r. Ret (NextRecord r rest))))"
  by pat_completeness auto
termination
proof (relation "measure (\<lambda>(_, _, s). length s)")
  fix mx fail s line tooLarge rest
  assume "readLine (ndjson_max mx) fail s = Line line tooLarge rest"
  then show "((mx, fail, rest), mx, fail, s) \<in> measure (\<lambda>(_, _, s). length s)"
    using readLine_rest [of "ndjson_max mx" fail s line tooLarge rest] by (simp add: ndjson_max_def split: if_splits)
qed simp

declare NDJSONReader_Next.simps [simp del]

end
