(* ===== verification/Strict.thy ===== *)
theory Strict
  imports Wire
begin

text \<open>
  What strict decoding guarantees: the scan for duplicate keys returns on every input and, on a
  JSON text, accepts it exactly when no object in it repeats a key; a record that decodes has the
  version, the fields and the sequence number its kind requires.
\<close>

subsection \<open>The scan makes progress\<close>

lemma read_value_length: "read_value st ps acc s = Some (v, cs) \<Longrightarrow> length cs \<le> length s"
  by (induction s arbitrary: st ps acc) (fastforce split: if_splits option.splits)+

lemma not_complete_begin [simp]: "\<not> value_complete SBeginValue ps"
  by (simp add: value_complete_def begin_value_def json_space_def)

lemma readValue_length: "readValue s = Some (v, cs) \<Longrightarrow> length cs < length s"
proof -
  assume r: "readValue s = Some (v, cs)"
  then obtain c s' where s: "s = c # s'" by (cases s) (auto simp: readValue_def)
  with r show "length cs < length s"
    by (auto simp: readValue_def less_Suc_eq_le dest!: read_value_length split: option.splits)
qed

lemma next_token_length: "next_token d = Token t d' \<Longrightarrow> length (dc_rest d') < length (dc_rest d)"
proof (induction d rule: next_token.induct)
  case (1 d)
  show ?case
  proof (cases "skip_space (dc_rest d)")
    case Nil
    then show ?thesis using "1.prems" by (simp add: next_token.simps)
  next
    case (Cons c cs)
    have l: "length cs < length (dc_rest d)" using skip_space_Cons [OF Cons] .
    have lit: "length cs' < length (dc_rest d)" if "readValue (c # cs) = Some (v, cs')" for v cs'
      using readValue_length [OF that] skip_space_length [of "dc_rest d"] Cons by simp
    have open_l: "dc_rest d' = cs" if "open_token d c st cs = Token t d'" for st
      using that by (auto simp: open_token_def split: if_splits)
    have close_l: "dc_rest d' = cs" if "close_token d c al cs = Token t d'" for al
      using that by (auto simp: close_token_def split: if_splits list.splits)
    have lit_l: "length (dc_rest d') < length (dc_rest d)" if "literal_token d (c # cs) = Token t d'"
      using that lit by (auto simp: literal_token_def Let_def split: if_splits option.splits)
    have step: "next_token d =
        (if c = CHR ''['' then open_token d c TokenArrayStart cs
         else if c = CHR '']'' then close_token d c {TokenArrayStart, TokenArrayComma} cs
         else if c = CHR ''{'' then open_token d c TokenObjectStart cs
         else if c = CHR ''}'' then close_token d c {TokenObjectStart, TokenObjectComma} cs
         else if c = CHR '':'' then
            (if dc_state d \<noteq> TokenObjectColon then TokenErr ''invalid character''
             else next_token (d\<lparr>dc_state := TokenObjectValue, dc_rest := cs\<rparr>))
         else if c = CHR '','' then
            (if dc_state d = TokenArrayComma then next_token (d\<lparr>dc_state := TokenArrayValue, dc_rest := cs\<rparr>)
             else if dc_state d = TokenObjectComma then next_token (d\<lparr>dc_state := TokenObjectKey, dc_rest := cs\<rparr>)
             else TokenErr ''invalid character'')
         else literal_token d (c # cs))"
      by (subst next_token.simps) (simp add: Cons)
    consider "c \<in> {CHR ''['', CHR '']'', CHR ''{'', CHR ''}''}" | "c = CHR '':''" | "c = CHR '',''"
      | "c \<notin> {CHR ''['', CHR '']'', CHR ''{'', CHR ''}'', CHR '':'', CHR '',''}" by blast
    then show ?thesis
    proof cases
      case 1
      then show ?thesis using "1.prems" l open_l close_l unfolding step by auto
    next
      case 2
      then have "next_token (d\<lparr>dc_state := TokenObjectValue, dc_rest := cs\<rparr>) = Token t d'" "dc_state d = TokenObjectColon"
        using "1.prems" unfolding step by (auto split: if_splits)
      then show ?thesis using "1.IH"(1) [OF Cons] 2 l by auto
    next
      case 3
      have "\<exists>st. (dc_state d = TokenArrayComma \<and> st = TokenArrayValue \<or> dc_state d = TokenObjectComma \<and> st = TokenObjectKey) \<and>
          next_token (d\<lparr>dc_state := st, dc_rest := cs\<rparr>) = Token t d'"
        using 3 "1.prems" unfolding step by (auto split: if_splits)
      then show ?thesis using "1.IH"(2,3) [OF Cons] 3 l by (auto dest: less_trans)
    next
      case 4
      then show ?thesis using "1.prems" lit_l unfolding step by auto
    qed
  qed
qed

lemma parse_progress:
  "parseValue n d = Some (Inr d') \<Longrightarrow> length (dc_rest d') < length (dc_rest d)"
  "parse_members n seen d = Some (Inr d') \<Longrightarrow> length (dc_rest d') < length (dc_rest d)"
  "parse_elements n d = Some (Inr d') \<Longrightarrow> length (dc_rest d') < length (dc_rest d)"
proof (induction n d and n seen d and n d arbitrary: d' and d' and d' rule: parseValue_parse_members_parse_elements.induct)
qed (fastforce dest: next_token_length split: token_result.splits token.splits if_splits option.splits sum.splits)+

lemma parse_fuel:
  "2 * length (dc_rest d) < n \<Longrightarrow> parseValue n d \<noteq> None"
  "2 * length (dc_rest d) < n \<Longrightarrow> parse_members n seen d \<noteq> None"
  "2 * length (dc_rest d) + 1 < n \<Longrightarrow> parse_elements n d \<noteq> None"
proof (induction n d and n seen d and n d rule: parseValue_parse_members_parse_elements.induct)
qed (fastforce dest: next_token_length parse_progress split: token_result.splits token.splits if_splits option.splits sum.splits)+

lemma rejectDuplicateKeys_returns: "returns (rejectDuplicateKeys raw)"
  using parse_fuel(1) [of "new_decoder raw" "Suc (2 * length raw)"]
  by (auto simp: rejectDuplicateKeys_def new_decoder_def split: option.split sum.split)

subsection \<open>JSON texts\<close>

text \<open>A literal is the text of a string, number, boolean or null, without surrounding space. A
  text is the tokens of a tree with any white space between them.\<close>

definition is_literal :: "string \<Rightarrow> bool" where
  "is_literal l \<longleftrightarrow> l \<noteq> [] \<and> hd l \<notin> {CHR ''['', CHR ''{''} \<and> \<not> json_space (hd l) \<and> \<not> json_space (last l) \<and>
     (case scan_run (SBeginValue, []) l of Some (st, ps) \<Rightarrow> value_complete st ps | None \<Rightarrow> False)"

datatype jtree = TLeaf string | TArr "jtree list" | TObj "(string \<times> jtree) list"

abbreviation comma :: string where "comma \<equiv> '',''"

fun tokens :: "jtree \<Rightarrow> string list" where
  "tokens (TLeaf l) = [l]"
| "tokens (TArr ts) = ''['' # (case ts of [] \<Rightarrow> [] | t # us \<Rightarrow> tokens t @ concat (map (\<lambda>u. comma # tokens u) us)) @ ['']'']"
| "tokens (TObj ms) = ''{'' # (case ms of [] \<Rightarrow> [] | m # us \<Rightarrow>
     (fst m # '':'' # tokens (snd m)) @ concat (map (\<lambda>u. comma # fst u # '':'' # tokens (snd u)) us)) @ [''}'']"

fun wf_tree :: "jtree \<Rightarrow> bool" where
  "wf_tree (TLeaf l) \<longleftrightarrow> is_literal l"
| "wf_tree (TArr ts) \<longleftrightarrow> (\<forall>t \<in> set ts. wf_tree t)"
| "wf_tree (TObj ms) \<longleftrightarrow> (\<forall>m \<in> set ms. is_literal (fst m) \<and> hd (fst m) = CHR 0x22 \<and> wf_tree (snd m))"

definition key_text :: "string \<Rightarrow> string" where
  "key_text k = unquote (inner k)"

fun unique_keys :: "jtree \<Rightarrow> bool" where
  "unique_keys (TLeaf l) \<longleftrightarrow> True"
| "unique_keys (TArr ts) \<longleftrightarrow> (\<forall>t \<in> set ts. unique_keys t)"
| "unique_keys (TObj ms) \<longleftrightarrow> distinct (map (key_text \<circ> fst) ms) \<and> (\<forall>m \<in> set ms. unique_keys (snd m))"

inductive spaced :: "string list \<Rightarrow> string \<Rightarrow> bool" where
  spaced_Nil: "list_all json_space w \<Longrightarrow> spaced [] w"
| spaced_Cons: "list_all json_space w \<Longrightarrow> spaced ts s \<Longrightarrow> spaced (t # ts) (w @ t @ s)"

inductive_cases spaced_NilE: "spaced [] s"
inductive_cases spaced_ConsE: "spaced (t # ts) s"

subsection \<open>Tokens of a text\<close>

definition ends :: "string list \<Rightarrow> bool" where
  "ends ts \<longleftrightarrow> ts = [] \<or> hd ts \<in> {comma, '']'', ''}'', '':''}"

lemma skip_space_append: "list_all json_space w \<Longrightarrow> skip_space (w @ s) = skip_space s"
  by (induction w) (simp_all add: skip_space_def)

lemma skip_space_token: "list_all json_space w \<Longrightarrow> \<not> json_space c \<Longrightarrow> skip_space (w @ c # s) = c # s"
  by (simp add: skip_space_append) (simp add: skip_space_def)

lemma skip_space_all: "list_all json_space w \<Longrightarrow> skip_space w = []"
  using skip_space_append [of w "[]"] by (simp add: skip_space_def)

lemma value_complete_iff:
  "value_complete st ps \<longleftrightarrow> ps = [] \<and> st \<in> {SEndValue, SEndTop, S0, S1, SDot0, SE0}"
proof -
  have "\<not> is_digit (CHR '' '')" "\<not> is_digit19 (CHR '' '')" "\<not> is_hex (CHR '' '')" "json_space (CHR '' '')"
    by (simp_all add: is_digit_def is_digit19_def is_hex_def json_space_def)
  then show ?thesis
    by (cases st) (simp_all add: value_complete_def end_value_def begin_value_def begin_string_def state0_def expect_def)
qed

lemma complete_stops:
  assumes "value_complete st ps"
  shows "ps = []" "c \<in> {CHR '','', CHR '']'', CHR ''}'', CHR '':''} \<Longrightarrow> scan_step st [] c = None"
    "json_space c \<Longrightarrow> scan_step st [] c = Some (SEndTop, [])"
proof -
  have st: "st \<in> {SEndValue, SEndTop, S0, S1, SDot0, SE0}" and ps: "ps = []" using assms by (auto simp: value_complete_iff)
  show "ps = []" by (rule ps)
  show "scan_step st [] c = None" if c: "c \<in> {CHR '','', CHR '']'', CHR ''}'', CHR '':''}"
  proof -
    have "\<not> is_digit c" "\<not> json_space c" "c \<noteq> CHR ''.''" "c \<noteq> CHR ''e''" "c \<noteq> CHR ''E''"
      using c by (auto simp: is_digit_def json_space_def)
    then show ?thesis using st by (auto simp: end_value_def state0_def expect_def)
  qed
  show "scan_step st [] c = Some (SEndTop, [])" if c: "json_space c"
  proof -
    have "\<not> is_digit c" "c \<noteq> CHR ''.''" "c \<noteq> CHR ''e''" "c \<noteq> CHR ''E''"
      using c by (auto simp: is_digit_def json_space_def)
    then show ?thesis using st c by (auto simp: end_value_def state0_def expect_def)
  qed
qed

lemma scan_run_end_top: "scan_run (SEndTop, []) l = Some r \<Longrightarrow> list_all json_space l"
  by (induction l) (auto simp: expect_def split: if_splits)

lemma read_value_literal:
  assumes "scan_run (st, ps) l = Some (st', ps')" "value_complete st' ps'" "l \<noteq> [] \<Longrightarrow> \<not> json_space (last l)"
    and "s = [] \<or> json_space (hd s) \<or> hd s \<in> {CHR '','', CHR '']'', CHR ''}'', CHR '':''}"
  shows "read_value st ps acc (l @ s) = Some (rev acc @ l, s)"
  using assms(1,3)
proof (induction l arbitrary: st ps acc)
  case Nil
  then have r: "value_complete st ps" "ps = []" using assms(2) complete_stops(1) by auto
  show ?case
  proof (cases s)
    case (Cons c s')
    have "json_space c \<or> c \<in> {CHR '','', CHR '']'', CHR ''}'', CHR '':''}"
      using assms(4) unfolding Cons list.sel by blast
    then have "json_space c \<or> scan_step st [] c = None"
      by (elim disjE) (rule disjI1, assumption, rule disjI2, rule complete_stops(2) [OF r(1)], assumption)
    then show ?thesis using r Cons by simp
  qed (use r in simp)
next
  case (Cons c l)
  from Cons.prems(1) obtain st1 ps1 where s1: "scan_step st ps c = Some (st1, ps1)" "scan_run (st1, ps1) l = Some (st', ps')"
    by (auto split: option.splits)
  have "\<not> (value_complete st ps \<and> json_space c)"
  proof
    assume a: "value_complete st ps \<and> json_space c"
    then have "st1 = SEndTop" "ps1 = []" using complete_stops(1,3) s1(1) by fastforce+
    then have "list_all json_space (c # l)" using s1(2) scan_run_end_top a by simp
    then show False using Cons.prems(2) by (metis last_in_set list.distinct(1) list_all_iff)
  qed
  then show ?case using s1 Cons.IH [OF s1(2)] Cons.prems(2) by (auto split: if_splits)
qed

lemma spaced_end:
  assumes "spaced ts s" "ends ts"
  shows "s = [] \<or> json_space (hd s) \<or> hd s \<in> {CHR '','', CHR '']'', CHR ''}'', CHR '':''}"
  using assms(1)
proof cases
  case spaced_Nil
  then show ?thesis by (cases s) auto
next
  case (spaced_Cons w ts' r t)
  then show ?thesis using assms(2) by (cases w) (auto simp: ends_def)
qed

lemma readValue_literal:
  assumes "is_literal l" "spaced ts s" "ends ts"
  shows "readValue (l @ s) = Some (l, s)"
proof -
  from assms(1) obtain st ps where "scan_run (SBeginValue, []) l = Some (st, ps)" "value_complete st ps"
    by (auto simp: is_literal_def split: option.splits)
  from read_value_literal [OF this _ spaced_end [OF assms(2,3)], of "[]"] assms(1)
  show ?thesis by (simp add: readValue_def is_literal_def)
qed

lemma literal_head:
  assumes "is_literal l"
  obtains c cs where "l = c # cs" "\<not> json_space c" "c \<notin> {CHR ''['', CHR '']'', CHR ''{'', CHR ''}'', CHR '':'', CHR '',''}"
proof -
  from assms obtain c cs where l: "l = c # cs" by (cases l) (auto simp: is_literal_def)
  have "begin_value [] c \<noteq> None" using assms by (auto simp: is_literal_def l split: option.splits)
  then have "c \<notin> {CHR '']'', CHR ''}'', CHR '':'', CHR '',''}"
    by (auto simp: begin_value_def json_space_def is_digit19_def is_digit_def)
  then show thesis using assms that l by (auto simp: is_literal_def)
qed

lemma not_space [simp]:
  "\<not> json_space (CHR '','')" "\<not> json_space (CHR '':'')" "\<not> json_space (CHR ''['')" "\<not> json_space (CHR '']'')"
  "\<not> json_space (CHR ''{'')" "\<not> json_space (CHR ''}'')"
  by (simp_all add: json_space_def)

text \<open>One token: literals, brackets, and the separators that are skipped.\<close>

lemma next_token_literal:
  assumes "is_literal l" "spaced ts s" "ends ts" "list_all json_space w" "dc_rest d = w @ l @ s"
    and "tokenValueAllowed (dc_state d) \<or> dc_state d \<in> {TokenObjectStart, TokenObjectKey} \<and> hd l = CHR 0x22"
  shows "next_token d = Token (if hd l = CHR 0x22 then TString (key_text l) else TLiteral)
    (d\<lparr>dc_state := (if dc_state d \<in> {TokenObjectStart, TokenObjectKey} then TokenObjectColon else tokenValueEnd (dc_state d)),
       dc_rest := s\<rparr>)"
proof -
  obtain c cs where l: "l = c # cs" "\<not> json_space c" "c \<notin> {CHR ''['', CHR '']'', CHR ''{'', CHR ''}'', CHR '':'', CHR '',''}"
    by (rule literal_head [OF assms(1)])
  have "skip_space (dc_rest d) = c # cs @ s" using assms(4,5) l skip_space_token by simp
  then have "next_token d = literal_token d (l @ s)" using l by (subst next_token.simps) simp
  also have "\<dots> = Token (if hd l = CHR 0x22 then TString (key_text l) else TLiteral)
    (d\<lparr>dc_state := (if dc_state d \<in> {TokenObjectStart, TokenObjectKey} then TokenObjectColon else tokenValueEnd (dc_state d)),
       dc_rest := s\<rparr>)"
    using readValue_literal [OF assms(1-3)] assms(6) l(1)
    by (auto simp: literal_token_def key_text_def tokenValueAllowed_def)
  finally show ?thesis .
qed

lemma next_token_open:
  assumes "list_all json_space w" "tokenValueAllowed (dc_state d)"
  shows "dc_rest d = w @ ''['' @ s \<Longrightarrow> next_token d = Token (Delim (CHR ''[''))
      \<lparr>dc_state = TokenArrayStart, dc_stack = dc_state d # dc_stack d, dc_rest = s\<rparr>"
    "dc_rest d = w @ ''{'' @ s \<Longrightarrow> next_token d = Token (Delim (CHR ''{''))
      \<lparr>dc_state = TokenObjectStart, dc_stack = dc_state d # dc_stack d, dc_rest = s\<rparr>"
  using assms by (subst next_token.simps; simp add: skip_space_token open_token_def)+

lemma next_token_close:
  assumes "list_all json_space w" "dc_stack d = s0 # ss"
  shows "dc_rest d = w @ '']'' @ s \<Longrightarrow> dc_state d \<in> {TokenArrayStart, TokenArrayComma} \<Longrightarrow>
      next_token d = Token (Delim (CHR '']'')) \<lparr>dc_state = tokenValueEnd s0, dc_stack = ss, dc_rest = s\<rparr>"
    "dc_rest d = w @ ''}'' @ s \<Longrightarrow> dc_state d \<in> {TokenObjectStart, TokenObjectComma} \<Longrightarrow>
      next_token d = Token (Delim (CHR ''}'')) \<lparr>dc_state = tokenValueEnd s0, dc_stack = ss, dc_rest = s\<rparr>"
  using assms by (subst next_token.simps; simp add: skip_space_token close_token_def)+

lemma next_token_separator:
  assumes "list_all json_space w"
  shows "dc_rest d = w @ comma @ s \<Longrightarrow> dc_state d = TokenArrayComma \<Longrightarrow>
      next_token d = next_token (d\<lparr>dc_state := TokenArrayValue, dc_rest := s\<rparr>)"
    "dc_rest d = w @ comma @ s \<Longrightarrow> dc_state d = TokenObjectComma \<Longrightarrow>
      next_token d = next_token (d\<lparr>dc_state := TokenObjectKey, dc_rest := s\<rparr>)"
    "dc_rest d = w @ '':'' @ s \<Longrightarrow> dc_state d = TokenObjectColon \<Longrightarrow>
      next_token d = next_token (d\<lparr>dc_state := TokenObjectValue, dc_rest := s\<rparr>)"
  using assms by (subst next_token.simps; simp add: skip_space_token)+

subsection \<open>The scan over a text\<close>

text \<open>Either the rest of the tokens is left, or a duplicate key is reported.\<close>

definition outcome :: "bool \<Rightarrow> string list \<Rightarrow> decoder \<Rightarrow> (jerr + decoder) option \<Rightarrow> bool" where
  "outcome ok ts d r \<longleftrightarrow> (if ok then \<exists>s. spaced ts s \<and> r = Some (Inr (d\<lparr>dc_rest := s\<rparr>))
     else \<exists>k. r = Some (Inl (JDuplicate k)))"

lemma outcome_rest:
  fixes d e :: decoder
  assumes "dc_state d = dc_state e" "dc_stack d = dc_stack e"
  shows "outcome ok ts d r = outcome ok ts e r"
proof -
  have "d\<lparr>dc_rest := s\<rparr> = e\<lparr>dc_rest := s\<rparr>" for s using assms by (cases d; cases e) simp
  then show ?thesis by (simp add: outcome_def)
qed

definition parses :: "jtree \<Rightarrow> bool" where
  "parses t \<longleftrightarrow> (\<forall>d ts n. spaced (tokens t @ ts) (dc_rest d) \<longrightarrow> ends ts \<longrightarrow> tokenValueAllowed (dc_state d) \<longrightarrow>
     2 * length (dc_rest d) < n \<longrightarrow>
     outcome (unique_keys t) ts (d\<lparr>dc_state := tokenValueEnd (dc_state d)\<rparr>) (parseValue n d))"

lemma parsesD:
  "parses t \<Longrightarrow> spaced (tokens t @ ts) (dc_rest d) \<Longrightarrow> ends ts \<Longrightarrow> tokenValueAllowed (dc_state d) \<Longrightarrow>
     2 * length (dc_rest d) < n \<Longrightarrow> outcome (unique_keys t) ts (d\<lparr>dc_state := tokenValueEnd (dc_state d)\<rparr>) (parseValue n d)"
  by (simp add: parses_def)

lemma parseValue_cong: "next_token d = next_token d' \<Longrightarrow> parseValue n d = parseValue n d'"
  by (cases n) simp_all

lemma parse_element:
  assumes p: "parses u" and d: "More d" "next_token d = next_token d2" "dc_state d2 \<in> {TokenArrayStart, TokenArrayValue}"
    and s: "spaced (tokens u @ ts) (dc_rest d2)" "ends ts" and n: "2 * length (dc_rest d2) < n"
  shows "if unique_keys u
    then \<exists>s. spaced ts s \<and> length s < length (dc_rest d2) \<and>
      parse_elements (Suc n) d = parse_elements n (d2\<lparr>dc_state := TokenArrayComma, dc_rest := s\<rparr>)
    else \<exists>k. parse_elements (Suc n) d = Some (Inl (JDuplicate k))"
proof -
  have c: "parseValue n d = parseValue n d2" using d(2) by (rule parseValue_cong)
  have o: "outcome (unique_keys u) ts (d2\<lparr>dc_state := TokenArrayComma\<rparr>) (parseValue n d2)"
    using parsesD [OF p s _ n] d(3) by (auto simp: tokenValueAllowed_def tokenValueEnd_def)
  show ?thesis
  proof (cases "unique_keys u")
    case True
    then obtain s where "spaced ts s" "parseValue n d2 = Some (Inr (d2\<lparr>dc_state := TokenArrayComma, dc_rest := s\<rparr>))"
      using o by (auto simp: outcome_def)
    moreover from this(2) have "length s < length (dc_rest d2)" using parse_progress(1) by fastforce
    ultimately show ?thesis using True d(1) c by auto
  next
    case False
    then show ?thesis using o d(1) c by (auto simp: outcome_def)
  qed
qed

lemma parse_member:
  assumes p: "parses v" and d: "More d" "next_token d = next_token d2" "dc_state d2 \<in> {TokenObjectStart, TokenObjectKey}"
    and k: "is_literal k" "hd k = CHR 0x22"
    and s: "spaced (k # '':'' # tokens v @ ts) (dc_rest d2)" "ends ts" and n: "2 * length (dc_rest d2) < n"
  shows "if key_text k \<notin> set seen \<and> unique_keys v
    then \<exists>s. spaced ts s \<and> length s < length (dc_rest d2) \<and>
      parse_members (Suc n) seen d = parse_members n (key_text k # seen) (d2\<lparr>dc_state := TokenObjectComma, dc_rest := s\<rparr>)
    else \<exists>k'. parse_members (Suc n) seen d = Some (Inl (JDuplicate k'))"
proof -
  from s(1) obtain w s1 where w: "list_all json_space w" "dc_rest d2 = w @ k @ s1" "spaced ('':'' # tokens v @ ts) s1"
    by (auto elim: spaced_ConsE)
  from w(3) obtain w2 s2 where w2: "list_all json_space w2" "s1 = w2 @ '':'' @ s2" "spaced (tokens v @ ts) s2"
    by (auto elim: spaced_ConsE)
  let ?d3 = "d2\<lparr>dc_state := TokenObjectColon, dc_rest := s1\<rparr>"
  let ?d4 = "d2\<lparr>dc_state := TokenObjectValue, dc_rest := s2\<rparr>"
  have t: "next_token d = Token (TString (key_text k)) ?d3"
    using next_token_literal [OF k(1) w(3) _ w(1,2)] d(2,3) k(2) by (auto simp: ends_def)
  have c: "parseValue n ?d3 = parseValue n ?d4"
    using next_token_separator(3) [OF w2(1), of ?d3 s2] w2(2) by (intro parseValue_cong) simp
  have o: "outcome (unique_keys v) ts (d2\<lparr>dc_rest := s2, dc_state := TokenObjectComma\<rparr>) (parseValue n ?d4)"
    using parsesD [OF p, of ts ?d4 n] w2 w(2) s(2) n by (simp add: tokenValueAllowed_def tokenValueEnd_def)
  show ?thesis
  proof (cases "key_text k \<notin> set seen \<and> unique_keys v")
    case True
    then obtain s where r: "spaced ts s" "parseValue n ?d4 = Some (Inr (d2\<lparr>dc_state := TokenObjectComma, dc_rest := s\<rparr>))"
      using o by (auto simp: outcome_def)
    moreover have "length s < length (dc_rest d2)"
      using parse_progress(1) [OF r(2)] w(2) w2(2) by simp
    moreover have "parse_members (Suc n) seen d = parse_members n (key_text k # seen) (d2\<lparr>dc_state := TokenObjectComma, dc_rest := s\<rparr>)"
      using True d(1) t c r(2) by simp
    ultimately show ?thesis using True by auto
  next
    case False
    then show ?thesis using o d(1) t c by (auto simp: outcome_def)
  qed
qed

lemma More_token:
  "list_all json_space w \<Longrightarrow> dc_rest d = w @ c # s \<Longrightarrow> \<not> json_space c \<Longrightarrow> More d \<longleftrightarrow> c \<noteq> CHR '']'' \<and> c \<noteq> CHR ''}''"
  by (simp add: More_def skip_space_token)

lemma parse_elements_tail:
  assumes "\<forall>u \<in> set us. parses u" "dc_state d = TokenArrayComma" "dc_stack d = s0 # ss"
    "spaced (concat (map (\<lambda>u. comma # tokens u) us) @ '']'' # ts) (dc_rest d)" "2 * length (dc_rest d) + 1 < n"
  shows "outcome (\<forall>u \<in> set us. unique_keys u) ts \<lparr>dc_state = tokenValueEnd s0, dc_stack = ss, dc_rest = []\<rparr> (parse_elements n d)"
  using assms
proof (induction us arbitrary: d n)
  case Nil
  then obtain w s m where w: "list_all json_space w" "dc_rest d = w @ '']'' @ s" "spaced ts s" and m: "n = Suc m"
    by (cases n) (auto elim: spaced_ConsE)
  have "\<not> More d" using More_token [OF w(1), of d] w(2) by simp
  then show ?case using next_token_close(1) [OF w(1) Nil.prems(3) w(2)] Nil.prems(2) w(3) by (simp add: outcome_def m)
next
  case (Cons u us)
  let ?ts = "concat (map (\<lambda>u. comma # tokens u) us) @ '']'' # ts"
  from Cons.prems(4,5) obtain w s m where w: "list_all json_space w" "dc_rest d = w @ comma @ s" "spaced (tokens u @ ?ts) s" and m: "n = Suc m"
    by (cases n) (auto elim: spaced_ConsE)
  let ?d2 = "d\<lparr>dc_state := TokenArrayValue, dc_rest := s\<rparr>"
  have e: "ends ?ts" by (cases us) (auto simp: ends_def)
  have M: "More d" using More_token [OF w(1), of d] w(2) by simp
  have el: "if unique_keys u
    then \<exists>s'. spaced ?ts s' \<and> length s' < length s \<and>
      parse_elements (Suc m) d = parse_elements m (d\<lparr>dc_state := TokenArrayComma, dc_rest := s'\<rparr>)
    else \<exists>k. parse_elements (Suc m) d = Some (Inl (JDuplicate k))"
    using parse_element [of u d ?d2 ?ts m] Cons.prems(1,5) M next_token_separator(1) [OF w(1,2) Cons.prems(2)] w(2,3) e m
    by (auto simp del: parse_elements.simps split: if_splits)
  show ?case
  proof (cases "unique_keys u")
    case True
    then obtain s' where s': "spaced ?ts s'" "length s' < length s"
        "parse_elements n d = parse_elements m (d\<lparr>dc_state := TokenArrayComma, dc_rest := s'\<rparr>)"
      using el m by auto
    then show ?thesis
      using Cons.IH [of "d\<lparr>dc_state := TokenArrayComma, dc_rest := s'\<rparr>" m] Cons.prems(1,3,5) True w(2) m by simp
  next
    case False
    then show ?thesis using el m by (auto simp: outcome_def)
  qed
qed

lemma parse_members_tail:
  assumes "\<forall>u \<in> set us. is_literal (fst u) \<and> hd (fst u) = CHR 0x22 \<and> parses (snd u)" "dc_state d = TokenObjectComma"
    "dc_stack d = s0 # ss" "spaced (concat (map (\<lambda>u. comma # fst u # '':'' # tokens (snd u)) us) @ ''}'' # ts) (dc_rest d)"
    "2 * length (dc_rest d) < n"
  shows "outcome (distinct (map (key_text \<circ> fst) us) \<and> (\<forall>u \<in> set us. key_text (fst u) \<notin> set seen \<and> unique_keys (snd u))) ts
    \<lparr>dc_state = tokenValueEnd s0, dc_stack = ss, dc_rest = []\<rparr> (parse_members n seen d)"
  using assms
proof (induction us arbitrary: d n seen)
  case Nil
  then obtain w s m where w: "list_all json_space w" "dc_rest d = w @ ''}'' @ s" "spaced ts s" and m: "n = Suc m"
    by (cases n) (auto elim: spaced_ConsE)
  have "\<not> More d" using More_token [OF w(1), of d] w(2) by simp
  then show ?case using next_token_close(2) [OF w(1) Nil.prems(3) w(2)] Nil.prems(2) w(3) by (simp add: outcome_def m)
next
  case (Cons u us)
  let ?ts = "concat (map (\<lambda>u. comma # fst u # '':'' # tokens (snd u)) us) @ ''}'' # ts"
  from Cons.prems(4,5) obtain w s m where w: "list_all json_space w" "dc_rest d = w @ comma @ s"
      "spaced (fst u # '':'' # tokens (snd u) @ ?ts) s" and m: "n = Suc m"
    by (cases n) (auto elim: spaced_ConsE)
  let ?d2 = "d\<lparr>dc_state := TokenObjectKey, dc_rest := s\<rparr>"
  have e: "ends ?ts" by (cases us) (auto simp: ends_def)
  have M: "More d" using More_token [OF w(1), of d] w(2) by simp
  have el: "if key_text (fst u) \<notin> set seen \<and> unique_keys (snd u)
    then \<exists>s'. spaced ?ts s' \<and> length s' < length s \<and>
      parse_members (Suc m) seen d = parse_members m (key_text (fst u) # seen) (d\<lparr>dc_state := TokenObjectComma, dc_rest := s'\<rparr>)
    else \<exists>k. parse_members (Suc m) seen d = Some (Inl (JDuplicate k))"
    using parse_member [of "snd u" d ?d2 "fst u" ?ts m seen] Cons.prems(1,5) M next_token_separator(2) [OF w(1,2) Cons.prems(2)] w(2,3) e m
    by (auto simp del: parse_members.simps split: if_splits)
  show ?case
  proof (cases "key_text (fst u) \<notin> set seen \<and> unique_keys (snd u)")
    case True
    then obtain s' where s': "spaced ?ts s'" "length s' < length s"
        "parse_members n seen d = parse_members m (key_text (fst u) # seen) (d\<lparr>dc_state := TokenObjectComma, dc_rest := s'\<rparr>)"
      using el m by auto
    have "outcome (distinct (map (key_text \<circ> fst) us) \<and> (\<forall>v \<in> set us. key_text (fst v) \<notin> set (key_text (fst u) # seen) \<and> unique_keys (snd v))) ts
        \<lparr>dc_state = tokenValueEnd s0, dc_stack = ss, dc_rest = []\<rparr> (parse_members n seen d)"
      unfolding s'(3)
      using Cons.IH [of "d\<lparr>dc_state := TokenObjectComma, dc_rest := s'\<rparr>" m "key_text (fst u) # seen"] Cons.prems(1,3,5) s'(1,2) w(2) m
      by (simp add: comp_def)
    moreover have eq: "(distinct (map (key_text \<circ> fst) us) \<and> (\<forall>v \<in> set us. key_text (fst v) \<notin> set (key_text (fst u) # seen) \<and> unique_keys (snd v)))
        = (distinct (map (key_text \<circ> fst) (u # us)) \<and> (\<forall>v \<in> set (u # us). key_text (fst v) \<notin> set seen \<and> unique_keys (snd v)))"
      using True by (auto simp: image_iff)
    ultimately show ?thesis unfolding eq by blast
  next
    case False
    then have "\<exists>k. parse_members n seen d = Some (Inl (JDuplicate k))" using el m by (auto split: if_splits)
    then show ?thesis using False by (auto simp: outcome_def)
  qed
qed

text \<open>A text starts with its first token, which never closes a bracket.\<close>

lemma tokens_head: "wf_tree t \<Longrightarrow> \<exists>c cs rest. tokens t = (c # cs) # rest \<and> \<not> json_space c \<and> c \<noteq> CHR '']'' \<and> c \<noteq> CHR ''}''"
  by (cases t) (auto elim: literal_head)

lemma More_tree:
  assumes "spaced (tokens t @ ts) (dc_rest d)" "wf_tree t"
  shows "More d"
proof -
  obtain c cs rest where h: "tokens t = (c # cs) # rest" "\<not> json_space c" "c \<noteq> CHR '']''" "c \<noteq> CHR ''}''"
    using tokens_head [OF assms(2)] by blast
  then obtain w s where "list_all json_space w" "dc_rest d = w @ c # s" using assms(1) by (auto elim!: spaced_ConsE)
  then show ?thesis using More_token h by metis
qed

lemma parse_array:
  assumes "\<forall>u \<in> set us. parses u" "wf_tree (TArr us)"
  shows "parses (TArr us)"
  unfolding parses_def
proof (intro allI impI)
  fix d :: decoder and ts n
  assume a: "spaced (tokens (TArr us) @ ts) (dc_rest d)" "ends ts" "tokenValueAllowed (dc_state d)" "2 * length (dc_rest d) < n"
  obtain w s m where w: "list_all json_space w" "dc_rest d = w @ ''['' @ s" "spaced (tl (tokens (TArr us)) @ ts) s" and n: "n = Suc m"
    using a(1,4) by (cases n) (auto elim: spaced_ConsE)
  let ?d = "\<lparr>dc_state = TokenArrayStart, dc_stack = dc_state d # dc_stack d, dc_rest = s\<rparr>"
  let ?fin = "\<lparr>dc_state = tokenValueEnd (dc_state d), dc_stack = dc_stack d, dc_rest = []\<rparr>"
  have t: "parseValue n d = parse_elements m ?d" using next_token_open(1) [OF w(1) a(3) w(2)] n by simp
  have "outcome (\<forall>u \<in> set us. unique_keys u) ts ?fin (parse_elements m ?d)"
  proof (cases us)
    case Nil
    then obtain w2 s2 where w2: "list_all json_space w2" "s = w2 @ '']'' @ s2" "spaced ts s2" and m: "\<exists>m'. m = Suc m'"
      using w(2,3) a(4) n by (cases m) (auto elim: spaced_ConsE)
    have "\<not> More ?d" using More_token [OF w2(1), of ?d] w2(2) by simp
    then show ?thesis using next_token_close(1) [OF w2(1), of ?d] w2(2,3) m Nil by (auto simp: outcome_def)
  next
    case (Cons u vs)
    let ?ts = "concat (map (\<lambda>u. comma # tokens u) vs) @ '']'' # ts"
    have s: "spaced (tokens u @ ?ts) s" using w(3) Cons by simp
    have e: "ends ?ts" by (cases vs) (auto simp: ends_def)
    obtain m' where m: "m = Suc m'" using a(4) n w(2) by (cases m) auto
    have el: "if unique_keys u
      then \<exists>s'. spaced ?ts s' \<and> length s' < length s \<and>
        parse_elements m ?d = parse_elements m' (?d\<lparr>dc_state := TokenArrayComma, dc_rest := s'\<rparr>)
      else \<exists>k. parse_elements m ?d = Some (Inl (JDuplicate k))"
      using parse_element [of u ?d ?d ?ts m'] s e assms Cons a(4) n m w(2) More_tree [of u ?ts ?d]
      by (auto simp del: parse_elements.simps split: if_splits)
    show ?thesis
    proof (cases "unique_keys u")
      case True
      then obtain s' where "spaced ?ts s'" "length s' < length s"
          "parse_elements m ?d = parse_elements m' (?d\<lparr>dc_state := TokenArrayComma, dc_rest := s'\<rparr>)"
        using el by auto
      then show ?thesis
        using parse_elements_tail [of vs "?d\<lparr>dc_state := TokenArrayComma, dc_rest := s'\<rparr>" _ _ ts m'] assms Cons True a(4) n m w(2)
        by simp
    next
      case False
      then show ?thesis using el Cons by (auto simp: outcome_def)
    qed
  qed
  then show "outcome (unique_keys (TArr us)) ts (d\<lparr>dc_state := tokenValueEnd (dc_state d)\<rparr>) (parseValue n d)"
    unfolding t using outcome_rest [of "d\<lparr>dc_state := tokenValueEnd (dc_state d)\<rparr>" ?fin] by simp
qed

lemma parse_object:
  assumes "\<forall>m \<in> set ms. parses (snd m)" "wf_tree (TObj ms)"
  shows "parses (TObj ms)"
  unfolding parses_def
proof (intro allI impI)
  fix d :: decoder and ts n
  assume a: "spaced (tokens (TObj ms) @ ts) (dc_rest d)" "ends ts" "tokenValueAllowed (dc_state d)" "2 * length (dc_rest d) < n"
  obtain w s m where w: "list_all json_space w" "dc_rest d = w @ ''{'' @ s" "spaced (tl (tokens (TObj ms)) @ ts) s" and n: "n = Suc m"
    using a(1,4) by (cases n) (auto elim: spaced_ConsE)
  let ?d = "\<lparr>dc_state = TokenObjectStart, dc_stack = dc_state d # dc_stack d, dc_rest = s\<rparr>"
  let ?fin = "\<lparr>dc_state = tokenValueEnd (dc_state d), dc_stack = dc_stack d, dc_rest = []\<rparr>"
  have t: "parseValue n d = parse_members m [] ?d" using next_token_open(2) [OF w(1) a(3) w(2)] n by simp
  have "outcome (unique_keys (TObj ms)) ts ?fin (parse_members m [] ?d)"
  proof (cases ms)
    case Nil
    then obtain w2 s2 where w2: "list_all json_space w2" "s = w2 @ ''}'' @ s2" "spaced ts s2" and m: "\<exists>m'. m = Suc m'"
      using w(2,3) a(4) n by (cases m) (auto elim: spaced_ConsE)
    have "\<not> More ?d" using More_token [OF w2(1), of ?d] w2(2) by simp
    then show ?thesis using next_token_close(2) [OF w2(1), of ?d] w2(2,3) m Nil by (auto simp: outcome_def)
  next
    case (Cons u us)
    let ?ts = "concat (map (\<lambda>u. comma # fst u # '':'' # tokens (snd u)) us) @ ''}'' # ts"
    have s: "spaced (fst u # '':'' # tokens (snd u) @ ?ts) s" using w(3) Cons by simp
    have e: "ends ?ts" by (cases us) (auto simp: ends_def)
    obtain m' where m: "m = Suc m'" using a(4) n w(2) by (cases m) auto
    have M: "More ?d" using More_tree [of "TLeaf (fst u)" "'':'' # tokens (snd u) @ ?ts" ?d] s assms(2) Cons by simp
    have el: "if key_text (fst u) \<notin> set [] \<and> unique_keys (snd u)
      then \<exists>s'. spaced ?ts s' \<and> length s' < length (dc_rest ?d) \<and>
        parse_members m [] ?d = parse_members m' [key_text (fst u)] (?d\<lparr>dc_state := TokenObjectComma, dc_rest := s'\<rparr>)
      else \<exists>k. parse_members m [] ?d = Some (Inl (JDuplicate k))"
      unfolding m by (rule parse_member) (use s e assms Cons a(4) n m w(2) M in auto)
    show ?thesis
    proof (cases "unique_keys (snd u)")
      case True
      then obtain s' where s': "spaced ?ts s'" "length s' < length s"
          "parse_members m [] ?d = parse_members m' [key_text (fst u)] (?d\<lparr>dc_state := TokenObjectComma, dc_rest := s'\<rparr>)"
        using el by auto
      have "outcome (distinct (map (key_text \<circ> fst) us) \<and> (\<forall>v \<in> set us. key_text (fst v) \<notin> set [key_text (fst u)] \<and> unique_keys (snd v))) ts
          ?fin (parse_members m [] ?d)"
        unfolding s'(3) by (rule parse_members_tail) (use assms Cons s' a(4) n m w(2) in auto)
      moreover have "(distinct (map (key_text \<circ> fst) us) \<and> (\<forall>v \<in> set us. key_text (fst v) \<notin> set [key_text (fst u)] \<and> unique_keys (snd v)))
          = unique_keys (TObj ms)"
        using True Cons by (auto simp: image_iff)
      ultimately show ?thesis by simp
    next
      case False
      then show ?thesis using el Cons by (auto simp: outcome_def)
    qed
  qed
  then show "outcome (unique_keys (TObj ms)) ts (d\<lparr>dc_state := tokenValueEnd (dc_state d)\<rparr>) (parseValue n d)"
    unfolding t using outcome_rest [of "d\<lparr>dc_state := tokenValueEnd (dc_state d)\<rparr>" ?fin] by simp
qed

lemma parse_leaf:
  assumes "is_literal l"
  shows "parses (TLeaf l)"
  unfolding parses_def
proof (intro allI impI)
  fix d :: decoder and ts n
  assume a: "spaced (tokens (TLeaf l) @ ts) (dc_rest d)" "ends ts" "tokenValueAllowed (dc_state d)" "2 * length (dc_rest d) < n"
  then obtain w s m where w: "list_all json_space w" "dc_rest d = w @ l @ s" "spaced ts s" and n: "n = Suc m"
    by (cases n) (auto elim: spaced_ConsE)
  have "dc_state d \<notin> {TokenObjectStart, TokenObjectKey}" using a(3) by (auto simp: tokenValueAllowed_def)
  then show "outcome (unique_keys (TLeaf l)) ts (d\<lparr>dc_state := tokenValueEnd (dc_state d)\<rparr>) (parseValue n d)"
    using next_token_literal [OF assms w(3) a(2) w(1,2)] a(3) w(3) n by (auto simp: outcome_def)
qed

lemma parse_tree: "wf_tree t \<Longrightarrow> parses t"
proof (induction t)
  case (TLeaf l)
  then show ?case by (simp add: parse_leaf)
next
  case (TArr ts)
  then show ?case by (intro parse_array) auto
next
  case (TObj ms)
  have "\<forall>m \<in> set ms. parses (snd m)"
  proof
    fix m
    assume m: "m \<in> set ms"
    then show "parses (snd m)" using TObj.IH [of m "snd m"] TObj.prems by (cases m) (auto simp: snds.simps)
  qed
  then show ?case using TObj.prems by (intro parse_object)
qed

subsection \<open>Records\<close>

lemma StrictUnmarshal_returns: "returns (StrictUnmarshal dst r raw)"
  using rejectDuplicateKeys_returns [of "TrimSpace raw"]
  by (auto simp: StrictUnmarshal_def Let_def split: option.split prod.split)

lemma no_error_iff: "(case x of Inl e \<Rightarrow> Some e | Inr y \<Rightarrow> f y) = None \<longleftrightarrow> (\<exists>y. x = Inr y \<and> f y = None)"
  by (cases x) simp_all

lemma returns_then: "returns m \<Longrightarrow> (\<And>x. returns (f x)) \<Longrightarrow> returns (go_bind m f)"
  by (cases m) simp_all

lemma validateEnvelopePayload_returns: "returns (validateEnvelopePayload env probe)"
  by (auto simp: validateEnvelopePayload_def intro!: returns_then StrictUnmarshal_returns split: EnvelopeKind.split option.split)

lemma DecodeRecord_returns: "returns (DecodeRecord raw)"
  unfolding DecodeRecord_def Let_def
  by (simp add: returns_then rejectDuplicateKeys_returns validateEnvelopePayload_returns
      split: option.split sum.split prod.split)

lemma Next_returns: "returns (NDJSONReader_Next mx fail s)"
proof (induction mx fail s rule: NDJSONReader_Next.induct)
  case (1 mx fail s)
  have d: "\<exists>r. DecodeRecord l = Ret r" for l using DecodeRecord_returns by blast
  show ?case
  proof (cases "readLine (ndjson_max mx) fail s")
    case (Line line tooLarge rest)
    obtain r where "DecodeRecord (TrimSpace line) = Ret r" using d by blast
    then show ?thesis using 1 Line by (subst NDJSONReader_Next.simps) (simp add: Let_def)
  qed (subst NDJSONReader_Next.simps, simp)+
qed

subsection \<open>Properties\<close>

text \<open>Decoding terminates on every input: whatever bytes arrive, valid JSON or not, the duplicate scan,
  \<open>DecodeRecord\<close> and the record reader return; the recursion over nested values and the
  loop over blank lines always consume input.\<close>

lemma decoding_terminates:
  "returns (rejectDuplicateKeys raw) \<and> returns (DecodeRecord raw) \<and> returns (NDJSONReader_Next mx fail s)"
  using rejectDuplicateKeys_returns DecodeRecord_returns Next_returns by blast

text \<open>C9. Strict decoding has no ambiguity: for every JSON text, with any white space between its tokens and
  any nesting, the scan accepts it exactly when no object in it repeats a key (compared after
  escapes are resolved), and otherwise reports a duplicate key.\<close>

theorem duplicate_scan_exact:
  assumes t: "wf_tree t" and s: "spaced (tokens t) raw"
  shows "if unique_keys t then rejectDuplicateKeys raw = Ret None
    else \<exists>k. rejectDuplicateKeys raw = Ret (Some (JDuplicate k))"
proof -
  let ?d = "new_decoder raw" and ?n = "Suc (2 * length raw)"
  have o: "outcome (unique_keys t) [] (?d\<lparr>dc_state := tokenValueEnd (dc_state ?d)\<rparr>) (parseValue ?n ?d)"
    by (rule parsesD [OF parse_tree [OF t]]) (use s in \<open>simp_all add: new_decoder_def ends_def tokenValueAllowed_def\<close>)
  have eof: "next_token d = TokenEOF" if "spaced [] (dc_rest d)" for d :: decoder
    using that by (subst next_token.simps) (auto elim!: spaced_NilE simp: skip_space_all)
  show ?thesis
  proof (cases "unique_keys t")
    case True
    then obtain d where "parseValue ?n ?d = Some (Inr d)" "spaced [] (dc_rest d)" using o by (auto simp: outcome_def simp del: parseValue.simps)
    then show ?thesis using True eof by (simp add: rejectDuplicateKeys_def del: parseValue.simps)
  next
    case False
    then show ?thesis using o by (auto simp: outcome_def rejectDuplicateKeys_def simp del: parseValue.simps)
  qed
qed

definition sample_tree :: jtree where
  "sample_tree = TObj [([CHR 0x22, CHR ''a'', CHR 0x22], TArr [TLeaf ''1'', TObj []]), ([CHR 0x22, CHR ''b'', CHR 0x22], TLeaf ''null'')]"

theorem duplicate_scan_exact_witness: "rejectDuplicateKeys (concat (tokens sample_tree)) = Ret None"
proof -
  have c: "spaced ts (concat ts)" for ts
  proof (induction ts)
    case Nil
    then show ?case by (simp add: spaced_Nil)
  next
    case (Cons t ts)
    then show ?case using spaced_Cons [of "[]" ts "concat ts" t] by simp
  qed
  have w: "wf_tree sample_tree" and u: "unique_keys sample_tree" by code_simp+
  show ?thesis using duplicate_scan_exact [OF w c] u by simp
qed


text \<open>JSON with tildes for quotation marks, to write samples.\<close>

definition quoted :: "string \<Rightarrow> bytes" where
  "quoted = map (\<lambda>c. if c = CHR ''~'' then CHR 0x22 else c)"

definition sample_record :: bytes where
  "sample_record = quoted ''{~v~:1,~seq~:3,~op~:~commit~,~frame~:~f~}''"


text \<open>Two members whose names differ only in case pass the scan and set the same field: the record
  below is decoded with sequence number 9 although its member \<open>seq\<close> is 3.\<close>

lemma case_folded_duplicate_accepted:
  "case DecodeRecord (quoted ''{~v~:1,~seq~:3,~SEQ~:9,~op~:~commit~}'') of
     Ret (Inr env) \<Rightarrow> env_Seq env = 9 | _ \<Rightarrow> False"
  by code_simp

end
