(* ===== verification/Marshal.thy ===== *)
theory Marshal
  imports Strict
begin

text \<open>
  What the repository uses of \<open>json.Marshal\<close>: strings, numbers, slices and structs, and the
  encoders of \<open>wire\<close> built on it. A struct is its members in order; a member with
  \<open>omitempty\<close> is left out when it is empty.
\<close>

subsection \<open>Values\<close>

definition hex_digit :: "int \<Rightarrow> char" where
  "hex_digit d = (if d < 10 then char_of (48 + d) else char_of (87 + d))"

text \<open>One rune of a string at the front of the text, with HTML escaping, and its width.\<close>

definition quote1 :: "string \<Rightarrow> string \<times> nat" where
  "quote1 s =
     (let b = byte_at s 0 in
      if b < 128 then
        (if b = 92 \<or> b = 34 then [CHR 0x5C, char_of b]
         else if b = 8 then [CHR 0x5C, CHR ''b''] else if b = 12 then [CHR 0x5C, CHR ''f'']
         else if b = 10 then [CHR 0x5C, CHR ''n''] else if b = 13 then [CHR 0x5C, CHR ''r'']
         else if b = 9 then [CHR 0x5C, CHR ''t'']
         else if b < 32 \<or> b = 60 \<or> b = 62 \<or> b = 38
         then [CHR 0x5C, CHR ''u'', CHR ''0'', CHR ''0'', hex_digit (b div 16), hex_digit (b mod 16)]
         else [char_of b], 1)
      else
        (let (r, n) = decode_rune s in
         if r = 65533 \<and> n = 1 then (CHR 0x5C # ''ufffd'', 1)
         else if r = 8232 \<or> r = 8233 then (CHR 0x5C # ''u202'' @ [hex_digit (r mod 16)], n)
         else (take n s, n)))"

lemma quote1_width: "0 < snd (quote1 s)"
  using decode_rune_width [of s] by (simp add: quote1_def Let_def case_prod_beta)

function quote_body :: "string \<Rightarrow> string" where
  "quote_body s = (if s = [] then [] else fst (quote1 s) @ quote_body (drop (snd (quote1 s)) s))"
  by pat_completeness auto
termination
  by (relation "measure length") (auto simp: quote1_width)

declare quote_body.simps [simp del]

definition json_string :: "string \<Rightarrow> bytes" where
  "json_string s = CHR 0x22 # quote_body s @ [CHR 0x22]"

definition json_int :: "int \<Rightarrow> bytes" where
  "json_int i = (if i < 0 then CHR ''-'' # decimal (nat (- i)) else decimal (nat i))"

definition json_uint :: "u64 \<Rightarrow> bytes" where
  "json_uint w = decimal (unat w)"

text \<open>The members of a struct and the elements of a slice are trees over finished literals; the
  text of a tree is its tokens without white space.\<close>

definition json_text :: "jtree \<Rightarrow> bytes" where
  "json_text t = concat (tokens t)"

definition member :: "string \<Rightarrow> jtree \<Rightarrow> string \<times> jtree" where
  "member name t = (json_string name, t)"

definition string_tree :: "string \<Rightarrow> jtree" where
  "string_tree s = TLeaf (json_string s)"

definition int_tree :: "int \<Rightarrow> jtree" where
  "int_tree i = TLeaf (json_int i)"

text \<open>A nil slice is \<open>null\<close>; the feature list of an acknowledgement is nil when it has no
  element.\<close>

definition nil_slice_tree :: "('a \<Rightarrow> jtree) \<Rightarrow> 'a list \<Rightarrow> jtree" where
  "nil_slice_tree f xs = (if xs = [] then TLeaf ''null'' else TArr (map f xs))"

definition limits_tree :: "Limits \<Rightarrow> jtree" where
  "limits_tree l = TObj
     [member ''max_message_bytes'' (int_tree (MaxMessageBytes l)),
      member ''max_document_bytes'' (int_tree (MaxDocumentBytes l)),
      member ''max_nodes'' (int_tree (MaxNodes l)), member ''max_depth'' (int_tree (MaxDepth l)),
      member ''max_children'' (int_tree (MaxChildren l)),
      member ''max_text_bytes_per_node'' (int_tree (MaxTextBytesPerNode l)),
      member ''max_total_text_bytes'' (int_tree (MaxTotalTextBytes l)),
      member ''max_table_rows'' (int_tree (MaxTableRows l)),
      member ''max_table_columns'' (int_tree (MaxTableColumns l)),
      member ''max_pending_events'' (int_tree (MaxPendingEvents l)),
      member ''max_pending_mutations'' (int_tree (MaxPendingMutations l)),
      member ''max_inflight_actions'' (int_tree (MaxInflightActions l)),
      member ''max_datagram_bytes'' (int_tree (MaxDatagramBytes l))]"

definition ack_tree :: "HelloAck \<Rightarrow> jtree" where
  "ack_tree a = TObj
     [member ''version'' (int_tree (a_Version a)),
      member ''features'' (nil_slice_tree string_tree (a_Features a)),
      member ''components'' (TArr (map (string_tree \<circ> nodetype_string) (a_Components a))),
      member ''limits'' (limits_tree (a_Limits a))]"

definition marshal_ack :: "HelloAck \<Rightarrow> bytes" where
  "marshal_ack a = json_text (ack_tree a)"

subsection \<open>Envelopes\<close>

text \<open>\<open>compact\<close> with HTML escaping, which \<open>json.Marshal\<close> applies to a raw message: white
  space outside strings goes; the characters less than, greater than, ampersand and the two line
  separators are escaped.\<close>

function compact :: "bool \<Rightarrow> bool \<Rightarrow> bytes \<Rightarrow> bytes" where
  "compact ins esc [] = []"
| "compact ins esc (c # cs) =
     (let b = (of_char c :: int) in
      if b = 60 \<or> b = 62 \<or> b = 38
      then [CHR 0x5C, CHR ''u'', CHR ''0'', CHR ''0'', hex_digit (b div 16), hex_digit (b mod 16)] @ compact ins False cs
      else if b = 226 \<and> byte_at cs 0 = 128 \<and> (byte_at cs 1 = 168 \<or> byte_at cs 1 = 169)
      then CHR 0x5C # ''u202'' @ [hex_digit (byte_at cs 1 mod 16)] @ compact ins False (drop 2 cs)
      else if ins then c # compact (esc \<or> c \<noteq> CHR 0x22) (\<not> esc \<and> c = CHR 0x5C) cs
      else if json_space c then compact False False cs
      else c # compact (c = CHR 0x22) False cs)"
  by pat_completeness auto
termination
  by (relation "measure (\<lambda>(_, _, s). length s)") auto

text \<open>\<open>None\<close> where \<open>json.Marshal\<close> rejects the raw payload.\<close>

definition marshal_envelope :: "Envelope \<Rightarrow> bytes option" where
  "marshal_envelope env =
     (if env_Payload env \<noteq> [] \<and> \<not> json_valid (env_Payload env) then None
      else Some (json_text (TObj
        ([member ''v'' (int_tree (env_V env))]
         @ (if env_Session env = [] then [] else [member ''session'' (string_tree (env_Session env))])
         @ [member ''kind'' (string_tree (kind_string (env_Kind env))), member ''seq'' (TLeaf (json_uint (env_Seq env)))]
         @ (if env_Payload env = [] then [] else [member ''payload'' (TLeaf (compact False False (env_Payload env)))])))))"

text \<open>An encoding error carries the library's text.\<close>

definition EncodeEnvelope :: "Envelope \<Rightarrow> (Error + bytes) go" where
  "EncodeEnvelope env =
     (case marshal_envelope env of
        None \<Rightarrow> Ret (Inl (NewError [] (LibErr ''json.Marshal'')))
      | Some b \<Rightarrow> go_bind (DecodeRecord b) (\<lambda>r. case r of Inl e \<Rightarrow> Ret (Inl e) | Inr _ \<Rightarrow> Ret (Inr b)))"

text \<open>The bytes a successful \<open>NDJSONWriter.Write\<close> hands to the stream.\<close>

definition NDJSONWriter_Write :: "Envelope \<Rightarrow> (Error + bytes) go" where
  "NDJSONWriter_Write env =
     go_bind (EncodeEnvelope env) (\<lambda>r. case r of Inl e \<Rightarrow> Ret (Inl e) | Inr b \<Rightarrow> Ret (Inr (b @ [LF])))"

end
