(* ===== verification/Ipc.thy ===== *)
theory Ipc
  imports Engine Framing
begin

text \<open>
  The daemon/client messages of \<open>ipc/protocol.go\<close> and the record budget of
  \<open>ipc/limits.go\<close>. A pointer field is an option.
\<close>

subsection \<open>Messages\<close>

datatype IpcKind =
    IpcHello | IpcHelloAck | IpcInteraction | IpcFramePublished | IpcDetach | IpcDetachAck
  | IpcSnapshot | IpcError | IpcOther string

datatype InteractionType =
    InteractionFocus | InteractionInputSet | InteractionInputSubmit | InteractionTableMove
  | InteractionTableActivate | InteractionActionKey | InteractionOther string

fun interaction_string :: "InteractionType \<Rightarrow> string" where
  "interaction_string InteractionFocus = ''focus''"
| "interaction_string InteractionInputSet = ''input_set''"
| "interaction_string InteractionInputSubmit = ''input_submit''"
| "interaction_string InteractionTableMove = ''table_move''"
| "interaction_string InteractionTableActivate = ''table_activate''"
| "interaction_string InteractionActionKey = ''action_key''"
| "interaction_string (InteractionOther s) = s"

record Interaction =
  in_Type :: InteractionType
  in_ID :: string
  in_Value :: string
  in_Delta :: int
  in_Key :: string

record IpcErr =
  ie_Code :: string
  ie_Message :: gomsg
  ie_Recoverable :: bool

definition NewIpcError :: "string \<Rightarrow> gomsg \<Rightarrow> IpcErr" where
  "NewIpcError code message = \<lparr>ie_Code = code, ie_Message = message, ie_Recoverable = True\<rparr>"

definition IpcVersion :: int where
  "IpcVersion = 1"

record IpcMessage =
  im_V :: int
  im_Kind :: IpcKind
  im_RequestID :: string
  im_Client :: string
  im_ClientID :: string
  im_Interactive :: bool
  im_Interaction :: "Interaction option"
  im_Snapshot :: "PresentationSnapshot option"
  im_PublicationGeneration :: u64
  im_Error :: "IpcErr option"

text \<open>A message with version and kind, every other field zero.\<close>

definition ipc_message :: "IpcKind \<Rightarrow> IpcMessage" where
  "ipc_message k = \<lparr>im_V = IpcVersion, im_Kind = k, im_RequestID = [], im_Client = [], im_ClientID = [],
     im_Interactive = False, im_Interaction = None, im_Snapshot = None, im_PublicationGeneration = 0, im_Error = None\<rparr>"

subsection \<open>Validation\<close>

definition ValidateInteraction :: "Interaction option \<Rightarrow> IpcErr option" where
  "ValidateInteraction i =
     (case i of
        None \<Rightarrow> Some (NewIpcError ''ipc.invalid_interaction'' (Lit ''interaction payload is required''))
      | Some i \<Rightarrow>
          if in_Type i \<in> {InteractionFocus, InteractionInputSet, InteractionInputSubmit, InteractionTableMove, InteractionTableActivate}
          then (if in_ID i = []
                then Some (NewIpcError ''ipc.invalid_interaction'' (Sprintf ''%s requires id'' [FStr (interaction_string (in_Type i))]))
                else None)
          else if in_Type i = InteractionActionKey
          then (if in_Key i = []
                then Some (NewIpcError ''ipc.invalid_interaction'' (Lit ''action_key requires key'')) else None)
          else Some (NewIpcError ''ipc.invalid_interaction''
                 (Sprintf ''unknown interaction type %q'' [FStr (interaction_string (in_Type i))])))"

definition invalid_message :: "bool \<Rightarrow> string \<Rightarrow> IpcErr option" where
  "invalid_message b m = (if b then Some (NewIpcError ''ipc.invalid_message'' (Lit m)) else None)"

definition validate_snapshot :: "PresentationSnapshot \<Rightarrow> IpcErr option" where
  "validate_snapshot s =
     (if fmlookup (d_Nodes (ps_Document s)) root_id = None
      then invalid_message True ''snapshot document requires root''
      else invalid_message (ps_PublicationPending s \<and> ps_PublicationGeneration s = 0)
             ''pending snapshot requires publication generation'')"

definition validateMessage :: "IpcMessage \<Rightarrow> IpcErr option" where
  "validateMessage m =
     (if im_V m \<noteq> IpcVersion
      then Some (NewIpcError ''ipc.version_mismatch'' (Sprintf ''unsupported IPC version %d'' [FInt (im_V m)]))
      else case im_Kind m of
        IpcHello \<Rightarrow> invalid_message (im_Client m = []) ''hello requires client''
      | IpcHelloAck \<Rightarrow> invalid_message (im_ClientID m = [] \<or> \<not> im_Interactive m) ''hello_ack requires interactive client_id''
      | IpcInteraction \<Rightarrow> ValidateInteraction (im_Interaction m)
      | IpcFramePublished \<Rightarrow>
          invalid_message (im_PublicationGeneration m = 0) ''frame_published requires publication_generation''
      | IpcDetach \<Rightarrow> None
      | IpcDetachAck \<Rightarrow> invalid_message (im_RequestID m = []) ''detach_ack requires request_id''
      | IpcSnapshot \<Rightarrow> (case im_Snapshot m of
            None \<Rightarrow> invalid_message True ''snapshot requires payload''
          | Some s \<Rightarrow> validate_snapshot s)
      | IpcError \<Rightarrow> invalid_message (case im_Error m of None \<Rightarrow> True | Some e \<Rightarrow> ie_Code e = []) ''error message requires error payload''
      | IpcOther k \<Rightarrow> Some (NewIpcError ''ipc.invalid_message'' (Sprintf ''unknown IPC message kind %q'' [FStr k])))"

subsection \<open>The record budget (limits.go)\<close>

definition snapshotJSONExpansionFactor :: int where
  "snapshotJSONExpansionFactor = 8"

definition maxInt :: int where
  "maxInt = 9223372036854775807"

definition RecordLimit :: "Limits \<Rightarrow> int" where
  "RecordLimit limits =
     (let limits = EffectiveLimits limits in
      if MaxDocumentBytes limits > (maxInt - MaxMessageBytes limits) div snapshotJSONExpansionFactor then maxInt
      else
        (let limit = wrap_int (wrap_int (MaxDocumentBytes limits * snapshotJSONExpansionFactor) + MaxMessageBytes limits) in
         if limit < MaxMessageBytes limits then MaxMessageBytes limits else limit))"

text \<open>The record budget never overflows: for limits that are 64-bit integers it is the saturated value of
  eight times the document limit plus the message limit, at least the message limit.\<close>

lemma RecordLimit_saturates:
  assumes "in_int (MaxDocumentBytes limits)" and "in_int (MaxMessageBytes limits)"
  shows "RecordLimit limits =
      min maxInt (8 * MaxDocumentBytes (EffectiveLimits limits) + MaxMessageBytes (EffectiveLimits limits)) \<and>
    MaxMessageBytes (EffectiveLimits limits) \<le> RecordLimit limits"
proof -
  define D where "D = MaxDocumentBytes (EffectiveLimits limits)"
  define M where "M = MaxMessageBytes (EffectiveLimits limits)"
  have D: "1 \<le> D" "D \<le> maxInt" and M: "1 \<le> M" "M \<le> maxInt"
    using assms by (simp_all add: D_def M_def EffectiveLimits_sel in_int_def maxInt_def)
  have r: "RecordLimit limits = (if D > (maxInt - M) div 8 then maxInt
      else (let limit = wrap_int (wrap_int (D * 8) + M) in if limit < M then M else limit))"
    by (simp add: RecordLimit_def Let_def D_def M_def snapshotJSONExpansionFactor_def)
  show ?thesis
    unfolding D_def [symmetric] M_def [symmetric]
  proof (cases "D > (maxInt - M) div 8")
    case True
    then have "maxInt < 8 * D + M" by linarith
    then show "RecordLimit limits = min maxInt (8 * D + M) \<and> M \<le> RecordLimit limits" using True M r by simp
  next
    case False
    then have le: "8 * D + M \<le> maxInt" by linarith
    then have "wrap_int (D * 8) = 8 * D" "wrap_int (8 * D + M) = 8 * D + M"
      using D M by (simp_all add: in_int_def maxInt_def)
    then show "RecordLimit limits = min maxInt (8 * D + M) \<and> M \<le> RecordLimit limits" using False D le r by (simp add: Let_def)
  qed
qed

end
