(* ===== verification/Daemon.thy ===== *)
theory Daemon
  imports Publication Session Marshal Ipc
begin

text \<open>
  The daemon of \<open>daemon/\<close>: one engine and one session behind the agent's envelopes
  (\<open>agent.go\<close>), a lease for the one interactive client (\<open>lease.go\<close>), the client's
  interactions and frame acknowledgements (\<open>interactions.go\<close>, \<open>publication.go\<close>) and the
  connection handler (\<open>server.go\<close>) as the steps it takes between blocking reads. Sockets,
  deadlines and the encoding of messages are the environment: a step is given what was read and
  whether its writes succeeded.
\<close>

subsection \<open>State (daemon.go, lease.go)\<close>

record 'h Daemon =
  dm_Engine :: Engine
  dm_Session :: Session
  dm_Actions :: "'h ActionRegistry option"
  dm_limits :: Limits
  dm_active :: string
  dm_nextID :: u64
  dm_updates :: bool
  dm_eventCh :: bool
  dm_activeConn :: "nat option"

definition NewNoopActions :: "'h ActionRegistry" where
  "NewNoopActions = NewActionRegistry (5 * 10 ^ 9) (MaxInflightActions DefaultLimits)"

definition New_Daemon :: "string \<Rightarrow> Limits \<Rightarrow> 'h ActionRegistry option \<Rightarrow> 'h Daemon" where
  "New_Daemon sessionID limits actions =
     (let limits = EffectiveLimits limits;
          actions = (case actions of None \<Rightarrow> Some NewNoopActions | Some r \<Rightarrow> Some r) in
      \<lparr>dm_Engine = New_Engine limits (MaxPendingEvents limits), dm_Session = New_Session sessionID limits,
       dm_Actions = actions, dm_limits = limits, dm_active = [], dm_nextID = 0, dm_updates = False,
       dm_eventCh = False, dm_activeConn = None\<rparr>)"

text \<open>The two signal channels have capacity one, so a signal sets a flag.\<close>

definition signalSnapshot :: "'h Daemon \<Rightarrow> 'h Daemon" where
  "signalSnapshot d = d\<lparr>dm_updates := True\<rparr>"

definition signalEvents :: "'h Daemon \<Rightarrow> 'h Daemon" where
  "signalEvents d = d\<lparr>dm_eventCh := True\<rparr>"

definition HasActiveClient :: "'h Daemon \<Rightarrow> bool" where
  "HasActiveClient d \<longleftrightarrow> dm_active d \<noteq> []"

definition setActiveConn :: "'h Daemon \<Rightarrow> nat \<Rightarrow> 'h Daemon" where
  "setActiveConn d conn = d\<lparr>dm_activeConn := Some conn\<rparr>"

definition clearActiveConn :: "'h Daemon \<Rightarrow> nat \<Rightarrow> 'h Daemon" where
  "clearActiveConn d conn = (if dm_activeConn d = Some conn then d\<lparr>dm_activeConn := None\<rparr> else d)"

text \<open>Answers the connection to close.\<close>

definition closeActiveConn :: "'h Daemon \<Rightarrow> nat option" where
  "closeActiveConn d = dm_activeConn d"

definition acquire :: "'h Daemon \<Rightarrow> 'h Daemon \<times> (IpcErr + string)" where
  "acquire d =
     (if dm_active d \<noteq> []
      then (d, Inl (NewIpcError ''ipc.client_busy'' (Lit ''an interactive client is already attached'')))
      else
        (let n = dm_nextID d + 1; cid = ''client-'' @ decimal (unat n) in
         (d\<lparr>dm_nextID := n, dm_active := cid\<rparr>, Inr cid)))"

definition release :: "'h Daemon \<Rightarrow> string \<Rightarrow> 'h Daemon \<times> bool" where
  "release d cid = (if cid = [] \<or> dm_active d \<noteq> cid then (d, False) else (d\<lparr>dm_active := []\<rparr>, True))"

definition owner :: "'h Daemon \<Rightarrow> string" where
  "owner d = dm_active d"

subsection \<open>The agent's side (agent.go)\<close>

definition handle_operation :: "'h Daemon \<Rightarrow> Envelope \<Rightarrow> ('h Daemon \<times> (Error + Envelope option)) go" where
  "handle_operation d env =
     (let (s, duplicate, perr) = AcceptMutation (dm_Session d) (env_Seq env); d = d\<lparr>dm_Session := s\<rparr> in
      case perr of
        Some e \<Rightarrow> Ret (d, Inl e)
      | None \<Rightarrow>
          if duplicate then Ret (d, Inr None)
          else go_bind (StrictUnmarshal (decode_struct operation_fields) zero_operation (env_Payload env)) (\<lambda>r.
            case r of
              Inl e \<Rightarrow> Ret (d, Inl e)
            | Inr op \<Rightarrow>
                if op_Seq op \<noteq> int64_of_uint64 (env_Seq env)
                then Ret (d, Inl (NewError ''protocol.sequence_mismatch''
                  (Sprintf ''envelope seq %d != operation seq %d'' [FInt (uint (env_Seq env)), FInt (op_Seq op)])))
                else go_bind (Engine_Apply (dm_Engine d) op) (\<lambda>(e, perr).
                  let d = d\<lparr>dm_Engine := e\<rparr> in
                  case perr of
                    Some e \<Rightarrow> Ret (d, Inl e)
                  | None \<Rightarrow> Ret (signalSnapshot d, Inr None))))"

definition handle_hello :: "'h Daemon \<Rightarrow> Envelope \<Rightarrow> ('h Daemon \<times> (Error + Envelope option)) go" where
  "handle_hello d env =
     go_bind (StrictUnmarshal (decode_struct hello_fields) zero_hello (env_Payload env)) (\<lambda>r.
       case r of
         Inl e \<Rightarrow> Ret (d, Inl e)
       | Inr h \<Rightarrow>
           (case Negotiate (dm_Session d) h of
              (s, Inl e) \<Rightarrow> Ret (d\<lparr>dm_Session := s\<rparr>, Inl e)
            | (s, Inr ack) \<Rightarrow>
                Ret (d\<lparr>dm_Session := s\<rparr>, Inr (Some \<lparr>env_V = Version, env_Session = ss_id (dm_Session d),
                  env_Kind = KindHelloAck, env_Seq = 0, env_Payload = marshal_ack ack\<rparr>))))"

definition HandleEnvelope :: "'h Daemon \<Rightarrow> Envelope \<Rightarrow> ('h Daemon \<times> (Error + Envelope option)) go" where
  "HandleEnvelope d env =
     (if env_Session env \<noteq> [] \<and> env_Session env \<noteq> ss_id (dm_Session d)
      then Ret (d, Inl (NewError ''protocol.session_mismatch''
             (Sprintf ''expected session %q, got %q'' [FStr (ss_id (dm_Session d)), FStr (env_Session env)])))
      else case env_Kind env of
        KindHello \<Rightarrow> handle_hello d env
      | KindOperation \<Rightarrow> handle_operation d env
      | KindTelemetry \<Rightarrow> Ret (d, Inr None)
      | k \<Rightarrow> Ret (d, Inl (NewError ''protocol.unsupported_kind'' (Sprintf ''unsupported envelope kind %q'' [FStr (kind_string k)]))))"

text \<open>The loop over \<open>NextEvent\<close>; fuel of one more than the pending events.\<close>

fun drain_loop :: "nat \<Rightarrow> Engine \<Rightarrow> Event list \<Rightarrow> (Engine \<times> Event list) option" where
  "drain_loop 0 e out = None"
| "drain_loop (Suc n) e out =
     (case NextEvent e of
        (e', None) \<Rightarrow> Some (e', out)
      | (e', Some ev) \<Rightarrow> drain_loop n e' (out @ [ev]))"

definition DrainEvents :: "'h Daemon \<Rightarrow> ('h Daemon \<times> Event list) go" where
  "DrainEvents d =
     (case drain_loop (Suc (nat (depthLocked (en_broker (dm_Engine d))))) (dm_Engine d) [] of
        None \<Rightarrow> Diverge
      | Some (e, out) \<Rightarrow> Ret (d\<lparr>dm_Engine := e\<rparr>, out))"

text \<open>\<open>WaitEvents\<close> between its blocking points: the immediate drain, and what it does when it
  wakes. \<open>Some\<close> is its answer, \<open>None\<close> that it goes on waiting.\<close>

datatype wake = ContextDone | TimerFired | EventSignal

definition WaitEvents_enter :: "'h Daemon \<Rightarrow> int \<Rightarrow> ('h Daemon \<times> Event list option) go" where
  "WaitEvents_enter d maxWait =
     go_bind (DrainEvents d) (\<lambda>(d, events).
       Ret (d, if events \<noteq> [] then Some events else if maxWait \<le> 0 then Some [] else None))"

definition WaitEvents_wake :: "'h Daemon \<Rightarrow> wake \<Rightarrow> ('h Daemon \<times> Event list option) go" where
  "WaitEvents_wake d w =
     (case w of
        EventSignal \<Rightarrow> go_bind (DrainEvents (d\<lparr>dm_eventCh := False\<rparr>)) (\<lambda>(d, events).
          Ret (d, if events \<noteq> [] then Some events else None))
      | _ \<Rightarrow> go_bind (DrainEvents d) (\<lambda>(d, events). Ret (d, Some events)))"

subsection \<open>The client's requests (interactions.go, publication.go)\<close>

definition semanticIPCError :: "Error option \<Rightarrow> IpcErr option" where
  "semanticIPCError perr =
     map_option (\<lambda>e. \<lparr>ie_Code = e_Code e, ie_Message = e_Message e, ie_Recoverable = e_Recoverable e\<rparr>) perr"

definition engine_call_result :: "'h Daemon \<Rightarrow> Engine \<times> Error option \<Rightarrow> 'h Daemon \<times> IpcErr option" where
  "engine_call_result d r = (d\<lparr>dm_Engine := fst r\<rparr>, semanticIPCError (snd r))"

text \<open>The answers of the environment to a dispatched action are an argument.\<close>

definition handleInteraction :: "'h Daemon \<Rightarrow> dispatch_env \<Rightarrow> Interaction option \<Rightarrow> 'h Daemon \<times> IpcErr option" where
  "handleInteraction d env inp =
     (case ValidateInteraction inp of
        Some ierr \<Rightarrow> (d, Some ierr)
      | None \<Rightarrow>
          (case inp of
             None \<Rightarrow> (d, None)
           | Some i \<Rightarrow>
               (case in_Type i of
                  InteractionFocus \<Rightarrow> engine_call_result d (Focus (dm_Engine d) (in_ID i))
                | InteractionInputSet \<Rightarrow> engine_call_result d (SetInput (dm_Engine d) (in_ID i) (in_Value i))
                | InteractionInputSubmit \<Rightarrow> engine_call_result d (Submit (dm_Engine d) (in_ID i))
                | InteractionTableMove \<Rightarrow> engine_call_result d (Engine_MoveTableSelection (dm_Engine d) (in_ID i) (in_Delta i))
                | InteractionTableActivate \<Rightarrow> engine_call_result d (ActivateTableSelection (dm_Engine d) (in_ID i))
                | InteractionActionKey \<Rightarrow>
                    (let (e, reg, perr) = HandleKey (dm_Engine d) (dm_Actions d) env (in_Key i) in
                     (d\<lparr>dm_Engine := e, dm_Actions := reg\<rparr>, semanticIPCError perr))
                | InteractionOther _ \<Rightarrow> (d, Some (NewIpcError ''ipc.invalid_interaction'' (Lit ''unsupported interaction''))))))"

text \<open>The status is read first; other calls may come between the read and the publication.\<close>

definition ackPublication :: "'h Daemon \<Rightarrow> u64 \<times> bool \<Rightarrow> u64 \<Rightarrow> 'h Daemon \<times> IpcErr option" where
  "ackPublication d status generation =
     (let (current, pending) = status in
      if generation \<noteq> current
      then (d, Some (NewIpcError ''ipc.stale_publication''
             (Lit ''frame acknowledgement does not match the current publication generation'')))
      else if \<not> pending then (d, None)
      else case PublishGeneration (dm_Engine d) generation of
        (e, published, Some perr) \<Rightarrow> (d\<lparr>dm_Engine := e\<rparr>, semanticIPCError (Some perr))
      | (e, published, None) \<Rightarrow>
          (d\<lparr>dm_Engine := e\<rparr>,
           if published then None
           else Some (NewIpcError ''ipc.stale_publication'' (Lit ''publication generation changed before acknowledgement''))))"

subsection \<open>A client connection (server.go)\<close>

datatype client_read =
    ReadMessage IpcMessage
  | ReadInvalid IpcErr
  | ReadFailed gomsg bool    \<comment> \<open>the error text and whether it is the end of the stream\<close>

datatype client_phase = Handshake | Attached string | Gone

definition snapshot_message :: "'h Daemon \<Rightarrow> string \<Rightarrow> IpcMessage" where
  "snapshot_message d requestID =
     (ipc_message IpcSnapshot)\<lparr>im_RequestID := requestID, im_Snapshot := Some (snapshot (dm_Engine d))\<rparr>"

definition error_message :: "string \<Rightarrow> IpcErr \<Rightarrow> IpcMessage" where
  "error_message requestID e = (ipc_message IpcError)\<lparr>im_RequestID := requestID, im_Error := Some e\<rparr>"

text \<open>The deferred clean-up of the handler.\<close>

definition cleanup :: "'h Daemon \<Rightarrow> nat \<Rightarrow> string \<Rightarrow> 'h Daemon" where
  "cleanup d conn cid = (if cid \<noteq> [] then fst (release (clearActiveConn d conn) cid) else d)"

definition hello_error :: "client_read \<Rightarrow> IpcErr option" where
  "hello_error r =
     (case r of
        ReadInvalid e \<Rightarrow> Some e
      | ReadFailed m eof \<Rightarrow>
          Some (if \<not> eof then NewIpcError ''ipc.connection_closed'' (ErrOf m)
                else NewIpcError ''ipc.invalid_message'' (Lit ''first IPC record must be hello''))
      | ReadMessage m \<Rightarrow>
          if im_Kind m \<noteq> IpcHello
          then Some (NewIpcError ''ipc.invalid_message'' (Lit ''first IPC record must be hello'')) else None)"

text \<open>\<open>writes_ok\<close> tells whether both writes of the handshake succeed; the answered messages are
  then the ones written, and otherwise the ones the handler tries at most.\<close>

definition client_handshake :: "'h Daemon \<Rightarrow> nat \<Rightarrow> client_read \<Rightarrow> bool \<Rightarrow> 'h Daemon \<times> client_phase \<times> IpcMessage list" where
  "client_handshake d conn r writes_ok =
     (case hello_error r of
        Some perr \<Rightarrow> (d, Gone, [error_message [] perr])
      | None \<Rightarrow>
          (case acquire d of
             (d, Inl perr) \<Rightarrow> (d, Gone, [error_message [] perr])
           | (d, Inr cid) \<Rightarrow>
               (let d = setActiveConn d conn;
                    ack = (ipc_message IpcHelloAck)\<lparr>im_ClientID := cid, im_Interactive := True\<rparr>;
                    out = [ack, snapshot_message d []] in
                if writes_ok then (d, Attached cid, out) else (cleanup d conn cid, Gone, out))))"

definition client_update :: "'h Daemon \<Rightarrow> nat \<Rightarrow> string \<Rightarrow> bool \<Rightarrow> 'h Daemon \<times> client_phase \<times> IpcMessage list" where
  "client_update d conn cid writes_ok =
     (let d = d\<lparr>dm_updates := False\<rparr>; out = [snapshot_message d []] in
      if writes_ok then (d, Attached cid, out) else (cleanup d conn cid, Gone, out))"

definition client_message ::
    "'h Daemon \<Rightarrow> nat \<Rightarrow> string \<Rightarrow> dispatch_env \<Rightarrow> u64 \<times> bool \<Rightarrow> IpcMessage \<Rightarrow> bool \<Rightarrow> 'h Daemon \<times> client_phase \<times> IpcMessage list" where
  "client_message d conn cid env status msg writes_ok =
     (case im_Kind msg of
        IpcDetach \<Rightarrow>
          (cleanup d conn cid, Gone,
           if im_RequestID msg \<noteq> [] then [(ipc_message IpcDetachAck)\<lparr>im_RequestID := im_RequestID msg\<rparr>] else [])
      | IpcInteraction \<Rightarrow>
          (case handleInteraction d env (im_Interaction msg) of
             (d, Some ierr) \<Rightarrow> (d, Attached cid, [error_message (im_RequestID msg) ierr])
           | (d, None) \<Rightarrow>
               (let d = signalEvents d; out = [snapshot_message d (im_RequestID msg)] in
                if writes_ok then (d, Attached cid, out) else (cleanup d conn cid, Gone, out)))
      | IpcFramePublished \<Rightarrow>
          (case ackPublication d status (im_PublicationGeneration msg) of
             (d, Some ierr) \<Rightarrow> (d, Attached cid, [error_message (im_RequestID msg) ierr])
           | (d, None) \<Rightarrow> (signalEvents d, Attached cid, []))
      | _ \<Rightarrow> (d, Attached cid,
          [error_message (im_RequestID msg) (NewIpcError ''ipc.invalid_message'' (Lit ''message is not valid after attach''))]))"

definition client_serve ::
    "'h Daemon \<Rightarrow> nat \<Rightarrow> string \<Rightarrow> dispatch_env \<Rightarrow> u64 \<times> bool \<Rightarrow> client_read \<Rightarrow> bool \<Rightarrow> 'h Daemon \<times> client_phase \<times> IpcMessage list" where
  "client_serve d conn cid env status r writes_ok =
     (case r of
        ReadFailed _ _ \<Rightarrow> (cleanup d conn cid, Gone, [])
      | ReadInvalid perr \<Rightarrow> (cleanup d conn cid, Gone, [error_message [] perr])
      | ReadMessage msg \<Rightarrow> client_message d conn cid env status msg writes_ok)"

subsection \<open>The daemon with its connections\<close>

record 'h System =
  sy_daemon :: "'h Daemon"
  sy_clients :: "nat \<Rightarrow> client_phase option"

definition sys_put :: "'h System \<Rightarrow> nat \<Rightarrow> 'h Daemon \<Rightarrow> client_phase \<Rightarrow> 'h System" where
  "sys_put s c d ph = s\<lparr>sy_daemon := d, sy_clients := (sy_clients s)(c \<mapsto> ph)\<rparr>"

text \<open>The label is what is written to which connection.\<close>

inductive sys_step :: "'h System \<Rightarrow> (nat \<times> IpcMessage) list \<Rightarrow> 'h System \<Rightarrow> bool" where
  accept: "sy_clients s c = None \<Longrightarrow> sys_step s [] (sys_put s c (sy_daemon s) Handshake)"
| hello: "sy_clients s c = Some Handshake \<Longrightarrow> client_handshake (sy_daemon s) c r ok = (d, ph, out) \<Longrightarrow>
    sys_step s (map (Pair c) out) (sys_put s c d ph)"
| update: "sy_clients s c = Some (Attached cid) \<Longrightarrow> dm_updates (sy_daemon s) \<Longrightarrow>
    client_update (sy_daemon s) c cid ok = (d, ph, out) \<Longrightarrow> sys_step s (map (Pair c) out) (sys_put s c d ph)"
| serve: "sy_clients s c = Some (Attached cid) \<Longrightarrow> client_serve (sy_daemon s) c cid env status r ok = (d, ph, out) \<Longrightarrow>
    sys_step s (map (Pair c) out) (sys_put s c d ph)"
| cancel: "sy_clients s c = Some (Attached cid) \<Longrightarrow> sys_step s [] (sys_put s c (cleanup (sy_daemon s) c cid) Gone)"
| agent: "HandleEnvelope (sy_daemon s) env = Ret (d, r) \<Longrightarrow> sys_step s [] (s\<lparr>sy_daemon := d\<rparr>)"
| drain: "DrainEvents (sy_daemon s) = Ret (d, evs) \<Longrightarrow> sys_step s [] (s\<lparr>sy_daemon := d\<rparr>)"
| wake: "WaitEvents_wake (sy_daemon s) w = Ret (d, evs) \<Longrightarrow> sys_step s [] (s\<lparr>sy_daemon := d\<rparr>)"

inductive sys_reachable :: "'h System \<Rightarrow> bool" where
  start: "room_for_root (EffectiveLimits limits) \<Longrightarrow>
    sys_reachable \<lparr>sy_daemon = New_Daemon sid limits actions, sy_clients = (\<lambda>_. None)\<rparr>"
| step: "sys_reachable s \<Longrightarrow> sys_step s out s' \<Longrightarrow> sys_reachable s'"

end
