(* ===== verification/Service.thy ===== *)
theory Service
  imports Daemon
begin

text \<open>
  Correctness of the daemon: whatever agent and clients do, its engine and session only take steps
  of their own machines; one client at most holds the lease; a client never changes the document;
  envelopes are applied once; draining delivers everything.
\<close>

subsection \<open>Publication counters of the interaction state\<close>

definition pub_counters :: "State \<Rightarrow> u64 \<times> u64 \<times> u64" where
  "pub_counters s = (s_PublicationGeneration s, s_PublishedGeneration s, s_PublishedRevision s)"

definition published :: "State \<Rightarrow> u64 \<times> u64" where
  "published s = (s_PublishedGeneration s, s_PublishedRevision s)"

lemma pub_clear_state: "pub_counters (clear_state s op eff) = pub_counters s"
proof -
  have "pub_counters (fold drop_removed xs s) = pub_counters s" for xs
    by (induction xs arbitrary: s) (simp_all add: drop_removed_def pub_counters_def)
  then show ?thesis by (simp add: clear_state_def Let_def drop_removed_def pub_counters_def)
qed

lemma pub_settle_focus: "settle_focus had cand nxt op eff = Ret cand' \<Longrightarrow> pub_counters cand' = pub_counters cand"
  by (auto simp: settle_focus_def Let_def pub_counters_def go_simps split: if_splits)

lemma pub_Reconcile:
  assumes "Reconcile s prev nxt op eff = Ret (s', err)"
  shows "published s' = published s"
proof -
  have fin: "published (finish_state s cand nxt eff b) = published cand" for cand b
    by (simp add: finish_state_def Let_def published_def)
  have sel: "published (reconcileTableSelections cand nxt) = published cand" for cand
    by (simp add: reconcileTableSelections_def Let_def published_def)
  have pc: "pub_counters a = pub_counters b \<Longrightarrow> published a = published b" for a b
    by (simp add: pub_counters_def published_def)
  have inp: "published (s1\<lparr>s_InputValues := v\<rparr>) = published s1" for s1 v by (simp add: published_def)
  from assms show ?thesis
    by (auto simp: Reconcile_def Let_def go_simps fin sel inp pc [OF pub_clear_state]
        dest!: pub_settle_focus [THEN pc] split: if_splits sum.splits) (metis fin sel sum.exhaust)+
qed

text \<open>Every call but an operation or a publication leaves the counters alone.\<close>

definition local_call :: "engine_call \<Rightarrow> bool" where
  "local_call c \<longleftrightarrow> (case c of EApply _ \<Rightarrow> False | EPublish \<Rightarrow> False | EPublishGeneration _ \<Rightarrow> False | _ \<Rightarrow> True)"

lemma local_counters:
  assumes "local_call c"
  shows "pub_counters (en_state (engine_step e c)) = pub_counters (en_state e)"
  using assms
  by (cases c) (auto simp: local_call_def engine_step_def pub_counters_def NextEvent_def SetInput_def SetInputValue_def
      Engine_SetTableSelection_def Engine_MoveTableSelection_def MoveTableSelection_def SetTableSelection_def
      ActivateTableSelection_def Submit_def Focus_def SetLocalFocus_def enqueue_critical_def Let_def case_prod_beta
      split: option.split)

lemma local_document:
  "local_call c \<Longrightarrow> en_doc (engine_step e c) = en_doc e"
  by (cases c) (auto simp: local_call_def engine_step_def NextEvent_def SetInput_def
      Engine_SetTableSelection_def Engine_MoveTableSelection_def ActivateTableSelection_def Submit_def Focus_def
      enqueue_critical_def Let_def case_prod_beta split: option.split)

lemma publish_document: "en_doc (fst (publishLocked e)) = en_doc e"
  by (cases "publishLocked e") (auto elim: publishLocked_cases)

text \<open>As long as no call changed the frame there is nothing to publish.\<close>

definition settled :: "Engine \<Rightarrow> bool" where
  "settled e \<longleftrightarrow> s_PublicationGeneration (en_state e) = s_PublishedGeneration (en_state e) \<and> en_pendingCommits e = []"

lemma settled_not_pending: "settled e \<Longrightarrow> \<not> needsPublishLocked e"
  by (simp add: settled_def needsPublishLocked_def NeedsPublish_def)

lemma settled_step:
  assumes i: "engine_inv e" and s: "settled e" and b: "token_bump e c = 0"
  shows "settled (engine_step e c)"
proof (cases "local_call c")
  case True
  then have "pub_counters (en_state (engine_step e c)) = pub_counters (en_state e)" by (rule local_counters)
  moreover have "en_pendingCommits (engine_step e c) = en_pendingCommits e"
    using True by (intro pending_other) (auto simp: local_call_def)
  ultimately show ?thesis using s by (simp add: settled_def pub_counters_def)
next
  case False
  have idle: "publishLocked e = (e, None)" using settled_not_pending [OF s] by (simp add: publishLocked_def)
  show ?thesis
  proof (cases "\<exists>op. c = EApply op")
    case True
    then obtain op where c: "c = EApply op" ..
    show ?thesis
    proof (cases "Engine_Apply e op")
      case (Ret r)
      obtain e' err where r: "r = (e', err)" by (cases r)
      show ?thesis
        using i Ret [unfolded r]
      proof (cases rule: Engine_Apply_cases)
        case (refused b err1)
        then show ?thesis using s c Ret r by (simp add: settled_def engine_step_def)
      next
        case (accepted nxt eff st)
        have k: "s_PublicationGeneration st = s_PublicationGeneration (en_state e)" "\<not> eff_Commit eff"
          using b c Ret r accepted(1,5) Apply_commit_iff [OF accepted(2)]
          by (auto simp: token_bump_def split: if_splits)
        have "published st = published (en_state e)" using pub_Reconcile [OF accepted(3)] .
        then show ?thesis using s c Ret r accepted(5) k by (simp add: settled_def engine_step_def published_def)
      qed
    qed (use c s in \<open>simp_all add: engine_step_def\<close>)
  next
    case no: False
    then show ?thesis
      using False s idle settled_not_pending [OF s]
      by (cases c) (auto simp: local_call_def engine_step_def Engine_Publish_def PublishGeneration_def)
  qed
qed

lemma settled_run:
  "engine_inv e \<Longrightarrow> settled e \<Longrightarrow> token_bumps e cs = 0 \<Longrightarrow> settled (run_steps engine_step e cs)"
proof (induction cs arbitrary: e)
  case (Cons c cs)
  then show ?case using settled_step enginem.inv_step by simp
qed simp

subsection \<open>The daemon refines engine and session\<close>

lemma engine_call_result_sel [simp]:
  "dm_Engine (fst (engine_call_result d r)) = fst r" "dm_Session (fst (engine_call_result d r)) = dm_Session d"
  "dm_active (fst (engine_call_result d r)) = dm_active d" "dm_activeConn (fst (engine_call_result d r)) = dm_activeConn d"
  by (simp_all add: engine_call_result_def)

text \<open>An interaction is one local call of the engine, or none.\<close>

lemma handleInteraction_effect:
  obtains "fst (handleInteraction d env inp) = d"
  | c where "local_call c" "dm_Engine (fst (handleInteraction d env inp)) = engine_step (dm_Engine d) c"
      "dm_Session (fst (handleInteraction d env inp)) = dm_Session d"
      "dm_active (fst (handleInteraction d env inp)) = dm_active d"
      "dm_activeConn (fst (handleInteraction d env inp)) = dm_activeConn d"
proof (cases "ValidateInteraction inp = None \<and> inp \<noteq> None")
  case False
  then show thesis by (intro that(1)) (auto simp: handleInteraction_def split: option.split)
next
  case True
  then obtain i where i: "inp = Some i" "ValidateInteraction (Some i) = None" by auto
  show thesis
  proof (cases "in_Type i")
    case InteractionFocus
    then show thesis using i by (intro that(2) [of "EFocus (in_ID i)"])
      (simp_all add: handleInteraction_def local_call_def engine_step_def)
  next
    case InteractionInputSet
    then show thesis using i by (intro that(2) [of "ESetInput (in_ID i) (in_Value i)"])
      (simp_all add: handleInteraction_def local_call_def engine_step_def)
  next
    case InteractionInputSubmit
    then show thesis using i by (intro that(2) [of "ESubmit (in_ID i)"])
      (simp_all add: handleInteraction_def local_call_def engine_step_def)
  next
    case InteractionTableMove
    then show thesis using i by (intro that(2) [of "EMoveTableSelection (in_ID i) (in_Delta i)"])
      (simp_all add: handleInteraction_def local_call_def engine_step_def)
  next
    case InteractionTableActivate
    then show thesis using i by (intro that(2) [of "EActivate (in_ID i)"])
      (simp_all add: handleInteraction_def local_call_def engine_step_def)
  next
    case InteractionActionKey
    show thesis
    proof (cases "fmlookup (s_Bindings (en_state (dm_Engine d))) (in_Key i)")
      case None
      then show thesis using i InteractionActionKey by (intro that(1)) (simp add: handleInteraction_def HandleKey_def)
    next
      case (Some b)
      obtain reg ev rest where dp: "Dispatch (dm_Actions d) env (bd_NodeID b) (bd_Action b) (bd_Args b) = (reg, ev, rest)"
        by (metis prod_cases3)
      then show thesis using i InteractionActionKey Some by (intro that(2) [of "EActionEvent ev"])
        (simp_all add: handleInteraction_def local_call_def engine_step_def HandleKey_def case_prod_beta)
    qed
  next
    case (InteractionOther s)
    then show thesis using i by (intro that(1)) (simp add: handleInteraction_def)
  qed
qed

lemma ackPublication_effect:
  obtains "fst (ackPublication d status g) = d"
  | "fst (ackPublication d status g) = d\<lparr>dm_Engine := engine_step (dm_Engine d) (EPublishGeneration g)\<rparr>"
proof -
  obtain e p err where "PublishGeneration (dm_Engine d) g = (e, p, err)" by (metis prod_cases3)
  then show thesis
    using that by (cases "g \<noteq> fst status \<or> \<not> snd status"; cases err)
      (auto simp: ackPublication_def engine_step_def case_prod_beta)
qed

lemma cleanup_sel [simp]:
  "dm_Engine (cleanup d conn cid) = dm_Engine d" "dm_Session (cleanup d conn cid) = dm_Session d"
  by (auto simp: cleanup_def release_def clearActiveConn_def)

lemma drain_loop_run: "drain_loop n e out = Some (e', out') \<Longrightarrow> \<exists>m. e' = run_steps engine_step e (replicate m ENextEvent)"
proof (induction n arbitrary: e out)
  case (Suc n)
  obtain e1 ev where n: "NextEvent e = (e1, ev)" by fastforce
  then have e1: "e1 = engine_step e ENextEvent" by (simp add: engine_step_def)
  show ?case
  proof (cases ev)
    case None
    then show ?thesis using Suc.prems n e1 by (intro exI [of _ 1]) simp
  next
    case (Some v)
    then obtain m where "e' = run_steps engine_step e1 (replicate m ENextEvent)" using Suc n by auto
    then show ?thesis using e1 by (intro exI [of _ "Suc m"]) simp
  qed
qed simp

lemma DrainEvents_effect:
  assumes "DrainEvents d = Ret (d', evs)"
  obtains m where "d' = d\<lparr>dm_Engine := run_steps engine_step (dm_Engine d) (replicate m ENextEvent)\<rparr>"
proof -
  obtain n e where "drain_loop n (dm_Engine d) [] = Some (e, evs)" "d' = d\<lparr>dm_Engine := e\<rparr>"
    using assms by (auto simp: DrainEvents_def simp del: drain_loop.simps split: option.splits)
  then show thesis using drain_loop_run that by blast
qed

lemma HandleEnvelope_effect:
  assumes "HandleEnvelope d env = Ret (d', r)"
  obtains
    (session) c where "d' = d\<lparr>dm_Session := session_step (dm_Session d) c\<rparr>"
  | (applied) op err where "AcceptMutation (dm_Session d) (env_Seq env) = (dm_Session d', False, None)"
      "op_Seq op = int64_of_uint64 (env_Seq env)" "env_Kind env = KindOperation"
      "Engine_Apply (dm_Engine d) op = Ret (dm_Engine d', err)"
      "d' = d\<lparr>dm_Session := dm_Session d', dm_Engine := dm_Engine d', dm_updates := dm_updates d \<or> err = None\<rparr>"
      "r = (case err of None \<Rightarrow> Inr None | Some e \<Rightarrow> Inl e)"
  | (same) "d' = d"
proof (cases "env_Session env \<noteq> [] \<and> env_Session env \<noteq> ss_id (dm_Session d)")
  case True
  then show thesis using assms by (intro same) (simp add: HandleEnvelope_def)
next
  case ok: False
  show thesis
  proof (cases "env_Kind env")
    case KindHello
    then obtain q where u: "StrictUnmarshal (decode_struct hello_fields) zero_hello (env_Payload env) = Ret q"
      using assms ok by (auto simp: HandleEnvelope_def handle_hello_def go_simps)
    show thesis
    proof (cases q)
      case (Inl e)
      then show thesis using assms ok KindHello u by (intro same) (auto simp: HandleEnvelope_def handle_hello_def)
    next
      case (Inr h)
      obtain s a where n: "Negotiate (dm_Session d) h = (s, a)" by fastforce
      then show thesis using assms ok KindHello u Inr by (intro session [of "SNegotiate h"])
        (auto simp: HandleEnvelope_def handle_hello_def session_step_def split: sum.splits)
    qed
  next
    case KindOperation
    obtain s dup perr where a: "AcceptMutation (dm_Session d) (env_Seq env) = (s, dup, perr)" by (metis prod_cases3)
    show thesis
    proof (cases "perr = None \<and> \<not> dup")
      case False
      then show thesis using assms ok KindOperation a by (intro session [of "SAccept (env_Seq env)"])
        (auto simp: HandleEnvelope_def handle_operation_def Let_def session_step_def split: option.splits if_splits)
    next
      case True
      then obtain q where u: "StrictUnmarshal (decode_struct operation_fields) zero_operation (env_Payload env) = Ret q"
        using assms ok a KindOperation by (auto simp: HandleEnvelope_def handle_operation_def Let_def go_simps)
      show thesis
      proof (cases "\<exists>op. q = Inr op \<and> op_Seq op = int64_of_uint64 (env_Seq env)")
        case no: False
        then show thesis using assms ok KindOperation a True u by (intro session [of "SAccept (env_Seq env)"])
          (auto simp: HandleEnvelope_def handle_operation_def Let_def session_step_def split: sum.splits if_splits)
      next
        case yes: True
        then obtain op where op: "q = Inr op" "op_Seq op = int64_of_uint64 (env_Seq env)" by blast
        obtain e err where e: "Engine_Apply (dm_Engine d) op = Ret (e, err)"
          using assms ok KindOperation a True u op by (auto simp: HandleEnvelope_def handle_operation_def Let_def go_simps)
        then have "d' = d\<lparr>dm_Session := s, dm_Engine := e, dm_updates := dm_updates d \<or> err = None\<rparr> \<and>
            r = (case err of None \<Rightarrow> Inr None | Some e \<Rightarrow> Inl e)"
          using assms ok KindOperation a True u op
          by (auto simp: HandleEnvelope_def handle_operation_def Let_def signalSnapshot_def split: option.splits)
        then show thesis using a True op e KindOperation by (intro applied [of op err]) auto
      qed
    qed
  qed (use assms ok in \<open>auto simp: HandleEnvelope_def intro: same\<close>)
qed

text \<open>What one step of the system does to the two machines.\<close>

definition refines_step :: "'h Daemon \<Rightarrow> 'h Daemon \<Rightarrow> bool" where
  "refines_step d d' \<longleftrightarrow> (\<exists>cs. dm_Engine d' = run_steps engine_step (dm_Engine d) cs) \<and>
     (\<exists>cs. dm_Session d' = run_steps session_step (dm_Session d) cs)"

lemma refines_refl: "dm_Engine d' = dm_Engine d \<Longrightarrow> dm_Session d' = dm_Session d \<Longrightarrow> refines_step d d'"
  unfolding refines_step_def by (intro conjI exI [of _ "[]"]) simp_all

lemma refines_engine: "dm_Engine d' = run_steps engine_step (dm_Engine d) cs \<Longrightarrow> dm_Session d' = dm_Session d \<Longrightarrow> refines_step d d'"
  unfolding refines_step_def by (intro conjI exI [of _ cs] exI [of _ "[]"]) simp_all

lemma refines_call: "dm_Engine d' = engine_step (dm_Engine d) c \<Longrightarrow> dm_Session d' = dm_Session d \<Longrightarrow> refines_step d d'"
  by (rule refines_engine [of _ _ "[c]"]) simp_all

text \<open>A step of a connection: the engine takes at most one call, never an operation, and the session
  none.\<close>

definition client_effect :: "'h Daemon \<Rightarrow> 'h Daemon \<Rightarrow> bool" where
  "client_effect d d' \<longleftrightarrow> dm_Session d' = dm_Session d \<and>
     (dm_Engine d' = dm_Engine d \<or> (\<exists>c. (local_call c \<or> (\<exists>g. c = EPublishGeneration g)) \<and> dm_Engine d' = engine_step (dm_Engine d) c))"

lemma client_effect_refines: "client_effect d d' \<Longrightarrow> refines_step d d'"
  unfolding client_effect_def using refines_refl refines_call by blast

lemma client_effect_document: "client_effect d d' \<Longrightarrow> en_doc (dm_Engine d') = en_doc (dm_Engine d)"
proof -
  have "en_doc (engine_step e (EPublishGeneration g)) = en_doc e" for e g
    using publish_document [of e] by (auto simp: engine_step_def PublishGeneration_def split: prod.split option.split)
  then show "client_effect d d' \<Longrightarrow> ?thesis" using local_document by (auto simp: client_effect_def)
qed

lemma client_effect_same: "dm_Engine d' = dm_Engine d \<Longrightarrow> dm_Session d' = dm_Session d \<Longrightarrow> client_effect d d'"
  by (simp add: client_effect_def)

lemma client_effect_interaction: "client_effect d (fst (handleInteraction d env inp))"
  by (rule handleInteraction_effect [of d env inp]) (auto simp: client_effect_def)

lemma client_effect_ack: "client_effect d (fst (ackPublication d status g))"
  by (rule ackPublication_effect [of d status g]) (auto simp: client_effect_def)

lemma client_effect_cong:
  "client_effect d d' \<Longrightarrow> dm_Engine d'' = dm_Engine d' \<Longrightarrow> dm_Session d'' = dm_Session d' \<Longrightarrow> client_effect d d''"
  by (simp add: client_effect_def)

lemma signal_sel [simp]:
  "dm_Engine (signalEvents d) = dm_Engine d" "dm_Session (signalEvents d) = dm_Session d"
  "dm_active (signalEvents d) = dm_active d" "dm_activeConn (signalEvents d) = dm_activeConn d"
  by (simp_all add: signalEvents_def)

lemma client_serve_effect: "client_effect d (fst (client_serve d conn cid env status r ok))"
proof (cases r)
  case (ReadMessage m)
  obtain d1 e1 where i: "handleInteraction d env (im_Interaction m) = (d1, e1)" by fastforce
  obtain d2 e2 where a: "ackPublication d status (im_PublicationGeneration m) = (d2, e2)" by fastforce
  have "client_effect d d1" "client_effect d d2"
    using client_effect_interaction [of d env "im_Interaction m"] client_effect_ack [of d status "im_PublicationGeneration m"] i a
    by simp_all
  then show ?thesis
    using i a ReadMessage
    by (cases "im_Kind m"; cases e1; cases e2)
      (auto simp: client_serve_def client_message_def Let_def client_effect_same intro: client_effect_cong)
qed (simp_all add: client_serve_def client_effect_same)

lemma client_handshake_effect: "client_effect d (fst (client_handshake d conn r ok))"
  by (auto simp: client_handshake_def acquire_def setActiveConn_def Let_def client_effect_same split: option.split)

lemma client_update_effect: "client_effect d (fst (client_update d conn cid ok))"
  by (auto simp: client_update_def Let_def client_effect_same)

lemma WaitEvents_effect:
  assumes "WaitEvents_wake d w = Ret (d', evs)"
  obtains m where "dm_Engine d' = run_steps engine_step (dm_Engine d) (replicate m ENextEvent)" "dm_Session d' = dm_Session d"
    "dm_active d' = dm_active d" "dm_activeConn d' = dm_activeConn d"
proof -
  obtain d1 evs' where "DrainEvents d1 = Ret (d', evs')" "d1 = d \<or> d1 = d\<lparr>dm_eventCh := False\<rparr>"
    using assms by (cases w) (auto simp: WaitEvents_wake_def go_simps)
  then show thesis by (elim DrainEvents_effect) (rule that, auto)
qed

lemma HandleEnvelope_refines:
  assumes "HandleEnvelope d env = Ret (d', r)"
  shows "refines_step d d'"
  using assms
proof (cases rule: HandleEnvelope_effect)
  case (session c)
  then show ?thesis
    unfolding refines_step_def by (intro conjI exI [of _ "[c]"] exI [of _ "[]"]) simp_all
next
  case (applied op err)
  have "dm_Engine d' = run_steps engine_step (dm_Engine d) [EApply op]" using applied(4) by (simp add: engine_step_def)
  moreover have "dm_Session d' = run_steps session_step (dm_Session d) [SAccept (env_Seq env)]"
    using applied(1) by (simp add: session_step_def)
  ultimately show ?thesis unfolding refines_step_def by blast
next
  case same
  then show ?thesis by (simp add: refines_refl)
qed

lemma sys_step_refines:
  assumes "sys_step s out s'"
  shows "refines_step (sy_daemon s) (sy_daemon s')"
  using assms
proof cases
  case (accept c)
  then show ?thesis by (simp add: sys_put_def refines_refl)
next
  case (hello c r ok d ph outs)
  then show ?thesis using client_handshake_effect [of "sy_daemon s" c r ok] by (simp add: sys_put_def client_effect_refines)
next
  case (update c cid ok d ph outs)
  then show ?thesis using client_update_effect [of "sy_daemon s" c cid ok] by (simp add: sys_put_def client_effect_refines)
next
  case (serve c cid env status r ok d ph outs)
  then show ?thesis using client_serve_effect [of "sy_daemon s" c cid env status r ok] by (simp add: sys_put_def client_effect_refines)
next
  case (cancel c cid)
  then show ?thesis by (simp add: sys_put_def refines_refl)
next
  case (agent env d r)
  then show ?thesis using HandleEnvelope_refines by simp
next
  case (drain d evs)
  then show ?thesis by (auto elim!: DrainEvents_effect intro: refines_engine)
next
  case (wake w d evs)
  then show ?thesis by (auto elim!: WaitEvents_effect intro: refines_engine)
qed

subsection \<open>The lease\<close>

text \<open>An attached connection holds the lease under its id and is the active connection; the lease
  is free exactly when no connection is attached.\<close>

definition lease_inv :: "'h System \<Rightarrow> bool" where
  "lease_inv s \<longleftrightarrow>
     (\<forall>c cid. sy_clients s c = Some (Attached cid) \<longrightarrow>
        cid = owner (sy_daemon s) \<and> cid \<noteq> [] \<and> dm_activeConn (sy_daemon s) = Some c) \<and>
     (owner (sy_daemon s) \<noteq> [] \<longrightarrow> (\<exists>c. sy_clients s c = Some (Attached (owner (sy_daemon s)))))"

lemma lease_invD:
  assumes "lease_inv s" "sy_clients s c = Some (Attached cid)"
  shows "cid = dm_active (sy_daemon s)" "cid \<noteq> []" "dm_activeConn (sy_daemon s) = Some c"
proof -
  have "cid = owner (sy_daemon s) \<and> cid \<noteq> [] \<and> dm_activeConn (sy_daemon s) = Some c"
    using assms unfolding lease_inv_def by blast
  then show "cid = dm_active (sy_daemon s)" "cid \<noteq> []" "dm_activeConn (sy_daemon s) = Some c" by (auto simp: owner_def)
qed

lemma lease_inv_owned:
  "lease_inv s \<Longrightarrow> dm_active (sy_daemon s) \<noteq> [] \<Longrightarrow> \<exists>c. sy_clients s c = Some (Attached (dm_active (sy_daemon s)))"
  unfolding lease_inv_def owner_def by blast

lemma lease_inv_only: "lease_inv s \<Longrightarrow> sy_clients s c = Some (Attached k) \<Longrightarrow> sy_clients s c' = Some (Attached k') \<Longrightarrow> c' = c"
  by (metis lease_invD(3) option.inject)

lemma lease_inv_put:
  assumes "\<And>c' cid. c' \<noteq> c \<Longrightarrow> sy_clients s c' = Some (Attached cid) \<Longrightarrow> cid = dm_active d \<and> cid \<noteq> [] \<and> dm_activeConn d = Some c'"
    and "\<And>cid. ph = Attached cid \<Longrightarrow> cid = dm_active d \<and> cid \<noteq> [] \<and> dm_activeConn d = Some c"
    and "dm_active d \<noteq> [] \<Longrightarrow> ph = Attached (dm_active d) \<or> (\<exists>c'. c' \<noteq> c \<and> sy_clients s c' = Some (Attached (dm_active d)))"
  shows "lease_inv (sys_put s c d ph)"
  unfolding lease_inv_def owner_def sys_put_def
proof (intro conjI allI impI)
  fix c' cid
  let ?s = "s\<lparr>sy_daemon := d, sy_clients := (sy_clients s)(c \<mapsto> ph)\<rparr>"
  assume "sy_clients ?s c' = Some (Attached cid)"
  then have "(c' = c \<and> ph = Attached cid) \<or> (c' \<noteq> c \<and> sy_clients s c' = Some (Attached cid))" by (simp split: if_splits)
  then show "cid = dm_active (sy_daemon ?s)" "cid \<noteq> []" "dm_activeConn (sy_daemon ?s) = Some c'" using assms(1,2) by auto
next
  let ?s = "s\<lparr>sy_daemon := d, sy_clients := (sy_clients s)(c \<mapsto> ph)\<rparr>"
  assume "dm_active (sy_daemon ?s) \<noteq> []"
  then have "dm_active d \<noteq> []" by simp
  then consider "ph = Attached (dm_active d)" | c' where "c' \<noteq> c" "sy_clients s c' = Some (Attached (dm_active d))"
    using assms(3) by blast
  then show "\<exists>c. sy_clients ?s c = Some (Attached (dm_active (sy_daemon ?s)))" by cases auto
qed

text \<open>A connection that is not attached before or after leaves the lease to the others.\<close>

definition same_lease :: "'h Daemon \<Rightarrow> 'h Daemon \<Rightarrow> bool" where
  "same_lease d d' \<longleftrightarrow> dm_active d' = dm_active d \<and> dm_activeConn d' = dm_activeConn d"

lemma cleanup_lease:
  "cid \<noteq> [] \<Longrightarrow> dm_active d = cid \<Longrightarrow> dm_active (cleanup d conn cid) = []"
  by (auto simp: cleanup_def release_def clearActiveConn_def)

text \<open>What a step of an attached connection does to the lease: nothing while it stays attached,
  and it frees it when it goes.\<close>

definition keeps_lease :: "string \<Rightarrow> 'h Daemon \<Rightarrow> 'h Daemon \<times> client_phase \<times> IpcMessage list \<Rightarrow> bool" where
  "keeps_lease cid d r \<longleftrightarrow> (case r of (d', ph, _) \<Rightarrow>
     (ph = Attached cid \<and> same_lease d d') \<or> (ph = Gone \<and> dm_active d' = []))"

lemma keeps_lease_stay: "same_lease d d' \<Longrightarrow> keeps_lease cid d (d', Attached cid, out)"
  by (simp add: keeps_lease_def)

lemma keeps_lease_go:
  "same_lease d d' \<Longrightarrow> cid \<noteq> [] \<Longrightarrow> dm_active d = cid \<Longrightarrow> keeps_lease cid d (cleanup d' conn cid, Gone, out)"
  by (simp add: keeps_lease_def same_lease_def cleanup_lease)

lemma same_lease_interaction: "same_lease d (fst (handleInteraction d env inp))"
  by (rule handleInteraction_effect [of d env inp]) (auto simp: same_lease_def)

lemma same_lease_ack: "same_lease d (fst (ackPublication d status g))"
  by (rule ackPublication_effect [of d status g]) (auto simp: same_lease_def)

lemma same_lease_refl [simp]: "same_lease d d"
  by (simp add: same_lease_def)

lemma same_lease_signal: "same_lease d d' \<Longrightarrow> same_lease d (signalEvents d')"
  by (simp add: same_lease_def)

lemma client_serve_lease:
  assumes l: "cid \<noteq> []" "dm_active d = cid"
  shows "keeps_lease cid d (client_serve d conn cid env status r ok)"
proof (cases r)
  case (ReadMessage m)
  obtain d1 e1 where i: "handleInteraction d env (im_Interaction m) = (d1, e1)" by fastforce
  obtain d2 e2 where a: "ackPublication d status (im_PublicationGeneration m) = (d2, e2)" by fastforce
  have "same_lease d d1" "same_lease d d2"
    using same_lease_interaction [of d env "im_Interaction m"] same_lease_ack [of d status "im_PublicationGeneration m"] i a by simp_all
  then show ?thesis
    using i a ReadMessage keeps_lease_go [OF _ l]
    by (cases "im_Kind m"; cases e1; cases e2)
      (auto simp: client_serve_def client_message_def Let_def intro: keeps_lease_stay same_lease_signal)
qed (use keeps_lease_go [OF _ l] in \<open>simp_all add: client_serve_def\<close>)

lemma client_update_lease:
  assumes "cid \<noteq> []" "dm_active d = cid"
  shows "keeps_lease cid d (client_update d conn cid ok)"
proof -
  have "same_lease d (d\<lparr>dm_updates := False\<rparr>)" by (simp add: same_lease_def)
  then show ?thesis
    using keeps_lease_go [OF _ assms] keeps_lease_stay by (auto simp: client_update_def Let_def)
qed

lemma client_handshake_lease:
  "case client_handshake d conn r ok of (d', ph, _) \<Rightarrow>
     (ph = Gone \<and> same_lease d d') \<or> (ph = Gone \<and> dm_active d = [] \<and> dm_active d' = []) \<or>
     (dm_active d = [] \<and> dm_active d' \<noteq> [] \<and> ph = Attached (dm_active d') \<and> dm_activeConn d' = Some conn)"
  by (auto simp: client_handshake_def acquire_def setActiveConn_def Let_def cleanup_lease same_lease_def split: option.split)

lemma lease_inv_attached:
  assumes i: "lease_inv s" and c: "sy_clients s c = Some (Attached cid)" and k: "keeps_lease cid (sy_daemon s) (d, ph, out)"
  shows "lease_inv (sys_put s c d ph)"
proof -
  have none: "c' \<noteq> c \<Longrightarrow> sy_clients s c' \<noteq> Some (Attached k)" for c' k using lease_inv_only [OF i c] by blast
  from k consider "ph = Attached cid" "same_lease (sy_daemon s) d" | "ph = Gone" "dm_active d = []"
    by (auto simp: keeps_lease_def)
  then show ?thesis
  proof cases
    case 1
    then show ?thesis using lease_invD [OF i c] none by (intro lease_inv_put) (auto simp: same_lease_def)
  next
    case 2
    then show ?thesis using none by (intro lease_inv_put) auto
  qed
qed

lemma lease_inv_idle:
  assumes i: "lease_inv s" and c: "\<And>k. sy_clients s c \<noteq> Some (Attached k)" and l: "same_lease (sy_daemon s) d"
    and ph: "\<And>k. ph \<noteq> Attached k"
  shows "lease_inv (sys_put s c d ph)"
proof (rule lease_inv_put)
  show "cid = dm_active d \<and> cid \<noteq> [] \<and> dm_activeConn d = Some c'" if "sy_clients s c' = Some (Attached cid)" for c' cid
    using lease_invD [OF i that] l by (simp add: same_lease_def)
  show "ph = Attached (dm_active d) \<or> (\<exists>c'. c' \<noteq> c \<and> sy_clients s c' = Some (Attached (dm_active d)))" if "dm_active d \<noteq> []"
    using lease_inv_owned [OF i] l that c by (metis same_lease_def)
qed (use ph in blast)

lemma lease_inv_same:
  "lease_inv s \<Longrightarrow> same_lease (sy_daemon s) d \<Longrightarrow> lease_inv (s\<lparr>sy_daemon := d\<rparr>)"
  by (simp add: lease_inv_def same_lease_def owner_def)

lemma lease_inv_handshake:
  assumes i: "lease_inv s" and c: "sy_clients s c = Some Handshake"
    and h: "client_handshake (sy_daemon s) c r ok = (d, ph, out)"
  shows "lease_inv (sys_put s c d ph)"
proof -
  have none: "sy_clients s c' \<noteq> Some (Attached k)" if "dm_active (sy_daemon s) = []" for c' k
    using lease_invD [OF i] that by metis
  consider "ph = Gone" "same_lease (sy_daemon s) d" | "ph = Gone" "dm_active (sy_daemon s) = []" "dm_active d = []"
    | "dm_active (sy_daemon s) = []" "dm_active d \<noteq> []" "ph = Attached (dm_active d)" "dm_activeConn d = Some c"
    using client_handshake_lease [of "sy_daemon s" c r ok] h by auto
  then show ?thesis
  proof cases
    case 1
    then show ?thesis using c by (intro lease_inv_idle [OF i]) auto
  next
    case 2
    then show ?thesis using none by (intro lease_inv_put) auto
  next
    case 3
    then show ?thesis using none by (intro lease_inv_put) auto
  qed
qed

lemma same_lease_agent: "HandleEnvelope d env = Ret (d', r) \<Longrightarrow> same_lease d d'"
proof -
  assume "HandleEnvelope d env = Ret (d', r)"
  then show "same_lease d d'"
  proof (cases rule: HandleEnvelope_effect)
    case (applied op err)
    have "dm_active d' = dm_active d" "dm_activeConn d' = dm_activeConn d"
      using arg_cong [OF applied(5), of dm_active] arg_cong [OF applied(5), of dm_activeConn] by simp_all
    then show ?thesis by (simp add: same_lease_def)
  qed (simp_all add: same_lease_def)
qed

lemma sys_step_lease:
  assumes s: "sys_step s out s'" and i: "lease_inv s"
  shows "lease_inv s'"
  using s
proof cases
  case (accept c)
  then show ?thesis by (auto intro!: lease_inv_idle [OF i])
next
  case (hello c r ok d ph outs)
  then show ?thesis using lease_inv_handshake [OF i] by simp
next
  case (update c cid ok d ph outs)
  have "keeps_lease cid (sy_daemon s) (d, ph, outs)"
    unfolding update(5) [symmetric] by (rule client_update_lease) (use lease_invD [OF i update(3)] in auto)
  then show ?thesis using lease_inv_attached [OF i update(3)] update by simp
next
  case (serve c cid env status r ok d ph outs)
  have "keeps_lease cid (sy_daemon s) (d, ph, outs)"
    unfolding serve(4) [symmetric] by (rule client_serve_lease) (use lease_invD [OF i serve(3)] in auto)
  then show ?thesis using lease_inv_attached [OF i serve(3)] serve by simp
next
  case (cancel c cid)
  have "keeps_lease cid (sy_daemon s) (cleanup (sy_daemon s) c cid, Gone, [])"
    by (rule keeps_lease_go) (use lease_invD [OF i cancel(3)] in auto)
  then show ?thesis using lease_inv_attached [OF i cancel(3)] cancel by simp
next
  case (agent env d r)
  then show ?thesis using lease_inv_same [OF i same_lease_agent [OF agent(3)]] by simp
next
  case (drain d evs)
  then have "same_lease (sy_daemon s) d" by (auto elim!: DrainEvents_effect simp: same_lease_def)
  then show ?thesis using lease_inv_same [OF i] drain by simp
next
  case (wake w d evs)
  then have "same_lease (sy_daemon s) d" by (auto elim!: WaitEvents_effect simp: same_lease_def)
  then show ?thesis using lease_inv_same [OF i] wake by simp
qed

subsection \<open>Reachable states\<close>

lemma refines_trans:
  assumes "dm_Engine d = run_steps engine_step e cs" "dm_Session d = run_steps session_step t ds" "refines_step d d'"
  shows "\<exists>cs' ds'. dm_Engine d' = run_steps engine_step e cs' \<and> dm_Session d' = run_steps session_step t ds'"
proof -
  obtain cs' ds' where "dm_Engine d' = run_steps engine_step e (cs @ cs')" "dm_Session d' = run_steps session_step t (ds @ ds')"
    using assms by (auto simp: refines_step_def run_steps_append)
  then show ?thesis by blast
qed

lemma sys_reachable_lease: "sys_reachable s \<Longrightarrow> lease_inv s"
proof (induction rule: sys_reachable.induct)
  case (start limits sid actions)
  then show ?case by (simp add: lease_inv_def owner_def New_Daemon_def Let_def)
next
  case (step s out s')
  then show ?case using sys_step_lease by blast
qed

lemma EffectiveLimits_idem [simp]: "EffectiveLimits (EffectiveLimits l) = EffectiveLimits l"
  by (rule EffectiveLimits_id [OF EffectiveLimits_ok])

lemma sys_reachable_refines:
  assumes "sys_reachable s"
  shows "\<exists>limits cap sid cs ds. room_for_root (EffectiveLimits limits) \<and>
    dm_Engine (sy_daemon s) = run_steps engine_step (New_Engine limits cap) cs \<and>
    dm_Session (sy_daemon s) = run_steps session_step (New_Session sid limits) ds"
  using assms
proof (induction rule: sys_reachable.induct)
  case (start limits sid actions)
  let ?l = "EffectiveLimits limits"
  have "dm_Engine (New_Daemon sid limits actions) = run_steps engine_step (New_Engine ?l (MaxPendingEvents ?l)) []"
    "dm_Session (New_Daemon sid limits actions) = run_steps session_step (New_Session sid ?l) []"
    by (simp_all add: New_Daemon_def Let_def)
  moreover have "room_for_root (EffectiveLimits ?l)" using start by simp
  ultimately show ?case by (metis System.select_convs(1))
next
  case (step s out s')
  then show ?case using refines_trans [OF _ _ sys_step_refines [OF step.hyps(2)]] by blast
qed

lemma sys_reachable_inv:
  assumes "sys_reachable s"
  shows "engine_inv (dm_Engine (sy_daemon s))" "session_inv (dm_Session (sy_daemon s))"
proof -
  obtain limits cap sid cs ds where r: "room_for_root (EffectiveLimits limits)"
      "dm_Engine (sy_daemon s) = run_steps engine_step (New_Engine limits cap) cs"
      "dm_Session (sy_daemon s) = run_steps session_step (New_Session sid limits) ds"
    using sys_reachable_refines [OF assms] by blast
  show "engine_inv (dm_Engine (sy_daemon s))"
    unfolding r(2) by (rule enginem.inv_from_start) (use r(1) in \<open>auto simp: engine_start_def\<close>)
  show "session_inv (dm_Session (sy_daemon s))"
    unfolding r(3) by (rule sessionm.inv_from_start) (auto simp: session_start_def)
qed

subsection \<open>Draining\<close>

lemma Next_None_iff: "snd (Next b) = None \<longleftrightarrow> depthLocked b = 0"
proof -
  have "depthLocked b = int (length (b_critical b) + msize (b_coalesced b) + length (b_telemetry b))" by (simp add: depthLocked_def)
  then have "depthLocked b = 0 \<longleftrightarrow> b_critical b = [] \<and> msize (b_coalesced b) = 0 \<and> b_telemetry b = []"
    by (simp del: of_nat_add)
  moreover have "msize (b_coalesced b) = 0 \<longleftrightarrow> b_coalesced b = fmempty"
  proof
    assume "msize (b_coalesced b) = 0"
    then have "fset (fmdom (b_coalesced b)) = {}" by (simp add: msize_card)
    then have "fmlookup (b_coalesced b) k = None" for k by (metis empty_iff not_in_fmdom_iff)
    then show "b_coalesced b = fmempty" by (intro fmap_ext) simp
  qed simp
  ultimately show ?thesis by (simp add: Next_def Let_def case_prod_beta)
qed

lemma drain_loop_complete:
  assumes "broker_inv (en_broker e)" "nat (depthLocked (en_broker e)) < n"
  shows "\<exists>e' evs. drain_loop n e out = Some (e', out @ evs) \<and> e' = e\<lparr>en_broker := en_broker e'\<rparr> \<and>
    depthLocked (en_broker e') = 0 \<and> int (length evs) = depthLocked (en_broker e) \<and>
    evs = deliveries (en_broker e) (replicate (length evs) CNext)"
  using assms
proof (induction n arbitrary: e out)
  case (Suc n)
  let ?b = "en_broker e"
  obtain b ev where nx: "Next ?b = (b, ev)" by fastforce
  then have ne: "NextEvent e = (e\<lparr>en_broker := b\<rparr>, ev)" by (simp add: NextEvent_def)
  have dp: "depthLocked b = (if depthLocked ?b = 0 then 0 else depthLocked ?b - 1)"
    using Next_depth [OF Suc.prems(1)] nx by simp
  have nn: "0 \<le> depthLocked ?b" by (simp add: depthLocked_def)
  show ?case
  proof (cases ev)
    case None
    then have "depthLocked ?b = 0" using Next_None_iff [of ?b] nx by simp
    moreover have "b = ?b" using Next_seq [of ?b] nx None by simp
    ultimately show ?thesis using ne None by (intro exI [of _ e] exI [of _ "[]"]) simp
  next
    case (Some v)
    then have d0: "depthLocked ?b \<noteq> 0" using Next_None_iff [of ?b] nx by auto
    have "broker_inv b" using Next_inv [OF Suc.prems(1)] nx by simp
    moreover have "nat (depthLocked b) < n" using dp d0 nn Suc.prems(2) by simp
    ultimately obtain e' evs where r: "drain_loop n (e\<lparr>en_broker := b\<rparr>) (out @ [v]) = Some (e', (out @ [v]) @ evs)"
        "e' = e\<lparr>en_broker := en_broker e'\<rparr>" "depthLocked (en_broker e') = 0" "int (length evs) = depthLocked b"
        "evs = deliveries b (replicate (length evs) CNext)"
      using Suc.IH [of "e\<lparr>en_broker := b\<rparr>" "out @ [v]"] by auto
    have dv: "v # evs = deliveries ?b (replicate (length (v # evs)) CNext)"
      using r(5) nx Some by (simp add: delivered_def broker_step_def)
    have "drain_loop (Suc n) e out = Some (e', out @ v # evs)" using r(1) ne Some by simp
    moreover have "int (length (v # evs)) = depthLocked ?b" using r(4) dp d0 by simp
    ultimately show ?thesis using r(2,3) dv by blast
  qed
qed simp

text \<open>Taking as many events as there are critical ones delivers those first.\<close>

lemma drained_critical:
  "length (critical_payloads b) \<le> n \<Longrightarrow> \<exists>rest. map payload (deliveries b (replicate n CNext)) = critical_payloads b @ rest"
proof (induction n arbitrary: b)
  case 0
  then show ?case by simp
next
  case (Suc n)
  show ?case
  proof (cases "b_critical b")
    case Nil
    then show ?thesis by (simp add: critical_payloads_def)
  next
    case (Cons ev evs)
    let ?b = "fst (Next b)"
    have n: "b_critical ?b = evs" "delivered b CNext = [ev\<lparr>ev_V := Version, ev_Seq := b_nextSeq b + 1\<rparr>]"
      using Cons by (simp_all add: Next_def delivered_def Let_def case_prod_beta)
    obtain rest where "map payload (deliveries ?b (replicate n CNext)) = critical_payloads ?b @ rest"
      using Suc.IH [of ?b] Suc.prems Cons n(1) by (auto simp: critical_payloads_def)
    then show ?thesis using n Cons by (simp add: broker_step_def critical_payloads_def)
  qed
qed

subsection \<open>Properties\<close>


definition sample_system :: "unit System" where
  "sample_system = \<lparr>sy_daemon = New_Daemon ''s'' DefaultLimits None, sy_clients = (\<lambda>_. None)\<rparr>"

lemma sample_system_reachable: "sys_reachable sample_system"
  unfolding sample_system_def by (rule sys_reachable.start) (rule room_Effective)


text \<open>C3. The lease is exclusive: in every reachable state at most one connection is attached, it is the
  active connection and its client id is the owner of the lease; and the lease is never left
  behind, since whenever it is taken some connection is attached.\<close>

theorem lease_exclusive:
  assumes "sys_reachable s"
  shows "(\<forall>c cid. sy_clients s c = Some (Attached cid) \<longrightarrow>
       cid = owner (sy_daemon s) \<and> (\<forall>c' cid'. sy_clients s c' = Some (Attached cid') \<longrightarrow> c' = c)) \<and>
    (HasActiveClient (sy_daemon s) \<longleftrightarrow> (\<exists>c cid. sy_clients s c = Some (Attached cid)))"
proof -
  have i: "lease_inv s" by (rule sys_reachable_lease [OF assms])
  have "owner (sy_daemon s) = dm_active (sy_daemon s)" by (simp add: owner_def)
  moreover have "HasActiveClient (sy_daemon s)" if "sy_clients s c = Some (Attached cid)" for c cid
    using lease_invD(1,2) [OF i that] by (simp add: HasActiveClient_def)
  moreover have "\<exists>c cid. sy_clients s c = Some (Attached cid)" if "HasActiveClient (sy_daemon s)"
    using lease_inv_owned [OF i] that by (auto simp: HasActiveClient_def)
  ultimately show ?thesis using lease_invD(1) [OF i] lease_inv_only [OF i] by metis
qed

theorem lease_exclusive_witness: "\<not> HasActiveClient (sy_daemon sample_system)"
  using lease_exclusive [OF sample_system_reachable] by (simp add: sample_system_def)

text \<open>Clients are views: no step of a client connection (attaching, an interaction, a frame
  acknowledgement, a malformed or failed read, a failed write, going away) changes the document or
  the session.\<close>

lemma clients_are_views:
  "dm_Session (fst (client_handshake d conn r ok)) = dm_Session d \<and>
   en_doc (dm_Engine (fst (client_handshake d conn r ok))) = en_doc (dm_Engine d) \<and>
   dm_Session (fst (client_update d conn cid ok)) = dm_Session d \<and>
   en_doc (dm_Engine (fst (client_update d conn cid ok))) = en_doc (dm_Engine d) \<and>
   dm_Session (fst (client_serve d conn cid env status r ok)) = dm_Session d \<and>
   en_doc (dm_Engine (fst (client_serve d conn cid env status r ok))) = en_doc (dm_Engine d)"
  using client_handshake_effect [of d conn r ok] client_update_effect [of d conn cid ok]
    client_serve_effect [of d conn cid env status r ok]
  by (simp add: client_effect_document) (simp add: client_effect_def)


definition sample_env :: "u64 \<Rightarrow> Envelope" where
  "sample_env n = \<lparr>env_V = 1, env_Session = [], env_Kind = KindOperation, env_Seq = n, env_Payload = sample_record\<rparr>"

definition ready_daemon :: "unit Daemon" where
  "ready_daemon = (New_Daemon ''s'' DefaultLimits None)
     \<lparr>dm_Session := (New_Session ''s'' DefaultLimits)\<lparr>ss_state := Ready, ss_expectedMutation := 3\<rparr>\<rparr>"


text \<open>Draining delivers everything: in every reachable state \<open>DrainEvents\<close> returns, leaves no event
  pending, changes nothing else, and answers as many events as were pending, the critical ones
  first and in order, with contiguous sequence numbers.\<close>

lemma DrainEvents_complete:
  assumes "engine_inv (dm_Engine d)"
  shows "\<exists>d' evs. DrainEvents d = Ret (d', evs) \<and> Depth (en_broker (dm_Engine d')) = 0 \<and>
    int (length evs) = Depth (en_broker (dm_Engine d)) \<and>
    d' = d\<lparr>dm_Engine := (dm_Engine d)\<lparr>en_broker := en_broker (dm_Engine d')\<rparr>\<rparr> \<and>
    map ev_Seq evs = count_from (b_nextSeq (en_broker (dm_Engine d))) (length evs) \<and>
    (\<exists>rest. map payload evs = critical_payloads (en_broker (dm_Engine d)) @ rest)"
proof -
  let ?b = "en_broker (dm_Engine d)"
  have bi: "broker_inv ?b" by (rule engine_invD(4) [OF assms])
  obtain e' evs where r: "drain_loop (Suc (nat (depthLocked ?b))) (dm_Engine d) [] = Some (e', evs)"
      "e' = (dm_Engine d)\<lparr>en_broker := en_broker e'\<rparr>" "depthLocked (en_broker e') = 0" "int (length evs) = depthLocked ?b"
      "evs = deliveries ?b (replicate (length evs) CNext)"
    using drain_loop_complete [OF bi, of "Suc (nat (depthLocked ?b))" "[]"] by auto
  have sq: "map ev_Seq evs = count_from (b_nextSeq ?b) (length evs)"
    by (metis deliveries_seq r(5))
  have "int (length (b_critical ?b)) \<le> depthLocked ?b" by (simp add: depthLocked_def)
  then have "length (critical_payloads ?b) \<le> length evs" using r(4) by (simp add: critical_payloads_def)
  then have "\<exists>rest. map payload evs = critical_payloads ?b @ rest"
    using drained_critical [of ?b "length evs"] r(5) by metis
  then show ?thesis using r sq by (intro exI [of _ "d\<lparr>dm_Engine := e'\<rparr>"] exI [of _ evs])
    (simp add: DrainEvents_def Depth_def del: drain_loop.simps)
qed

text \<open>C32. Every snapshot passes the client's validation: after any calls on a new engine, as long as fewer
  than 2 to the 64 of them changed the frame, the snapshot has its root and, when publication is
  pending, a publication generation that is not zero.\<close>

theorem snapshot_valid:
  assumes "room_for_root (EffectiveLimits limits)" and "token_bumps (New_Engine limits cap) calls < 2 ^ 64"
  shows "validate_snapshot (snapshot (run_steps engine_step (New_Engine limits cap) calls)) = None"
proof -
  let ?n = "New_Engine limits cap" and ?e = "run_steps engine_step (New_Engine limits cap) calls"
  have i0: "engine_inv ?n" by (rule New_Engine_inv [OF assms(1)])
  have i: "engine_inv ?e" using enginem.inv_run [OF i0] .
  have "fmlookup (d_Nodes (en_doc ?e)) root_id \<noteq> None"
    using root_in_tree [OF consistentD(1) [OF engine_invD(5) [OF i]]] by auto
  moreover have "en_publicationGeneration ?e \<noteq> 0" if "needsPublishLocked ?e"
  proof -
    have "settled ?n" by (simp add: settled_def New_Engine_def NewState_def Let_def)
    then have "token_bumps ?n calls \<noteq> 0" using settled_run [OF i0] settled_not_pending that by blast
    moreover have "en_publicationGeneration ?e = of_nat (token_bumps ?n calls)"
      using token_run [OF i0, of calls] by (simp add: New_Engine_def Let_def)
    ultimately show ?thesis using assms(2)
      by (simp add: word_of_nat_eq_0_iff dvd_imp_le) (metis gr0I nat_dvd_not_less)
  qed
  ultimately show ?thesis by (auto simp: validate_snapshot_def invalid_message_def snapshot_def)
qed

theorem snapshot_valid_witness: "validate_snapshot (snapshot sample_engine) = None"
proof -
  have "token_bumps (New_Engine DefaultLimits 2) [EApply sample_commit] = 1" by code_simp
  then have "token_bumps (New_Engine DefaultLimits 2) [EApply sample_commit] < 2 ^ 64" by simp
  from snapshot_valid [OF room_Effective this] show ?thesis by (simp add: sample_engine_def)
qed

text \<open>A rejected operation leaves an error event for the agent, but does not signal the waiters.\<close>

lemma rejected_operation_no_wakeup:
  assumes "HandleEnvelope d env = Ret (d', r)"
  shows "dm_eventCh d' = dm_eventCh d"
  using assms
proof (cases rule: HandleEnvelope_effect)
  case (applied op err)
  show ?thesis using arg_cong [OF applied(5), of dm_eventCh] by simp
qed simp_all

end
