(* ===== verification/Runes.thy ===== *)
theory Runes
  imports GoJson
begin

text \<open>
  Strings as sequences of runes: what \<open>[]rune(s)\<close>, \<open>string(runes)\<close> and \<open>range\<close> over a string do
  in the terminal adapter. Decoding undoes encoding on valid runes, and every rune that decoding
  yields is valid.
\<close>

definition valid_rune :: "int \<Rightarrow> bool" where
  "valid_rune r \<longleftrightarrow> 0 \<le> r \<and> r \<le> 1114111 \<and> \<not> (55296 \<le> r \<and> r \<le> 57343)"

function runes :: "string \<Rightarrow> int list" where
  "runes s = (if s = [] then [] else fst (decode_rune s) # runes (drop (snd (decode_rune s)) s))"
  by pat_completeness auto
termination
  by (relation "measure length") (auto simp: decode_rune_width)

declare runes.simps [simp del]

definition of_runes :: "int list \<Rightarrow> string" where
  "of_runes rs = concat (map encode_rune rs)"

lemma runes_Nil [simp]: "runes [] = []"
  by (subst runes.simps) simp

lemma of_runes_simps [simp]:
  "of_runes [] = []" "of_runes (r # rs) = encode_rune r @ of_runes rs" "of_runes (rs @ rs') = of_runes rs @ of_runes rs'"
  by (simp_all add: of_runes_def)

lemma of_char_bounds: "0 \<le> (of_char (c :: char) :: int)" "(of_char c :: int) < 256"
  using pos_mod_bound [of 256 "of_char c :: int"] pos_mod_sign [of 256 "of_char c :: int"] by simp_all

lemma byte_at_bounds: "0 \<le> byte_at s i" "byte_at s i < 256"
  by (simp_all add: byte_at_def of_char_bounds)

text \<open>The four encodings, by the base 64 digits of the rune.\<close>

lemma base64_digits:
  fixes a b c d :: int
  assumes "0 \<le> b" "b < 64" "0 \<le> c" "c < 64" "0 \<le> d" "d < 64"
  defines "r \<equiv> ((a * 64 + b) * 64 + c) * 64 + d"
  shows "r div 64 = (a * 64 + b) * 64 + c" "r mod 64 = d" "r div 4096 = a * 64 + b" "r div 64 mod 64 = c"
    "r div 262144 = a" "r div 4096 mod 64 = b"
proof -
  have dm: "(x * 64 + y) div 64 = x" "(x * 64 + y) mod 64 = y" if "0 \<le> y" "y < 64" for x y :: int
    using that by simp_all
  have q: "r div 4096 = r div 64 div 64" "r div 262144 = r div 64 div 64 div 64" by (simp_all flip: zdiv_zmult2_eq)
  show "r div 64 = (a * 64 + b) * 64 + c" "r mod 64 = d" "r div 4096 = a * 64 + b" "r div 64 mod 64 = c"
      "r div 262144 = a" "r div 4096 mod 64 = b"
    unfolding q unfolding r_def dm [OF assms(5,6)] dm [OF assms(3,4)] dm [OF assms(1,2)] by simp_all
qed

lemma encode_one: "0 \<le> r \<Longrightarrow> r < 128 \<Longrightarrow> valid_rune r \<and> encode_rune r = [char_of r]"
  by (simp add: valid_rune_def encode_rune_def)

lemma encode_two:
  assumes "2 \<le> c" "c < 32" "0 \<le> d" "d < 64" "r = c * 64 + d"
  shows "valid_rune r \<and> encode_rune r = map char_of [192 + c, 128 + d]"
  using base64_digits [of 0 c d 0] assms by (simp add: valid_rune_def encode_rune_def)

lemma encode_three:
  assumes "0 \<le> b" "b < 16" "0 \<le> c" "c < 64" "0 \<le> d" "d < 64" "b = 0 \<longrightarrow> 32 \<le> c" "b = 13 \<longrightarrow> c < 32"
    "r = (b * 64 + c) * 64 + d"
  shows "valid_rune r \<and> encode_rune r = map char_of [224 + b, 128 + c, 128 + d]"
proof -
  have r: "2048 \<le> r" "r < 65536" "\<not> (55296 \<le> r \<and> r \<le> 57343)"
  proof -
    show "2048 \<le> r" using assms by (cases "b = 0") auto
    show "r < 65536" using assms by auto
    consider "b < 13" | "b = 13" | "13 < b" by linarith
    then show "\<not> (55296 \<le> r \<and> r \<le> 57343)" using assms by cases auto
  qed
  moreover have "r div 4096 = b" "r div 64 mod 64 = c" "r mod 64 = d"
    using base64_digits [of b c d 0] assms(1-6,9) by simp_all
  ultimately show ?thesis by (auto simp: valid_rune_def encode_rune_def)
qed

lemma encode_four:
  assumes "0 \<le> a" "a < 5" "0 \<le> b" "b < 64" "0 \<le> c" "c < 64" "0 \<le> d" "d < 64" "a = 0 \<longrightarrow> 16 \<le> b" "a = 4 \<longrightarrow> b < 16"
    "r = ((a * 64 + b) * 64 + c) * 64 + d"
  shows "valid_rune r \<and> encode_rune r = map char_of [240 + a, 128 + b, 128 + c, 128 + d]"
proof -
  have r: "65536 \<le> r" "r \<le> 1114111"
  proof -
    show "65536 \<le> r" using assms by (cases "a = 0") auto
    show "r \<le> 1114111" using assms by (cases "a = 4") auto
  qed
  moreover have "r div 262144 = a" "r div 4096 mod 64 = b" "r div 64 mod 64 = c" "r mod 64 = d"
    unfolding assms(11) by (rule base64_digits [OF assms(3-8)])+
  ultimately show ?thesis by (simp add: valid_rune_def encode_rune_def)
qed

lemma rune_digits:
  assumes v: "valid_rune r"
  obtains (one) "0 \<le> r" "r < 128"
  | (two) c d where "2 \<le> c" "c < 32" "0 \<le> d" "d < 64" "r = c * 64 + d"
  | (three) b c d where "0 \<le> b" "b < 16" "0 \<le> c" "c < 64" "0 \<le> d" "d < 64" "b = 0 \<longrightarrow> 32 \<le> c" "b = 13 \<longrightarrow> c < 32"
      "r = (b * 64 + c) * 64 + d"
  | (four) a b c d where "0 \<le> a" "a < 5" "0 \<le> b" "b < 64" "0 \<le> c" "c < 64" "0 \<le> d" "d < 64" "a = 0 \<longrightarrow> 16 \<le> b"
      "a = 4 \<longrightarrow> b < 16" "r = ((a * 64 + b) * 64 + c) * 64 + d"
proof -
  define q p where "q = r div 64" "p = r div 64 div 64"
  have v: "0 \<le> r" "r \<le> 1114111" "\<not> (55296 \<le> r \<and> r \<le> 57343)" using v by (simp_all add: valid_rune_def)
  have r: "r = q * 64 + r mod 64" "0 \<le> r mod 64" "r mod 64 < 64" by (simp_all add: q_p_def)
  have q: "q = p * 64 + q mod 64" "0 \<le> q mod 64" "q mod 64 < 64" by (simp_all add: q_p_def)
  have p: "p = p div 64 * 64 + p mod 64" "0 \<le> p mod 64" "p mod 64 < 64" by simp_all
  have e3: "r = (p * 64 + q mod 64) * 64 + r mod 64" using q(1) r(1) by metis
  have e4: "r = ((p div 64 * 64 + p mod 64) * 64 + q mod 64) * 64 + r mod 64" using e3 p(1) by metis
  consider "r < 128" | "128 \<le> r" "r < 2048" | "2048 \<le> r" "r < 65536" | "65536 \<le> r" by linarith
  then show thesis
  proof cases
    case 1
    with v show thesis by (intro one)
  next
    case 2
    with r show thesis by (intro two [of q "r mod 64"]) linarith+
  next
    case 3
    have "32 \<le> q" "q < 1024" "\<not> (864 \<le> q \<and> q \<le> 895)" using 3 r v by linarith+
    then have "0 \<le> p" "p < 16" "p = 0 \<longrightarrow> 32 \<le> q mod 64" "p = 13 \<longrightarrow> q mod 64 < 32" using q by linarith+
    then show thesis using e3 r(2,3) q(2,3) by (intro three [of p "q mod 64" "r mod 64"])
  next
    case 4
    have "1024 \<le> q" "q \<le> 17407" using 4 r v by linarith+
    then have "16 \<le> p" "p \<le> 271" using q by linarith+
    then have "0 \<le> p div 64" "p div 64 < 5" "p div 64 = 0 \<longrightarrow> 16 \<le> p mod 64" "p div 64 = 4 \<longrightarrow> p mod 64 < 16"
      using p by linarith+
    then show thesis using e4 r(2,3) q(2,3) p(2,3) by (intro four [of "p div 64" "p mod 64" "q mod 64" "r mod 64"])
  qed
qed

lemma decode_encode:
  assumes v: "valid_rune r"
  shows "decode_rune (encode_rune r @ rest) = (r, length (encode_rune r))"
proof -
  have m: "(of_char (char_of x :: char) :: int) = x" if "0 \<le> x" "x < 256" for x :: int
    using that by (simp add: of_char_of)
  note defs = decode_rune_def byte_at_def is_cont_def Let_def m
  from v show ?thesis
  proof (cases rule: rune_digits)
    case one
    with encode_one [of r] show ?thesis by (simp add: defs)
  next
    case (two c d)
    with encode_two [of c d r] show ?thesis by (simp add: defs)
  next
    case (three b c d)
    with encode_three [of b c d r] show ?thesis by (auto simp: defs)
  next
    case (four a b c d)
    with encode_four [of a b c d r] show ?thesis by (auto simp: defs)
  qed
qed

lemma first_byte:
  assumes v: "valid_rune r"
  shows "if r < 128 then byte_at (encode_rune r @ rest) 0 = r else 128 \<le> byte_at (encode_rune r @ rest) 0"
proof -
  have m: "(of_char (char_of x :: char) :: int) = x" if "0 \<le> x" "x < 256" for x :: int
    using that by (simp add: of_char_of)
  from v show ?thesis
  proof (cases rule: rune_digits)
    case one
    with encode_one [of r] show ?thesis by (simp add: byte_at_def m)
  next
    case (two c d)
    with encode_two [of c d r] show ?thesis by (simp add: byte_at_def m)
  next
    case (three b c d)
    with encode_three [of b c d r] show ?thesis by (auto simp: byte_at_def m)
  next
    case (four a b c d)
    with encode_four [of a b c d r] show ?thesis by (auto simp: byte_at_def m)
  qed
qed

lemma encode_rune_not_Nil [simp]: "encode_rune r \<noteq> []"
  by (simp add: encode_rune_def Let_def)

lemma runes_encode: "valid_rune r \<Longrightarrow> runes (encode_rune r @ rest) = r # runes rest"
  by (subst runes.simps) (simp add: decode_encode)

text \<open>Decoding inverts encoding.\<close>

lemma runes_of_runes: "list_all valid_rune rs \<Longrightarrow> runes (of_runes rs) = rs"
  by (induction rs) (simp_all add: runes_encode)

text \<open>What a decoded rune is: the replacement rune of a stray byte, or a valid rune whose encoding
  was read.\<close>

lemma take_bytes: "n \<le> length s \<Longrightarrow> take n s = map (\<lambda>i. char_of (byte_at s i)) [0..<n]"
  by (rule nth_equalityI) (auto simp: byte_at_def)

lemma byte_at_pos: "0 < byte_at s i \<Longrightarrow> i < length s"
  by (auto simp: byte_at_def split: if_splits)

lemma decode_rune_cases:
  assumes "s \<noteq> []"
  obtains (stray) "decode_rune s = (65533, 1)"
  | (rune) r where "valid_rune r" "decode_rune s = (r, length (encode_rune r))" "take (length (encode_rune r)) s = encode_rune r"
proof -
  let ?b = "byte_at s"
  have "0 \<le> ?b 0" by (rule byte_at_bounds)
  consider (one) "?b 0 < 128"
    | (two) "\<not> ?b 0 < 128" "194 \<le> ?b 0" "?b 0 \<le> 223" "is_cont (?b 1)"
    | (three) "\<not> ?b 0 < 128" "224 \<le> ?b 0" "?b 0 \<le> 239" "is_cont (?b 1)" "is_cont (?b 2)"
        "?b 0 = 224 \<longrightarrow> 160 \<le> ?b 1" "?b 0 = 237 \<longrightarrow> ?b 1 \<le> 159"
    | (four) "\<not> ?b 0 < 128" "240 \<le> ?b 0" "?b 0 \<le> 244" "is_cont (?b 1)" "is_cont (?b 2)" "is_cont (?b 3)"
        "?b 0 = 240 \<longrightarrow> 144 \<le> ?b 1" "?b 0 = 244 \<longrightarrow> ?b 1 \<le> 143"
    | (bad) "decode_rune s = (65533, 1)"
    unfolding decode_rune_def Let_def by (smt (verit))
  then show thesis
  proof cases
    case one
    have "take 1 s = [char_of (?b 0)]" using take_bytes [of 1 s] assms by (cases s) auto
    then show thesis using one byte_at_bounds [of s 0] encode_one [of "?b 0"]
      by (intro rune [of "?b 0"]) (auto simp: decode_rune_def)
  next
    case two
    let ?r = "(?b 0 - 192) * 64 + (?b 1 - 128)"
    have e: "valid_rune ?r \<and> encode_rune ?r = map char_of [?b 0, ?b 1]"
      using encode_two [of "?b 0 - 192" "?b 1 - 128" ?r] two by (simp add: is_cont_def)
    have "take 2 s = [char_of (?b 0), char_of (?b 1)]"
      using take_bytes [of 2 s] byte_at_pos [of s 1] two(4) by (auto simp: is_cont_def numeral_2_eq_2)
    then show thesis using two e by (intro rune [of ?r]) (auto simp: decode_rune_def eval_nat_numeral)
  next
    case three
    let ?r = "((?b 0 - 224) * 64 + (?b 1 - 128)) * 64 + (?b 2 - 128)"
    have e: "valid_rune ?r \<and> encode_rune ?r = map char_of [?b 0, ?b 1, ?b 2]"
      using encode_three [of "?b 0 - 224" "?b 1 - 128" "?b 2 - 128" ?r] three by (auto simp: is_cont_def)
    have "take 3 s = [char_of (?b 0), char_of (?b 1), char_of (?b 2)]"
      using take_bytes [of 3 s] byte_at_pos [of s 2] three(5) by (auto simp: is_cont_def eval_nat_numeral)
    then show thesis using three e by (intro rune [of ?r]) (auto simp: decode_rune_def eval_nat_numeral)
  next
    case four
    let ?r = "(((?b 0 - 240) * 64 + (?b 1 - 128)) * 64 + (?b 2 - 128)) * 64 + (?b 3 - 128)"
    have e: "valid_rune ?r \<and> encode_rune ?r = map char_of [?b 0, ?b 1, ?b 2, ?b 3]"
      using encode_four [of "?b 0 - 240" "?b 1 - 128" "?b 2 - 128" "?b 3 - 128" ?r] four by (auto simp: is_cont_def)
    have "take 4 s = [char_of (?b 0), char_of (?b 1), char_of (?b 2), char_of (?b 3)]"
      using take_bytes [of 4 s] byte_at_pos [of s 3] four(6) by (auto simp: is_cont_def eval_nat_numeral)
    then show thesis using four e by (intro rune [of ?r]) (auto simp: decode_rune_def eval_nat_numeral)
  next
    case bad
    then show thesis by (rule stray)
  qed
qed

lemma runes_valid: "list_all valid_rune (runes s)"
proof (induction s rule: runes.induct)
  case (1 s)
  show ?case
  proof (cases "s = []")
    case False
    then have "valid_rune (fst (decode_rune s))"
      by (cases s rule: decode_rune_cases) (auto simp: valid_rune_def)
    then show ?thesis using 1 False by (subst runes.simps) simp
  qed simp
qed

text \<open>A text without stray bytes is the encoding of its runes.\<close>

lemma runes_append: "list_all valid_rune rs \<Longrightarrow> runes (of_runes rs @ s) = rs @ runes s"
  by (induction rs) (simp_all add: runes_encode)

lemma length_runes: "length (runes s) = rune_count s"
proof (induction s rule: runes.induct)
  case (1 s)
  then show ?case by (subst runes.simps, subst rune_count.simps) simp
qed

end
