(* ===== verification/Sanitize.thy ===== *)
theory Sanitize
  imports Runes
begin

text \<open>
  The sanitizer of agent-provided text (\<open>adapter/bubbletea/sanitize.go\<close>): a byte automaton that
  drops terminal control and escape sequences. The loop over the index is a recursion on the rest
  of the text, and a step tells what it writes, its next state and how many bytes it consumed.
\<close>

subsection \<open>The automaton\<close>

datatype sanitizer_state = StateNormal | StateESC | StateCSI | StateOSC | StateOSCESC | StateString

type_synonym sanitizer_step = "string \<times> sanitizer_state \<times> int \<times> nat"

definition bidi_override :: "int \<Rightarrow> bool" where
  "bidi_override r \<longleftrightarrow> (8234 \<le> r \<and> r \<le> 8238) \<or> (8294 \<le> r \<and> r \<le> 8297)"

definition step_normal :: "int \<Rightarrow> string \<Rightarrow> sanitizer_step" where
  "step_normal seqLen s =
     (let b = byte_at s 0 in
      if b = 13 then
        (if 1 < length s \<and> byte_at s 1 = 10 then ([], StateNormal, seqLen, 1) else ([CHR 0x0A], StateNormal, seqLen, 1))
      else if b = 10 \<or> b = 9 then (take 1 s, StateNormal, seqLen, 1)
      else if b = 27 then ([], StateESC, 1, 1)
      else if b < 32 \<or> b = 127 then ([], StateNormal, seqLen, 1)
      else
        (let (r, sz) = decode_rune s in
         if r = 65533 \<and> sz = 1 then ([], StateNormal, seqLen, 1)
         else if 128 \<le> r \<and> r \<le> 159 then
           (if r = 155 then ([], StateCSI, 1, sz)
            else if r = 157 then ([], StateOSC, 1, sz)
            else if r \<in> {144, 152, 158, 159} then ([], StateString, 1, sz)
            else ([], StateNormal, seqLen, sz))
         else if bidi_override r then ([], StateNormal, seqLen, sz)
         else (take sz s, StateNormal, seqLen, sz)))"

definition step_esc :: "int \<Rightarrow> string \<Rightarrow> sanitizer_step" where
  "step_esc seqLen s =
     (let b = hd s in
      if b = CHR ''['' then ([], StateCSI, seqLen + 1, 1)
      else if b = CHR '']'' then ([], StateOSC, seqLen + 1, 1)
      else if b \<in> {CHR ''P'', CHR ''_'', CHR ''^'', CHR ''X''} then ([], StateString, seqLen + 1, 1)
      else if b = CHR 0x1B then ([], StateESC, 1, 1)
      else ([], StateNormal, seqLen + 1, 1))"

definition step_csi :: "int \<Rightarrow> string \<Rightarrow> sanitizer_step" where
  "step_csi seqLen s =
     (let b = byte_at s 0; seqLen = seqLen + 1 in
      if 64 \<le> b \<and> b \<le> 126 then ([], StateNormal, seqLen, 1)
      else if b = 27 then ([], StateESC, 1, 1)
      else if b = 10 \<or> seqLen > 128 then (if b = 10 then [CHR 0x0A] else [], StateNormal, seqLen, 1)
      else ([], StateCSI, seqLen, 1))"

definition step_string :: "sanitizer_state \<Rightarrow> int \<Rightarrow> string \<Rightarrow> sanitizer_step" where
  "step_string st seqLen s =
     (let b = byte_at s 0; seqLen = seqLen + 1 in
      if b = 7 then ([], StateNormal, seqLen, 1)
      else if b = 27 then ([], StateOSCESC, seqLen, 1)
      else if b = 10 \<or> seqLen > 2048 then (if b = 10 then [CHR 0x0A] else [], StateNormal, seqLen, 1)
      else (let (r, sz) = decode_rune s in
            if r = 156 then ([], StateNormal, seqLen, sz) else ([], st, seqLen, 1)))"

definition step_oscesc :: "int \<Rightarrow> string \<Rightarrow> sanitizer_step" where
  "step_oscesc seqLen s =
     (let b = hd s; seqLen = seqLen + 1 in
      if b = CHR 0x5C then ([], StateNormal, seqLen, 1)
      else if b = CHR ''['' then ([], StateCSI, seqLen, 1)
      else if b = CHR '']'' then ([], StateOSC, seqLen, 1)
      else if b = CHR 0x1B then ([], StateOSCESC, seqLen, 1)
      else ([], StateNormal, seqLen, 1))"

definition sanitizer_step :: "sanitizer_state \<Rightarrow> int \<Rightarrow> string \<Rightarrow> sanitizer_step" where
  "sanitizer_step st seqLen s =
     (case st of
        StateNormal \<Rightarrow> step_normal seqLen s
      | StateESC \<Rightarrow> step_esc seqLen s
      | StateCSI \<Rightarrow> step_csi seqLen s
      | StateOSC \<Rightarrow> step_string st seqLen s
      | StateString \<Rightarrow> step_string st seqLen s
      | StateOSCESC \<Rightarrow> step_oscesc seqLen s)"

lemmas sanitizer_steps = step_normal_def step_esc_def step_csi_def step_string_def step_oscesc_def

lemma sanitizer_step_consumes: "sanitizer_step st l s = (out, st', l', n) \<Longrightarrow> 0 < n"
  using decode_rune_width [of s]
  by (auto simp: sanitizer_step_def sanitizer_steps Let_def split: sanitizer_state.splits prod.splits if_splits)

function sanitize_loop :: "sanitizer_state \<Rightarrow> int \<Rightarrow> string \<Rightarrow> string" where
  "sanitize_loop st seqLen s =
     (if s = [] then []
      else (let (out, st', seqLen', n) = sanitizer_step st seqLen s in out @ sanitize_loop st' seqLen' (drop n s)))"
  by pat_completeness auto
termination
  by (relation "measure (\<lambda>(_, _, s). length s)") (auto dest!: sanitizer_step_consumes [OF sym])

declare sanitize_loop.simps [simp del]

definition SanitizeText :: "string \<Rightarrow> string" where
  "SanitizeText s = (if s = [] then [] else sanitize_loop StateNormal 0 s)"

definition SanitizeSingleLineText :: "string \<Rightarrow> string" where
  "SanitizeSingleLineText s =
     (let clean = SanitizeText s in
      if CHR 0x0A \<notin> set clean \<and> CHR 0x09 \<notin> set clean then clean
      else of_runes (map (\<lambda>r. if r = 10 \<or> r = 9 then 32 else r) (runes clean)))"

subsection \<open>What is written\<close>

text \<open>A rune that is neither a control character other than newline and tab nor a directional
  override.\<close>

definition displayable :: "int \<Rightarrow> bool" where
  "displayable r \<longleftrightarrow> valid_rune r \<and> (32 \<le> r \<or> r = 10 \<or> r = 9) \<and> r \<noteq> 127 \<and> \<not> (128 \<le> r \<and> r \<le> 159) \<and> \<not> bidi_override r"

lemma encode_ascii: "0 \<le> r \<Longrightarrow> r < 128 \<Longrightarrow> encode_rune r = [char_of r]"
  using encode_one by blast

lemma sanitizer_step_writes:
  assumes "s \<noteq> []" "sanitizer_step st l s = (out, st', l', n)"
  shows "out = [] \<or> (\<exists>r. displayable r \<and> out = encode_rune r)"
proof -
  have nl: "[CHR 0x0A] = encode_rune 10" by code_simp
  have d10: "displayable 10" "displayable 9" by (simp_all add: displayable_def valid_rune_def bidi_override_def)
  show ?thesis
  proof (cases st)
    case StateNormal
    let ?b = "byte_at s 0"
    show ?thesis
    proof (cases "?b \<in> {13, 10, 9} \<or> ?b < 32 \<or> ?b = 127")
      case True
      have "take 1 s = encode_rune ?b" if "?b = 10 \<or> ?b = 9"
        using that assms(1) encode_ascii [of ?b] take_bytes [of 1 s] by (cases s) (auto simp del: char_of_eq_iff)
      then show ?thesis using True assms(2) StateNormal nl d10
        by (auto simp: sanitizer_step_def step_normal_def Let_def split: if_splits)
    next
      case False
      from assms(1) show ?thesis
      proof (cases rule: decode_rune_cases)
        case stray
        then show ?thesis using False assms(2) StateNormal
          by (auto simp: sanitizer_step_def step_normal_def Let_def split: if_splits)
      next
        case (rune r)
        have "?b = r" if "r < 128" using that first_byte [OF rune(1), of "drop (length (encode_rune r)) s"] rune(3)
          by (metis append_take_drop_id)
        then have "displayable r" if "out \<noteq> []"
          using that False rune assms(2) StateNormal
          by (auto simp: sanitizer_step_def step_normal_def displayable_def Let_def split: if_splits)
        then show ?thesis using False rune assms(2) StateNormal
          by (auto simp: sanitizer_step_def step_normal_def Let_def split: if_splits)
      qed
    qed
  qed (use assms(2) nl d10 in \<open>auto simp: sanitizer_step_def sanitizer_steps Let_def split: if_splits prod.splits\<close>)
qed

lemma sanitize_loop_writes: "\<exists>rs. list_all displayable rs \<and> sanitize_loop st l s = of_runes rs"
proof (induction st l s rule: sanitize_loop.induct)
  case (1 st l s)
  show ?case
  proof (cases "s = []")
    case True
    then show ?thesis by (subst sanitize_loop.simps) (auto intro: exI [of _ "[]"])
  next
    case False
    obtain out st' l' n where p: "sanitizer_step st l s = (out, st', l', n)" by (metis prod_cases4)
    obtain rs where rs: "list_all displayable rs" "sanitize_loop st' l' (drop n s) = of_runes rs"
      using "1.IH" [OF False p [symmetric] refl refl refl] by blast
    from sanitizer_step_writes [OF False p] obtain rs' where "list_all displayable rs'" "out = of_runes rs'"
    proof
      assume "\<exists>r. displayable r \<and> out = encode_rune r"
      then obtain r where "displayable r" "out = encode_rune r" by blast
      then show thesis using that [of "[r]"] by simp
    qed (use that [of "[]"] in simp)
    then show ?thesis using False p rs by (subst sanitize_loop.simps) (auto intro: exI [of _ "rs' @ rs"])
  qed
qed

lemma displayable_valid: "list_all displayable rs \<Longrightarrow> list_all valid_rune rs"
  by (auto simp: list_all_iff displayable_def)

lemma SanitizeText_runes: "list_all displayable (runes (SanitizeText s)) \<and> SanitizeText s = of_runes (runes (SanitizeText s))"
proof -
  obtain rs where "list_all displayable rs" "SanitizeText s = of_runes rs"
    using sanitize_loop_writes [of StateNormal 0 s] by (cases "s = []") (auto simp: SanitizeText_def intro: that [of "[]"])
  then show ?thesis using runes_of_runes [OF displayable_valid] by simp
qed

subsection \<open>Clean text is kept\<close>

lemma sanitize_clean: "list_all displayable rs \<Longrightarrow> sanitize_loop StateNormal 0 (of_runes rs) = of_runes rs"
proof (induction rs)
  case Nil
  then show ?case by (subst sanitize_loop.simps) simp
next
  case (Cons r rs)
  let ?s = "encode_rune r @ of_runes rs"
  have d: "displayable r" "valid_rune r" using Cons.prems by (auto simp: displayable_def)
  note dec = decode_encode [OF d(2), of "of_runes rs"]
  have b: "byte_at ?s 0 = r" if "r < 128" using first_byte [OF d(2), of "of_runes rs"] that by simp
  have b': "128 \<le> byte_at ?s 0" if "\<not> r < 128" using first_byte [OF d(2), of "of_runes rs"] that by simp
  have "length (encode_rune r) = 1" if "r < 128" using that d by (simp add: valid_rune_def encode_ascii)
  moreover have "\<not> (r = 65533 \<and> length (encode_rune r) = 1)" by (simp add: encode_rune_def)
  ultimately have "sanitizer_step StateNormal 0 ?s = (encode_rune r, StateNormal, 0, length (encode_rune r))"
    using d dec b b' by (cases "r < 128") (auto simp: sanitizer_step_def step_normal_def displayable_def Let_def)
  then show ?case using Cons by (subst sanitize_loop.simps) simp
qed

lemma SanitizeText_clean: "list_all displayable rs \<Longrightarrow> SanitizeText (of_runes rs) = of_runes rs"
  by (simp add: SanitizeText_def sanitize_clean)

subsection \<open>Properties\<close>

text \<open>C22. Sanitized text is harmless and complete: whatever bytes an agent sends, the result is valid
  UTF-8 whose runes contain no control character of either range other than newline and tab, no
  delete, no escape and no directional override; and a text that already is such a sequence comes
  out unchanged, so nothing displayable is lost and sanitizing twice is sanitizing once.\<close>

theorem SanitizeText_safe:
  "list_all displayable (runes (SanitizeText s)) \<and> SanitizeText s = of_runes (runes (SanitizeText s)) \<and>
   SanitizeText (SanitizeText s) = SanitizeText s \<and>
   (list_all displayable (runes s) \<and> s = of_runes (runes s) \<longrightarrow> SanitizeText s = s)"
  using SanitizeText_runes [of s] SanitizeText_clean by metis

theorem SanitizeText_safe_witness: "SanitizeText ''a b'' = ''a b''"
proof -
  have "list_all displayable (runes ''a b'') \<and> ''a b'' = of_runes (runes ''a b'')" by code_simp
  then show ?thesis using SanitizeText_safe [of "''a b''"] by blast
qed

text \<open>A single-line text has no line break or tab either, and the fast path that returns clean
  text as it is agrees with the rewriting loop.\<close>

lemma SanitizeSingleLineText_safe:
  "SanitizeSingleLineText s = of_runes (map (\<lambda>r. if r = 10 \<or> r = 9 then 32 else r) (runes (SanitizeText s))) \<and>
   list_all (\<lambda>r. displayable r \<and> 32 \<le> r) (runes (SanitizeSingleLineText s))"
proof -
  let ?f = "\<lambda>r :: int. if r = 10 \<or> r = 9 then 32 else r"
  let ?c = "SanitizeText s"
  note S = SanitizeText_runes [of s]
  have m: "map ?f (runes ?c) = runes ?c" if n: "CHR 0x0A \<notin> set ?c \<and> CHR 0x09 \<notin> set ?c"
  proof (rule map_idI)
    fix r assume r: "r \<in> set (runes ?c)"
    then have "set (encode_rune r) \<subseteq> set (of_runes (runes ?c))" by (auto simp: of_runes_def)
    moreover have "encode_rune 10 = [CHR 0x0A]" "encode_rune 9 = [CHR 0x09]" by code_simp+
    ultimately show "?f r = r" using n S by auto
  qed
  have e: "SanitizeSingleLineText s = of_runes (map ?f (runes ?c))"
  proof (cases "CHR 0x0A \<notin> set ?c \<and> CHR 0x09 \<notin> set ?c")
    case True
    have "SanitizeSingleLineText s = ?c" using True by (simp add: SanitizeSingleLineText_def Let_def)
    also have "\<dots> = of_runes (map ?f (runes ?c))" unfolding m [OF True] using S by blast
    finally show ?thesis .
  qed (auto simp: SanitizeSingleLineText_def Let_def)
  have "displayable 32" by (simp add: displayable_def valid_rune_def bidi_override_def)
  then have f: "displayable (?f r) \<and> 32 \<le> ?f r" if "displayable r" for r
    using that by (cases "r = 10 \<or> r = 9") (simp_all add: displayable_def)
  have d: "list_all (\<lambda>r. displayable r \<and> 32 \<le> r) (map ?f (runes ?c))"
    using S [THEN conjunct1] f unfolding list_all_iff set_map by blast
  then have "list_all valid_rune (map ?f (runes ?c))"
    by (rule list.pred_mono_strong) (simp add: displayable_def)
  then have "runes (of_runes (map ?f (runes ?c))) = map ?f (runes ?c)" by (rule runes_of_runes)
  then show ?thesis unfolding e using d by (intro conjI refl) (simp only:)
qed

end
