(* ===== verification/Layout.thy ===== *)
theory Layout
  imports Prelude "HOL-Library.Signed_Division"
begin

text \<open>
  The arithmetic of \<open>src/layout\<close>: box metrics (\<open>layout.go\<close>) and the allocation of widths to the
  children of a row (\<open>flex.go\<close>). Machine integers are \<^typ>\<open>int\<close> with \<open>wrap_int\<close> at every operation
  on values that the code does not bound. The loop that shrinks wide children and the loop that
  hands out left-over cells end on every input; the loop that grows children is given fuel, and
  the absence of overflow is what makes the fuel suffice.
\<close>

subsection \<open>Boxes (layout.go)\<close>

record Box =
  bx_Padding :: int
  bx_Gap :: int
  bx_Border :: string

record Metrics =
  mt_OuterWidth :: int
  mt_OuterHeight :: int
  mt_ContentWidth :: int
  mt_ContentHeight :: int
  mt_BorderInset :: int
  mt_PaddingInset :: int

definition at_least_one :: "int \<Rightarrow> int" where
  "at_least_one x = (if x < 1 then 1 else x)"

definition ComputeBox :: "int \<Rightarrow> int \<Rightarrow> Box \<Rightarrow> Metrics" where
  "ComputeBox width height b =
     (let width = at_least_one width;
          height = at_least_one height;
          padding = (if bx_Padding b < 0 then 0 else bx_Padding b);
          border = (if bx_Border b \<noteq> ''none'' \<and> bx_Border b \<noteq> [] then 1 else 0);
          cw = wrap_int (width - 2 * border - wrap_int (2 * padding));
          ch = wrap_int (height - 2 * border - wrap_int (2 * padding)) in
      \<lparr>mt_OuterWidth = width, mt_OuterHeight = height, mt_ContentWidth = at_least_one cw,
       mt_ContentHeight = at_least_one ch, mt_BorderInset = border, mt_PaddingInset = padding\<rparr>)"

definition GapExtent :: "int \<Rightarrow> int \<Rightarrow> int" where
  "GapExtent gap children = (if gap \<le> 0 \<or> children \<le> 1 then 0 else wrap_int (gap * (children - 1)))"

definition ClampViewportHeight :: "int \<Rightarrow> int \<Rightarrow> int" where
  "ClampViewportHeight requested available =
     (let available = at_least_one available; requested = at_least_one requested in
      if requested > available then available else requested)"

subsection \<open>Rows (flex.go)\<close>

record FlexConstraint =
  fc_Grow :: int
  fc_Basis :: int
  fc_MinWidth :: int
  fc_MaxWidth :: int

definition sumInts :: "int list \<Rightarrow> int" where
  "sumInts values = fold (\<lambda>v t. wrap_int (t + v)) values 0"

definition min_width :: "FlexConstraint \<Rightarrow> int" where
  "min_width c = at_least_one (fc_MinWidth c)"

definition first_width :: "FlexConstraint \<Rightarrow> int" where
  "first_width c =
     (let minW = min_width c;
          w = (if fc_Basis c < minW then minW else fc_Basis c);
          w = (if fc_MaxWidth c > 0 \<and> w > fc_MaxWidth c then fc_MaxWidth c else w) in
      at_least_one w)"

text \<open>One pass of the shrinking loop over the remaining indices; the flag tells whether a width
  changed. A width above its minimum is at least 2, so the decrement does not wrap.\<close>

fun shrink_pass :: "int \<Rightarrow> int list \<Rightarrow> nat list \<Rightarrow> int list \<Rightarrow> bool \<Rightarrow> int list \<times> bool" where
  "shrink_pass content mins [] widths changed = (widths, changed)"
| "shrink_pass content mins (i # idx) widths changed =
     (if sumInts widths \<le> content then (widths, changed)
      else if widths ! i > mins ! i
      then shrink_pass content mins idx (widths[i := widths ! i - 1]) True
      else shrink_pass content mins idx widths changed)"

text \<open>How far the widths are above the minimums; every pass that changes something reduces it.\<close>

definition slack :: "int list \<Rightarrow> int list \<Rightarrow> nat" where
  "slack mins widths = (\<Sum>i<length widths. nat (widths ! i - mins ! i))"

lemma slack_decrement:
  assumes "i < length widths" "mins ! i < widths ! i"
  shows "Suc (slack mins (widths[i := widths ! i - 1])) = slack mins widths"
proof -
  have i: "{..<length widths} = insert i ({..<length widths} - {i})" using assms(1) by auto
  have "(\<Sum>j\<in>{..<length widths} - {i}. nat (widths[i := widths ! i - 1] ! j - mins ! j)) =
      (\<Sum>j\<in>{..<length widths} - {i}. nat (widths ! j - mins ! j))"
    by (rule sum.cong) auto
  then show ?thesis unfolding slack_def length_list_update
    by (subst (1 2) i) (use assms in \<open>simp add: sum.insert_remove\<close>)
qed

lemma shrink_pass_props:
  assumes "\<forall>i \<in> set idx. i < length widths"
  shows "length (fst (shrink_pass content mins idx widths ch)) = length widths \<and>
    slack mins (fst (shrink_pass content mins idx widths ch)) \<le> slack mins widths \<and>
    (snd (shrink_pass content mins idx widths ch) \<longrightarrow> ch \<or>
       slack mins (fst (shrink_pass content mins idx widths ch)) < slack mins widths)"
  using assms
proof (induction idx arbitrary: widths ch)
  case (Cons i idx)
  show ?case
  proof (cases "sumInts widths \<le> content \<or> \<not> mins ! i < widths ! i")
    case True
    then show ?thesis using Cons by auto
  next
    case False
    then have "Suc (slack mins (widths[i := widths ! i - 1])) = slack mins widths"
      using Cons.prems by (intro slack_decrement) auto
    then show ?thesis
      using Cons.IH [of "widths[i := widths ! i - 1]" True] Cons.prems False by (auto simp: not_less)
  qed
qed simp

lemma shrink_pass_changed:
  "(widths', True) = shrink_pass content mins [0..<length widths] widths False \<Longrightarrow> slack mins widths' < slack mins widths"
proof -
  assume e: "(widths', True) = shrink_pass content mins [0..<length widths] widths False"
  show "slack mins widths' < slack mins widths"
    using shrink_pass_props [of "[0..<length widths]" widths content mins False] unfolding e [symmetric] by simp
qed

function shrink :: "int \<Rightarrow> int list \<Rightarrow> int list \<Rightarrow> int list" where
  "shrink content mins widths =
     (if sumInts widths > content
      then (let (widths', changed) = shrink_pass content mins [0..<length widths] widths False in
            if changed then shrink content mins widths' else widths')
      else widths)"
  by pat_completeness auto
termination
  by (relation "measure (\<lambda>(_, mins, widths). slack mins widths)") (simp_all add: shrink_pass_changed)

declare shrink.simps [simp del]

text \<open>A pass of the growing loop: the children that can grow and their weights.\<close>

definition growable :: "FlexConstraint \<Rightarrow> int \<Rightarrow> bool" where
  "growable c w \<longleftrightarrow> fc_Grow c > 0 \<and> (fc_MaxWidth c \<le> 0 \<or> w < fc_MaxWidth c)"

definition active :: "FlexConstraint list \<Rightarrow> int list \<Rightarrow> nat list" where
  "active cs widths = filter (\<lambda>i. growable (cs ! i) (widths ! i)) [0..<length cs]"

definition total_grow :: "FlexConstraint list \<Rightarrow> int list \<Rightarrow> int" where
  "total_grow cs widths = sumInts (map (\<lambda>i. fc_Grow (cs ! i)) (active cs widths))"

definition share_of :: "int \<Rightarrow> int \<Rightarrow> FlexConstraint \<Rightarrow> int \<Rightarrow> int" where
  "share_of spare totalGrow c w =
     (let share = wrap_int (wrap_int (spare * fc_Grow c) sdiv totalGrow) in
      if fc_MaxWidth c > 0 \<and> wrap_int (w + share) > fc_MaxWidth c then wrap_int (fc_MaxWidth c - w) else share)"

definition grant_of :: "int \<Rightarrow> int \<Rightarrow> FlexConstraint \<Rightarrow> int \<Rightarrow> int" where
  "grant_of spare totalGrow c w = (let share = share_of spare totalGrow c w in if share > 0 then share else 0)"

definition remainder_of :: "int \<Rightarrow> int \<Rightarrow> FlexConstraint \<Rightarrow> int" where
  "remainder_of spare totalGrow c = wrap_int (spare * fc_Grow c) smod totalGrow"

definition capped :: "FlexConstraint \<Rightarrow> int \<Rightarrow> bool" where
  "capped c w \<longleftrightarrow> fc_MaxWidth c > 0 \<and> w \<ge> fc_MaxWidth c"

text \<open>The child with the largest remainder that is not capped, and its remainder.\<close>

fun best_fraction :: "FlexConstraint list \<Rightarrow> int list \<Rightarrow> int list \<Rightarrow> (nat \<times> int) list \<Rightarrow> nat option \<times> int \<Rightarrow> nat option \<times> int" where
  "best_fraction cs widths grants [] best = best"
| "best_fraction cs widths grants ((i, r) # fs) (best, bestRem) =
     (if capped (cs ! i) (wrap_int (widths ! i + grants ! i)) then best_fraction cs widths grants fs (best, bestRem)
      else if r > bestRem then best_fraction cs widths grants fs (Some i, r)
      else best_fraction cs widths grants fs (best, bestRem))"

fun spend :: "nat \<Rightarrow> (nat \<times> int) list \<Rightarrow> (nat \<times> int) list" where
  "spend b [] = []"
| "spend b ((i, r) # fs) = (if i = b then (i, -1) # fs else (i, r) # spend b fs)"

function leftovers :: "FlexConstraint list \<Rightarrow> int list \<Rightarrow> (nat \<times> int) list \<Rightarrow> int list \<Rightarrow> int \<Rightarrow> int list" where
  "leftovers cs widths fractions grants left =
     (if left > 0
      then (case fst (best_fraction cs widths grants fractions (None, -1)) of
              None \<Rightarrow> grants
            | Some b \<Rightarrow> leftovers cs widths (spend b fractions) (grants[b := wrap_int (grants ! b + 1)]) (left - 1))
      else grants)"
  by pat_completeness auto
termination
  by (relation "measure (\<lambda>(_, _, _, _, left). nat left)") auto

declare leftovers.simps [simp del]

definition pass_grants :: "FlexConstraint list \<Rightarrow> int list \<Rightarrow> int \<Rightarrow> int list" where
  "pass_grants cs widths spare =
     (let act = active cs widths;
          totalGrow = total_grow cs widths;
          grants = map (\<lambda>i. if i \<in> set act then grant_of spare totalGrow (cs ! i) (widths ! i) else 0) [0..<length cs];
          fractions = map (\<lambda>i. (i, remainder_of spare totalGrow (cs ! i))) act;
          granted = sumInts (map (\<lambda>i. grants ! i) act) in
      leftovers cs widths fractions grants (wrap_int (spare - granted)))"

text \<open>The growing loop; \<open>None\<close> when the fuel runs out.\<close>

fun grow :: "nat \<Rightarrow> FlexConstraint list \<Rightarrow> int list \<Rightarrow> int \<Rightarrow> int list option" where
  "grow fuel cs widths spare =
     (if spare > 0 then
        (if total_grow cs widths = 0 then Some widths
         else case fuel of
           0 \<Rightarrow> None
         | Suc n \<Rightarrow>
             (let grants = map (\<lambda>g. if g > 0 then g else 0) (pass_grants cs widths spare);
                  granted = sumInts grants in
              if granted = 0 then Some widths
              else grow n cs (map2 (\<lambda>w g. wrap_int (w + g)) widths grants) (wrap_int (spare - granted))))
      else Some widths)"

declare grow.simps [simp del]

definition AllocateRow :: "int \<Rightarrow> int \<Rightarrow> FlexConstraint list \<Rightarrow> (int list \<times> bool) option" where
  "AllocateRow available gap children =
     (if children = [] then Some ([], True)
      else
        (let gap = (if gap < 0 then 0 else gap);
             content = wrap_int (available - GapExtent gap (int (length children)));
             content = (if content < 0 then 0 else content);
             widths = map first_width children;
             mins = map min_width children in
         if sumInts mins > content then Some (mins, False)
         else
           (let widths = shrink content mins widths;
                spare = wrap_int (content - sumInts widths) in
            if spare \<le> 0 then Some (widths, True)
            else map_option (\<lambda>ws. (ws, True)) (grow (nat spare) children widths spare))))"

end
