(* ===== verification/Table.thy ===== *)
theory Table
  imports Sanitize Runtime Layout
begin

text \<open>
  The planner of tables (\<open>adapter/bubbletea/table_layout.go\<close>, \<open>table_metrics.go\<close> and the window
  of \<open>table_window.go\<close>): which of four presentations a table gets, the widths of its columns and
  the rows that are shown. The number of cells of a text (\<open>lipgloss.Width\<close>) is the parameter
  \<open>cells\<close>. Sums and products of column widths wrap, since the code bounds neither the widths nor
  their number; row counts and offsets are lengths of slices or clamped by them and do not.
\<close>

subsection \<open>Types and constants\<close>

datatype TablePresentationMode = TableModeFull | TableModeCompressed | TableModeMasterDetail | TableModeRecords

definition tableMinColumnWidth :: int where "tableMinColumnWidth = 3"
definition tableSelectablePrefixW :: int where "tableSelectablePrefixW = 2"
definition tableNormalSeparatorW :: int where "tableNormalSeparatorW = 3"
definition tableCompactSeparatorW :: int where "tableCompactSeparatorW = 1"
definition tablePaneSeparatorWidth :: int where "tablePaneSeparatorWidth = 3"
definition tableReadablePreferredNumerator :: int where "tableReadablePreferredNumerator = 3"
definition tableReadablePreferredDenominator :: int where "tableReadablePreferredDenominator = 4"

lemmas table_consts = tableMinColumnWidth_def tableSelectablePrefixW_def tableNormalSeparatorW_def
  tableCompactSeparatorW_def tablePaneSeparatorWidth_def tableReadablePreferredNumerator_def
  tableReadablePreferredDenominator_def

record tableColumn =
  tc_Title :: string
  tc_Width :: int

record TableLayoutInput =
  li_AvailableWidth :: int
  li_AvailableHeight :: int
  li_Columns :: "tableColumn list"
  li_RowCount :: int
  li_Selectable :: bool
  li_SelectedRow :: int
  li_RowOffset :: int
  li_Variant :: string

record TableLayoutPlan =
  lp_Mode :: TablePresentationMode
  lp_ColumnWidths :: "int list"
  lp_ReadableWidths :: "int list"
  lp_VisibleCols :: "int list"
  lp_LeftPaneWidth :: int
  lp_RightPaneWidth :: int
  lp_RowStart :: int
  lp_RowEnd :: int

text \<open>\<open>lipgloss.Width\<close>.\<close>

type_synonym cells = "string \<Rightarrow> int"

subsection \<open>Rows\<close>

definition tableVisibleRowCapacity :: "TableLayoutInput \<Rightarrow> TablePresentationMode \<Rightarrow> int" where
  "tableVisibleRowCapacity inp mode =
     (if li_RowCount inp \<le> 0 then 0
      else
        (let height = (if li_AvailableHeight inp < 1 then 1 else li_AvailableHeight inp) in
         if mode = TableModeRecords then
           (let perRecord = int (length (li_Columns inp)) + 1;
                perRecord = (if perRecord < 1 then 1 else perRecord);
                capacity = height sdiv perRecord;
                capacity = (if capacity < 1 then 1 else capacity) in
            if capacity > li_RowCount inp then li_RowCount inp else capacity)
         else
           (let chrome = (if li_Variant inp = ''dense'' then 1 else 2);
                capacity = height - chrome;
                capacity = (if capacity < 1 then 1 else capacity) in
            if capacity > li_RowCount inp then li_RowCount inp else capacity)))"

definition visibleTableRowWindow :: "int \<Rightarrow> int \<Rightarrow> int \<Rightarrow> int \<Rightarrow> int \<times> int" where
  "visibleTableRowWindow rowCount selectedRow offset capacity =
     (if rowCount \<le> 0 \<or> capacity \<le> 0 then (0, 0)
      else
        (let capacity = (if capacity > rowCount then rowCount else capacity);
             selectedRow = (if selectedRow < 0 then 0 else selectedRow);
             selectedRow = (if selectedRow \<ge> rowCount then rowCount - 1 else selectedRow);
             maxStart = rowCount - capacity;
             offset = (if offset < 0 then 0 else offset);
             offset = (if offset > maxStart then maxStart else offset);
             offset = (if selectedRow < offset then selectedRow
                       else if selectedRow \<ge> offset + capacity then selectedRow - capacity + 1
                       else offset);
             offset = (if offset > maxStart then maxStart else offset) in
         (offset, offset + capacity)))"

definition finishTablePlan :: "TableLayoutInput \<Rightarrow> TableLayoutPlan \<Rightarrow> TableLayoutPlan" where
  "finishTablePlan inp plan =
     (let capacity = tableVisibleRowCapacity inp (lp_Mode plan);
          (s, e) = visibleTableRowWindow (li_RowCount inp) (li_SelectedRow inp) (li_RowOffset inp) capacity in
      plan\<lparr>lp_RowStart := s, lp_RowEnd := e\<rparr>)"

subsection \<open>Columns\<close>

definition preferredTableWidths :: "tableColumn list \<Rightarrow> int list" where
  "preferredTableWidths cols =
     map (\<lambda>col. if tc_Width col < tableMinColumnWidth then tableMinColumnWidth else tc_Width col) cols"

definition ceilMulDiv :: "int \<Rightarrow> int \<Rightarrow> int \<Rightarrow> int" where
  "ceilMulDiv v numerator denominator =
     (if v \<le> 0 \<or> numerator \<le> 0 \<or> denominator \<le> 0 then 0
      else wrap_int (wrap_int (v * numerator) + denominator - 1) sdiv denominator)"

definition readable_floor :: "cells \<Rightarrow> tableColumn \<Rightarrow> int \<Rightarrow> int" where
  "readable_floor cells col preferred =
     (let flr = ceilMulDiv preferred tableReadablePreferredNumerator tableReadablePreferredDenominator;
          flr = (if flr < tableMinColumnWidth then tableMinColumnWidth else flr);
          observed = cells (SanitizeSingleLineText (tc_Title col));
          observed = (if observed > preferred then preferred else observed);
          flr = (if observed > flr then observed else flr) in
      if flr > preferred then preferred else flr)"

definition minimumReadableTableWidths :: "cells \<Rightarrow> tableColumn list \<Rightarrow> int list" where
  "minimumReadableTableWidths cells cols = map2 (readable_floor cells) cols (preferredTableWidths cols)"

definition tableColumnSeparatorWidth :: "string \<Rightarrow> int" where
  "tableColumnSeparatorWidth variant =
     (if variant = ''compact'' \<or> variant = ''dense'' then tableCompactSeparatorW else tableNormalSeparatorW)"

definition sumTableWidths :: "int list \<Rightarrow> int" where
  "sumTableWidths widths = fold (\<lambda>w t. wrap_int (t + w)) widths 0"

definition allColumnIndexes :: "nat \<Rightarrow> int list" where
  "allColumnIndexes n = map int [0..<n]"

subsection \<open>Panes\<close>

definition detail_line :: "cells \<Rightarrow> int list \<Rightarrow> nat \<Rightarrow> tableColumn \<Rightarrow> int" where
  "detail_line cells readable i col =
     (let valueFloor = (if i < length readable then readable ! i else tableMinColumnWidth) in
      wrap_int (cells (SanitizeSingleLineText (tc_Title col)) + 2 + valueFloor))"

definition masterDetailMinimumPaneWidths :: "cells \<Rightarrow> tableColumn list \<Rightarrow> int list \<Rightarrow> int \<times> int" where
  "masterDetailMinimumPaneWidths cells cols readable =
     (let masterMin = (if readable \<noteq> [] then wrap_int (tableSelectablePrefixW + readable ! 0)
                       else tableSelectablePrefixW + tableMinColumnWidth);
          detailMin = fold (\<lambda>(i, col) m. if detail_line cells readable i col > m then detail_line cells readable i col else m)
            (enumerate 0 cols) tableMinColumnWidth in
      (masterMin, detailMin))"

definition masterDetailEligible :: "cells \<Rightarrow> TableLayoutInput \<Rightarrow> int list \<Rightarrow> bool" where
  "masterDetailEligible cells inp readable =
     (if \<not> li_Selectable inp \<or> li_RowCount inp \<le> 0 \<or> length (li_Columns inp) < 4 \<or> length readable = 0 then False
      else (let (masterMin, detailMin) = masterDetailMinimumPaneWidths cells (li_Columns inp) readable in
            li_AvailableWidth inp \<ge> wrap_int (wrap_int (masterMin + tablePaneSeparatorWidth) + detailMin)))"

definition masterDetailPaneWidths :: "cells \<Rightarrow> TableLayoutInput \<Rightarrow> int list \<Rightarrow> int \<times> int" where
  "masterDetailPaneWidths cells inp readable =
     (let (masterMin, detailMin) = masterDetailMinimumPaneWidths cells (li_Columns inp) readable;
          left = wrap_int (li_AvailableWidth inp * 2) sdiv 5;
          left = (if left < masterMin then masterMin else left);
          maxLeft = wrap_int (wrap_int (li_AvailableWidth inp - tablePaneSeparatorWidth) - detailMin);
          left = (if left > maxLeft then maxLeft else left);
          right = wrap_int (wrap_int (li_AvailableWidth inp - tablePaneSeparatorWidth) - left) in
      (left, right))"

fun prefix_loop :: "int \<Rightarrow> int \<Rightarrow> int \<Rightarrow> int \<Rightarrow> int list \<Rightarrow> int list \<Rightarrow> int list" where
  "prefix_loop available separatorW i used visible [] = visible"
| "prefix_loop available separatorW i used visible (width # widths) =
     (let width = (if width < tableMinColumnWidth then tableMinColumnWidth else width);
          extra = (if length visible > 0 then wrap_int (width + separatorW) else width) in
      if wrap_int (used + extra) > available then visible
      else prefix_loop available separatorW (i + 1) (wrap_int (used + extra)) (visible @ [i]) widths)"

definition masterColumnPrefix :: "int list \<Rightarrow> int \<Rightarrow> int \<Rightarrow> int \<Rightarrow> int list" where
  "masterColumnPrefix widths paneWidth prefixW separatorW =
     (let available = wrap_int (paneWidth - prefixW) in
      if available < tableMinColumnWidth \<or> length widths = 0 then []
      else (let visible = prefix_loop available separatorW 0 0 [] widths in
            if length visible = 0 then visible @ [0] else visible))"

subsection \<open>Shrinking columns\<close>

definition table_floor :: "int list \<Rightarrow> nat \<Rightarrow> int" where
  "table_floor floors i = (if i < length floors \<and> floors ! i > tableMinColumnWidth then floors ! i else tableMinColumnWidth)"

definition widest_column :: "int list \<Rightarrow> int list \<Rightarrow> nat option" where
  "widest_column floors widths =
     fold (\<lambda>i widest. if widths ! i > table_floor floors i \<and>
                         (case widest of None \<Rightarrow> True | Some j \<Rightarrow> widths ! i > widths ! j) then Some i else widest)
       [0..<length widths] None"

lemma widest_fold:
  assumes "\<forall>i \<in> set idx. P i"
  shows "case fold (\<lambda>i w. if a i > f i \<and> (case w of None \<Rightarrow> True | Some j \<Rightarrow> (a i :: int) > a j) then Some i else w) idx w of
      None \<Rightarrow> w = None \<and> (\<forall>i \<in> set idx. a i \<le> f i)
    | Some j \<Rightarrow> w = Some j \<or> P j \<and> a j > f j"
  using assms
proof (induction idx arbitrary: w)
  case (Cons i idx)
  show ?case
    using Cons.IH [of "if a i > f i \<and> (case w of None \<Rightarrow> True | Some j \<Rightarrow> a i > a j) then Some i else w"] Cons.prems
    by (auto split: option.splits if_splits)
qed (simp split: option.splits)

lemma widest_column_Some: "widest_column floors widths = Some i \<Longrightarrow> i < length widths \<and> widths ! i > table_floor floors i"
  using widest_fold [where idx = "[0..<length widths]" and P = "\<lambda>i. i < length widths" and a = "(!) widths" and f = "table_floor floors" and w = None]
  unfolding widest_column_def [symmetric] by simp

lemma widest_column_None: "widest_column floors widths = None \<Longrightarrow> \<forall>i<length widths. widths ! i \<le> table_floor floors i"
  using widest_fold [where idx = "[0..<length widths]" and P = "\<lambda>i. i < length widths" and a = "(!) widths" and f = "table_floor floors" and w = None]
  unfolding widest_column_def [symmetric] by simp

text \<open>How far the widths are above their floors, which every round of the loop reduces.\<close>

definition table_slack :: "int list \<Rightarrow> int list \<Rightarrow> nat" where
  "table_slack floors widths = slack (map (table_floor floors) [0..<length widths]) widths"

lemma table_slack_decrement:
  assumes "widest_column floors widths = Some i"
  shows "Suc (table_slack floors (widths[i := widths ! i - 1])) = table_slack floors widths"
  using widest_column_Some [OF assms] unfolding table_slack_def length_list_update
  by (intro slack_decrement) auto

function shrinkTableWidthsToFloors :: "int list \<Rightarrow> int list \<Rightarrow> int \<Rightarrow> int list" where
  "shrinkTableWidthsToFloors out floors budget =
     (if sumTableWidths out > budget then
        (case widest_column floors out of
           None \<Rightarrow> out
         | Some widest \<Rightarrow> shrinkTableWidthsToFloors (out[widest := out ! widest - 1]) floors budget)
      else out)"
  by pat_completeness auto
termination
proof (relation "measure (\<lambda>(out, floors, budget). table_slack floors out)")
  fix out floors budget widest
  assume "widest_column floors out = Some widest"
  from table_slack_decrement [OF this]
  show "((out[widest := out ! widest - 1], floors, budget), out, floors, budget) \<in> measure (\<lambda>(out, floors, budget). table_slack floors out)"
    by simp
qed simp

declare shrinkTableWidthsToFloors.simps [simp del]

definition shrinkTableWidths :: "int list \<Rightarrow> int \<Rightarrow> int list" where
  "shrinkTableWidths widths budget =
     shrinkTableWidthsToFloors widths (replicate (length widths) tableMinColumnWidth) budget"

subsection \<open>The plan\<close>

definition planTableLayout :: "cells \<Rightarrow> TableLayoutInput \<Rightarrow> TableLayoutPlan" where
  "planTableLayout cells inp =
     (let cols = li_Columns inp;
          widths = preferredTableWidths cols;
          readable = minimumReadableTableWidths cells cols;
          plan = \<lparr>lp_Mode = TableModeFull, lp_ColumnWidths = widths, lp_ReadableWidths = readable,
                  lp_VisibleCols = allColumnIndexes (length cols), lp_LeftPaneWidth = 0, lp_RightPaneWidth = 0,
                  lp_RowStart = 0, lp_RowEnd = 0\<rparr> in
      if length cols = 0 \<or> li_AvailableWidth inp \<le> 0 then finishTablePlan inp plan
      else
        (let prefixW = (if li_Selectable inp then tableSelectablePrefixW else 0);
             separatorW = tableColumnSeparatorWidth (li_Variant inp);
             separatorTotal = separatorW * max (int (length cols) - 1) 0;
             preferredTotal = wrap_int (prefixW + separatorTotal + sumTableWidths widths) in
         if preferredTotal \<le> li_AvailableWidth inp then finishTablePlan inp plan
         else
           (let readableTotal = wrap_int (prefixW + separatorTotal + sumTableWidths readable) in
            if readableTotal \<le> li_AvailableWidth inp
            then finishTablePlan inp (plan\<lparr>lp_Mode := TableModeCompressed,
                   lp_ColumnWidths := shrinkTableWidthsToFloors widths readable (li_AvailableWidth inp - prefixW - separatorTotal)\<rparr>)
            else if masterDetailEligible cells inp readable
            then (let (left, right) = masterDetailPaneWidths cells inp readable in
                  finishTablePlan inp (plan\<lparr>lp_Mode := TableModeMasterDetail, lp_LeftPaneWidth := left,
                    lp_RightPaneWidth := right,
                    lp_VisibleCols := masterColumnPrefix readable left prefixW separatorW\<rparr>))
            else finishTablePlan inp (plan\<lparr>lp_Mode := TableModeRecords\<rparr>))))"

subsection \<open>Properties of a node (render\_helpers.go)\<close>

definition ui_propString :: "Node \<Rightarrow> string \<Rightarrow> string \<Rightarrow> string" where
  "ui_propString n key fallback =
     (let raw = get_raw (n_Props n) key in
      if length raw > 0 \<and> snd (unm_string raw) then SanitizeText (fst (unm_string raw)) else SanitizeText fallback)"

definition ui_propInt :: "Node \<Rightarrow> string \<Rightarrow> int \<Rightarrow> int" where
  "ui_propInt n key fallback =
     (let raw = get_raw (n_Props n) key in
      if length raw > 0 \<and> snd (unm_int raw) then fst (unm_int raw) else fallback)"

definition ui_propBool :: "Node \<Rightarrow> string \<Rightarrow> bool \<Rightarrow> bool" where
  "ui_propBool n key fallback =
     (let raw = get_raw (n_Props n) key in
      if length raw > 0 \<and> snd (unm_bool raw) then fst (unm_bool raw) else fallback)"

subsection \<open>Tables of the document (table\_window.go, table\_metrics.go)\<close>

definition struct_int :: "string list \<Rightarrow> (string \<times> bytes) list \<Rightarrow> string \<Rightarrow> int \<times> bool" where
  "struct_int fs ms name =
     foldl (\<lambda>(v, ok) (k, raw).
       if key_matches fs name k then
         (case json_decode raw of
            Some JNull \<Rightarrow> (v, ok)
          | Some (JNumber s) \<Rightarrow> (case parse_int s of Some x \<Rightarrow> (x, ok) | None \<Rightarrow> (v, False))
          | _ \<Rightarrow> (v, False))
       else (v, ok)) (0, True) ms"

definition column_fields :: "string list" where
  "column_fields = [''title'', ''width'']"

definition zero_column :: tableColumn where
  "zero_column = \<lparr>tc_Title = [], tc_Width = 0\<rparr>"

definition unm_column :: "bytes \<Rightarrow> tableColumn \<times> bool" where
  "unm_column raw =
     (case json_decode raw of
        Some JNull \<Rightarrow> (zero_column, True)
      | Some (JObject ms) \<Rightarrow>
          (let (title, ok1) = struct_string column_fields ms ''title'';
               (width, ok2) = struct_int column_fields ms ''width'' in
           (\<lparr>tc_Title = title, tc_Width = width\<rparr>, ok1 \<and> ok2))
      | _ \<Rightarrow> (zero_column, False))"

definition decodeSanitizedTable :: "Node \<Rightarrow> tableColumn list \<times> string list list" where
  "decodeSanitizedTable n =
     (let cols = fst (unm_list unm_column (get_raw (n_Props n) ''columns''));
          rows = fst (unm_matrix (get_raw (n_Props n) ''rows'')) in
      (map (\<lambda>c. c\<lparr>tc_Title := SanitizeSingleLineText (tc_Title c)\<rparr>) cols,
       map (map SanitizeSingleLineText) rows))"

definition selected_row :: "int \<Rightarrow> 'r list \<Rightarrow> int" where
  "selected_row selectedRow rows =
     (let selectedRow = (if selectedRow < 0 then 0 else selectedRow) in
      if length rows > 0 \<and> selectedRow \<ge> int (length rows) then int (length rows) - 1 else selectedRow)"

definition table_plan :: "cells \<Rightarrow> Node \<Rightarrow> TableSelection \<Rightarrow> int \<Rightarrow> int \<Rightarrow> int \<Rightarrow> TableLayoutPlan" where
  "table_plan cells n selection maxW maxH rowOffset =
     (let (cols, rows) = decodeSanitizedTable n in
      planTableLayout cells
        \<lparr>li_AvailableWidth = maxW, li_AvailableHeight = maxH, li_Columns = cols, li_RowCount = int (length rows),
         li_Selectable = ui_propBool n ''selectable'' False, li_SelectedRow = selected_row (ts_Index selection) rows,
         li_RowOffset = rowOffset, li_Variant = ui_propString n ''variant'' ''normal''\<rparr>)"

record TableViewportMetrics =
  tv_TotalRows :: int
  tv_VisibleRows :: int
  tv_MaxOffset :: int
  tv_Offset :: int

definition resolveTableViewportMetrics :: "cells \<Rightarrow> Node \<Rightarrow> TableSelection \<Rightarrow> int \<Rightarrow> int \<Rightarrow> int \<Rightarrow> TableViewportMetrics" where
  "resolveTableViewportMetrics cells n selection maxW maxH rowOffset =
     (let rows = snd (decodeSanitizedTable n);
          plan = table_plan cells n selection maxW maxH rowOffset;
          visible = lp_RowEnd plan - lp_RowStart plan;
          visible = (if visible < 0 then 0 else visible);
          maxOffset = int (length rows) - visible;
          maxOffset = (if maxOffset < 0 then 0 else maxOffset) in
      \<lparr>tv_TotalRows = int (length rows), tv_VisibleRows = visible, tv_MaxOffset = maxOffset, tv_Offset = lp_RowStart plan\<rparr>)"

text \<open>The rows handed to the presentation of \<open>renderTableWindowed\<close> and the selection among them.\<close>

definition window_rows :: "TableLayoutPlan \<Rightarrow> int \<Rightarrow> 'r list \<Rightarrow> 'r list \<times> int" where
  "window_rows plan selectedRow rows =
     (if lp_RowStart plan \<ge> 0 \<and> lp_RowEnd plan \<ge> lp_RowStart plan \<and> lp_RowEnd plan \<le> int (length rows) \<and>
         (lp_RowStart plan \<noteq> 0 \<or> lp_RowEnd plan \<noteq> int (length rows))
      then (drop (nat (lp_RowStart plan)) (take (nat (lp_RowEnd plan)) rows), selectedRow - lp_RowStart plan)
      else (rows, selectedRow))"

definition visible_table :: "cells \<Rightarrow> Node \<Rightarrow> TableSelection \<Rightarrow> int \<Rightarrow> int \<Rightarrow> int \<Rightarrow> string list list \<times> int" where
  "visible_table cells n selection maxW maxH rowOffset =
     (let rows = snd (decodeSanitizedTable n) in
      window_rows (table_plan cells n selection maxW maxH rowOffset) (selected_row (ts_Index selection) rows) rows)"

end
