(* ===== verification/Flex.thy ===== *)
theory Flex
  imports Layout
begin

text \<open>
  The allocation of row widths does what \<open>flex.go\<close> promises as long as no machine integer
  overflows: the widths fit, respect minimums and caps, and no cell is left over while a child can
  still grow. The overflow that the code does not guard against is shown on a concrete row.
\<close>

subsection \<open>Sums without overflow\<close>

lemma sumInts_fold:
  "\<forall>v \<in> set xs. 0 \<le> v \<Longrightarrow> 0 \<le> a \<Longrightarrow> a + sum_list xs < 2 ^ 63 \<Longrightarrow>
     fold (\<lambda>v t. wrap_int (t + v)) xs a = a + sum_list xs"
proof (induction xs arbitrary: a)
  case (Cons v xs)
  have "0 \<le> sum_list xs" using Cons.prems by (intro sum_list_nonneg) auto
  then have "in_int (a + v)" using Cons.prems by (auto simp: in_int_def)
  then show ?case using Cons by (simp add: algebra_simps)
qed simp

lemma sumInts_eq: "\<forall>v \<in> set xs. 0 \<le> v \<Longrightarrow> sum_list xs < 2 ^ 63 \<Longrightarrow> sumInts xs = sum_list xs"
  using sumInts_fold [of xs 0] by (simp add: sumInts_def)

lemma sum_list_nth_le: "length xs = length ys \<Longrightarrow> \<forall>i<length xs. xs ! i \<le> ys ! i \<Longrightarrow> sum_list xs \<le> sum_list (ys :: int list)"
  by (rule sum_list_mono2) auto

lemma nth_le_sum_list: "\<forall>v \<in> set xs. 0 \<le> v \<Longrightarrow> i < length xs \<Longrightarrow> xs ! i \<le> sum_list (xs :: int list)"
  by (rule member_le_sum_list) auto

lemma sum_list_update_int: "i < length xs \<Longrightarrow> sum_list (xs[i := v]) = sum_list xs + v - (xs ! i :: int)"
  by (induction xs arbitrary: i) (auto split: nat.split)

lemma sum_list_map2: "length xs = length ys \<Longrightarrow> sum_list (map2 (+) xs ys) = sum_list xs + sum_list (ys :: int list)"
  by (induction xs ys rule: list_induct2) auto

subsection \<open>Shrinking\<close>

definition shrunk :: "int list \<Rightarrow> int list \<Rightarrow> int list \<Rightarrow> bool" where
  "shrunk mins ws ws' \<longleftrightarrow> length ws' = length ws \<and> (\<forall>i<length ws. min (ws ! i) (mins ! i) \<le> ws' ! i \<and> ws' ! i \<le> ws ! i)"

lemma shrunk_refl: "shrunk mins ws ws"
  by (simp add: shrunk_def)

lemma shrunk_trans: "shrunk mins a b \<Longrightarrow> shrunk mins b c \<Longrightarrow> shrunk mins a c"
  unfolding shrunk_def by (metis min.bounded_iff min.cobounded2 min_le_iff_disj order_trans)

lemma shrunk_decrement: "mins ! i < ws ! i \<Longrightarrow> shrunk mins ws (ws[i := ws ! i - 1])"
  by (cases "i < length ws") (auto simp: shrunk_def nth_list_update)

lemma shrink_pass_shrunk: "shrunk mins ws (fst (shrink_pass content mins idx ws ch))"
proof (induction idx arbitrary: ws ch)
  case (Cons i idx)
  then show ?case using shrunk_decrement shrunk_trans shrunk_refl by (auto simp: not_le) blast
qed (simp add: shrunk_refl)

lemma shrink_pass_stuck:
  "shrink_pass content mins idx ws False = (ws', False) \<Longrightarrow>
     ws' = ws \<and> (sumInts ws \<le> content \<or> (\<forall>i \<in> set idx. ws ! i \<le> mins ! i))"
proof (induction idx)
  case (Cons i idx)
  have mono: "snd (shrink_pass content mins idx v True)" for idx v
    by (induction idx arbitrary: v) auto
  show ?case using Cons mono [of idx "ws[i := ws ! i - 1]"] by (auto split: if_splits)
qed simp

lemma shrink_result:
  "shrunk mins ws (shrink content mins ws) \<and>
     (sumInts (shrink content mins ws) \<le> content \<or> (\<forall>i<length ws. shrink content mins ws ! i \<le> mins ! i))"
proof (induction content mins ws rule: shrink.induct)
  case (1 content mins ws)
  obtain ws' ch where p: "shrink_pass content mins [0..<length ws] ws False = (ws', ch)" by fastforce
  have s: "shrunk mins ws ws'" using shrink_pass_shrunk [of mins ws content "[0..<length ws]" False] p by simp
  consider (fits) "sumInts ws \<le> content" | (again) "sumInts ws > content" "ch" | (stuck) "sumInts ws > content" "\<not> ch" by linarith
  then show ?case
  proof cases
    case fits
    have e: "shrink content mins ws = ws" by (subst shrink.simps) (use fits in \<open>simp add: not_less\<close>)
    show ?thesis unfolding e by (simp add: shrunk_refl fits)
  next
    case again
    have e: "shrink content mins ws = shrink content mins ws'" by (subst shrink.simps) (simp add: p again)
    have ih: "shrunk mins ws' (shrink content mins ws')"
      "sumInts (shrink content mins ws') \<le> content \<or> (\<forall>i<length ws'. shrink content mins ws' ! i \<le> mins ! i)"
      using "1.IH" [OF again(1) p [symmetric] refl again(2)] by blast+
    have "length ws' = length ws" using s by (simp add: shrunk_def)
    then show ?thesis unfolding e using shrunk_trans [OF s ih(1)] ih(2) by metis
  next
    case stuck
    have e: "shrink content mins ws = ws'" by (subst shrink.simps) (simp add: p stuck)
    show ?thesis using shrink_pass_stuck [of content mins "[0..<length ws]" ws ws'] p stuck s unfolding e by auto
  qed
qed

subsection \<open>Handing out left-over cells\<close>

lemma best_fraction_Some:
  "fst (best_fraction cs ws gs fs (b0, r0)) = Some b \<Longrightarrow> b0 \<noteq> Some b \<Longrightarrow>
     b \<in> fst ` set fs \<and> \<not> capped (cs ! b) (wrap_int (ws ! b + gs ! b))"
proof (induction fs arbitrary: b0 r0)
  case (Cons f fs)
  obtain i r where f: "f = (i, r)" by fastforce
  show ?case using Cons.prems Cons.IH [of b0 r0] Cons.IH [of "Some i" r]
    by (cases "i = b") (auto simp: f split: if_splits)
qed simp

lemma best_fraction_not_None: "fst (best_fraction cs ws gs fs (Some b, r0)) \<noteq> None"
proof (induction fs arbitrary: b r0)
  case (Cons f fs)
  then show ?case by (cases f) auto
qed simp

lemma best_fraction_found:
  "(i, r) \<in> set fs \<Longrightarrow> r > r0 \<Longrightarrow> \<not> capped (cs ! i) (wrap_int (ws ! i + gs ! i)) \<Longrightarrow>
     fst (best_fraction cs ws gs fs (b0, r0)) \<noteq> None"
proof (induction fs arbitrary: b0 r0)
  case (Cons f fs)
  obtain j q where f: "f = (j, q)" by fastforce
  consider (here) "f = (i, r)" | (there) "(i, r) \<in> set fs" using Cons.prems by auto
  then show ?case
  proof cases
    case here
    then show ?thesis using Cons.prems best_fraction_not_None by (simp add: f)
  next
    case there
    then show ?thesis using Cons.prems Cons.IH [OF there] best_fraction_not_None [of cs ws gs fs j q] by (simp add: f)
  qed
qed simp

lemma fst_spend [simp]: "fst ` set (spend b fs) = fst ` set fs"
  by (induction b fs rule: spend.induct) auto

text \<open>What a row may hold: nonnegative grants that respect the caps, within a bound below the
  largest integer.\<close>

definition grants_ok :: "FlexConstraint list \<Rightarrow> int list \<Rightarrow> int list \<Rightarrow> bool" where
  "grants_ok cs ws gs \<longleftrightarrow> length gs = length ws \<and> (\<forall>i<length ws. 1 \<le> ws ! i \<and> 0 \<le> gs ! i) \<and>
     (\<forall>i<length ws. fc_MaxWidth (cs ! i) > 0 \<longrightarrow> ws ! i + gs ! i \<le> fc_MaxWidth (cs ! i))"

lemma grants_ok_set: "grants_ok cs ws gs \<Longrightarrow> (\<forall>v \<in> set ws. 0 \<le> v) \<and> (\<forall>v \<in> set gs. 0 \<le> v)"
  by (fastforce simp: grants_ok_def set_conv_nth)

lemma grants_in_int:
  assumes "grants_ok cs ws gs" "sum_list ws + sum_list gs < 2 ^ 63" "i < length ws"
  shows "in_int (ws ! i + gs ! i)" "in_int (gs ! i + 1)"
proof -
  note nn = grants_ok_set [OF assms(1)]
  have "ws ! i \<le> sum_list ws" "gs ! i \<le> sum_list gs" "1 \<le> ws ! i" "0 \<le> gs ! i"
    using nn assms by (auto intro!: nth_le_sum_list simp: grants_ok_def)
  then show "in_int (ws ! i + gs ! i)" "in_int (gs ! i + 1)" using assms(2) by (auto simp: in_int_def)
qed

lemma leftovers_ok:
  assumes "grants_ok cs ws gs" "sum_list ws + sum_list gs + max 0 left < 2 ^ 63" "fst ` set fs \<subseteq> {..<length ws}"
  shows "grants_ok cs ws (leftovers cs ws fs gs left) \<and>
    sum_list gs \<le> sum_list (leftovers cs ws fs gs left) \<and>
    sum_list (leftovers cs ws fs gs left) \<le> sum_list gs + max 0 left \<and>
    (0 < left \<and> fst (best_fraction cs ws gs fs (None, -1)) \<noteq> None \<longrightarrow> sum_list gs < sum_list (leftovers cs ws fs gs left))"
  using assms
proof (induction cs ws fs gs left rule: leftovers.induct)
  case (1 cs ws fs gs left)
  show ?case
  proof (cases "0 < left \<and> fst (best_fraction cs ws gs fs (None, -1)) \<noteq> None")
    case False
    then have "leftovers cs ws fs gs left = gs" by (subst leftovers.simps) (auto split: option.split)
    then show ?thesis using "1.prems" False by auto
  next
    case True
    then obtain b where b: "fst (best_fraction cs ws gs fs (None, -1)) = Some b" and l: "0 < left" by blast
    let ?gs = "gs[b := wrap_int (gs ! b + 1)]"
    have b': "b \<in> fst ` set fs" "\<not> capped (cs ! b) (wrap_int (ws ! b + gs ! b))"
      using best_fraction_Some [OF b] by auto
    then have lt: "b < length ws" "length gs = length ws" using "1.prems" by (auto simp: grants_ok_def)
    have s0: "sum_list ws + sum_list gs < 2 ^ 63" using "1.prems"(2) by linarith
    have w: "wrap_int (gs ! b + 1) = gs ! b + 1" "wrap_int (ws ! b + gs ! b) = ws ! b + gs ! b"
      using grants_in_int [OF "1.prems"(1) s0 lt(1)] by simp_all
    have sum: "sum_list ?gs = sum_list gs + 1" using lt by (simp add: w sum_list_update_int)
    have ok: "grants_ok cs ws ?gs"
      using "1.prems"(1) b'(2) lt unfolding w capped_def by (auto simp: grants_ok_def nth_list_update)
    have e: "leftovers cs ws fs gs left = leftovers cs ws (spend b fs) ?gs (left - 1)"
      by (subst leftovers.simps) (simp add: l b)
    have "sum_list ws + sum_list ?gs + max 0 (left - 1) < 2 ^ 63" using "1.prems"(2) l unfolding sum by linarith
    from "1.IH" [OF l b ok this] show ?thesis
      using "1.prems"(3) l unfolding e sum fst_spend by auto
  qed
qed

subsection \<open>A pass of the growing loop\<close>

text \<open>A row in the growing loop, with integers small enough for its products.\<close>

definition weights :: "FlexConstraint list \<Rightarrow> int" where
  "weights cs = (\<Sum>c\<leftarrow>cs. max 0 (fc_Grow c))"

definition row_ok :: "FlexConstraint list \<Rightarrow> int list \<Rightarrow> int \<Rightarrow> bool" where
  "row_ok cs ws spare \<longleftrightarrow> length ws = length cs \<and>
     (\<forall>i<length cs. 1 \<le> ws ! i \<and> in_int (fc_MaxWidth (cs ! i)) \<and>
        (fc_MaxWidth (cs ! i) > 0 \<longrightarrow> ws ! i \<le> fc_MaxWidth (cs ! i))) \<and>
     0 \<le> spare \<and> sum_list ws + spare < 2 ^ 63 \<and> spare * weights cs < 2 ^ 63 \<and> weights cs < 2 ^ 63"

lemma active_iff: "i \<in> set (active cs ws) \<longleftrightarrow> i < length cs \<and> growable (cs ! i) (ws ! i)"
  by (auto simp: active_def)

lemma weight_active:
  "0 < fc_Grow (cs ! i) \<and> fc_Grow (cs ! i) \<le> (\<Sum>i\<leftarrow>active cs ws. fc_Grow (cs ! i))" if "i \<in> set (active cs ws)"
proof -
  have "\<forall>v \<in> set (map (\<lambda>i. fc_Grow (cs ! i)) (active cs ws)). 0 \<le> v" by (auto simp: active_iff growable_def)
  then have "fc_Grow (cs ! i) \<le> (\<Sum>i\<leftarrow>active cs ws. fc_Grow (cs ! i))"
    using that by (intro member_le_sum_list) auto
  then show ?thesis using that by (auto simp: active_iff growable_def)
qed

lemma weights_active: "(\<Sum>i\<leftarrow>active cs ws. fc_Grow (cs ! i)) \<le> weights cs"
proof -
  have "(\<Sum>i\<leftarrow>active cs ws. fc_Grow (cs ! i)) \<le> (\<Sum>i\<leftarrow>[0..<length cs]. max 0 (fc_Grow (cs ! i)))"
    unfolding active_def sum_list_map_filter' by (rule sum_list_mono) auto
  also have "\<dots> = weights cs"
    unfolding weights_def by (rule arg_cong [where f = sum_list], rule nth_equalityI) auto
  finally show ?thesis .
qed

lemma total_grow_eq: "row_ok cs ws spare \<Longrightarrow> total_grow cs ws = (\<Sum>i\<leftarrow>active cs ws. fc_Grow (cs ! i))"
  unfolding total_grow_def
  by (rule sumInts_eq) (use weights_active [of cs ws] in \<open>auto simp: row_ok_def active_iff growable_def\<close>)

lemma grant_of_eq:
  assumes g: "0 < fc_Grow c" "fc_Grow c \<le> t" and s: "0 < spare" "spare * fc_Grow c < 2 ^ 63"
    and w: "1 \<le> w" "w + spare < 2 ^ 63" "in_int (fc_MaxWidth c)" "growable c w"
  shows "0 \<le> grant_of spare t c w" "grant_of spare t c w \<le> spare * fc_Grow c div t"
    "fc_MaxWidth c > 0 \<Longrightarrow> w + grant_of spare t c w \<le> fc_MaxWidth c"
    "0 \<le> remainder_of spare t c"
proof -
  let ?q = "spare * fc_Grow c div t"
  have n: "0 \<le> spare * fc_Grow c" using g s by simp
  then have wn: "wrap_int (spare * fc_Grow c) = spare * fc_Grow c" using s by (intro wrap_int_id) (auto simp: in_int_def)
  have q0: "0 \<le> ?q" using n g by (simp add: pos_imp_zdiv_nonneg_iff)
  have "spare * fc_Grow c \<le> spare * t" using g s by (intro mult_left_mono) auto
  then have q1: "?q \<le> spare" using g zdiv_mono1 [of "spare * fc_Grow c" "spare * t" t] by simp
  have q: "wrap_int (spare * fc_Grow c) sdiv t = ?q" "wrap_int (spare * fc_Grow c) smod t = spare * fc_Grow c mod t"
    unfolding wn using n g s by (simp_all add: signed_divide_int_def signed_modulo_int_def minus_mult_div_eq_mod mult.commute)
  have wr: "wrap_int ?q = ?q" "wrap_int (w + ?q) = w + ?q" using q0 q1 w by (simp_all add: in_int_def)
  have m: "fc_MaxWidth c > 0 \<Longrightarrow> wrap_int (fc_MaxWidth c - w) = fc_MaxWidth c - w \<and> w < fc_MaxWidth c"
    using w by (auto simp: in_int_def growable_def)
  show "0 \<le> grant_of spare t c w" "grant_of spare t c w \<le> ?q"
      "fc_MaxWidth c > 0 \<Longrightarrow> w + grant_of spare t c w \<le> fc_MaxWidth c"
    using q0 m by (auto simp: grant_of_def share_of_def q wr Let_def)
  show "0 \<le> remainder_of spare t c" using g by (simp add: remainder_of_def q)
qed

lemma row_okD:
  assumes "row_ok cs ws spare" "i < length cs"
  shows "1 \<le> ws ! i" "in_int (fc_MaxWidth (cs ! i))" "fc_MaxWidth (cs ! i) > 0 \<Longrightarrow> ws ! i \<le> fc_MaxWidth (cs ! i)"
    "ws ! i + spare < 2 ^ 63"
proof -
  have "\<forall>v \<in> set ws. 0 \<le> v" using assms by (fastforce simp: row_ok_def set_conv_nth)
  then have "ws ! i \<le> sum_list ws" using assms by (intro nth_le_sum_list) (auto simp: row_ok_def)
  then show "1 \<le> ws ! i" "in_int (fc_MaxWidth (cs ! i))" "fc_MaxWidth (cs ! i) > 0 \<Longrightarrow> ws ! i \<le> fc_MaxWidth (cs ! i)"
    "ws ! i + spare < 2 ^ 63" using assms by (auto simp: row_ok_def)
qed

lemma pass_shares:
  assumes r: "row_ok cs ws spare" and s: "0 < spare"
  defines "t \<equiv> total_grow cs ws"
  defines "gs \<equiv> map (\<lambda>i. if i \<in> set (active cs ws) then grant_of spare t (cs ! i) (ws ! i) else 0) [0..<length cs]"
  shows "grants_ok cs ws gs" "sum_list gs \<le> spare" "sum_list gs = (\<Sum>i\<leftarrow>active cs ws. gs ! i)"
    "\<forall>i \<in> set (active cs ws). 0 \<le> remainder_of spare t (cs ! i)"
proof -
  have t: "t = (\<Sum>i\<leftarrow>active cs ws. fc_Grow (cs ! i))" using total_grow_eq [OF r] by (simp add: t_def)
  have g: "0 < fc_Grow (cs ! i)" "fc_Grow (cs ! i) \<le> t" "spare * fc_Grow (cs ! i) < 2 ^ 63" if "i \<in> set (active cs ws)" for i
  proof -
    show a: "0 < fc_Grow (cs ! i)" "fc_Grow (cs ! i) \<le> t" using weight_active [OF that] t by auto
    have "spare * fc_Grow (cs ! i) \<le> spare * weights cs"
      using s a(2) weights_active [of cs ws] t by (intro mult_left_mono) auto
    then show "spare * fc_Grow (cs ! i) < 2 ^ 63" using r by (simp add: row_ok_def)
  qed
  have grow: "growable (cs ! i) (ws ! i)" "i < length cs" if "i \<in> set (active cs ws)" for i using that by (auto simp: active_iff)
  note G = grant_of_eq [OF g(1,2) s g(3) row_okD(1) [OF r] row_okD(4) [OF r] row_okD(2) [OF r] grow(1)]
  have nth: "gs ! i = (if i \<in> set (active cs ws) then grant_of spare t (cs ! i) (ws ! i) else 0)" if "i < length cs" for i
    using that by (simp add: gs_def)
  have len: "length ws = length cs" using r by (simp add: row_ok_def)
  show "grants_ok cs ws gs"
    unfolding grants_ok_def len using G(1,3) row_okD(1,3) [OF r] grow(2) by (auto simp: nth) (simp add: gs_def)
  show sum: "sum_list gs = (\<Sum>i\<leftarrow>active cs ws. gs ! i)"
  proof -
    have "(\<Sum>i\<leftarrow>active cs ws. gs ! i) = (\<Sum>i\<leftarrow>[0..<length cs]. if growable (cs ! i) (ws ! i) then gs ! i else 0)"
      unfolding active_def sum_list_map_filter' ..
    also have "\<dots> = sum_list gs"
      by (rule arg_cong [where f = sum_list], rule nth_equalityI) (auto simp: gs_def active_iff)
    finally show ?thesis ..
  qed
  show "\<forall>i \<in> set (active cs ws). 0 \<le> remainder_of spare t (cs ! i)" using G(4) grow(2) by blast
  show "sum_list gs \<le> spare"
  proof (cases "active cs ws = []")
    case False
    then have tp: "0 < t" using g by (metis last_in_set less_le_trans)
    have "(\<Sum>i\<leftarrow>active cs ws. gs ! i) * t \<le> (\<Sum>i\<leftarrow>active cs ws. spare * fc_Grow (cs ! i))"
      unfolding sum_list_mult_const [symmetric]
    proof (rule sum_list_mono)
      fix i assume i: "i \<in> set (active cs ws)"
      then have "gs ! i \<le> spare * fc_Grow (cs ! i) div t" using G(2) grow(2) nth by simp
      then have "gs ! i * t \<le> spare * fc_Grow (cs ! i) div t * t" using tp by (intro mult_right_mono) auto
      also have "\<dots> \<le> spare * fc_Grow (cs ! i)" using tp by (simp add: div_mult_mod_eq [symmetric] minus_mod_eq_div_mult [symmetric])
      finally show "gs ! i * t \<le> spare * fc_Grow (cs ! i)" .
    qed
    also have "\<dots> = spare * t" by (simp add: t sum_list_const_mult)
    finally show ?thesis using tp unfolding sum by simp
  qed (use s sum in simp)
qed

lemma pass_grants_ok:
  assumes r: "row_ok cs ws spare" and s: "0 < spare" and a: "active cs ws \<noteq> []"
  shows "grants_ok cs ws (pass_grants cs ws spare) \<and> 0 < sum_list (pass_grants cs ws spare) \<and>
    sum_list (pass_grants cs ws spare) \<le> spare"
proof -
  let ?t = "total_grow cs ws"
  let ?gs = "map (\<lambda>i. if i \<in> set (active cs ws) then grant_of spare ?t (cs ! i) (ws ! i) else 0) [0..<length cs]"
  let ?fs = "map (\<lambda>i. (i, remainder_of spare ?t (cs ! i))) (active cs ws)"
  note P = pass_shares [OF r s]
  have len: "length ws = length cs" and bound: "sum_list ws + spare < 2 ^ 63" using r by (auto simp: row_ok_def)
  have nonneg: "\<forall>v \<in> set ?gs. 0 \<le> v" "\<forall>v \<in> set ws. 0 \<le> v" using grants_ok_set [OF P(1)] by blast+
  have ws0: "0 \<le> sum_list ws" using nonneg(2) by (intro sum_list_nonneg) auto
  have acts: "\<forall>i \<in> set (active cs ws). i < length cs" by (simp add: active_iff)
  have "sumInts (map ((!) ?gs) (active cs ws)) = sum_list ?gs"
    unfolding P(3) by (rule sumInts_eq) (use nonneg(1) acts P(2,3) bound ws0 in \<open>auto simp: list_all_iff\<close>)
  moreover have "in_int (spare - sum_list ?gs)"
    using P(2) s bound ws0 sum_list_nonneg [of ?gs] nonneg(1) by (auto simp: in_int_def)
  ultimately have e: "pass_grants cs ws spare = leftovers cs ws ?fs ?gs (spare - sum_list ?gs)"
    by (simp add: pass_grants_def Let_def)
  have sub: "fst ` set ?fs \<subseteq> {..<length ws}" using acts len by auto
  have "sum_list ws + sum_list ?gs + max 0 (spare - sum_list ?gs) < 2 ^ 63" using P(2) bound by simp
  note L = leftovers_ok [OF P(1) this sub]
  have "0 < sum_list (leftovers cs ws ?fs ?gs (spare - sum_list ?gs))"
  proof (cases "sum_list ?gs = 0")
    case True
    obtain i where i: "i \<in> set (active cs ws)" using a by (meson last_in_set)
    then have il: "i < length ?gs" "i < length ws" using acts len by auto
    then have "?gs ! i = 0" using True nonneg(1) sum_list_nonneg_eq_0_iff [of ?gs] by auto
    moreover have "in_int (ws ! i)" using row_okD(1,4) [OF r] i s acts by (fastforce simp: in_int_def)
    ultimately have "\<not> capped (cs ! i) (wrap_int (ws ! i + ?gs ! i))"
      using i by (auto simp: capped_def active_iff growable_def)
    moreover have "(i, remainder_of spare ?t (cs ! i)) \<in> set ?fs" using i by simp
    ultimately have "fst (best_fraction cs ws ?gs ?fs (None, -1)) \<noteq> None"
      using P(4) i by (intro best_fraction_found) auto
    then show ?thesis using L True s by auto
  next
    case False
    then show ?thesis using L sum_list_nonneg [of ?gs] nonneg(1) by fastforce
  qed
  then show ?thesis unfolding e using L P(2) by simp
qed

subsection \<open>The growing loop\<close>

definition full :: "FlexConstraint list \<Rightarrow> int list \<Rightarrow> bool" where
  "full cs ws \<longleftrightarrow> (\<forall>i<length cs. \<not> growable (cs ! i) (ws ! i))"

lemma grow_pass:
  assumes r: "row_ok cs ws spare" and pass: "0 < spare" "active cs ws \<noteq> []"
  defines "gs \<equiv> pass_grants cs ws spare"
  shows "grow (Suc n) cs ws spare = grow n cs (map2 (+) ws gs) (spare - sum_list gs)"
    "row_ok cs (map2 (+) ws gs) (spare - sum_list gs)" "sum_list (map2 (+) ws gs) = sum_list ws + sum_list gs"
    "\<And>i. i < length cs \<Longrightarrow> ws ! i \<le> map2 (+) ws gs ! i" "0 < sum_list gs"
proof -
  note P = pass_grants_ok [OF r pass, folded gs_def]
  show "0 < sum_list gs" using P by blast
  have nn: "\<forall>v \<in> set gs. 0 \<le> v" using grants_ok_set P by blast
  have len: "length gs = length ws" "length ws = length cs"
    using P r unfolding grants_ok_def row_ok_def by blast+
  have bound: "sum_list ws + spare < 2 ^ 63" using r by (simp add: row_ok_def)
  have ws0: "0 \<le> sum_list ws" using grants_ok_set P by (intro sum_list_nonneg) blast
  show sum: "sum_list (map2 (+) ws gs) = sum_list ws + sum_list gs" using len(1) by (simp add: sum_list_map2)
  have m: "map (\<lambda>g. if g > 0 then g else 0) gs = gs" using nn by (intro map_idI) force
  have sg: "sumInts gs = sum_list gs" by (rule sumInts_eq) (use nn P bound ws0 in auto)
  have add: "map2 (\<lambda>w g. wrap_int (w + g)) ws gs = map2 (+) ws gs"
    using grants_in_int(1) [of cs ws gs] P bound len by (intro nth_equalityI) (auto intro!: wrap_int_id)
  have sp: "wrap_int (spare - sum_list gs) = spare - sum_list gs"
    using P bound ws0 by (intro wrap_int_id) (auto simp: in_int_def)
  obtain i where "i \<in> set (active cs ws)" using pass(2) by (meson last_in_set)
  then have "0 < total_grow cs ws" using weight_active total_grow_eq [OF r] by fastforce
  then show "grow (Suc n) cs ws spare = grow n cs (map2 (+) ws gs) (spare - sum_list gs)"
    using pass(1) P by (subst grow.simps) (simp add: gs_def [symmetric] m sg add sp Let_def)
  have each: "1 \<le> ws ! i" "0 \<le> gs ! i" "in_int (fc_MaxWidth (cs ! i))"
      "fc_MaxWidth (cs ! i) > 0 \<Longrightarrow> ws ! i + gs ! i \<le> fc_MaxWidth (cs ! i)" "map2 (+) ws gs ! i = ws ! i + gs ! i"
    if "i < length cs" for i
    using P row_okD [OF r that] that len unfolding grants_ok_def by auto
  then show "ws ! i \<le> map2 (+) ws gs ! i" if "i < length cs" for i using that by simp
  have "0 \<le> weights cs" unfolding weights_def by (intro sum_list_nonneg) auto
  moreover have "spare - sum_list gs \<le> spare" using P by simp
  ultimately have "(spare - sum_list gs) * weights cs \<le> spare * weights cs" by (rule mult_right_mono [rotated])
  then have small: "(spare - sum_list gs) * weights cs < 2 ^ 63" using r unfolding row_ok_def by linarith
  show "row_ok cs (map2 (+) ws gs) (spare - sum_list gs)"
    unfolding row_ok_def sum using each len P bound small r [unfolded row_ok_def] by fastforce
qed

lemma grow_result:
  "row_ok cs ws spare \<Longrightarrow> nat spare \<le> fuel \<Longrightarrow>
     \<exists>ws'. grow fuel cs ws spare = Some ws' \<and> length ws' = length cs \<and>
       (\<forall>i<length cs. ws ! i \<le> ws' ! i \<and> (fc_MaxWidth (cs ! i) > 0 \<longrightarrow> ws' ! i \<le> fc_MaxWidth (cs ! i))) \<and>
       sum_list ws' \<le> sum_list ws + spare \<and> (sum_list ws' = sum_list ws + spare \<or> full cs ws')"
proof (induction fuel arbitrary: ws spare)
  case 0
  then have "spare = 0" "length ws = length cs" by (simp_all add: row_ok_def)
  then show ?case using row_okD(3) [OF "0.prems"(1)] by (subst grow.simps) auto
next
  case (Suc n)
  note r = Suc.prems(1)
  let ?gs = "pass_grants cs ws spare"
  have len: "length ws = length cs" using r by (simp add: row_ok_def)
  consider (ended) "spare = 0" | (stuck) "0 < spare" "active cs ws = []" | (pass) "0 < spare" "active cs ws \<noteq> []"
    using r by (force simp: row_ok_def)
  then show ?case
  proof cases
    case ended
    then show ?thesis using row_okD(3) [OF r] len by (subst grow.simps) auto
  next
    case stuck
    then have "full cs ws" using active_iff [of _ cs ws] by (auto simp: full_def)
    moreover have "total_grow cs ws = 0" using stuck total_grow_eq [OF r] by simp
    then have "grow (Suc n) cs ws spare = Some ws" by (subst grow.simps) simp
    ultimately show ?thesis using stuck(1) row_okD(3) [OF r] len by simp
  next
    case pass
    note G = grow_pass [OF r pass]
    have "nat (spare - sum_list ?gs) \<le> n" using Suc.prems(2) G(5) by auto
    from Suc.IH [OF G(2) this] show ?thesis
      unfolding G(1) [of n] G(3) using G(4) by (fastforce intro: order_trans)
  qed
qed

subsection \<open>Properties\<close>

text \<open>The cells for the children of a row, and when no machine integer overflows.\<close>

definition row_content :: "int \<Rightarrow> int \<Rightarrow> nat \<Rightarrow> int" where
  "row_content available gap n = max 0 (available - max 0 gap * (int n - 1))"

definition row_small :: "int \<Rightarrow> int \<Rightarrow> FlexConstraint list \<Rightarrow> bool" where
  "row_small available gap cs \<longleftrightarrow> 0 \<le> available \<and> available < 2 ^ 63 \<and> in_int (max 0 gap * (int (length cs) - 1)) \<and>
     (\<forall>c \<in> set cs. in_int (fc_MaxWidth c)) \<and> sum_list (map min_width cs) < 2 ^ 63 \<and> sum_list (map first_width cs) < 2 ^ 63 \<and>
     available * weights cs < 2 ^ 63 \<and> weights cs < 2 ^ 63"

lemma width_bounds:
  "1 \<le> min_width c" "1 \<le> first_width c" "fc_MaxWidth c > 0 \<Longrightarrow> first_width c \<le> fc_MaxWidth c"
  "fc_MaxWidth c \<le> 0 \<or> min_width c \<le> fc_MaxWidth c \<Longrightarrow> min_width c \<le> first_width c"
  by (auto simp: min_width_def first_width_def at_least_one_def Let_def)

lemma content_eq:
  assumes "row_small available gap cs" "cs \<noteq> []"
  shows "(let gap = (if gap < 0 then 0 else gap); content = wrap_int (available - GapExtent gap (int (length cs))) in
      if content < 0 then 0 else content) = row_content available gap (length cs)"
proof -
  let ?e = "max 0 gap * (int (length cs) - 1)"
  have n: "1 \<le> int (length cs)" using assms(2) by (cases cs) auto
  then have e0: "0 \<le> ?e" by (intro mult_nonneg_nonneg) auto
  have e: "?e < 2 ^ 63" using assms(1) unfolding row_small_def in_int_def by blast
  then have "GapExtent (if gap < 0 then 0 else gap) (int (length cs)) = ?e"
    using n assms(1) by (auto simp: GapExtent_def row_small_def max_def)
  moreover have "in_int (available - ?e)" using e e0 assms(1) by (auto simp: row_small_def in_int_def)
  ultimately show ?thesis by (auto simp: row_content_def Let_def)
qed

lemma AllocateRow_eq:
  assumes "row_small available gap cs" "cs \<noteq> []"
  defines "content \<equiv> row_content available gap (length cs)"
  shows "AllocateRow available gap cs =
    (if sum_list (map min_width cs) > content then Some (map min_width cs, False)
     else (let ws = shrink content (map min_width cs) (map first_width cs); spare = wrap_int (content - sumInts ws) in
           if spare \<le> 0 then Some (ws, True) else map_option (\<lambda>ws. (ws, True)) (grow (nat spare) cs ws spare)))"
proof -
  have "sumInts (map min_width cs) = sum_list (map min_width cs)"
    by (rule sumInts_eq) (use assms(1) width_bounds(1) in \<open>auto simp: row_small_def intro: order_trans [of 0 1]\<close>)
  then show ?thesis
    using assms(2) content_eq [OF assms(1,2)] by (simp add: AllocateRow_def Let_def content_def)
qed

text \<open>The widths after shrinking.\<close>

lemma shrink_first:
  assumes rs: "row_small available gap cs" and fits: "sum_list (map min_width cs) \<le> content"
  defines "ws \<equiv> shrink content (map min_width cs) (map first_width cs)"
  shows "length ws = length cs" "sumInts ws = sum_list ws" "sum_list ws \<le> content"
    "\<And>i. i < length cs \<Longrightarrow> min (first_width (cs ! i)) (min_width (cs ! i)) \<le> ws ! i \<and> ws ! i \<le> first_width (cs ! i)"
proof -
  let ?m = "map min_width cs" and ?f = "map first_width cs"
  note R = shrink_result [of ?m ?f content, folded ws_def]
  then show len: "length ws = length cs" by (simp add: shrunk_def)
  show each: "min (first_width (cs ! i)) (min_width (cs ! i)) \<le> ws ! i \<and> ws ! i \<le> first_width (cs ! i)"
    if "i < length cs" for i using R that by (auto simp: shrunk_def)
  have "1 \<le> ws ! i" if "i < length cs" for i using each [OF that] width_bounds(1,2) [of "cs ! i"] by linarith
  then have nn: "\<forall>v \<in> set ws. 0 \<le> v" using len by (fastforce simp: set_conv_nth)
  have "sum_list ws \<le> sum_list ?f" by (rule sum_list_nth_le) (use each len in auto)
  then show s: "sumInts ws = sum_list ws" using rs nn by (intro sumInts_eq) (auto simp: row_small_def)
  show "sum_list ws \<le> content"
  proof (cases "sumInts ws \<le> content")
    case False
    then have "\<forall>i<length ws. ws ! i \<le> ?m ! i" using R len by auto
    then have "sum_list ws \<le> sum_list ?m" using len by (intro sum_list_nth_le) auto
    then show ?thesis using fits by linarith
  qed (use s in simp)
qed

lemma AllocateRow_result:
  assumes rs: "row_small available gap cs" and ne: "cs \<noteq> []"
  shows "\<exists>ws fits. AllocateRow available gap cs = Some (ws, fits) \<and> length ws = length cs \<and>
    (fits \<longleftrightarrow> sum_list (map min_width cs) \<le> row_content available gap (length cs)) \<and>
    (\<not> fits \<longrightarrow> ws = map min_width cs) \<and>
    (\<forall>i<length cs. 1 \<le> ws ! i) \<and>
    (fits \<longrightarrow> sum_list ws \<le> row_content available gap (length cs) \<and>
       (\<forall>i<length cs. (fc_MaxWidth (cs ! i) > 0 \<longrightarrow> ws ! i \<le> fc_MaxWidth (cs ! i)) \<and>
          (fc_MaxWidth (cs ! i) \<le> 0 \<or> min_width (cs ! i) \<le> fc_MaxWidth (cs ! i) \<longrightarrow> min_width (cs ! i) \<le> ws ! i)) \<and>
       (sum_list ws = row_content available gap (length cs) \<or> full cs ws))"
proof (cases "sum_list (map min_width cs) \<le> row_content available gap (length cs)")
  case False
  then show ?thesis using AllocateRow_eq [OF rs ne] width_bounds(1) by auto
next
  case True
  let ?c = "row_content available gap (length cs)"
  define ws where "ws = shrink ?c (map min_width cs) (map first_width cs)"
  define spare where "spare = ?c - sum_list ws"
  note S = shrink_first [OF rs True, folded ws_def]
  have one: "1 \<le> ws ! i" "fc_MaxWidth (cs ! i) > 0 \<Longrightarrow> ws ! i \<le> fc_MaxWidth (cs ! i)"
      "fc_MaxWidth (cs ! i) \<le> 0 \<or> min_width (cs ! i) \<le> fc_MaxWidth (cs ! i) \<Longrightarrow> min_width (cs ! i) \<le> ws ! i" if "i < length cs" for i
    using S(4) [OF that] width_bounds [of "cs ! i"] by (auto simp: min_def split: if_splits)
  have nn: "\<forall>v \<in> set ws. 0 \<le> v" using one(1) S(1) by (fastforce simp: set_conv_nth)
  have c: "0 \<le> ?c" "?c \<le> available" "?c < 2 ^ 63"
  proof -
    have "0 \<le> max 0 gap * (int (length cs) - 1)" using ne by (intro mult_nonneg_nonneg) (cases cs; auto)+
    then show "0 \<le> ?c" "?c \<le> available" "?c < 2 ^ 63" using rs by (auto simp: row_content_def row_small_def)
  qed
  have sp: "0 \<le> spare" "spare \<le> ?c" "wrap_int spare = spare"
    using S(3) c sum_list_nonneg [of ws] nn by (auto simp: spare_def in_int_def intro!: wrap_int_id)
  have w0: "0 \<le> weights cs" unfolding weights_def by (intro sum_list_nonneg) auto
  have "spare * weights cs \<le> available * weights cs" using sp c w0 by (intro mult_right_mono) auto
  then have r: "row_ok cs ws spare"
    unfolding row_ok_def using rs S(1) one c sp by (auto simp: row_small_def spare_def)
  obtain ws' where g: "grow (nat spare) cs ws spare = Some ws'" "length ws' = length cs"
      "\<forall>i<length cs. ws ! i \<le> ws' ! i \<and> (fc_MaxWidth (cs ! i) > 0 \<longrightarrow> ws' ! i \<le> fc_MaxWidth (cs ! i))"
      "sum_list ws' \<le> ?c" "sum_list ws' = ?c \<or> full cs ws'"
    using grow_result [OF r order_refl] by (auto simp: spare_def)
  let ?r = "if spare \<le> 0 then ws else ws'"
  have a: "AllocateRow available gap cs = Some (?r, True)"
    unfolding AllocateRow_eq [OF rs ne] Let_def ws_def [symmetric] S(2) spare_def [symmetric] using True sp g(1) by simp
  have ge: "ws ! i \<le> ?r ! i" if "i < length cs" for i using g(3) that by simp
  have each: "1 \<le> ?r ! i" "fc_MaxWidth (cs ! i) > 0 \<Longrightarrow> ?r ! i \<le> fc_MaxWidth (cs ! i)"
      "fc_MaxWidth (cs ! i) \<le> 0 \<or> min_width (cs ! i) \<le> fc_MaxWidth (cs ! i) \<Longrightarrow> min_width (cs ! i) \<le> ?r ! i" if "i < length cs" for i
    using order_trans [OF one(1) ge] order_trans [OF one(3) ge] one(2) g(3) that by (auto split: if_splits)
  have "length ?r = length cs" "sum_list ?r \<le> ?c" "sum_list ?r = ?c \<or> full cs ?r"
    using S(1,3) g(2,4,5) sp(1) by (auto simp: spare_def)
  with True each show ?thesis unfolding a by (intro exI [of _ ?r] exI [of _ True]) simp
qed

text \<open>C21. A row is allocated within its cells: as long as no integer overflows, \<open>AllocateRow\<close> returns,
  says that the children fit exactly when their minimum widths do, and then gives every child at
  least one cell, at least its minimum unless its cap is lower, and at most its cap, never more
  cells in all than there are, and leaves cells over only when no child can grow any more. When the
  minimums do not fit it answers the minimums.\<close>

theorem AllocateRow_fits:
  assumes rs: "row_small available gap cs" and ne: "cs \<noteq> []"
  shows "\<exists>ws fits. AllocateRow available gap cs = Some (ws, fits) \<and> length ws = length cs \<and>
    (fits \<longleftrightarrow> sum_list (map min_width cs) \<le> row_content available gap (length cs)) \<and>
    (\<not> fits \<longrightarrow> ws = map min_width cs) \<and>
    (\<forall>i<length cs. 1 \<le> ws ! i) \<and>
    (fits \<longrightarrow> sum_list ws \<le> row_content available gap (length cs) \<and>
       (\<forall>i<length cs. (fc_MaxWidth (cs ! i) > 0 \<longrightarrow> ws ! i \<le> fc_MaxWidth (cs ! i)) \<and>
          (fc_MaxWidth (cs ! i) \<le> 0 \<or> min_width (cs ! i) \<le> fc_MaxWidth (cs ! i) \<longrightarrow> min_width (cs ! i) \<le> ws ! i)) \<and>
       (sum_list ws = row_content available gap (length cs) \<or> full cs ws))"
  by (rule AllocateRow_result [OF assms])

definition flex :: "int \<Rightarrow> int \<Rightarrow> int \<Rightarrow> int \<Rightarrow> FlexConstraint" where
  "flex g b mn mx = \<lparr>fc_Grow = g, fc_Basis = b, fc_MinWidth = mn, fc_MaxWidth = mx\<rparr>"

theorem AllocateRow_fits_witness:
  "\<exists>ws. AllocateRow 20 0 [flex 1 2 0 4, flex 1 2 0 0] = Some (ws, True) \<and> sum_list ws \<le> 20"
proof -
  let ?cs = "[flex 1 2 0 4, flex 1 2 0 0]"
  have s: "row_small 20 0 ?cs"
    by (simp add: row_small_def flex_def in_int_def weights_def min_width_def first_width_def at_least_one_def Let_def)
  have c: "row_content 20 0 (length ?cs) = 20" by (simp add: row_content_def)
  have "sum_list (map min_width ?cs) = 2" by (simp add: flex_def min_width_def at_least_one_def)
  then show ?thesis using AllocateRow_fits [OF s] unfolding c by auto
qed

text \<open>The weights of the children come from the agent and are not bounded. Three weights whose sum
  wraps to one make two children of a ten-cell row wider than any terminal.\<close>

lemma AllocateRow_overflow:
  "AllocateRow 10 0 [flex (2 ^ 63 - 1) 0 0 0, flex (2 ^ 63 - 1) 0 0 0, flex 3 0 0 0] =
     Some ([9223372036854775802, 9223372036854775802, 22], True)"
  by code_simp

text \<open>The content of a box is never empty and never wider than the box: the metrics have at least
  one cell in each direction whatever the arguments, and for paddings that do not overflow the
  content with its border and padding fills the box exactly unless the box is too small.\<close>

lemma ComputeBox_content:
  "1 \<le> mt_ContentWidth (ComputeBox w h b) \<and> 1 \<le> mt_ContentHeight (ComputeBox w h b) \<and>
   (0 \<le> w \<and> w < 2 ^ 63 \<and> bx_Padding b < 2 ^ 61 \<longrightarrow>
      mt_ContentWidth (ComputeBox w h b) =
        max 1 (max 1 w - 2 * mt_BorderInset (ComputeBox w h b) - 2 * mt_PaddingInset (ComputeBox w h b)) \<and>
      mt_ContentWidth (ComputeBox w h b) \<le> mt_OuterWidth (ComputeBox w h b))"
  by (auto simp: ComputeBox_def at_least_one_def Let_def in_int_def)

end
