(* ===== verification/Planner.thy ===== *)
theory Planner
  imports Table Flex
begin

text \<open>
  Correctness of the table planner: the window of rows shows the selection and moves as little as
  it can, the columns of every presentation fit the width they are given, and what a table shows
  depends on its shape only.
\<close>

subsection \<open>The window of rows\<close>

definition clamp_to :: "int \<Rightarrow> int \<Rightarrow> int" where
  "clamp_to hi x = max 0 (min x hi)"

lemma visibleTableRowWindow_eq:
  fixes selected offset :: int
  assumes "0 < rows" "0 < capacity"
  defines "c \<equiv> min capacity rows" and "sel \<equiv> clamp_to (rows - 1) selected"
  defines "off \<equiv> clamp_to (rows - c) offset"
  shows "visibleTableRowWindow rows selected offset capacity =
    (let a = (if sel < off then sel else if sel \<ge> off + c then sel - c + 1 else off) in (a, a + c))"
  using assms unfolding visibleTableRowWindow_def clamp_to_def Let_def
  by (simp add: max_def min_def split: if_splits)

lemma visibleTableRowWindow_stable:
  assumes "visibleTableRowWindow rows selected offset capacity = (a, b)"
  shows "visibleTableRowWindow rows selected a capacity = (a, b)"
proof (cases "rows \<le> 0 \<or> capacity \<le> 0")
  case True
  then show ?thesis using assms by (simp add: visibleTableRowWindow_def)
next
  case False
  then show ?thesis using assms
    by (simp add: visibleTableRowWindow_eq clamp_to_def Let_def max_def min_def split: if_splits)
qed

lemma visibleTableRowWindow_bounds:
  assumes "visibleTableRowWindow rows selected offset capacity = (a, b)" "0 < rows" "0 < capacity"
  shows "0 \<le> a" "b \<le> rows" "b - a = min capacity rows" "a \<le> clamp_to (rows - 1) selected" "clamp_to (rows - 1) selected < b"
  using assms by (simp_all add: visibleTableRowWindow_eq clamp_to_def Let_def max_def min_def split: if_splits)

lemma capacity_bounds:
  assumes "0 < li_RowCount inp"
  shows "0 < tableVisibleRowCapacity inp mode" "tableVisibleRowCapacity inp mode \<le> li_RowCount inp"
  using assms by (auto simp: tableVisibleRowCapacity_def Let_def)

subsection \<open>Shrinking columns\<close>

lemma sumTableWidths_eq: "\<forall>v \<in> set xs. 0 \<le> v \<Longrightarrow> sum_list xs < 2 ^ 63 \<Longrightarrow> sumTableWidths xs = sum_list xs"
  using sumInts_eq [of xs] by (simp add: sumTableWidths_def sumInts_def)

definition between :: "int list \<Rightarrow> int list \<Rightarrow> int list \<Rightarrow> bool" where
  "between lo xs hi \<longleftrightarrow> length xs = length lo \<and> length hi = length lo \<and> (\<forall>i<length lo. lo ! i \<le> xs ! i \<and> xs ! i \<le> hi ! i)"

lemma betweenD: "between lo xs hi \<Longrightarrow> sum_list lo \<le> sum_list xs \<and> sum_list xs \<le> sum_list hi"
  unfolding between_def by (metis sum_list_nth_le)

lemma shrinkTableWidthsToFloors_spec:
  assumes "between floors ws ws" "\<forall>i<length floors. 3 \<le> floors ! i" "sum_list ws < 2 ^ 63" "sum_list floors \<le> budget"
  shows "between floors (shrinkTableWidthsToFloors ws floors budget) ws \<and>
    sum_list (shrinkTableWidthsToFloors ws floors budget) = min (sum_list ws) budget"
  using assms
proof (induction ws floors budget rule: shrinkTableWidthsToFloors.induct)
  case (1 ws floors budget)
  have len: "length ws = length floors" using 1(2) by (simp add: between_def)
  have nn: "\<forall>v \<in> set ws. 0 \<le> v" using 1(2,3) by (fastforce simp: between_def set_conv_nth)
  then have s: "sumTableWidths ws = sum_list ws" using 1(4) by (rule sumTableWidths_eq)
  have f: "table_floor floors i = floors ! i" if "i < length floors" for i
    using 1(3) that by (auto simp: table_floor_def table_consts not_less order.antisym)
  consider (fits) "sum_list ws \<le> budget" | (stuck) "budget < sum_list ws" "widest_column floors ws = None"
    | (widest) i where "budget < sum_list ws" "widest_column floors ws = Some i" by fastforce
  then show ?case
  proof cases
    case fits
    then show ?thesis using 1(2) s by (subst (1 2) shrinkTableWidthsToFloors.simps) (simp add: between_def)
  next
    case stuck
    then have "sum_list ws \<le> sum_list floors"
      using widest_column_None [OF stuck(2)] f len by (intro sum_list_nth_le) auto
    then show ?thesis using stuck 1(5) by simp
  next
    case (widest i)
    let ?ws = "ws[i := ws ! i - 1]"
    note i = widest_column_Some [OF widest(2)]
    have sum: "sum_list ?ws = sum_list ws - 1" using i by (simp add: sum_list_update_int)
    have b: "between floors ?ws ?ws" "between floors ?ws ws"
      using 1(2) i f len by (auto simp: between_def nth_list_update)
    have eq: "shrinkTableWidthsToFloors ws floors budget = shrinkTableWidthsToFloors ?ws floors budget"
      using widest s by (subst shrinkTableWidthsToFloors.simps) simp
    have IH: "between floors (shrinkTableWidthsToFloors ?ws floors budget) ?ws \<and>
        sum_list (shrinkTableWidthsToFloors ?ws floors budget) = min (sum_list ?ws) budget"
      using "1.IH" [of i] widest s b 1(3,4,5) sum by simp
    moreover have "between floors (shrinkTableWidthsToFloors ?ws floors budget) ws"
      using IH b(2) unfolding between_def by (metis order_trans)
    moreover have "min (sum_list ?ws) budget = min (sum_list ws) budget" using sum widest(1) by simp
    ultimately show ?thesis unfolding eq by simp
  qed
qed

subsection \<open>Readable widths\<close>

lemma length_widths [simp]:
  "length (preferredTableWidths cols) = length cols" "length (minimumReadableTableWidths cells cols) = length cols"
  by (simp_all add: preferredTableWidths_def minimumReadableTableWidths_def)

lemma preferred_ge: "i < length cols \<Longrightarrow> 3 \<le> preferredTableWidths cols ! i"
  by (simp add: preferredTableWidths_def table_consts)

lemma readable_floor_bounds:
  assumes "3 \<le> p" "p < 2 ^ 60"
  shows "3 \<le> readable_floor cells col p" "readable_floor cells col p \<le> p" "3 * p \<le> 4 * readable_floor cells col p"
    "min p (cells (SanitizeSingleLineText (tc_Title col))) \<le> readable_floor cells col p"
proof -
  have "in_int (p * 3)" "in_int (p * 3 + 4 - 1)" using assms by (auto simp: in_int_def)
  then have "ceilMulDiv p 3 4 = (p * 3 + 3) div 4"
    using assms by (simp add: ceilMulDiv_def signed_divide_int_def)
  moreover have "3 * p \<le> 4 * ((p * 3 + 3) div 4)" "(p * 3 + 3) div 4 \<le> p" using assms by linarith+
  ultimately show "3 \<le> readable_floor cells col p" "readable_floor cells col p \<le> p" "3 * p \<le> 4 * readable_floor cells col p"
    "min p (cells (SanitizeSingleLineText (tc_Title col))) \<le> readable_floor cells col p"
    using assms by (auto simp: readable_floor_def table_consts Let_def)
qed

text \<open>The sizes for which no machine integer overflows: far beyond any terminal, but the widths come
  from the agent and are not checked.\<close>

definition table_small :: "cells \<Rightarrow> TableLayoutInput \<Rightarrow> bool" where
  "table_small cells inp \<longleftrightarrow> 0 < li_AvailableWidth inp \<and> li_AvailableWidth inp < 2 ^ 60 \<and>
     li_Columns inp \<noteq> [] \<and> int (length (li_Columns inp)) < 2 ^ 60 \<and>
     sum_list (preferredTableWidths (li_Columns inp)) < 2 ^ 60 \<and>
     (\<forall>col \<in> set (li_Columns inp). 0 \<le> cells (SanitizeSingleLineText (tc_Title col)) \<and>
        cells (SanitizeSingleLineText (tc_Title col)) < 2 ^ 60)"

lemma preferred_small:
  assumes "sum_list (preferredTableWidths cols) < 2 ^ 60" "i < length cols"
  shows "preferredTableWidths cols ! i < 2 ^ 60"
proof -
  have "\<forall>v \<in> set (preferredTableWidths cols). 0 \<le> v" by (auto simp: preferredTableWidths_def table_consts)
  from nth_le_sum_list [OF this, of i] show ?thesis using assms by simp
qed

lemma readable_between:
  assumes "sum_list (preferredTableWidths cols) < 2 ^ 60"
  shows "between (minimumReadableTableWidths cells cols) (preferredTableWidths cols) (preferredTableWidths cols)"
    "\<forall>i<length cols. 3 \<le> minimumReadableTableWidths cells cols ! i"
  using readable_floor_bounds [OF preferred_ge preferred_small [OF assms]]
  by (auto simp: between_def minimumReadableTableWidths_def)

lemma plan_sums:
  assumes "table_small cells inp"
  defines "cols \<equiv> li_Columns inp"
  shows "sumTableWidths (preferredTableWidths cols) = sum_list (preferredTableWidths cols)"
    "sumTableWidths (minimumReadableTableWidths cells cols) = sum_list (minimumReadableTableWidths cells cols)"
    "0 \<le> sum_list (minimumReadableTableWidths cells cols)"
    "sum_list (minimumReadableTableWidths cells cols) \<le> sum_list (preferredTableWidths cols)"
    "sum_list (preferredTableWidths cols) < 2 ^ 60"
proof -
  have s: "sum_list (preferredTableWidths cols) < 2 ^ 60" using assms by (simp add: table_small_def)
  note r = readable_between [OF s, of cells]
  have nn: "\<forall>v \<in> set (preferredTableWidths cols). 0 \<le> v" "\<forall>v \<in> set (minimumReadableTableWidths cells cols). 0 \<le> v"
    using r(2) by (auto simp: preferredTableWidths_def table_consts set_conv_nth)
  show le: "sum_list (minimumReadableTableWidths cells cols) \<le> sum_list (preferredTableWidths cols)"
    using betweenD [OF r(1)] by simp
  show "sumTableWidths (preferredTableWidths cols) = sum_list (preferredTableWidths cols)"
    "sumTableWidths (minimumReadableTableWidths cells cols) = sum_list (minimumReadableTableWidths cells cols)"
    using nn le s by (auto intro!: sumTableWidths_eq)
  show "0 \<le> sum_list (minimumReadableTableWidths cells cols)" using nn(2) by (intro sum_list_nonneg) auto
qed (use assms in \<open>simp add: table_small_def\<close>)

subsection \<open>Panes\<close>

lemma fold_max:
  "fold (\<lambda>(i, x) m. if f i x > m then f i x else m) xs (m :: int) \<ge> m \<and>
   (\<forall>(i, x) \<in> set xs. f i x \<le> fold (\<lambda>(i, x) m. if f i x > m then f i x else m) xs m) \<and>
   (fold (\<lambda>(i, x) m. if f i x > m then f i x else m) xs m = m \<or>
      (\<exists>(i, x) \<in> set xs. fold (\<lambda>(i, x) m. if f i x > m then f i x else m) xs m = f i x))"
proof (induction xs arbitrary: m)
  case (Cons p xs)
  obtain i x where p: "p = (i, x)" by fastforce
  show ?case using Cons.IH [of "if f i x > m then f i x else m"] unfolding p by (auto split: if_splits)
qed simp

text \<open>What the detail pane needs: the longest line of a title, a separator and a readable value.\<close>

lemma minimum_panes:
  assumes ts: "table_small cells inp"
  defines "cols \<equiv> li_Columns inp"
  defines "readable \<equiv> minimumReadableTableWidths cells cols"
  obtains d where "masterDetailMinimumPaneWidths cells cols readable = (2 + readable ! 0, d)"
    "5 \<le> 2 + readable ! 0" "readable ! 0 < 2 ^ 60" "3 \<le> d" "d < 2 ^ 62"
    "\<forall>i<length cols. cells (SanitizeSingleLineText (tc_Title (cols ! i))) + 2 + readable ! i \<le> d"
proof -
  have s: "sum_list (preferredTableWidths cols) < 2 ^ 60" using ts by (simp add: table_small_def cols_def)
  note r = readable_between [OF s, of cells, folded readable_def]
  have len: "length readable = length cols" by (simp add: readable_def)
  have ne: "0 < length cols" using ts by (simp add: table_small_def cols_def)
  have rb: "3 \<le> readable ! i" "readable ! i < 2 ^ 60" if "i < length cols" for i
    using r that preferred_small [OF s that] by (force simp: between_def)+
  have line: "detail_line cells readable i (cols ! i) = cells (SanitizeSingleLineText (tc_Title (cols ! i))) + 2 + readable ! i"
      "detail_line cells readable i (cols ! i) < 2 ^ 62" if "i < length cols" for i
  proof -
    have c: "0 \<le> cells (SanitizeSingleLineText (tc_Title (cols ! i)))" "cells (SanitizeSingleLineText (tc_Title (cols ! i))) < 2 ^ 60"
      using ts that by (auto simp: table_small_def cols_def)
    then have "in_int (cells (SanitizeSingleLineText (tc_Title (cols ! i))) + 2 + readable ! i)"
      using rb [OF that] by (simp add: in_int_def)
    then show e: "detail_line cells readable i (cols ! i) = cells (SanitizeSingleLineText (tc_Title (cols ! i))) + 2 + readable ! i"
      using that len by (simp add: detail_line_def)
    then show "detail_line cells readable i (cols ! i) < 2 ^ 62" using c rb [OF that] by simp
  qed
  let ?d = "fold (\<lambda>(i, col) m. if detail_line cells readable i col > m then detail_line cells readable i col else m)
      (enumerate 0 cols) 3"
  note F = fold_max [of 3 "detail_line cells readable" "enumerate 0 cols"]
  have mem: "(i, cols ! i) \<in> set (enumerate 0 cols)" if "i < length cols" for i
    using that by (force simp: in_set_conv_nth nth_enumerate_eq)
  have "in_int (2 + readable ! 0)" using rb [OF ne] by (simp add: in_int_def)
  then have eq: "masterDetailMinimumPaneWidths cells cols readable = (2 + readable ! 0, ?d)"
    using ne len by (auto simp: masterDetailMinimumPaneWidths_def table_consts Let_def)
  have d3: "3 \<le> ?d" using F by blast
  have each: "\<forall>i<length cols. cells (SanitizeSingleLineText (tc_Title (cols ! i))) + 2 + readable ! i \<le> ?d"
    using F mem line(1) by fastforce
  have "?d < 2 ^ 62"
  proof -
    consider "?d = 3" | i x where "(i, x) \<in> set (enumerate 0 cols)" "?d = detail_line cells readable i x"
      using F by blast
    then show ?thesis
    proof cases
      case 2
      then have "i < length cols \<and> x = cols ! i" by (auto simp: in_set_conv_nth nth_enumerate_eq)
      then show ?thesis using 2(2) line(2) by simp
    qed simp
  qed
  then show thesis using that [OF eq] rb [OF ne] d3 each by simp
qed

text \<open>The columns of the master pane: the longest prefix of readable columns that fits.\<close>

definition spent :: "int \<Rightarrow> int list \<Rightarrow> nat \<Rightarrow> int" where
  "spent separatorW widths k = sum_list (take k widths) + separatorW * max 0 (int k - 1)"

lemma spent_Suc:
  "k < length widths \<Longrightarrow>
     spent sep widths (Suc k) = spent sep widths k + (if k > 0 then widths ! k + sep else widths ! k)"
  by (cases k) (auto simp: spent_def take_Suc_conv_app_nth distrib_left)

lemma spent_mono:
  assumes "\<forall>w \<in> set widths. 3 \<le> w" "0 \<le> sep" "k \<le> l" "l \<le> length widths"
  shows "spent sep widths k \<le> spent sep widths l"
  using assms(3,4)
proof (induction l rule: dec_induct)
  case (step l)
  then have "0 \<le> widths ! l" using assms(1) by (metis Suc_le_lessD nth_mem order_trans zero_le_numeral)
  then show ?case using step assms(2) by (auto simp: spent_Suc)
qed simp

lemma prefix_loop_spec:
  assumes w: "\<forall>w \<in> set widths. 3 \<le> w" and sep: "0 \<le> sep" and small: "spent sep widths (length widths) < 2 ^ 63"
    and fits: "spent sep widths k \<le> available" and k: "k \<le> length widths"
  shows "\<exists>l. k \<le> l \<and> l \<le> length widths \<and> spent sep widths l \<le> available \<and>
    (l < length widths \<longrightarrow> available < spent sep widths (Suc l)) \<and>
    prefix_loop available sep (int k) (spent sep widths k) (map int [0..<k]) (drop k widths) = map int [0..<l]"
  using fits k
proof (induction "length widths - k" arbitrary: k)
  case 0
  then show ?case by (intro exI [of _ k]) simp
next
  case (Suc m)
  then have lt: "k < length widths" by simp
  have wk: "\<not> widths ! k < 3" using w lt by (auto simp: not_less)
  let ?e = "if k > 0 then widths ! k + sep else widths ! k"
  have "spent sep widths 0 \<le> spent sep widths k" "spent sep widths (Suc k) \<le> spent sep widths (length widths)"
    using lt by (auto intro!: spent_mono [OF w sep])
  then have b: "0 \<le> spent sep widths k" "spent sep widths k + ?e < 2 ^ 63"
    using small spent_Suc [OF lt, of sep] by (auto simp: spent_def [of _ _ 0])
  then have i: "wrap_int (widths ! k + sep) = widths ! k + sep" if "k > 0"
    using that sep wk by (intro wrap_int_id) (auto simp: in_int_def)
  have i2: "wrap_int (spent sep widths k + ?e) = spent sep widths (Suc k)"
    using b sep wk spent_Suc [OF lt, of sep] by (subst wrap_int_id) (auto simp: in_int_def)
  have step: "prefix_loop available sep (int k) (spent sep widths k) (map int [0..<k]) (drop k widths) =
      (if spent sep widths (Suc k) > available then map int [0..<k]
       else prefix_loop available sep (int (Suc k)) (spent sep widths (Suc k)) (map int [0..<Suc k]) (drop (Suc k) widths))"
    using wk i i2 unfolding Cons_nth_drop_Suc [OF lt, symmetric] by (auto simp: Let_def table_consts add.commute)
  show ?case
  proof (cases "spent sep widths (Suc k) > available")
    case True
    then show ?thesis using step Suc.prems by (intro exI [of _ k]) simp
  next
    case False
    then obtain l where "Suc k \<le> l \<and> l \<le> length widths \<and> spent sep widths l \<le> available \<and>
        (l < length widths \<longrightarrow> available < spent sep widths (Suc l)) \<and>
        prefix_loop available sep (int (Suc k)) (spent sep widths (Suc k)) (map int [0..<Suc k]) (drop (Suc k) widths) = map int [0..<l]"
      using Suc.hyps(1) [of "Suc k"] Suc.hyps(2) lt by fastforce
    then show ?thesis using step False by (intro exI [of _ l]) simp
  qed
qed

lemma masterColumnPrefix_spec:
  assumes w: "\<forall>w \<in> set widths. 3 \<le> w" and sep: "0 \<le> sep" and small: "spent sep widths (length widths) < 2 ^ 63"
    and ne: "widths \<noteq> []" and pane: "prefixW + widths ! 0 \<le> pane" "0 \<le> prefixW" "pane < 2 ^ 62"
  shows "\<exists>l. 0 < l \<and> l \<le> length widths \<and> masterColumnPrefix widths pane prefixW sep = map int [0..<l] \<and>
    prefixW + spent sep widths l \<le> pane \<and> (l < length widths \<longrightarrow> pane < prefixW + spent sep widths (Suc l))"
proof -
  have w0: "3 \<le> widths ! 0" using w ne by simp
  have a: "wrap_int (pane - prefixW) = pane - prefixW" using pane w0 by (intro wrap_int_id) (simp add: in_int_def)
  have s1: "spent sep widths 1 = widths ! 0" using ne spent_Suc [of 0 widths sep] by (simp add: spent_def)
  obtain l where l: "l \<le> length widths" "spent sep widths l \<le> pane - prefixW"
      "l < length widths \<longrightarrow> pane - prefixW < spent sep widths (Suc l)"
      "prefix_loop (pane - prefixW) sep 0 0 [] widths = map int [0..<l]"
    using prefix_loop_spec [OF w sep small, of 0 "pane - prefixW"] pane w0 by (auto simp: spent_def [of _ _ 0])
  have "0 < l" using l(3) s1 pane(1) ne by (cases l) auto
  then show ?thesis using l pane w0 ne unfolding masterColumnPrefix_def a
    by (intro exI [of _ l]) (auto simp: Let_def table_consts)
qed

subsection \<open>The plan\<close>

abbreviation prefix_cells :: "TableLayoutInput \<Rightarrow> int" where
  "prefix_cells inp \<equiv> (if li_Selectable inp then tableSelectablePrefixW else 0)"

text \<open>The cells of a grid with the given column widths: prefix, separators and columns.\<close>

definition grid_cells :: "TableLayoutInput \<Rightarrow> int list \<Rightarrow> int" where
  "grid_cells inp widths =
     prefix_cells inp + tableColumnSeparatorWidth (li_Variant inp) * max (int (length widths) - 1) 0 + sum_list widths"

lemma finishTablePlan_keeps [simp]:
  "lp_Mode (finishTablePlan inp plan) = lp_Mode plan" "lp_ColumnWidths (finishTablePlan inp plan) = lp_ColumnWidths plan"
  "lp_ReadableWidths (finishTablePlan inp plan) = lp_ReadableWidths plan"
  "lp_VisibleCols (finishTablePlan inp plan) = lp_VisibleCols plan"
  "lp_LeftPaneWidth (finishTablePlan inp plan) = lp_LeftPaneWidth plan"
  "lp_RightPaneWidth (finishTablePlan inp plan) = lp_RightPaneWidth plan"
  by (simp_all add: finishTablePlan_def Let_def split: prod.split)

lemma separator_cases: "tableColumnSeparatorWidth v = 1 \<or> tableColumnSeparatorWidth v = 3"
  by (simp add: tableColumnSeparatorWidth_def table_consts)

lemma grid_cells_small:
  assumes "table_small cells inp" "length widths = length (li_Columns inp)" "0 \<le> sum_list widths" "sum_list widths < 2 ^ 60"
  shows "in_int (grid_cells inp widths)"
  using assms separator_cases [of "li_Variant inp"] by (auto simp: grid_cells_def table_small_def in_int_def table_consts)

text \<open>The plan with its sums evaluated.\<close>

lemma planTableLayout_eq:
  assumes "table_small cells inp"
  defines "cols \<equiv> li_Columns inp"
  defines "pref \<equiv> preferredTableWidths cols" and "readable \<equiv> minimumReadableTableWidths cells cols"
  defines "plan \<equiv> \<lparr>lp_Mode = TableModeFull, lp_ColumnWidths = pref, lp_ReadableWidths = readable,
      lp_VisibleCols = allColumnIndexes (length cols), lp_LeftPaneWidth = 0, lp_RightPaneWidth = 0, lp_RowStart = 0, lp_RowEnd = 0\<rparr>"
  shows "planTableLayout cells inp = finishTablePlan inp
    (if grid_cells inp pref \<le> li_AvailableWidth inp then plan
     else if grid_cells inp readable \<le> li_AvailableWidth inp
     then plan\<lparr>lp_Mode := TableModeCompressed,
       lp_ColumnWidths := shrinkTableWidthsToFloors pref readable (li_AvailableWidth inp - (grid_cells inp pref - sum_list pref))\<rparr>
     else if masterDetailEligible cells inp readable
     then (case masterDetailPaneWidths cells inp readable of (left, right) \<Rightarrow>
       plan\<lparr>lp_Mode := TableModeMasterDetail, lp_LeftPaneWidth := left, lp_RightPaneWidth := right,
         lp_VisibleCols := masterColumnPrefix readable left (prefix_cells inp) (tableColumnSeparatorWidth (li_Variant inp))\<rparr>)
     else plan\<lparr>lp_Mode := TableModeRecords\<rparr>)"
proof -
  note S = plan_sums [OF assms(1), folded cols_def, folded pref_def readable_def]
  let ?base = "prefix_cells inp + tableColumnSeparatorWidth (li_Variant inp) * max (int (length cols) - 1) 0"
  have l: "length pref = length cols" "length readable = length cols" by (simp_all add: pref_def readable_def)
  have g: "grid_cells inp pref = ?base + sum_list pref" "grid_cells inp readable = ?base + sum_list readable"
    by (simp_all only: grid_cells_def l)
  have w: "wrap_int (?base + sum_list pref) = grid_cells inp pref" "wrap_int (?base + sum_list readable) = grid_cells inp readable"
    using grid_cells_small [OF assms(1)] S l unfolding g [symmetric] by (auto intro!: wrap_int_id simp: cols_def)
  have b: "li_AvailableWidth inp - prefix_cells inp - tableColumnSeparatorWidth (li_Variant inp) * max (int (length cols) - 1) 0 =
      li_AvailableWidth inp - (grid_cells inp pref - sum_list pref)"
    unfolding g(1) by linarith
  have ne: "\<not> (length cols = 0 \<or> li_AvailableWidth inp \<le> 0)" using assms(1) by (auto simp: table_small_def cols_def)
  show ?thesis
    unfolding planTableLayout_def Let_def cols_def [symmetric] pref_def [symmetric] readable_def [symmetric] plan_def [symmetric] S(1,2) w b
    by (cases "masterDetailPaneWidths cells inp readable") (simp only: ne if_False prod.case if_distrib [of "finishTablePlan inp"])
qed

lemma masterDetailPaneWidths_spec:
  assumes ts: "table_small cells inp"
  defines "readable \<equiv> minimumReadableTableWidths cells (li_Columns inp)"
  assumes el: "masterDetailEligible cells inp readable"
  shows "\<exists>left right. masterDetailPaneWidths cells inp readable = (left, right) \<and> left + 3 + right = li_AvailableWidth inp \<and>
    2 + readable ! 0 \<le> left \<and>
    (\<forall>i<length (li_Columns inp). cells (SanitizeSingleLineText (tc_Title (li_Columns inp ! i))) + 2 + readable ! i \<le> right)"
proof -
  obtain d where d: "masterDetailMinimumPaneWidths cells (li_Columns inp) readable = (2 + readable ! 0, d)"
      "5 \<le> 2 + readable ! 0" "readable ! 0 < 2 ^ 60" "3 \<le> d" "d < 2 ^ 62"
      "\<forall>i<length (li_Columns inp). cells (SanitizeSingleLineText (tc_Title (li_Columns inp ! i))) + 2 + readable ! i \<le> d"
    using minimum_panes [OF ts] unfolding readable_def by blast
  have aw: "0 < li_AvailableWidth inp" "li_AvailableWidth inp < 2 ^ 60" using ts by (auto simp: table_small_def)
  have "in_int (2 + readable ! 0 + 3)" "in_int (2 + readable ! 0 + 3 + d)" using d by (auto simp: in_int_def)
  then have e: "2 + readable ! 0 + 3 + d \<le> li_AvailableWidth inp"
    using el d(1) by (simp add: masterDetailEligible_def table_consts split: if_splits)
  have "in_int (li_AvailableWidth inp * 2)" "in_int (li_AvailableWidth inp - 3)" "in_int (li_AvailableWidth inp - 3 - d)"
    using aw d by (auto simp: in_int_def)
  moreover define l0 where "l0 = li_AvailableWidth inp * 2 div 5"
  moreover define l where "l = min (max l0 (2 + readable ! 0)) (li_AvailableWidth inp - 3 - d)"
  moreover have lb: "2 + readable ! 0 \<le> l" "l \<le> li_AvailableWidth inp - 3 - d" using e by (auto simp: l_def)
  moreover have "in_int (li_AvailableWidth inp - 3 - l)" using lb aw d by (auto simp: in_int_def)
  ultimately have "masterDetailPaneWidths cells inp readable = (l, li_AvailableWidth inp - 3 - l)"
    unfolding masterDetailPaneWidths_def d(1) using aw
    by (auto simp: Let_def table_consts signed_divide_int_def min_def max_def)
  then show ?thesis using lb d(6) by fastforce
qed

lemma master_detail_fits:
  assumes ts: "table_small cells inp"
  defines "n \<equiv> length (li_Columns inp)" and "readable \<equiv> minimumReadableTableWidths cells (li_Columns inp)"
  defines "sep \<equiv> tableColumnSeparatorWidth (li_Variant inp)"
  assumes el0: "masterDetailEligible cells inp readable" and wide: "li_AvailableWidth inp < grid_cells inp readable"
  shows "\<exists>left right k. masterDetailPaneWidths cells inp readable = (left, right) \<and> left + 3 + right = li_AvailableWidth inp \<and>
    masterColumnPrefix readable left (prefix_cells inp) sep = map int [0..<k] \<and>
    0 < k \<and> k < n \<and> grid_cells inp (take k readable) \<le> left \<and> li_Selectable inp \<and> 0 < li_RowCount inp \<and>
    list_all2 (\<lambda>c w. cells (SanitizeSingleLineText (tc_Title c)) + 2 + w \<le> right) (li_Columns inp) readable"
proof -
  have s: "sum_list (preferredTableWidths (li_Columns inp)) < 2 ^ 60" using ts by (simp add: table_small_def)
  note r = readable_between [OF s, of cells, folded readable_def]
  note S = plan_sums [OF ts, folded readable_def]
  have len: "length readable = n" by (simp add: readable_def n_def)
  obtain left right where m: "masterDetailPaneWidths cells inp readable = (left, right)" "left + 3 + right = li_AvailableWidth inp"
      "2 + readable ! 0 \<le> left"
      "\<forall>i<n. cells (SanitizeSingleLineText (tc_Title (li_Columns inp ! i))) + 2 + readable ! i \<le> right"
    using masterDetailPaneWidths_spec [OF ts] el0 unfolding readable_def n_def by blast
  have el: "li_Selectable inp" "0 < li_RowCount inp" "4 \<le> n"
    using el0 by (auto simp: masterDetailEligible_def n_def split: if_splits)
  have "0 \<le> right" using m(4) r(2) ts len el(3)
    by (auto simp: table_small_def n_def dest!: spec [of _ 0] bspec [OF _ nth_mem [of 0 "li_Columns inp"]])
  then have lw: "left < 2 ^ 62" using m(2) ts by (simp add: table_small_def)
  have w3: "\<forall>w \<in> set readable. 3 \<le> w" using r(2) len by (auto simp: set_conv_nth n_def)
  have sp: "grid_cells inp (take k readable) = prefix_cells inp + spent sep readable k" if "k \<le> n" for k
    using that len by (simp add: grid_cells_def spent_def max.commute min_def sep_def)
  then have "spent sep readable (length readable) < 2 ^ 63"
    using grid_cells_small [OF ts, of readable] S len by (force simp: in_int_def n_def table_consts split: if_splits)
  moreover have "0 \<le> sep" using separator_cases [of "li_Variant inp"] by (auto simp: sep_def)
  moreover have "readable \<noteq> []" using len el(3) by auto
  ultimately obtain l where l: "0 < l" "l \<le> n" "masterColumnPrefix readable left (prefix_cells inp) sep = map int [0..<l]"
      "prefix_cells inp + spent sep readable l \<le> left"
    using masterColumnPrefix_spec [OF w3, of sep "prefix_cells inp" left] m(3) el lw len by (auto simp: table_consts)
  have "l \<noteq> n" using l(4) sp [of n] wide len m(2) \<open>0 \<le> right\<close> by auto
  then have k: "l < n" "grid_cells inp (take l readable) \<le> left" using l sp by auto
  have "list_all2 (\<lambda>c w. cells (SanitizeSingleLineText (tc_Title c)) + 2 + w \<le> right) (li_Columns inp) readable"
    using m(4) len by (auto simp: list_all2_conv_all_nth n_def)
  then show ?thesis using m(1,2) l(1,3) k el by blast
qed

subsection \<open>The table of a node\<close>

text \<open>The presentation does not depend on the height, the selection or the offset.\<close>

lemma planTableLayout_shape:
  "\<exists>plan. \<forall>h r off. planTableLayout cells (inp\<lparr>li_AvailableHeight := h, li_SelectedRow := r, li_RowOffset := off\<rparr>) =
     finishTablePlan (inp\<lparr>li_AvailableHeight := h, li_SelectedRow := r, li_RowOffset := off\<rparr>) plan"
proof -
  let ?read = "minimumReadableTableWidths cells (li_Columns inp)"
  obtain left right where p: "masterDetailPaneWidths cells inp ?read = (left, right)" by fastforce
  have same: "masterDetailPaneWidths cells (inp\<lparr>li_AvailableHeight := h, li_SelectedRow := r, li_RowOffset := off\<rparr>) w = masterDetailPaneWidths cells inp w"
      "masterDetailEligible cells (inp\<lparr>li_AvailableHeight := h, li_SelectedRow := r, li_RowOffset := off\<rparr>) w = masterDetailEligible cells inp w" for h r off w
    by (simp_all add: masterDetailPaneWidths_def masterDetailEligible_def)
  have fin: "finishTablePlan i ((finishTablePlan inp x)\<lparr>lp_RowStart := 0, lp_RowEnd := 0\<rparr>) = finishTablePlan i x" for i x
    by (simp add: finishTablePlan_def Let_def split: prod.split)
  have "planTableLayout cells (inp\<lparr>li_AvailableHeight := h, li_SelectedRow := r, li_RowOffset := off\<rparr>) =
      finishTablePlan (inp\<lparr>li_AvailableHeight := h, li_SelectedRow := r, li_RowOffset := off\<rparr>)
        ((planTableLayout cells inp)\<lparr>lp_RowStart := 0, lp_RowEnd := 0\<rparr>)" for h r off
    by (simp add: planTableLayout_def Let_def same p fin)
  then show ?thesis by blast
qed

lemma table_plan_window:
  assumes "snd (decodeSanitizedTable n) \<noteq> []"
  defines "rows \<equiv> snd (decodeSanitizedTable n)"
  shows "\<exists>c. 0 < c \<and> c \<le> int (length rows) \<and> (\<forall>off selection.
    (lp_RowStart (table_plan cells n selection maxW maxH off), lp_RowEnd (table_plan cells n selection maxW maxH off)) =
      visibleTableRowWindow (int (length rows)) (selected_row (ts_Index selection) rows) off c)"
proof -
  define inp where "inp = \<lparr>li_AvailableWidth = maxW, li_AvailableHeight = maxH, li_Columns = fst (decodeSanitizedTable n),
    li_RowCount = int (length rows), li_Selectable = ui_propBool n ''selectable'' False, li_SelectedRow = 0, li_RowOffset = 0,
    li_Variant = ui_propString n ''variant'' ''normal''\<rparr>"
  obtain plan where plan: "\<And>h r off. planTableLayout cells (inp\<lparr>li_AvailableHeight := h, li_SelectedRow := r, li_RowOffset := off\<rparr>) =
      finishTablePlan (inp\<lparr>li_AvailableHeight := h, li_SelectedRow := r, li_RowOffset := off\<rparr>) plan"
    using planTableLayout_shape by blast
  have tp: "table_plan cells n selection maxW maxH off =
      finishTablePlan (inp\<lparr>li_AvailableHeight := maxH, li_SelectedRow := selected_row (ts_Index selection) rows, li_RowOffset := off\<rparr>) plan"
    for off selection
    unfolding plan [symmetric] by (simp add: table_plan_def inp_def rows_def split: prod.split)
  have cap: "tableVisibleRowCapacity (inp\<lparr>li_AvailableHeight := maxH, li_SelectedRow := r, li_RowOffset := off\<rparr>) m = tableVisibleRowCapacity inp m"
    for r off m by (simp add: tableVisibleRowCapacity_def inp_def Let_def)
  let ?c = "tableVisibleRowCapacity inp (lp_Mode plan)"
  have "0 < ?c" "?c \<le> int (length rows)"
    using capacity_bounds [of inp "lp_Mode plan"] assms(1) by (auto simp: inp_def rows_def)
  moreover have "li_RowCount inp = int (length rows)" by (simp add: inp_def)
  ultimately show ?thesis unfolding tp
    by (intro exI [of _ ?c]) (simp add: finishTablePlan_def cap Let_def split: prod.split)
qed

lemma window_rows_spec:
  assumes "lp_RowStart plan = a" "lp_RowEnd plan = b" "0 \<le> a" "a \<le> sel" "sel < b" "b \<le> int (length rows)"
  shows "window_rows plan sel rows = (take (nat (b - a)) (drop (nat a) rows), sel - a)"
  using assms by (auto simp: window_rows_def drop_take nat_diff_distrib)

subsection \<open>Properties\<close>

text \<open>C28. Every presentation of a table fits. When the preferred widths fit they are used as they are;
  otherwise, when the readable widths fit, the columns are shrunk to fill the width exactly, none
  below its readable and none above its preferred width; otherwise a selectable table with rows and
  four columns or more is split into a master and a detail pane that fill the width, the master
  pane shows a proper non-empty prefix of the columns at readable width and the detail pane has
  room for every title and value; and records are the last resort.\<close>

theorem planTableLayout_fits:
  assumes ts: "table_small cells inp"
  defines "P \<equiv> planTableLayout cells inp" and "n \<equiv> length (li_Columns inp)"
  defines "pref \<equiv> preferredTableWidths (li_Columns inp)" and "readable \<equiv> minimumReadableTableWidths cells (li_Columns inp)"
  shows "(case lp_Mode P of
      TableModeFull \<Rightarrow> lp_ColumnWidths P = pref \<and> grid_cells inp pref \<le> li_AvailableWidth inp
    | TableModeCompressed \<Rightarrow> li_AvailableWidth inp < grid_cells inp pref \<and>
        between readable (lp_ColumnWidths P) pref \<and> grid_cells inp (lp_ColumnWidths P) = li_AvailableWidth inp
    | TableModeMasterDetail \<Rightarrow> li_AvailableWidth inp < grid_cells inp readable \<and> li_Selectable inp \<and> 0 < li_RowCount inp \<and>
        lp_LeftPaneWidth P + tablePaneSeparatorWidth + lp_RightPaneWidth P = li_AvailableWidth inp \<and>
        (\<exists>k. 0 < k \<and> k < n \<and> lp_VisibleCols P = map int [0..<k] \<and> grid_cells inp (take k readable) \<le> lp_LeftPaneWidth P) \<and>
        list_all2 (\<lambda>c w. cells (SanitizeSingleLineText (tc_Title c)) + 2 + w \<le> lp_RightPaneWidth P) (li_Columns inp) readable
    | TableModeRecords \<Rightarrow> li_AvailableWidth inp < grid_cells inp readable \<and> \<not> masterDetailEligible cells inp readable)"
proof -
  let ?aw = "li_AvailableWidth inp" and ?sep = "tableColumnSeparatorWidth (li_Variant inp)"
  have s: "sum_list pref < 2 ^ 60" using ts by (simp add: table_small_def pref_def)
  note r = readable_between [OF s [unfolded pref_def], of cells, folded pref_def readable_def]
  note S = plan_sums [OF ts, folded pref_def readable_def]
  have len: "length pref = n" "length readable = n" by (simp_all add: pref_def readable_def n_def)
  have g: "grid_cells inp pref - sum_list pref = grid_cells inp readable - sum_list readable"
    unfolding grid_cells_def len by simp
  note eq = planTableLayout_eq [OF ts, folded P_def pref_def readable_def n_def]
  consider (full) "grid_cells inp pref \<le> ?aw" | (compressed) "?aw < grid_cells inp pref" "grid_cells inp readable \<le> ?aw"
    | (master) "?aw < grid_cells inp pref" "?aw < grid_cells inp readable" "masterDetailEligible cells inp readable"
    | (records) "?aw < grid_cells inp pref" "?aw < grid_cells inp readable" "\<not> masterDetailEligible cells inp readable"
    by linarith
  then show ?thesis
  proof cases
    case full
    then show ?thesis unfolding eq by simp
  next
    case compressed
    let ?b = "?aw - (grid_cells inp pref - sum_list pref)"
    have "sum_list readable \<le> ?b" using compressed(2) g by linarith
    then have "between readable (shrinkTableWidthsToFloors pref readable ?b) pref \<and>
        sum_list (shrinkTableWidthsToFloors pref readable ?b) = min (sum_list pref) ?b"
      using r s len by (intro shrinkTableWidthsToFloors_spec) (auto simp: n_def)
    moreover have "min (sum_list pref) ?b = ?b" using compressed(1) by linarith
    ultimately have sh: "between readable (shrinkTableWidthsToFloors pref readable ?b) pref"
        "sum_list (shrinkTableWidthsToFloors pref readable ?b) = ?b" by auto
    then have "grid_cells inp (shrinkTableWidthsToFloors pref readable ?b) = grid_cells inp pref - sum_list pref + ?b"
      unfolding grid_cells_def between_def len by simp
    then show ?thesis unfolding eq using compressed sh(1) by simp
  next
    case master
    obtain left right k where m: "masterDetailPaneWidths cells inp readable = (left, right)" "left + 3 + right = ?aw"
        "masterColumnPrefix readable left (prefix_cells inp) ?sep = map int [0..<k]"
        "0 < k" "k < n" "grid_cells inp (take k readable) \<le> left" "li_Selectable inp" "0 < li_RowCount inp"
        "list_all2 (\<lambda>c w. cells (SanitizeSingleLineText (tc_Title c)) + 2 + w \<le> right) (li_Columns inp) readable"
      using master_detail_fits [OF ts] master(2,3) unfolding readable_def n_def by blast
    have p: "lp_Mode P = TableModeMasterDetail" "lp_LeftPaneWidth P = left" "lp_RightPaneWidth P = right" "lp_VisibleCols P = map int [0..<k]"
      unfolding eq m(1) using master m(3) by auto
    show ?thesis unfolding p TablePresentationMode.case using master(2) m by (auto simp: table_consts)
  next
    case records
    then show ?thesis unfolding eq by simp
  qed
qed

definition wide_column :: "string \<Rightarrow> int \<Rightarrow> tableColumn" where
  "wide_column t w = \<lparr>tc_Title = t, tc_Width = w\<rparr>"

definition example_table :: TableLayoutInput where
  "example_table = \<lparr>li_AvailableWidth = 35, li_AvailableHeight = 20,
     li_Columns = [wide_column ''First'' 12, wide_column ''Second'' 12, wide_column ''Third'' 12], li_RowCount = 1,
     li_Selectable = False, li_SelectedRow = 0, li_RowOffset = 0, li_Variant = ''normal''\<rparr>"

theorem planTableLayout_fits_witness:
  "grid_cells example_table (lp_ColumnWidths (planTableLayout (\<lambda>s. int (length s)) example_table)) = 35"
proof -
  have "table_small (\<lambda>s. int (length s)) example_table" by code_simp
  moreover have "lp_Mode (planTableLayout (\<lambda>s. int (length s)) example_table) = TableModeCompressed" by code_simp
  moreover have "li_AvailableWidth example_table = 35" by (simp add: example_table_def)
  ultimately show ?thesis using planTableLayout_fits [of "\<lambda>s. int (length s)" example_table] by simp
qed

text \<open>The window of a table shows the selection and moves as little as possible: it lies within the
  rows, is as long as the capacity allows, contains the (clamped) selected row, no other such
  window is nearer to the previous offset, and asking again from the new offset changes nothing.\<close>

lemma visibleTableRowWindow_least:
  assumes "0 < rows" "0 < capacity"
  shows "\<exists>a. visibleTableRowWindow rows selected offset capacity = (a, a + min capacity rows) \<and>
    0 \<le> a \<and> a + min capacity rows \<le> rows \<and>
    a \<le> clamp_to (rows - 1) selected \<and> clamp_to (rows - 1) selected < a + min capacity rows \<and>
    (\<forall>b. 0 \<le> b \<and> b + min capacity rows \<le> rows \<and> b \<le> clamp_to (rows - 1) selected \<and>
        clamp_to (rows - 1) selected < b + min capacity rows \<longrightarrow>
        \<bar>a - clamp_to (rows - min capacity rows) offset\<bar> \<le> \<bar>b - clamp_to (rows - min capacity rows) offset\<bar>) \<and>
    visibleTableRowWindow rows selected a capacity = (a, a + min capacity rows)"
proof -
  obtain a b where w: "visibleTableRowWindow rows selected offset capacity = (a, b)" by fastforce
  have "\<bar>a - clamp_to (rows - min capacity rows) offset\<bar> \<le> \<bar>c - clamp_to (rows - min capacity rows) offset\<bar>"
    if "c \<le> clamp_to (rows - 1) selected" "clamp_to (rows - 1) selected < c + min capacity rows" for c
    using w that assms by (auto simp: visibleTableRowWindow_eq Let_def split: if_splits)
  then show ?thesis
    using visibleTableRowWindow_bounds [OF w assms] visibleTableRowWindow_stable [OF w] w by (intro exI [of _ a]) auto
qed

text \<open>What a user sees of a table is what the runtime selected: for a table with rows, whatever the
  terminal size and the previous offset, the highlighted row of the rendered window is the
  sanitized row the selection points to, the metrics describe the window, and reconciling the
  stored offset with the resolved one is a fixed point.\<close>

lemma table_window_shows_selection:
  fixes cells :: cells and maxW maxH offset :: int
  assumes "0 \<le> ts_Index selection" "ts_Index selection < int (length (tableRows n))"
  defines "m \<equiv> resolveTableViewportMetrics cells n selection maxW maxH offset"
  shows "\<exists>visible sel. visible_table cells n selection maxW maxH offset = (visible, sel) \<and>
    0 \<le> sel \<and> sel < int (length visible) \<and>
    visible ! nat sel = map SanitizeSingleLineText (tableRows n ! nat (ts_Index selection)) \<and>
    visible = take (nat (tv_VisibleRows m)) (drop (nat (tv_Offset m)) (map (map SanitizeSingleLineText) (tableRows n))) \<and>
    int (length visible) = tv_VisibleRows m \<and> tv_VisibleRows m + tv_MaxOffset m = tv_TotalRows m \<and>
    0 \<le> tv_Offset m \<and> tv_Offset m \<le> tv_MaxOffset m \<and>
    resolveTableViewportMetrics cells n selection maxW maxH (tv_Offset m) = m"
proof -
  let ?rows = "snd (decodeSanitizedTable n)" and ?i = "ts_Index selection"
  have raw: "get_raw (n_Props n) ''rows'' \<noteq> []" using assms(1,2) by (auto simp: tableRows_def Let_def split: if_splits)
  then have rows: "?rows = map (map SanitizeSingleLineText) (tableRows n)"
    by (simp add: decodeSanitizedTable_def tableRows_def Let_def)
  then have len: "int (length ?rows) = int (length (tableRows n))" and ne: "?rows \<noteq> []" using assms(1,2) by auto
  have sel: "selected_row ?i ?rows = ?i" "clamp_to (int (length ?rows) - 1) ?i = ?i"
    using assms(1,2) len by (auto simp: selected_row_def clamp_to_def Let_def)
  obtain c where c: "0 < c" "c \<le> int (length ?rows)" and W:
      "\<And>off selection. (lp_RowStart (table_plan cells n selection maxW maxH off), lp_RowEnd (table_plan cells n selection maxW maxH off)) =
        visibleTableRowWindow (int (length ?rows)) (selected_row (ts_Index selection) ?rows) off c"
    using table_plan_window [OF ne] by blast
  obtain a b where w: "visibleTableRowWindow (int (length ?rows)) ?i offset c = (a, b)" by fastforce
  have w0: "0 < int (length ?rows)" using ne by simp
  note B = visibleTableRowWindow_bounds [OF w w0 c(1), unfolded sel]
  have P: "lp_RowStart (table_plan cells n selection maxW maxH offset) = a" "lp_RowEnd (table_plan cells n selection maxW maxH offset) = b"
      "lp_RowStart (table_plan cells n selection maxW maxH a) = a" "lp_RowEnd (table_plan cells n selection maxW maxH a) = b"
    using W [of selection offset] W [of selection a] w visibleTableRowWindow_stable [OF w] unfolding sel by auto
  have m: "m = \<lparr>tv_TotalRows = int (length ?rows), tv_VisibleRows = b - a, tv_MaxOffset = int (length ?rows) - (b - a), tv_Offset = a\<rparr>"
      "resolveTableViewportMetrics cells n selection maxW maxH a = m"
    using B P unfolding m_def resolveTableViewportMetrics_def by (auto simp: Let_def)
  have V: "visible_table cells n selection maxW maxH offset = (take (nat (b - a)) (drop (nat a) ?rows), ?i - a)"
    unfolding visible_table_def Let_def sel using B P by (intro window_rows_spec) auto
  have nth: "take (nat (b - a)) (drop (nat a) ?rows) ! nat (?i - a) = ?rows ! nat ?i"
    using B(1,2,4,5) by (subst nth_take) (auto simp: nat_add_distrib [symmetric])
  have fld: "tv_TotalRows m = int (length ?rows)" "tv_VisibleRows m = b - a" "tv_MaxOffset m = int (length ?rows) - (b - a)" "tv_Offset m = a"
    by (simp_all add: m(1))
  have "int (length (take (nat (b - a)) (drop (nat a) ?rows))) = b - a" using B(1,2,4,5) by auto
  moreover have "?rows ! nat ?i = map SanitizeSingleLineText (tableRows n ! nat ?i)"
    using assms(1,2) unfolding rows by (simp add: nat_less_iff)
  ultimately show ?thesis
    unfolding V fld m(2) rows [symmetric] prod.inject
    using B(1,2,4,5) nth by (intro exI [of _ "take (nat (b - a)) (drop (nat a) ?rows)"] exI [of _ "?i - a"] conjI) simp_all
qed

end
