(* ===== verification/Terminal.thy ===== *)
theory Terminal
  imports Table Engine
begin

text \<open>
  The Bubble Tea model of \<open>adapter/bubbletea\<close>: the boundary to the semantic state
  (\<open>controller.go\<close>), the terminal-local state (\<open>interaction_state.go\<close>, \<open>render_state.go\<close>,
  \<open>render_result.go\<close>), the message loop, the animation timer and the acknowledgement of frames
  (\<open>model.go\<close>) and the routing of keys (\<open>key_router.go\<close>). The controller is a record of
  functions on a state of its own, as the Go interface is; the in-process one is built on the
  engine. What the renderer draws and measures is an argument (\<open>renderer\<close>), so the results hold
  for every frame it may produce. Methods on a pointer receiver return the new model, commands
  returned to the framework are values.
\<close>

subsection \<open>The controller (controller.go)\<close>

record 'c SemanticController =
  sc_Snapshot :: "'c \<Rightarrow> PresentationSnapshot"
  sc_Focus :: "'c \<Rightarrow> string \<Rightarrow> 'c \<times> Error option"
  sc_SetInput :: "'c \<Rightarrow> string \<Rightarrow> string \<Rightarrow> 'c \<times> Error option"
  sc_Submit :: "'c \<Rightarrow> string \<Rightarrow> 'c \<times> Error option"
  sc_MoveTableSelection :: "'c \<Rightarrow> string \<Rightarrow> int \<Rightarrow> 'c \<times> Error option"
  sc_ActivateTableSelection :: "'c \<Rightarrow> string \<Rightarrow> 'c \<times> Error option"
  sc_ActionKey :: "'c \<Rightarrow> string \<Rightarrow> 'c \<times> Error option"
  sc_AcknowledgePublication :: "'c \<Rightarrow> u64 \<Rightarrow> 'c \<times> Error option"
  sc_ConnectionError :: "'c \<Rightarrow> string option"

text \<open>The in-process controller; \<open>env\<close> holds the answers of the action handlers, as for
  \<open>HandleKey\<close>. It is no \<open>controllerErrorSource\<close>.\<close>

definition localSemanticController :: "dispatch_env \<Rightarrow> (Engine \<times> 'h ActionRegistry option) SemanticController" where
  "localSemanticController env =
     \<lparr>sc_Snapshot = \<lambda>(e, r). snapshot e,
      sc_Focus = \<lambda>(e, r) nid. (case Focus e nid of (e', err) \<Rightarrow> ((e', r), err)),
      sc_SetInput = \<lambda>(e, r) nid v. (case SetInput e nid v of (e', err) \<Rightarrow> ((e', r), err)),
      sc_Submit = \<lambda>(e, r) nid. (case Submit e nid of (e', err) \<Rightarrow> ((e', r), err)),
      sc_MoveTableSelection = \<lambda>(e, r) nid d. (case Engine_MoveTableSelection e nid d of (e', err) \<Rightarrow> ((e', r), err)),
      sc_ActivateTableSelection = \<lambda>(e, r) nid. (case ActivateTableSelection e nid of (e', err) \<Rightarrow> ((e', r), err)),
      sc_ActionKey = \<lambda>(e, r) key. (case HandleKey e r env key of (e', r', err) \<Rightarrow> ((e', r'), err)),
      sc_AcknowledgePublication = \<lambda>(e, r) g. (case PublishGeneration e g of (e', _, err) \<Rightarrow> ((e', r), err)),
      sc_ConnectionError = \<lambda>_. None\<rparr>"

subsection \<open>Terminal-local state\<close>

record ViewportState =
  vs_Offset :: int
  vs_PinnedToTail :: bool

record TableViewportState =
  tvs_Offset :: int

record InteractionState =
  ix_InputCarets :: "int gomap"
  ix_Viewports :: "ViewportState gomap"
  ix_TableViewports :: "TableViewportState gomap"

definition newInteractionState :: InteractionState where
  "newInteractionState = \<lparr>ix_InputCarets = fmempty, ix_Viewports = fmempty, ix_TableViewports = fmempty\<rparr>"

record RenderState =
  rs_AnimationPhase :: u64
  rs_CursorVisible :: bool

record ViewportMetrics =
  vm_TotalLines :: int
  vm_VisibleLines :: int
  vm_MaxOffset :: int
  vm_Offset :: int

record RenderResult =
  rr_Frame :: string
  rr_Viewports :: "ViewportMetrics gomap"
  rr_Tables :: "TableViewportMetrics gomap"

type_synonym renderer =
  "Document \<Rightarrow> string \<Rightarrow> string gomap \<Rightarrow> TableSelection gomap \<Rightarrow> InteractionState \<Rightarrow> int \<Rightarrow> int \<Rightarrow> RenderState \<Rightarrow> RenderResult"

record Model =
  mo_Width :: int
  mo_Height :: int
  mo_interaction :: InteractionState
  mo_updateChan :: bool
  mo_Quitting :: bool
  mo_publishCount :: u64
  mo_lastAck :: u64
  mo_animationPhase :: u64
  mo_animationEpoch :: u64
  mo_animationActive :: bool
  mo_cursorVisible :: bool

subsection \<open>Messages and commands\<close>

datatype KeyType = KeyCtrlC | KeyTab | KeyShiftTab | KeyLeft | KeyRight | KeyUp | KeyDown | KeyPgUp | KeyPgDown
  | KeyHome | KeyEnd | KeyBackspace | KeyDelete | KeyRunes | KeySpace | KeyEnter | KeyOther

text \<open>\<open>km_String\<close> is what \<open>msg.String()\<close> of the framework answers.\<close>

record KeyMsg =
  km_Type :: KeyType
  km_Runes :: "int list"
  km_String :: string

datatype tea_msg = WindowSizeMsg int int | EngineDirtyMsg | AnimationTickMsg u64 | KeyPress KeyMsg | OtherMsg

text \<open>The commands handed back to the framework: a batch is a list, no command is the empty one.\<close>

datatype tea_cmd = WaitForUpdate | AnimationTick u64 | Quit

definition waitForUpdate :: "Model \<Rightarrow> tea_cmd list" where
  "waitForUpdate m = (if mo_updateChan m then [WaitForUpdate] else [])"

definition clampInt :: "int \<Rightarrow> int \<Rightarrow> int \<Rightarrow> int" where
  "clampInt v lo hi = (if v < lo then lo else if v > hi then hi else v)"

text \<open>\<open>string(runes)\<close>: a value that is no rune becomes the replacement rune.\<close>

definition string_of_runes :: "int list \<Rightarrow> string" where
  "string_of_runes rs = of_runes (map (\<lambda>r. if r < 0 then 65533 else r) rs)"

subsection \<open>Animation (model.go, renderer.go)\<close>

definition HasActiveAnimation :: "Document \<Rightarrow> string \<Rightarrow> bool" where
  "HasActiveAnimation doc focusedID \<longleftrightarrow>
     (focusedID \<noteq> [] \<and> (case fmlookup (d_Nodes doc) focusedID of Some n \<Rightarrow> n_Type n = NodeInput | None \<Rightarrow> False)) \<or>
     list_ex (\<lambda>k. case fmlookup (d_Nodes doc) k of
         None \<Rightarrow> False
       | Some n \<Rightarrow> n_Type n = NodeProgress \<and> ui_propString n ''state'' ''normal'' = ''loading'' \<and>
           (let v = ui_propString n ''variant'' ''bar'' in v = ''spinner'' \<or> v = ''bar''))
       (keys_of (d_Nodes doc))"

definition needsAnimation :: "'c SemanticController \<Rightarrow> 'c \<Rightarrow> bool" where
  "needsAnimation ctl c = (let s = sc_Snapshot ctl c in HasActiveAnimation (ps_Document s) (ps_FocusedID s))"

definition stopAnimation :: "Model \<Rightarrow> Model" where
  "stopAnimation m =
     (let m = (if mo_animationActive m
               then m\<lparr>mo_animationActive := False, mo_animationEpoch := mo_animationEpoch m + 1\<rparr> else m) in
      m\<lparr>mo_cursorVisible := True\<rparr>)"

definition animationCommandIfNeeded :: "'c SemanticController \<Rightarrow> 'c \<Rightarrow> Model \<Rightarrow> Model \<times> tea_cmd list" where
  "animationCommandIfNeeded ctl c m =
     (if \<not> needsAnimation ctl c then ((if mo_animationActive m then stopAnimation m else m), [])
      else if mo_animationActive m then (m, [])
      else (let m = m\<lparr>mo_animationActive := True, mo_cursorVisible := True, mo_animationEpoch := mo_animationEpoch m + 1\<rparr> in
            (m, [AnimationTick (mo_animationEpoch m)])))"

subsection \<open>Reconciliation of the local state (model.go)\<close>

definition render_state :: "Model \<Rightarrow> RenderState" where
  "render_state m = \<lparr>rs_AnimationPhase = mo_animationPhase m, rs_CursorVisible = mo_cursorVisible m\<rparr>"

definition renderResultForSnapshot :: "renderer \<Rightarrow> Model \<Rightarrow> PresentationSnapshot \<Rightarrow> RenderResult" where
  "renderResultForSnapshot RenderFrame m s =
     RenderFrame (ps_Document s) (ps_FocusedID s) (ps_InputValues s) (ps_TableSelections s) (mo_interaction m)
       (mo_Width m) (mo_Height m) (render_state m)"

definition scrollable_viewport :: "Node \<Rightarrow> bool" where
  "scrollable_viewport n \<longleftrightarrow> n_Type n = NodeViewport \<and> ui_propBool n ''scrollable'' False"

definition windowed_table :: "Node \<Rightarrow> bool" where
  "windowed_table n \<longleftrightarrow> n_Type n = NodeTable \<and> ui_propBool n ''selectable'' False"

text \<open>The loops that delete the entries of nodes that are gone or of another kind.\<close>

definition prune :: "Document \<Rightarrow> (Node \<Rightarrow> bool) \<Rightarrow> 'v gomap \<Rightarrow> 'v gomap" where
  "prune doc keep m =
     for_keys (\<lambda>k _ m. case fmlookup (d_Nodes doc) k of
         None \<Rightarrow> fmdrop k m
       | Some n \<Rightarrow> if \<not> keep n then fmdrop k m else m) m m"

definition reconcile_carets :: "PresentationSnapshot \<Rightarrow> int gomap \<Rightarrow> int gomap" where
  "reconcile_carets s carets =
     for_keys (\<lambda>k n m.
         if n_Type n \<noteq> NodeInput then m
         else
           (let maxCaret = int (length (runes (str_at (ps_InputValues s) k)));
                caret = (case fmlookup m k of None \<Rightarrow> maxCaret | Some c \<Rightarrow> c);
                caret = (if caret < 0 then 0 else caret);
                caret = (if caret > maxCaret then maxCaret else caret) in
            fmupd k caret m))
       (d_Nodes (ps_Document s)) (prune (ps_Document s) (\<lambda>n. n_Type n = NodeInput) carets)"

definition reconcile_viewports :: "PresentationSnapshot \<Rightarrow> ViewportState gomap \<Rightarrow> ViewportState gomap" where
  "reconcile_viewports s viewports =
     for_keys (\<lambda>k n m.
         if \<not> scrollable_viewport n then m
         else case fmlookup m k of
           Some _ \<Rightarrow> m
         | None \<Rightarrow> fmupd k \<lparr>vs_Offset = 0, vs_PinnedToTail = ui_propBool n ''follow_tail'' False\<rparr> m)
       (d_Nodes (ps_Document s)) (prune (ps_Document s) scrollable_viewport viewports)"

definition reconcileLocalState :: "'c SemanticController \<Rightarrow> renderer \<Rightarrow> 'c \<Rightarrow> Model \<Rightarrow> Model" where
  "reconcileLocalState ctl RenderFrame c m =
     (let s = sc_Snapshot ctl c;
          ix = mo_interaction m;
          ix = ix\<lparr>ix_InputCarets := reconcile_carets s (ix_InputCarets ix)\<rparr>;
          ix = ix\<lparr>ix_Viewports := reconcile_viewports s (ix_Viewports ix)\<rparr>;
          ix = ix\<lparr>ix_TableViewports := prune (ps_Document s) windowed_table (ix_TableViewports ix)\<rparr>;
          m = m\<lparr>mo_interaction := ix\<rparr>;
          result = renderResultForSnapshot RenderFrame m s;
          ix = ix\<lparr>ix_Viewports := for_keys (\<lambda>k local vs. case fmlookup (rr_Viewports result) k of
                  None \<Rightarrow> vs
                | Some metrics \<Rightarrow> fmupd k (local\<lparr>vs_Offset := vm_Offset metrics\<rparr>) vs)
                (ix_Viewports ix) (ix_Viewports ix)\<rparr>;
          ix = ix\<lparr>ix_TableViewports := for_keys (\<lambda>k metrics ts. case fmlookup (d_Nodes (ps_Document s)) k of
                  None \<Rightarrow> ts
                | Some n \<Rightarrow> if \<not> windowed_table n then ts else fmupd k \<lparr>tvs_Offset = tv_Offset metrics\<rparr> ts)
                (rr_Tables result) (ix_TableViewports ix)\<rparr> in
      m\<lparr>mo_interaction := ix\<rparr>)"

subsection \<open>Keys (key\_router.go)\<close>

definition index_of :: "string \<Rightarrow> string list \<Rightarrow> int" where
  "index_of current ids = (case find (\<lambda>i. ids ! i = current) [0..<length ids] of None \<Rightarrow> -1 | Some i \<Rightarrow> int i)"

definition focusNext :: "'c SemanticController \<Rightarrow> 'c \<Rightarrow> 'c go" where
  "focusNext ctl c =
     (let s = sc_Snapshot ctl c in
      go_bind (FocusableIDs (ps_Document s)) (\<lambda>ids.
        if length ids = 0 then Ret c
        else (let idx = index_of (ps_FocusedID s) ids in
              Ret (fst (sc_Focus ctl c (ids ! nat ((idx + 1) mod int (length ids))))))))"

definition focusPrev :: "'c SemanticController \<Rightarrow> 'c \<Rightarrow> 'c go" where
  "focusPrev ctl c =
     (let s = sc_Snapshot ctl c in
      go_bind (FocusableIDs (ps_Document s)) (\<lambda>ids.
        if length ids = 0 then Ret c
        else (let idx = index_of (ps_FocusedID s) ids;
                  idx = (if idx \<le> 0 then int (length ids) else idx) in
              Ret (fst (sc_Focus ctl c (ids ! nat (idx - 1)))))))"

definition set_caret :: "string \<Rightarrow> int \<Rightarrow> Model \<Rightarrow> Model" where
  "set_caret nid caret m =
     m\<lparr>mo_interaction := (mo_interaction m)\<lparr>ix_InputCarets := fmupd nid caret (ix_InputCarets (mo_interaction m))\<rparr>\<rparr>"

definition handleInputKey ::
    "'c SemanticController \<Rightarrow> 'c \<Rightarrow> Model \<Rightarrow> string \<Rightarrow> string \<Rightarrow> KeyMsg \<Rightarrow> 'c \<times> Model \<times> bool" where
  "handleInputKey ctl c m nid value msg =
     (let rs = runes value;
          n = int (length rs);
          caret = (case fmlookup (ix_InputCarets (mo_interaction m)) nid of None \<Rightarrow> n | Some k \<Rightarrow> k);
          caret = clampInt caret 0 n;
          before = take (nat caret) rs;
          after = drop (nat caret) rs in
      case km_Type msg of
        KeyLeft \<Rightarrow> (c, set_caret nid (if caret > 0 then caret - 1 else caret) m, True)
      | KeyRight \<Rightarrow> (c, set_caret nid (if caret < n then caret + 1 else caret) m, True)
      | KeyHome \<Rightarrow> (c, set_caret nid 0 m, True)
      | KeyEnd \<Rightarrow> (c, set_caret nid n m, True)
      | KeyBackspace \<Rightarrow>
          if caret > 0
          then (fst (sc_SetInput ctl c nid (string_of_runes (take (nat (caret - 1)) rs @ after))), set_caret nid (caret - 1) m, True)
          else (c, set_caret nid caret m, True)
      | KeyDelete \<Rightarrow>
          if caret < n
          then (fst (sc_SetInput ctl c nid (string_of_runes (before @ drop (nat (caret + 1)) rs))), set_caret nid caret m, True)
          else (c, set_caret nid caret m, True)
      | KeyRunes \<Rightarrow>
          if length (km_Runes msg) > 0
          then (fst (sc_SetInput ctl c nid (string_of_runes (before @ km_Runes msg @ after))),
                set_caret nid (caret + int (length (km_Runes msg))) m, True)
          else (c, set_caret nid caret m, True)
      | KeySpace \<Rightarrow>
          (fst (sc_SetInput ctl c nid (string_of_runes (before @ [32] @ after))), set_caret nid (caret + 1) m, True)
      | KeyEnter \<Rightarrow> (fst (sc_Submit ctl c nid), set_caret nid caret m, True)
      | _ \<Rightarrow> (c, m, False))"

definition handleTableKey ::
    "'c SemanticController \<Rightarrow> renderer \<Rightarrow> 'c \<Rightarrow> Model \<Rightarrow> string \<Rightarrow> Node \<Rightarrow> KeyMsg \<Rightarrow> 'c \<times> Model \<times> bool" where
  "handleTableKey ctl RenderFrame c m nid n msg =
     (let moved = (\<lambda>c. (c, reconcileLocalState ctl RenderFrame c m, True)) in
      case km_Type msg of
        KeyUp \<Rightarrow> moved (fst (sc_MoveTableSelection ctl c nid (-1)))
      | KeyDown \<Rightarrow> moved (fst (sc_MoveTableSelection ctl c nid 1))
      | KeyHome \<Rightarrow>
          (case fmlookup (ps_TableSelections (sc_Snapshot ctl c)) nid of
             Some selection \<Rightarrow> moved (fst (sc_MoveTableSelection ctl c nid (wrap_int (- ts_Index selection))))
           | None \<Rightarrow> (c, m, True))
      | KeyEnd \<Rightarrow>
          (let rows = fst (unm_matrix (get_raw (n_Props n) ''rows'')) in
           if length rows > 0 then
             (let current = (case fmlookup (ps_TableSelections (sc_Snapshot ctl c)) nid of
                   Some selection \<Rightarrow> ts_Index selection | None \<Rightarrow> 0) in
              moved (fst (sc_MoveTableSelection ctl c nid (wrap_int (int (length rows) - 1 - current)))))
           else (c, m, True))
      | KeyEnter \<Rightarrow> (fst (sc_ActivateTableSelection ctl c nid), m, True)
      | _ \<Rightarrow> (c, m, False))"

text \<open>The move a key asks of a viewport: by a number of lines, or to a line.\<close>

definition viewport_move :: "ViewportMetrics \<Rightarrow> KeyType \<Rightarrow> (int + int) option" where
  "viewport_move metrics t =
     (let page = wrap_int (vm_VisibleLines metrics - 1); page = (if page < 1 then 1 else page) in
      case t of
        KeyUp \<Rightarrow> Some (Inl (-1)) | KeyDown \<Rightarrow> Some (Inl 1) | KeyPgUp \<Rightarrow> Some (Inl (- page)) | KeyPgDown \<Rightarrow> Some (Inl page)
      | KeyHome \<Rightarrow> Some (Inr 0) | KeyEnd \<Rightarrow> Some (Inr (vm_MaxOffset metrics)) | _ \<Rightarrow> None)"

definition viewport_target :: "ViewportMetrics \<Rightarrow> int + int \<Rightarrow> int" where
  "viewport_target metrics move =
     clampInt (case move of Inl delta \<Rightarrow> wrap_int (vm_Offset metrics + delta) | Inr target \<Rightarrow> target) 0 (vm_MaxOffset metrics)"

definition pinned :: "bool \<Rightarrow> KeyType \<Rightarrow> int \<Rightarrow> int \<Rightarrow> bool \<Rightarrow> bool" where
  "pinned follow t target maxOffset old =
     (if \<not> follow then False
      else if t = KeyEnd \<or> ((t = KeyDown \<or> t = KeyPgDown) \<and> target = maxOffset) then True
      else if target < maxOffset \<or> t = KeyHome \<or> t = KeyUp \<or> t = KeyPgUp then False
      else old)"

definition handleViewportKey ::
    "'c SemanticController \<Rightarrow> renderer \<Rightarrow> 'c \<Rightarrow> Model \<Rightarrow> string \<Rightarrow> Node \<Rightarrow> KeyMsg \<Rightarrow> 'c \<times> Model \<times> bool" where
  "handleViewportKey ctl RenderFrame c m nid n msg =
     (case fmlookup (rr_Viewports (renderResultForSnapshot RenderFrame m (sc_Snapshot ctl c))) nid of
        None \<Rightarrow> (c, m, False)
      | Some metrics \<Rightarrow>
          (case viewport_move metrics (km_Type msg) of
             None \<Rightarrow> (c, m, False)
           | Some move \<Rightarrow>
               (let follow = ui_propBool n ''follow_tail'' False;
                    viewports = ix_Viewports (mo_interaction m);
                    local = (case fmlookup viewports nid of
                        Some local \<Rightarrow> local | None \<Rightarrow> \<lparr>vs_Offset = 0, vs_PinnedToTail = follow\<rparr>);
                    target = viewport_target metrics move;
                    local = \<lparr>vs_Offset = target,
                             vs_PinnedToTail = pinned follow (km_Type msg) target (vm_MaxOffset metrics) (vs_PinnedToTail local)\<rparr> in
                (c, m\<lparr>mo_interaction := (mo_interaction m)\<lparr>ix_Viewports := fmupd nid local viewports\<rparr>\<rparr>, True))))"

definition focused_key ::
    "'c SemanticController \<Rightarrow> renderer \<Rightarrow> 'c \<Rightarrow> Model \<Rightarrow> PresentationSnapshot \<Rightarrow> KeyMsg \<Rightarrow> 'c \<times> Model \<times> bool" where
  "focused_key ctl RenderFrame c m s msg =
     (let nid = ps_FocusedID s in
      if nid = [] then (c, m, False)
      else case fmlookup (d_Nodes (ps_Document s)) nid of
        None \<Rightarrow> (c, m, False)
      | Some n \<Rightarrow>
          (case n_Type n of
             NodeInput \<Rightarrow> handleInputKey ctl c m nid (str_at (ps_InputValues s) nid) msg
           | NodeTable \<Rightarrow> if ui_propBool n ''selectable'' False then handleTableKey ctl RenderFrame c m nid n msg else (c, m, False)
           | NodeViewport \<Rightarrow> if ui_propBool n ''scrollable'' False then handleViewportKey ctl RenderFrame c m nid n msg else (c, m, False)
           | _ \<Rightarrow> (c, m, False)))"

definition focus_key :: "'c SemanticController \<Rightarrow> renderer \<Rightarrow> 'c go \<Rightarrow> Model \<Rightarrow> ('c \<times> Model \<times> tea_cmd list) go" where
  "focus_key ctl RenderFrame moved m =
     go_bind moved (\<lambda>c.
       let (m, cmds) = animationCommandIfNeeded ctl c (reconcileLocalState ctl RenderFrame c m) in Ret (c, m, cmds))"

definition handleKey ::
    "'c SemanticController \<Rightarrow> renderer \<Rightarrow> 'c \<Rightarrow> Model \<Rightarrow> KeyMsg \<Rightarrow> ('c \<times> Model \<times> tea_cmd list) go" where
  "handleKey ctl RenderFrame c m msg =
     (case km_Type msg of
        KeyCtrlC \<Rightarrow> Ret (c, stopAnimation (m\<lparr>mo_Quitting := True\<rparr>), [Quit])
      | KeyTab \<Rightarrow> focus_key ctl RenderFrame (focusNext ctl c) m
      | KeyShiftTab \<Rightarrow> focus_key ctl RenderFrame (focusPrev ctl c) m
      | _ \<Rightarrow>
          (let s = sc_Snapshot ctl c in
           case focused_key ctl RenderFrame c m s msg of
             (c, m, True) \<Rightarrow> (let (m, cmds) = animationCommandIfNeeded ctl c m in Ret (c, m, cmds))
           | (c, m, False) \<Rightarrow>
               (let key = km_String msg in
                if key \<noteq> [] \<and> fmlookup (ps_Bindings s) key \<noteq> None
                then Ret (fst (sc_ActionKey ctl c key), m, [])
                else Ret (c, m, []))))"

subsection \<open>The message loop and the frame (model.go)\<close>

definition NewModelWithController :: "'c SemanticController \<Rightarrow> renderer \<Rightarrow> bool \<Rightarrow> 'c \<Rightarrow> Model" where
  "NewModelWithController ctl RenderFrame updateChan c =
     (let m = \<lparr>mo_Width = 80, mo_Height = 24, mo_interaction = newInteractionState, mo_updateChan = updateChan,
               mo_Quitting = False, mo_publishCount = 0, mo_lastAck = 0, mo_animationPhase = 0, mo_animationEpoch = 0,
               mo_animationActive = False, mo_cursorVisible = True\<rparr>;
          m = reconcileLocalState ctl RenderFrame c m in
      m\<lparr>mo_animationActive := needsAnimation ctl c\<rparr>)"

definition Init :: "Model \<Rightarrow> tea_cmd list" where
  "Init m = waitForUpdate m @ (if mo_animationActive m then [AnimationTick (mo_animationEpoch m)] else [])"

definition Update ::
    "'c SemanticController \<Rightarrow> renderer \<Rightarrow> 'c \<Rightarrow> Model \<Rightarrow> tea_msg \<Rightarrow> ('c \<times> Model \<times> tea_cmd list) go" where
  "Update ctl RenderFrame c m msg =
     (case msg of
        WindowSizeMsg w h \<Rightarrow> Ret (c, reconcileLocalState ctl RenderFrame c (m\<lparr>mo_Width := w, mo_Height := h\<rparr>), [])
      | EngineDirtyMsg \<Rightarrow>
          (let m = reconcileLocalState ctl RenderFrame c m;
               (m, anim) = animationCommandIfNeeded ctl c m in
           Ret (c, m, waitForUpdate m @ anim))
      | AnimationTickMsg epoch \<Rightarrow>
          if \<not> mo_animationActive m \<or> epoch \<noteq> mo_animationEpoch m then Ret (c, m, [])
          else if \<not> needsAnimation ctl c then Ret (c, stopAnimation m, [])
          else
            (let phase = mo_animationPhase m + 1;
                 m = m\<lparr>mo_animationPhase := phase, mo_cursorVisible := (phase div 3) mod 2 = 0\<rparr> in
             Ret (c, m, [AnimationTick (mo_animationEpoch m)]))
      | KeyPress k \<Rightarrow> handleKey ctl RenderFrame c m k
      | OtherMsg \<Rightarrow> Ret (c, m, []))"

definition View :: "'c SemanticController \<Rightarrow> renderer \<Rightarrow> 'c \<Rightarrow> Model \<Rightarrow> 'c \<times> Model \<times> string" where
  "View ctl RenderFrame c m =
     (if mo_Quitting m then (c, m, ''Session terminated.'' @ [CHR 0x0A])
      else
        (let s = sc_Snapshot ctl c;
             out = rr_Frame (renderResultForSnapshot RenderFrame m s) in
         case sc_ConnectionError ctl c of
           Some err \<Rightarrow>
             (c, m, (if out \<noteq> [] then out @ [CHR 0x0A] else out) @ ''Daemon disconnected: '' @ err @ [CHR 0x0A])
         | None \<Rightarrow>
             if ps_PublicationPending s \<and> ps_PublicationGeneration s \<noteq> 0 \<and> mo_lastAck m \<noteq> ps_PublicationGeneration s
             then (case sc_AcknowledgePublication ctl c (ps_PublicationGeneration s) of
                 (c, None) \<Rightarrow> (c, m\<lparr>mo_lastAck := ps_PublicationGeneration s, mo_publishCount := mo_publishCount m + 1\<rparr>, out)
               | (c, Some _) \<Rightarrow> (c, m, out))
             else (c, m, out)))"

definition PublishCount :: "Model \<Rightarrow> u64" where
  "PublishCount m = mo_publishCount m"

end
