(* ===== verification/Presentation.thy ===== *)
theory Presentation
  imports Interaction
begin

text \<open>
  What the interaction state of \<open>src/runtime\<close> promises to a user in front of the terminal: the
  order in which the focus moves, which keys are bound to which actions, that typed text survives
  the operations of the agent, and that the selected row of a table is followed when rows move.
\<close>

subsection \<open>Sample presentations\<close>

definition form_ops :: "Operation list" where
  "form_ops = [base_op\<lparr>op_ID := ''k'', op_Type := NodeActions,
     op_Props := ''{\"items\":[{\"key\":\"q\",\"label\":\"Quit\",\"action\":\"quit\"}]}''\<rparr>]"

definition form_doc :: Document where
  "form_doc = run_steps (doc_step DefaultLimits) sample_doc form_ops"

lemma doc_inv_run: "room_for_root limits \<Longrightarrow> doc_inv limits d \<Longrightarrow> doc_inv limits (run_steps (doc_step limits) d ops)"
  using docm.inv_run [of limits d ops] by (simp add: doc_good_def room_for_root_def)

lemma form_inv: "doc_inv DefaultLimits form_doc"
  unfolding form_doc_def by (rule doc_inv_run [OF room_DefaultLimits sample_inv])

definition table_op :: "string \<Rightarrow> Operation" where
  "table_op ids = base_op\<lparr>op_ID := ''t'', op_Type := NodeTable,
     op_Props := ''{\"columns\":[{\"title\":\"h\"}],\"selectable\":true,\"rows\":[[\"1\"],[\"2\"],[\"3\"]],\"row_ids\":['' @ ids @ '']}''\<rparr>"

definition table_doc :: "string \<Rightarrow> Document" where
  "table_doc ids = run_steps (doc_step DefaultLimits) New_Document [table_op ids]"

definition second_row :: State where
  "second_row = NewState\<lparr>s_TableSelections := fmap_of_list [(''t'', \<lparr>ts_Index = 1, ts_RowID = ''y''\<rparr>)]\<rparr>"

lemma table_inv: "doc_inv DefaultLimits (table_doc ids)"
  unfolding table_doc_def
  by (rule doc_inv_run [OF room_DefaultLimits]) (rule New_Document_inv [OF room_DefaultLimits])

lemma doc_inv_consistent: "doc_inv limits d \<Longrightarrow> consistent d"
  by (simp add: doc_inv_def)

lemma doc_inv_tree: "doc_inv limits d \<Longrightarrow> tree (d_Nodes d)"
  by (rule consistentD(1) [OF doc_inv_consistent])

subsection \<open>Focus order and key bindings\<close>

text \<open>The focus order is the document order: on a valid document \<open>FocusableIDs\<close> lists exactly
  the interactive nodes, each once, in the order of the depth-first traversal of the tree, and the
  fallback \<open>firstFocusable\<close> of a lost focus is the first of them, or no node when there is none.\<close>

lemma focus_order:
  assumes i: "doc_inv limits d"
  shows "\<exists>ids. FocusableIDs d = Ret ids \<and> ids = filter (can_focus (d_Nodes d)) (doc_order d) \<and> distinct ids \<and>
      set ids = {x. x \<noteq> root_id \<and> focus_valid d x} \<and>
      firstFocusable (Suc (msize (d_Nodes d))) (d_Nodes d) root_id = Some (head_or_empty ids)"
proof -
  note t = doc_inv_tree [OF i] and c = doc_inv_consistent [OF i]
  have "set (filter (can_focus (d_Nodes d)) (doc_order d)) = {x. x \<noteq> root_id \<and> focus_valid d x}"
    using doc_order(2) [OF t] by (auto simp: can_focus_def focus_valid_def lookup_simps split: option.splits)
  then show ?thesis
    using FocusableIDs_eq [OF t] firstFocusable_eq [OF c] doc_order(3) [OF t] by auto
qed

lemma buildBindings_cases:
  assumes t: "tree (d_Nodes d)"
  shows "(\<exists>b. buildBindings d = Ret (Inr b)) \<longleftrightarrow>
    (\<forall>x n. fmlookup (d_Nodes d) x = Some n \<longrightarrow> (\<exists>its. node_items n = Inr its)) \<and> distinct (map item_key (doc_items d))"
    (is "?l \<longleftrightarrow> ?items \<and> ?distinct")
proof
  have items: "?items \<longleftrightarrow> (\<forall>x \<in> set (doc_order d). \<exists>its. node_items (node_at (d_Nodes d) x) = Inr its)"
  proof -
    have "x \<in> set (doc_order d) \<longleftrightarrow> (\<exists>n. fmlookup (d_Nodes d) x = Some n)" for x
      unfolding doc_order(2) [OF t] by (simp add: lookup_simps)
    then show ?thesis by (metis node_at_Some)
  qed
  show "?l \<Longrightarrow> ?items \<and> ?distinct"
    using bind_all_items_ok buildBindings_Inr(1) [OF t] unfolding items by (fastforce simp: buildBindings_eq [OF t])
  assume r: "?items \<and> ?distinct"
  then have "bind_all (d_Nodes d) (doc_order d) fmempty = bind_pairs (doc_items d) fmempty"
    unfolding items doc_items_def by (intro bind_all_pairs) blast
  moreover have "\<exists>b. bind_pairs (doc_items d) fmempty = Inr b" using r by (auto simp: bind_pairs_Inr)
  ultimately show ?l by (simp add: buildBindings_eq [OF t])
qed

text \<open>Key bindings are built exactly: on a valid document \<open>buildBindings\<close> returns, it succeeds
  just when the items of every node decode and no key is bound twice in the whole document, and
  then the table holds a binding for a key exactly when an action item of some node carries that
  key, namely the binding of that item.\<close>

lemma bindings_exact:
  assumes i: "doc_inv limits d"
  shows "\<exists>r. buildBindings d = Ret r \<and>
    ((\<exists>b. r = Inr b) \<longleftrightarrow> (\<forall>x n. fmlookup (d_Nodes d) x = Some n \<longrightarrow> (\<exists>its. node_items n = Inr its)) \<and>
       distinct (map item_key (doc_items d))) \<and>
    (\<forall>b k bd. r = Inr b \<longrightarrow> (fmlookup b k = Some bd \<longleftrightarrow>
       (\<exists>x n its it. fmlookup (d_Nodes d) x = Some n \<and> node_items n = Inr its \<and> it \<in> set its \<and>
          it_Key it = k \<and> bd = binding_of x it)))"
proof -
  note t = doc_inv_tree [OF i]
  obtain r where r: "buildBindings d = Ret r" using buildBindings_eq [OF t] by blast
  have "fmlookup b k = Some bd \<longleftrightarrow> (\<exists>x n its it. fmlookup (d_Nodes d) x = Some n \<and> node_items n = Inr its \<and>
      it \<in> set its \<and> it_Key it = k \<and> bd = binding_of x it)" if "r = Inr b" for b k bd
    unfolding buildBindings_Inr(2) [OF t r [unfolded that]] using doc_items_iff [OF t] by blast
  moreover have "(\<exists>b. buildBindings d = Ret (Inr b)) \<longleftrightarrow> (\<exists>b. r = Inr b)" using r by simp
  ultimately show ?thesis using r unfolding buildBindings_cases [OF t] by (intro exI [of _ r]) blast
qed

subsection \<open>Reconciliation keeps what the user did\<close>

lemma Apply_accepted_consistent:
  assumes "limits_ok limits" "doc_inv limits prev" "Apply prev op limits = Ret (nxt, eff, None)"
  shows "consistent nxt"
  using Apply_keeps_inv [OF assms(2) _ assms(3)] assms(1) by (simp add: limits_ok_simps doc_inv_def)

text \<open>C19. Typed text is kept: after an accepted operation an input of the new document holds the
  text the user had typed into it, when it was an input before and the operation neither removed
  it, changed its type nor forces its value; in every other case it holds the \<open>value\<close> property of
  the new document.\<close>

theorem typed_text_kept:
  assumes "limits_ok limits" "doc_inv limits prev" "Apply prev op limits = Ret (nxt, eff, None)"
    and r: "Reconcile s prev nxt op eff = Ret (s', None)"
    and n: "fmlookup (d_Nodes nxt) x = Some n" "n_Type n = NodeInput"
  shows "fmlookup (s_InputValues s') x =
    (case fmlookup (s_InputValues s) x of
       Some typed \<Rightarrow>
         if x \<in> input_ids prev \<and> x \<notin> set (eff_Removed eff) \<and>
            \<not> (x = op_ID op \<and> (eff_TypeChanged eff \<or> ForceInputValue (eff_Policy eff)))
         then Some typed else Some (propString n ''value'')
     | None \<Rightarrow> Some (propString n ''value''))"
  unfolding Reconcile_Ret(1) [OF r Apply_accepted_consistent [OF assms(1-3)]]
  using n by (auto simp: reconcile_inputs_lookup cleared_inputs_def split: option.split)

theorem typed_text_kept_witness:
  "\<exists>nxt eff s'. Apply sample_doc (base_op\<lparr>op_Op := OpText, op_ID := ''t'', op_Text := ''x''\<rparr>) DefaultLimits = Ret (nxt, eff, None) \<and>
     Reconcile (NewState\<lparr>s_InputValues := fmap_of_list [(''i'', ''typed'')]\<rparr>) sample_doc nxt
       (base_op\<lparr>op_Op := OpText, op_ID := ''t'', op_Text := ''x''\<rparr>) eff = Ret (s', None) \<and>
     fmlookup (s_InputValues s') ''i'' = Some ''typed''"
proof -
  let ?op = "base_op\<lparr>op_Op := OpText, op_ID := ''t'', op_Text := ''x''\<rparr>"
  let ?s = "NewState\<lparr>s_InputValues := fmap_of_list [(''i'', ''typed'')]\<rparr>"
  have "case Apply sample_doc ?op DefaultLimits of
      Ret (nxt, eff, err) \<Rightarrow> err = None \<and> eff_Removed eff = [] \<and>
        (case fmlookup (d_Nodes nxt) ''i'' of Some n \<Rightarrow> n_Type n = NodeInput | None \<Rightarrow> False) \<and>
        (case Reconcile ?s sample_doc nxt ?op eff of Ret (s', err) \<Rightarrow> err = None | _ \<Rightarrow> False)
    | _ \<Rightarrow> False" by code_simp
  then obtain nxt eff s' n where r: "Apply sample_doc ?op DefaultLimits = Ret (nxt, eff, None)"
      "Reconcile ?s sample_doc nxt ?op eff = Ret (s', None)" "eff_Removed eff = []"
      "fmlookup (d_Nodes nxt) ''i'' = Some n" "n_Type n = NodeInput"
    by (auto split: go.splits option.splits)
  have "case fmlookup (d_Nodes sample_doc) ''i'' of Some n \<Rightarrow> n_Type n = NodeInput | None \<Rightarrow> False" by code_simp
  then have "''i'' \<in> input_ids sample_doc" by (auto simp: input_ids_def split: option.splits)
  moreover have "''i'' \<noteq> op_ID ?op" by simp
  ultimately have "fmlookup (s_InputValues s') ''i'' = Some ''typed''"
    using typed_text_kept [OF DefaultLimits_ok sample_inv r(1,2,4,5)] r(3) by simp
  with r show ?thesis by blast
qed

lemma clamp_tableSelectionAt:
  assumes "tableRows n \<noteq> []"
  shows "\<exists>ts. tableSelectionAt n i = Some ts \<and> ts_Index ts = max 0 (min (int (length (tableRows n)) - 1) i)"
proof -
  have "0 < int (length (tableRows n))" using assms by simp
  then show ?thesis using assms by (auto simp: tableSelectionAt_def Let_def)
qed

text \<open>C20. The selection follows the row: after an accepted operation a selectable table with rows
  has a selection within its rows that carries the id of its row. When the row that was selected
  is still there under its id, it is the one selected, wherever it moved; otherwise the old index,
  clamped into the new rows, is.\<close>

theorem selection_follows_row:
  assumes "limits_ok limits" "doc_inv limits prev" "Apply prev op limits = Ret (nxt, eff, None)"
    and r: "Reconcile s prev nxt op eff = Ret (s', None)"
    and n: "fmlookup (d_Nodes nxt) x = Some n" "selectable_table n" "tableRows n \<noteq> []"
  shows "\<exists>ts. fmlookup (s_TableSelections s') x = Some ts \<and> sel_ok n ts \<and>
    (\<forall>old. fmlookup (s_TableSelections s) x = Some old \<longrightarrow>
       (if ts_RowID old \<noteq> [] \<and> length (tableRowIDs n) = length (tableRows n) \<and> ts_RowID old \<in> set (tableRowIDs n)
        then ts_RowID ts = ts_RowID old
        else ts_Index ts = max 0 (min (int (length (tableRows n)) - 1) (ts_Index old))))"
proof -
  note R = Reconcile_Ret(2) [OF r Apply_accepted_consistent [OF assms(1-3)], of x]
  have e: "fmlookup (s_TableSelections s') x = reconcileSelection n (fmlookup (s_TableSelections s) x)"
    using n by (simp add: R)
  then obtain ts where ts: "fmlookup (s_TableSelections s') x = Some ts"
    using reconcileSelection_None [of n] n(2,3) by (metis not_None_eq)
  have cl: "ts_Index t = max 0 (min (int (length (tableRows n)) - 1) i)" if "tableSelectionAt n i = Some t" for t i
    using clamp_tableSelectionAt [OF n(3), of i] that by auto
  have "if ts_RowID old \<noteq> [] \<and> length (tableRowIDs n) = length (tableRows n) \<and> ts_RowID old \<in> set (tableRowIDs n)
      then ts_RowID ts = ts_RowID old
      else ts_Index ts = max 0 (min (int (length (tableRows n)) - 1) (ts_Index old))"
    if old: "fmlookup (s_TableSelections s) x = Some old" for old
    using ts n(2,3) row_index_None [of "ts_RowID old" 0 "tableRowIDs n"] unfolding e old
    by (auto simp: reconcileSelection_def selectable_table_def Let_def cl split: option.splits if_splits)
  then show ?thesis using ts reconcileSelection_ok [of n] e by (intro exI [of _ ts]) auto
qed

theorem selection_follows_row_witness:
  "\<exists>nxt eff s' ts. Apply (table_doc ''\"x\",\"y\",\"z\"'') (table_op ''\"z\",\"x\",\"y\"'') DefaultLimits = Ret (nxt, eff, None) \<and>
     Reconcile second_row (table_doc ''\"x\",\"y\",\"z\"'') nxt (table_op ''\"z\",\"x\",\"y\"'') eff = Ret (s', None) \<and>
     fmlookup (s_TableSelections s') ''t'' = Some ts \<and> ts_RowID ts = ''y''"
proof -
  let ?d = "table_doc ''\"x\",\"y\",\"z\"''"
  let ?op = "table_op ''\"z\",\"x\",\"y\"''"
  have "case Apply ?d ?op DefaultLimits of
      Ret (nxt, eff, err) \<Rightarrow> err = None \<and>
        (case fmlookup (d_Nodes nxt) ''t'' of
           Some n \<Rightarrow> selectable_table n \<and> length (tableRows n) = 3 \<and> tableRowIDs n = [''z'', ''x'', ''y'']
         | None \<Rightarrow> False) \<and>
        (case Reconcile second_row ?d nxt ?op eff of Ret (s', err) \<Rightarrow> err = None | _ \<Rightarrow> False)
    | _ \<Rightarrow> False" by code_simp
  then obtain nxt eff s' n where r: "Apply ?d ?op DefaultLimits = Ret (nxt, eff, None)"
      "Reconcile second_row ?d nxt ?op eff = Ret (s', None)" "fmlookup (d_Nodes nxt) ''t'' = Some n"
      "selectable_table n" "length (tableRows n) = 3" "tableRowIDs n = [''z'', ''x'', ''y'']"
    by (auto split: go.splits option.splits)
  have "tableRows n \<noteq> []" using r(5) by auto
  from selection_follows_row [OF DefaultLimits_ok table_inv r(1,2,3,4) this]
  obtain ts where "fmlookup (s_TableSelections s') ''t'' = Some ts" "ts_RowID ts = ''y''"
    using r(5,6) by (auto simp: second_row_def)
  with r(1,2) show ?thesis by blast
qed

subsection \<open>Moving the selection\<close>

text \<open>Moving the selection clamps at the ends: in a selectable table with rows, a move by \<open>delta\<close>
  whose sum with the current index is a machine integer selects the row at that sum, or the first
  or last row when the sum is out of range, and touches no other selection; the render generation
  advances exactly when the selection changed.\<close>

lemma MoveTableSelection_clamps:
  assumes i: "rt_inv d s" and n: "fmlookup (d_Nodes d) x = Some n" "selectable_table n" "tableRows n \<noteq> []"
    and range: "in_int (cur + delta)"
    and cur: "fmlookup (s_TableSelections s) x = Some old" "ts_Index old = cur"
  shows "\<exists>s' ts. MoveTableSelection s d x delta = (s', None) \<and> rt_inv d s' \<and>
    fmlookup (s_TableSelections s') x = Some ts \<and>
    ts_Index ts = max 0 (min (int (length (tableRows n)) - 1) (cur + delta)) \<and>
    (\<forall>y. y \<noteq> x \<longrightarrow> fmlookup (s_TableSelections s') y = fmlookup (s_TableSelections s) y) \<and>
    s_RenderGeneration s' = s_RenderGeneration s + (if ts = old then 0 else 1)"
proof -
  let ?r = "MoveTableSelection s d x delta"
  obtain ts where ts: "tableSelectionAt n (cur + delta) = Some ts"
      "ts_Index ts = max 0 (min (int (length (tableRows n)) - 1) (cur + delta))"
    using clamp_tableSelectionAt [OF n(3)] by blast
  have m: "?r = SetTableSelection s d x (cur + delta)"
    using n cur by (simp add: MoveTableSelection_def selectable_table_def range)
  have "?r = (if Some old = Some ts then (s, None)
      else (s\<lparr>s_TableSelections := fmupd x ts (s_TableSelections s), s_RenderGeneration := s_RenderGeneration s + 1\<rparr>, None))"
    unfolding m by (subst SetTableSelection_eq) (use n(1,2) ts(1) cur(1) in \<open>simp add: set_or_delete_def\<close>)
  moreover have "rt_inv d (fst ?r)" by (rule MoveTableSelection_inv [OF i])
  ultimately show ?thesis using ts(2) cur(1) by (cases "old = ts") auto
qed

lemma first_table_inv:
  "\<exists>d eff s. Apply New_Document (table_op ''\"x\",\"y\",\"z\"'') DefaultLimits = Ret (d, eff, None) \<and>
     Reconcile NewState New_Document d (table_op ''\"x\",\"y\",\"z\"'') eff = Ret (s, None) \<and> rt_inv d s \<and>
     (case fmlookup (d_Nodes d) ''t'' of Some n \<Rightarrow> selectable_table n \<and> length (tableRows n) = 3 | None \<Rightarrow> False) \<and>
     (case fmlookup (s_TableSelections s) ''t'' of Some ts \<Rightarrow> ts_Index ts = 0 | None \<Rightarrow> False)"
proof -
  let ?op = "table_op ''\"x\",\"y\",\"z\"''"
  have "case Apply New_Document ?op DefaultLimits of
      Ret (d, eff, err) \<Rightarrow> err = None \<and>
        (case fmlookup (d_Nodes d) ''t'' of Some n \<Rightarrow> selectable_table n \<and> length (tableRows n) = 3 | None \<Rightarrow> False) \<and>
        (case Reconcile NewState New_Document d ?op eff of
           Ret (s, err) \<Rightarrow> err = None \<and> (case fmlookup (s_TableSelections s) ''t'' of Some ts \<Rightarrow> ts_Index ts = 0 | None \<Rightarrow> False)
         | _ \<Rightarrow> False)
    | _ \<Rightarrow> False" by code_simp
  then obtain d eff s where r: "Apply New_Document ?op DefaultLimits = Ret (d, eff, None)"
      "Reconcile NewState New_Document d ?op eff = Ret (s, None)"
      "case fmlookup (d_Nodes d) ''t'' of Some n \<Rightarrow> selectable_table n \<and> length (tableRows n) = 3 | None \<Rightarrow> False"
      "case fmlookup (s_TableSelections s) ''t'' of Some ts \<Rightarrow> ts_Index ts = 0 | None \<Rightarrow> False"
    by (auto split: go.splits)
  have n: "doc_inv DefaultLimits New_Document" by (rule New_Document_inv [OF room_DefaultLimits])
  have "rt_inv d s"
    by (rule Reconcile_keeps_inv [OF doc_inv_consistent [OF n] Apply_accepted_consistent [OF DefaultLimits_ok n r(1)]
        NewState_inv r(1,2)])
  with r show ?thesis by blast
qed

text \<open>The index is a machine integer, so a large enough move from any row but the first one goes to
  the first row and not to the last.\<close>

lemma MoveTableSelection_wraps:
  assumes "rt_inv d s" "fmlookup (d_Nodes d) x = Some n" "selectable_table n"
    and old: "fmlookup (s_TableSelections s) x = Some old" "1 \<le> ts_Index old" "ts_Index old < 2 ^ 63"
  shows "\<exists>s' ts. MoveTableSelection s d x (2 ^ 63 - 1) = (s', None) \<and>
    fmlookup (s_TableSelections s') x = Some ts \<and> ts_Index ts = 0"
proof -
  let ?i = "wrap_int (ts_Index old + (2 ^ 63 - 1))"
  have rows: "tableRows n \<noteq> []"
    using assms by (auto simp: rt_inv_def selections_ok_def sel_ok_def dest!: spec [of _ x])
  have neg: "?i < 0"
  proof -
    have "(ts_Index old - 1 + 2 ^ 64) mod 2 ^ 64 = ts_Index old - 1"
      unfolding mod_add_self2 using old(2,3) by (intro mod_pos_pos_trivial) simp_all
    moreover have "ts_Index old + (2 ^ 63 - 1) + 2 ^ 63 = ts_Index old - 1 + 2 ^ 64" by simp
    ultimately have "?i = ts_Index old - 1 - 2 ^ 63" unfolding wrap_int_def by metis
    then show ?thesis using old(3) by simp
  qed
  obtain ts where ts: "tableSelectionAt n ?i = Some ts"
      "ts_Index ts = max 0 (min (int (length (tableRows n)) - 1) ?i)"
    using clamp_tableSelectionAt [OF rows] by blast
  have "MoveTableSelection s d x (2 ^ 63 - 1) = SetTableSelection s d x ?i"
    using assms(2,3) old(1) rows by (simp add: MoveTableSelection_def selectable_table_def)
  also have "\<dots> = (if Some old = Some ts then (s, None)
      else (s\<lparr>s_TableSelections := fmupd x ts (s_TableSelections s), s_RenderGeneration := s_RenderGeneration s + 1\<rparr>, None))"
    by (subst SetTableSelection_eq) (use assms(2,3) ts(1) old(1) in \<open>simp add: set_or_delete_def\<close>)
  finally show ?thesis using ts(2) neg old(1) by (cases "old = ts") auto
qed

end
