(* ===== verification/Routing.thy ===== *)
theory Routing
  imports Terminal Presentation Publication
begin

text \<open>
  Correctness of the terminal model. What it needs of the semantic state is the contract
  \<open>semantic_controller\<close>; the in-process controller keeps it, and the results about typing and
  focus are proved from the contract alone. The timer and the acknowledgement of frames are shown
  on runs of the message loop.
\<close>

subsection \<open>The contract of the controller\<close>

definition input_node :: "PresentationSnapshot \<Rightarrow> string \<Rightarrow> bool" where
  "input_node s x \<longleftrightarrow> (case fmlookup (d_Nodes (ps_Document s)) x of Some n \<Rightarrow> n_Type n = NodeInput | None \<Rightarrow> False)"

abbreviation text_of :: "PresentationSnapshot \<Rightarrow> string \<Rightarrow> string" where
  "text_of s \<equiv> str_at (ps_InputValues s)"

text \<open>What a local interaction leaves alone.\<close>

definition same_document :: "PresentationSnapshot \<Rightarrow> PresentationSnapshot \<Rightarrow> bool" where
  "same_document s s' \<longleftrightarrow> ps_Document s' = ps_Document s \<and> ps_Bindings s' = ps_Bindings s \<and>
     ps_PublicationGeneration s' = ps_PublicationGeneration s \<and> ps_PublicationPending s' = ps_PublicationPending s"

lemma same_document_trans: "same_document s t \<Longrightarrow> same_document t u \<Longrightarrow> same_document s u"
  by (simp add: same_document_def)

locale semantic_controller =
  fixes ctl :: "'c SemanticController"
    and inv :: "'c \<Rightarrow> bool"
  assumes set_input: "inv c \<Longrightarrow> input_node (sc_Snapshot ctl c) x \<Longrightarrow> sc_SetInput ctl c x v = (c', err) \<Longrightarrow>
      inv c' \<and> same_document (sc_Snapshot ctl c) (sc_Snapshot ctl c') \<and>
      ps_FocusedID (sc_Snapshot ctl c') = ps_FocusedID (sc_Snapshot ctl c) \<and>
      text_of (sc_Snapshot ctl c') = (text_of (sc_Snapshot ctl c))(x := v)"
    and submit: "inv c \<Longrightarrow> sc_Submit ctl c x = (c', err) \<Longrightarrow>
      inv c' \<and> same_document (sc_Snapshot ctl c) (sc_Snapshot ctl c') \<and>
      ps_FocusedID (sc_Snapshot ctl c') = ps_FocusedID (sc_Snapshot ctl c) \<and>
      text_of (sc_Snapshot ctl c') = text_of (sc_Snapshot ctl c)"
    and focus: "inv c \<Longrightarrow> FocusableIDs (ps_Document (sc_Snapshot ctl c)) = Ret ids \<Longrightarrow> x \<in> set ids \<Longrightarrow>
      sc_Focus ctl c x = (c', err) \<Longrightarrow>
      inv c' \<and> same_document (sc_Snapshot ctl c) (sc_Snapshot ctl c') \<and> ps_FocusedID (sc_Snapshot ctl c') = x \<and>
      text_of (sc_Snapshot ctl c') = text_of (sc_Snapshot ctl c)"
    and order: "inv c \<Longrightarrow> \<exists>ids. FocusableIDs (ps_Document (sc_Snapshot ctl c)) = Ret ids \<and> distinct ids"

subsection \<open>An editor of one line\<close>

text \<open>The line the user edits, as the runes before and after the caret, and what a key does to it.\<close>

type_synonym line = "int list \<times> int list"

fun edit :: "KeyType \<Rightarrow> int list \<Rightarrow> line \<Rightarrow> line" where
  "edit KeyLeft rs (before, after) = (if before = [] then ([], after) else (butlast before, last before # after))"
| "edit KeyRight rs (before, []) = (before, [])"
| "edit KeyRight rs (before, r # after) = (before @ [r], after)"
| "edit KeyHome rs (before, after) = ([], before @ after)"
| "edit KeyEnd rs (before, after) = (before @ after, [])"
| "edit KeyBackspace rs (before, after) = (butlast before, after)"
| "edit KeyDelete rs (before, after) = (before, tl after)"
| "edit KeyRunes rs (before, after) = (before @ rs, after)"
| "edit KeySpace rs (before, after) = (before @ [32], after)"
| "edit _ rs (before, after) = (before, after)"

definition edit_key :: "KeyType \<Rightarrow> bool" where
  "edit_key t \<longleftrightarrow> t \<in> {KeyLeft, KeyRight, KeyHome, KeyEnd, KeyBackspace, KeyDelete, KeyRunes, KeySpace, KeyEnter}"

definition caret_of :: "Model \<Rightarrow> string \<Rightarrow> nat \<Rightarrow> nat" where
  "caret_of m x n = nat (clampInt (case fmlookup (ix_InputCarets (mo_interaction m)) x of None \<Rightarrow> int n | Some k \<Rightarrow> k) 0 (int n))"

definition line_of :: "PresentationSnapshot \<Rightarrow> Model \<Rightarrow> string \<Rightarrow> line" where
  "line_of s m x = (let rs = runes (text_of s x); k = caret_of m x (length rs) in (take k rs, drop k rs))"

lemma caret_of_le: "caret_of m x n \<le> n"
  by (auto simp: caret_of_def clampInt_def)

lemma caret_set [simp]: "k \<le> n \<Longrightarrow> caret_of (set_caret x (int k) m) x n = k"
  by (simp add: caret_of_def set_caret_def clampInt_def)

lemma string_of_runes_valid: "list_all valid_rune rs \<Longrightarrow> string_of_runes rs = of_runes rs"
  unfolding string_of_runes_def by (rule arg_cong [where f = of_runes], rule map_idI) (auto simp: list_all_iff valid_rune_def)

lemma runes_string_of_runes: "list_all valid_rune rs \<Longrightarrow> runes (string_of_runes rs) = rs"
  by (simp add: string_of_runes_valid runes_of_runes)

text \<open>A line with the given runes around the caret.\<close>

lemma line_of_split:
  assumes "runes (text_of s x) = before @ after" "caret_of m x (length (before @ after)) = length before"
  shows "line_of s m x = (before, after)"
  using assms by (simp add: line_of_def)

lemma edit_valid:
  assumes "list_all valid_rune rs" "list_all valid_rune (fst l @ snd l)"
  shows "list_all valid_rune (fst (edit t rs l) @ snd (edit t rs l))"
proof -
  have tl: "set (tl xs) \<subseteq> set xs" for xs :: "int list" by (cases xs) auto
  have "valid_rune 32" by (simp add: valid_rune_def)
  then show ?thesis using assms
    by (cases "(t, rs, l)" rule: edit.cases) (auto simp: list_all_iff dest: in_set_butlastD subsetD [OF tl])
qed

lemma handleInputKey_line:
  assumes v: "runes val = before @ after" and k: "caret_of m x (length (before @ after)) = length before"
    and t: "edit_key (km_Type msg)" and e: "edit (km_Type msg) (km_Runes msg) (before, after) = (before', after')"
  shows "\<exists>c'. handleInputKey ctl c m x val msg = (c', set_caret x (int (length before')) m, True) \<and>
    (c' = c \<and> before' @ after' = before @ after \<or> c' = fst (sc_SetInput ctl c x (string_of_runes (before' @ after'))) \<or>
     c' = fst (sc_Submit ctl c x) \<and> before' @ after' = before @ after)"
proof -
  let ?n = "int (length (before @ after))"
  have c: "clampInt (case fmlookup (ix_InputCarets (mo_interaction m)) x of None \<Rightarrow> ?n | Some k \<Rightarrow> k) 0 ?n = int (length before)"
    (is "?z = _")
  proof -
    have "0 \<le> ?z" by (simp add: clampInt_def)
    moreover have "nat ?z = length before" using k unfolding caret_of_def by (simp only: length_append)
    ultimately show ?thesis by linarith
  qed
  have bl: "take (nat (int (length before) - 1)) (before @ after) = butlast before" "int (length before) - 1 = int (length (butlast before))"
    if "before \<noteq> []" using that by (auto simp: butlast_conv_take nat_diff_distrib Suc_leI of_nat_diff)
  have bll: "butlast before @ last before # after = before @ after" if "before \<noteq> []"
    using that by (metis append.assoc append_Cons append_Nil append_butlast_last_id)
  have dr: "drop (nat (int (length before) + 1)) (before @ after) = tl after"
    by (simp add: nat_add_distrib drop_Suc)
  note H = handleInputKey_def [of ctl c m x val msg, unfolded Let_def v c]
  consider (left) "km_Type msg = KeyLeft" | (right) "km_Type msg = KeyRight" | (home) "km_Type msg = KeyHome" | (last) "km_Type msg = KeyEnd"
    | (backspace) "km_Type msg = KeyBackspace" | (del) "km_Type msg = KeyDelete" | (rs) "km_Type msg = KeyRunes"
    | (space) "km_Type msg = KeySpace" | (enter) "km_Type msg = KeyEnter"
    using t by (auto simp: edit_key_def)
  then show ?thesis
  proof cases
    case left
    then show ?thesis using e H bl(2) bll by (cases "before = []") auto
  next
    case right
    then show ?thesis using e H by (cases after) (auto simp: add.commute)
  next
    case home
    then show ?thesis using e H by auto
  next
    case last
    then show ?thesis using e H by auto
  next
    case backspace
    then show ?thesis using e H bl by (cases "before = []") auto
  next
    case del
    then show ?thesis using e H dr by (cases after) auto
  next
    case rs
    then show ?thesis using e H by (cases "km_Runes msg = []") auto
  next
    case space
    then show ?thesis using e H by (auto simp: add.commute)
  next
    case enter
    then show ?thesis using e H by auto
  qed
qed

text \<open>The order of the focus as a cycle.\<close>

lemma index_of_nth: "distinct ids \<Longrightarrow> i < length ids \<Longrightarrow> index_of (ids ! i) ids = int i"
proof -
  assume d: "distinct ids" and i: "i < length ids"
  have "find (\<lambda>j. ids ! j = ids ! i) [0..<length ids] = Some i"
    unfolding find_Some_iff using d i by (intro exI [of _ i]) (auto simp: nth_eq_iff_index_eq)
  then show ?thesis by (simp add: index_of_def)
qed

lemma index_of_missing: "x \<notin> set ids \<Longrightarrow> index_of x ids = -1"
proof -
  assume "x \<notin> set ids"
  then have "find (\<lambda>j. ids ! j = x) [0..<length ids] = None" by (auto simp: find_None_iff set_conv_nth)
  then show ?thesis by (simp add: index_of_def)
qed

lemma index_of_bounds: "ids \<noteq> [] \<Longrightarrow> index_of x ids < int (length ids)" "-1 \<le> index_of x ids"
  by (auto simp: index_of_def find_Some_iff split: option.splits)

context semantic_controller
begin

lemma typing:
  assumes i: "inv c" and x: "input_node (sc_Snapshot ctl c) x" and t: "edit_key (km_Type msg)" and r: "list_all valid_rune (km_Runes msg)"
  shows "\<exists>c' m'. handleInputKey ctl c m x (text_of (sc_Snapshot ctl c) x) msg = (c', m', True) \<and> inv c' \<and>
    same_document (sc_Snapshot ctl c) (sc_Snapshot ctl c') \<and> ps_FocusedID (sc_Snapshot ctl c') = ps_FocusedID (sc_Snapshot ctl c) \<and>
    (\<forall>y. y \<noteq> x \<longrightarrow> text_of (sc_Snapshot ctl c') y = text_of (sc_Snapshot ctl c) y) \<and>
    line_of (sc_Snapshot ctl c') m' x = edit (km_Type msg) (km_Runes msg) (line_of (sc_Snapshot ctl c) m x)"
proof -
  let ?s = "sc_Snapshot ctl c" and ?v = "text_of (sc_Snapshot ctl c) x"
  define k where "k = caret_of m x (length (runes ?v))"
  define b a where "b = take k (runes ?v)" and "a = drop k (runes ?v)"
  have ba: "runes ?v = b @ a" by (simp add: b_def a_def)
  have kl: "k \<le> length (runes ?v)" unfolding k_def by (rule caret_of_le)
  then have k: "caret_of m x (length (b @ a)) = length b" unfolding ba [symmetric] by (simp add: b_def k_def [symmetric])
  have l: "line_of ?s m x = (b, a)" by (simp add: line_of_def Let_def k_def a_def b_def)
  obtain b' a' where e: "edit (km_Type msg) (km_Runes msg) (b, a) = (b', a')" by fastforce
  have va: "list_all valid_rune (b @ a)" using runes_valid [of ?v] ba by simp
  have "list_all valid_rune (b' @ a')" using edit_valid [OF r, of "(b, a)" "km_Type msg"] va e by simp
  then have rt: "runes (string_of_runes (b' @ a')) = b' @ a'" by (rule runes_string_of_runes)
  obtain c' where h: "handleInputKey ctl c m x ?v msg = (c', set_caret x (int (length b')) m, True)"
      "c' = c \<and> b' @ a' = b @ a \<or> c' = fst (sc_SetInput ctl c x (string_of_runes (b' @ a'))) \<or> c' = fst (sc_Submit ctl c x) \<and> b' @ a' = b @ a"
    using handleInputKey_line [OF ba k t e, of ctl c] by blast
  have "inv c' \<and> same_document ?s (sc_Snapshot ctl c') \<and> ps_FocusedID (sc_Snapshot ctl c') = ps_FocusedID ?s \<and>
      (\<forall>y. y \<noteq> x \<longrightarrow> text_of (sc_Snapshot ctl c') y = text_of ?s y) \<and> runes (text_of (sc_Snapshot ctl c') x) = b' @ a'"
    using h(2)
  proof (elim disjE)
    assume "c' = c \<and> b' @ a' = b @ a"
    then show ?thesis using i ba by (simp add: same_document_def)
  next
    assume c': "c' = fst (sc_SetInput ctl c x (string_of_runes (b' @ a')))"
    show ?thesis using set_input [OF i x prod.collapse [symmetric], of "string_of_runes (b' @ a')"] rt unfolding c' by simp
  next
    assume "c' = fst (sc_Submit ctl c x) \<and> b' @ a' = b @ a"
    then show ?thesis using submit [OF i prod.collapse [symmetric], of x] ba by simp
  qed
  moreover have "line_of (sc_Snapshot ctl c') (set_caret x (int (length b')) m) x = (b', a')"
    if "runes (text_of (sc_Snapshot ctl c') x) = b' @ a'"
    using that by (intro line_of_split) simp_all
  ultimately show ?thesis using h(1) e unfolding l by auto
qed

lemma focus_moves:
  assumes i: "inv c" and ids: "FocusableIDs (ps_Document (sc_Snapshot ctl c)) = Ret ids" and ne: "ids \<noteq> []"
  shows "\<exists>c'. focusNext ctl c = Ret c' \<and> inv c' \<and> same_document (sc_Snapshot ctl c) (sc_Snapshot ctl c') \<and>
      text_of (sc_Snapshot ctl c') = text_of (sc_Snapshot ctl c) \<and>
      ps_FocusedID (sc_Snapshot ctl c') = ids ! nat ((index_of (ps_FocusedID (sc_Snapshot ctl c)) ids + 1) mod int (length ids))"
    "\<exists>c'. focusPrev ctl c = Ret c' \<and> inv c' \<and> same_document (sc_Snapshot ctl c) (sc_Snapshot ctl c') \<and>
      text_of (sc_Snapshot ctl c') = text_of (sc_Snapshot ctl c) \<and>
      ps_FocusedID (sc_Snapshot ctl c') = (let k = index_of (ps_FocusedID (sc_Snapshot ctl c)) ids in
        ids ! nat ((if k \<le> 0 then int (length ids) else k) - 1))"
proof -
  let ?f = "ps_FocusedID (sc_Snapshot ctl c)"
  have n: "0 < int (length ids)" using ne by simp
  have b: "index_of ?f ids < int (length ids)" "-1 \<le> index_of ?f ids"
    using index_of_bounds ne by auto
  have F: "\<exists>c'. Ret (fst (sc_Focus ctl c x)) = Ret c' \<and> inv c' \<and> same_document (sc_Snapshot ctl c) (sc_Snapshot ctl c') \<and>
      text_of (sc_Snapshot ctl c') = text_of (sc_Snapshot ctl c) \<and> ps_FocusedID (sc_Snapshot ctl c') = x" if "x \<in> set ids" for x
    using focus [OF i ids that prod.collapse [symmetric]] by simp
  have "nat ((index_of ?f ids + 1) mod int (length ids)) < length ids" using n by (simp add: nat_less_iff)
  from F [OF nth_mem [OF this]]
  show "\<exists>c'. focusNext ctl c = Ret c' \<and> inv c' \<and> same_document (sc_Snapshot ctl c) (sc_Snapshot ctl c') \<and>
      text_of (sc_Snapshot ctl c') = text_of (sc_Snapshot ctl c) \<and>
      ps_FocusedID (sc_Snapshot ctl c') = ids ! nat ((index_of ?f ids + 1) mod int (length ids))"
    using ne by (simp add: focusNext_def ids Let_def)
  have "nat ((if index_of ?f ids \<le> 0 then int (length ids) else index_of ?f ids) - 1) < length ids"
    using b n by (auto simp: nat_less_iff)
  from F [OF nth_mem [OF this]]
  show "\<exists>c'. focusPrev ctl c = Ret c' \<and> inv c' \<and> same_document (sc_Snapshot ctl c) (sc_Snapshot ctl c') \<and>
      text_of (sc_Snapshot ctl c') = text_of (sc_Snapshot ctl c) \<and>
      ps_FocusedID (sc_Snapshot ctl c') = (let k = index_of ?f ids in ids ! nat ((if k \<le> 0 then int (length ids) else k) - 1))"
    using ne by (simp add: focusPrev_def ids Let_def)
qed

end

text \<open>The engine behind the in-process controller keeps the contract.\<close>

lemma str_at_upd: "str_at (fmupd x v m) = (str_at m)(x := v)"
  by (rule ext) (simp add: str_at_def)

lemma SetInput_snapshot:
  assumes "engine_inv e" "SetInput e x v = (e', err)" "input_node (snapshot e) x"
  shows "engine_inv e' \<and> same_document (snapshot e) (snapshot e') \<and> ps_FocusedID (snapshot e') = ps_FocusedID (snapshot e) \<and>
    text_of (snapshot e') = (text_of (snapshot e))(x := v)"
proof -
  have "engine_inv e'" using engine_step_inv [OF assms(1), of "ESetInput x v"] assms(2) by (simp add: engine_step_def)
  then show ?thesis using assms(2,3)
    by (auto simp: SetInput_def SetInputValue_def input_node_def snapshot_def same_document_def needsPublishLocked_def
        NeedsPublish_def str_at_upd fun_upd_idem split: option.splits if_splits)
qed

lemma Submit_snapshot:
  assumes "engine_inv e" "Submit e x = (e', err)"
  shows "engine_inv e' \<and> same_document (snapshot e) (snapshot e') \<and> ps_FocusedID (snapshot e') = ps_FocusedID (snapshot e) \<and>
    text_of (snapshot e') = text_of (snapshot e)"
proof -
  have "engine_inv e'" using engine_step_inv [OF assms(1), of "ESubmit x"] assms(2) by (simp add: engine_step_def)
  then show ?thesis using assms(2)
    by (auto simp: Submit_def enqueue_critical_def snapshot_def same_document_def needsPublishLocked_def Let_def
        split: option.splits if_splits prod.splits)
qed

lemma Focus_snapshot:
  assumes i: "engine_inv e" and f: "Focus e x = (e', err)" and ids: "FocusableIDs (en_doc e) = Ret ids" "x \<in> set ids"
  shows "engine_inv e' \<and> same_document (snapshot e) (snapshot e') \<and> ps_FocusedID (snapshot e') = x \<and>
    text_of (snapshot e') = text_of (snapshot e)"
proof -
  have "engine_inv e'" using engine_step_inv [OF i, of "EFocus x"] f by (simp add: engine_step_def)
  moreover have "can_focus (d_Nodes (en_doc e)) x"
    using ids FocusableIDs_eq [OF doc_inv_tree [OF engine_invD(2) [OF i]]] by auto
  ultimately show ?thesis using f
    by (auto simp: Focus_def SetLocalFocus_def can_focus_def snapshot_def same_document_def needsPublishLocked_def NeedsPublish_def
        split: option.splits if_splits prod.splits)
qed

lemma FocusableIDs_engine: "engine_inv e \<Longrightarrow> \<exists>ids. FocusableIDs (en_doc e) = Ret ids \<and> distinct ids"
  using FocusableIDs_eq doc_order(3) doc_inv_tree engine_invD(2) by fastforce

lemma local_simps [simp]:
  "sc_Snapshot (localSemanticController env) (e, r) = snapshot e"
  "sc_SetInput (localSemanticController env) (e, r) x v = ((fst (SetInput e x v), r), snd (SetInput e x v))"
  "sc_Submit (localSemanticController env) (e, r) x = ((fst (Submit e x), r), snd (Submit e x))"
  "sc_Focus (localSemanticController env) (e, r) x = ((fst (Focus e x), r), snd (Focus e x))"
  "sc_AcknowledgePublication (localSemanticController env) (e, r) g = ((fst (PublishGeneration e g), r), snd (snd (PublishGeneration e g)))"
  "sc_ConnectionError (localSemanticController env) (e, r) = None"
  by (simp_all add: localSemanticController_def case_prod_beta)

lemma ps_Document_snapshot [simp]: "ps_Document (snapshot e) = en_doc e"
  by (simp add: snapshot_def)

interpretation local_controller: semantic_controller "localSemanticController env" "\<lambda>(e, r). engine_inv e" for env
proof (unfold_locales, goal_cases)
  case (1 c x v c' err)
  then show ?case using SetInput_snapshot [of "fst c" x v, OF _ prod.collapse [symmetric]] by (cases c) auto
next
  case (2 c x c' err)
  then show ?case using Submit_snapshot [of "fst c" x, OF _ prod.collapse [symmetric]] by (cases c) auto
next
  case (3 c ids x c' err)
  then show ?case using Focus_snapshot [of "fst c" x, OF _ prod.collapse [symmetric]] by (cases c) auto
next
  case (4 c)
  then show ?case using FocusableIDs_engine [of "fst c"] by (cases c) simp
qed

subsection \<open>Keys\<close>

lemma interaction_animation [simp]:
  "mo_interaction (fst (animationCommandIfNeeded ctl c m)) = mo_interaction m" "mo_interaction (stopAnimation m) = mo_interaction m"
  by (simp_all add: animationCommandIfNeeded_def stopAnimation_def Let_def)

lemma line_of_interaction: "mo_interaction m = mo_interaction m' \<Longrightarrow> line_of s m = line_of s m'"
  by (rule ext) (simp add: line_of_def caret_of_def)

lemma handleKey_edit:
  assumes "edit_key (km_Type msg)" "ps_FocusedID (sc_Snapshot ctl c) = x" "x \<noteq> []" "input_node (sc_Snapshot ctl c) x"
    and "handleInputKey ctl c m x (text_of (sc_Snapshot ctl c) x) msg = (c', m', True)"
  shows "\<exists>cmds. handleKey ctl R c m msg = Ret (c', fst (animationCommandIfNeeded ctl c' m'), cmds)"
proof -
  have "focused_key ctl R c m (sc_Snapshot ctl c) msg = (c', m', True)"
    using assms by (auto simp: focused_key_def input_node_def split: option.splits)
  moreover have "km_Type msg \<notin> {KeyCtrlC, KeyTab, KeyShiftTab}" using assms(1) by (auto simp: edit_key_def)
  ultimately show ?thesis
    by (cases "animationCommandIfNeeded ctl c' m'") (auto simp: handleKey_def Let_def split: KeyType.split)
qed

text \<open>C24. Typing into a focused input is an editor of one line: for every editing key the value the
  engine holds, cut at the caret of the terminal, becomes what the key does to the runes before
  and after the caret; the caret stays inside the text, no other input, the document and no
  pending publication is touched, and the invariant of the engine is kept.\<close>

theorem typing_refines_editor:
  assumes "engine_inv e" "s_FocusedID (en_state e) = x" "x \<noteq> []" "input_node (snapshot e) x"
    and "edit_key (km_Type msg)" "list_all valid_rune (km_Runes msg)"
  shows "\<exists>e' m' cmds. handleKey (localSemanticController env) R (e, r) m msg = Ret ((e', r), m', cmds) \<and> engine_inv e' \<and>
    line_of (snapshot e') m' x = edit (km_Type msg) (km_Runes msg) (line_of (snapshot e) m x) \<and>
    s_FocusedID (en_state e') = x \<and> same_document (snapshot e) (snapshot e') \<and>
    (\<forall>y. y \<noteq> x \<longrightarrow> text_of (snapshot e') y = text_of (snapshot e) y)"
proof -
  let ?ctl = "localSemanticController env"
  obtain c' m' where h: "handleInputKey ?ctl (e, r) m x (text_of (snapshot e) x) msg = (c', m', True)"
      "case c' of (e, r) \<Rightarrow> engine_inv e" "same_document (snapshot e) (sc_Snapshot ?ctl c')"
      "ps_FocusedID (sc_Snapshot ?ctl c') = ps_FocusedID (snapshot e)"
      "\<forall>y. y \<noteq> x \<longrightarrow> text_of (sc_Snapshot ?ctl c') y = text_of (snapshot e) y"
      "line_of (sc_Snapshot ?ctl c') m' x = edit (km_Type msg) (km_Runes msg) (line_of (snapshot e) m x)"
    using local_controller.typing [of "(e, r)" env x msg m] assms by auto
  obtain e' r' where c': "c' = (e', r')" by fastforce
  have "r' = r" using h(1) assms(5) unfolding handleInputKey_def c'
    by (auto simp: edit_key_def Let_def split: KeyType.splits if_splits)
  obtain cmds where "handleKey ?ctl R (e, r) m msg = Ret (c', fst (animationCommandIfNeeded ?ctl c' m'), cmds)"
    using handleKey_edit [of msg ?ctl "(e, r)" x m c' m' R] h(1) assms by (auto simp: snapshot_def)
  moreover have "line_of (snapshot e') (fst (animationCommandIfNeeded ?ctl c' m')) = line_of (snapshot e') m'"
    by (rule line_of_interaction) simp
  ultimately show ?thesis using h c' \<open>r' = r\<close> assms(2) by (auto simp: snapshot_def)
qed

definition form_engine :: Engine where
  "form_engine = run_steps engine_step (New_Engine DefaultLimits 4)
     [EApply (base_op\<lparr>op_ID := ''i'', op_Type := NodeInput\<rparr>),
      EApply (base_op\<lparr>op_Seq := 2, op_ID := ''j'', op_Type := NodeInput\<rparr>), EFocus ''i'', ESetInput ''i'' ''ab'']"

lemma form_engine_inv: "engine_inv form_engine"
  unfolding form_engine_def
  by (rule enginem.inv_from_start) (use room_Effective in \<open>auto simp: engine_start_def\<close>)

definition blank_model :: Model where
  "blank_model = \<lparr>mo_Width = 80, mo_Height = 24, mo_interaction = newInteractionState, mo_updateChan = False, mo_Quitting = False,
     mo_publishCount = 0, mo_lastAck = 0, mo_animationPhase = 0, mo_animationEpoch = 0, mo_animationActive = False, mo_cursorVisible = True\<rparr>"

definition blank_frame :: renderer where
  "blank_frame d f i t ix w h r = \<lparr>rr_Frame = [], rr_Viewports = fmempty, rr_Tables = fmempty\<rparr>"

definition no_answers :: dispatch_env where
  "no_answers = \<lparr>de_parent = None, de_slot = SlotTaken None, de_handler = HandlerDone None None, de_parent_late = None\<rparr>"

abbreviation local_ctl :: "(Engine \<times> unit ActionRegistry option) SemanticController" where
  "local_ctl \<equiv> localSemanticController no_answers"

definition typed :: "string \<Rightarrow> KeyMsg" where
  "typed s = \<lparr>km_Type = KeyRunes, km_Runes = runes s, km_String = s\<rparr>"

theorem typing_refines_editor_witness:
  "\<exists>e' m' cmds. handleKey local_ctl blank_frame (form_engine, None) blank_model (typed ''c'') = Ret ((e', None), m', cmds) \<and>
     line_of (snapshot e') m' ''i'' = (runes ''abc'', [])"
proof -
  have "s_FocusedID (en_state form_engine) = ''i''" "input_node (snapshot form_engine) ''i''"
    "edit_key (km_Type (typed ''c''))" "list_all valid_rune (km_Runes (typed ''c''))" by code_simp+
  moreover have "edit (km_Type (typed ''c'')) (km_Runes (typed ''c'')) (line_of (snapshot form_engine) blank_model ''i'') = (runes ''abc'', [])"
    by code_simp
  ultimately show ?thesis
    using typing_refines_editor [OF form_engine_inv, of "''i''" "typed ''c''" no_answers blank_frame None blank_model] by force
qed

text \<open>What is typed can be taken back.\<close>

lemma edit_backspace: "edit KeyBackspace ks (edit KeyRunes [r] l) = l" "edit KeyBackspace ks (edit KeySpace rs l) = l"
  by (cases l; simp)+

lemma focus_key_snapshot:
  assumes "moved = Ret c'"
  shows "\<exists>m' cmds. focus_key ctl R moved m = Ret (c', m', cmds)"
  using assms by (simp add: focus_key_def Let_def case_prod_beta)

lemma cycle_index:
  assumes d: "distinct ids" and ne: "ids \<noteq> []"
  shows "if x \<in> set ids
    then \<exists>k<length ids. x = ids ! k \<and>
      ids ! nat (if fwd then (index_of x ids + 1) mod int (length ids)
        else (if index_of x ids \<le> 0 then int (length ids) else index_of x ids) - 1) =
      ids ! ((if fwd then k + 1 else k + length ids - 1) mod length ids)
    else ids ! nat (if fwd then (index_of x ids + 1) mod int (length ids)
        else (if index_of x ids \<le> 0 then int (length ids) else index_of x ids) - 1) = (if fwd then hd ids else last ids)"
proof (cases "x \<in> set ids")
  case True
  then obtain k where k: "k < length ids" "x = ids ! k" by (auto simp: in_set_conv_nth)
  have fw: "nat ((int k + 1) mod int (length ids)) = (k + 1) mod length ids"
    by (metis nat_int of_nat_1 of_nat_add of_nat_mod)
  have bw: "nat ((if int k \<le> 0 then int (length ids) else int k) - 1) = (k + length ids - 1) mod length ids"
    using k(1) by (cases k) (auto simp: nat_diff_distrib)
  have "index_of x ids = int k" using index_of_nth [OF d k(1)] k(2) by simp
  then show ?thesis using True k fw bw by (intro if_P [THEN iffD2] exI [of _ k]) auto
next
  case False
  have "nat (int (length ids) - 1) = length ids - 1" by simp
  then show ?thesis using False index_of_missing [OF False] ne by (simp add: hd_conv_nth last_conv_nth)
qed

text \<open>Tab and shift-tab walk the focusable nodes as a cycle: from the node at position i the focus
  moves to the next and to the previous position, wrapping around at the ends; with no node in
  focus tab goes to the first and shift-tab to the last; shift-tab after tab gives the old focus
  back. Document, inputs and publication are untouched, and the keys always return.\<close>

lemma focus_cycle:
  assumes i: "engine_inv e" and ids: "FocusableIDs (en_doc e) = Ret ids" "ids \<noteq> []" and t: "km_Type msg \<in> {KeyTab, KeyShiftTab}"
  shows "\<exists>e' m' cmds. handleKey (localSemanticController env) R (e, r) m msg = Ret ((e', r), m', cmds) \<and>
    engine_inv e' \<and> same_document (snapshot e) (snapshot e') \<and> text_of (snapshot e') = text_of (snapshot e) \<and>
    (if s_FocusedID (en_state e) \<in> set ids
     then \<exists>k<length ids. s_FocusedID (en_state e) = ids ! k \<and>
       s_FocusedID (en_state e') = ids ! ((if km_Type msg = KeyTab then k + 1 else k + length ids - 1) mod length ids)
     else s_FocusedID (en_state e') = (if km_Type msg = KeyTab then hd ids else last ids))"
proof -
  let ?ctl = "localSemanticController env"
  let ?f = "s_FocusedID (en_state e)"
  have d: "distinct ids" using ids FocusableIDs_engine [OF i] by auto
  have n: "0 < length ids" using ids(2) by simp
  note M = local_controller.focus_moves [of "(e, r)" env ids, simplified, OF i ids]
  obtain c' where c': "(if km_Type msg = KeyTab then focusNext ?ctl (e, r) else focusPrev ?ctl (e, r)) = Ret c'" "snd c' = r"
      "engine_inv (fst c')" "same_document (snapshot e) (snapshot (fst c'))" "text_of (snapshot (fst c')) = text_of (snapshot e)"
      "s_FocusedID (en_state (fst c')) = ids ! nat (if km_Type msg = KeyTab then (index_of ?f ids + 1) mod int (length ids)
        else (if index_of ?f ids \<le> 0 then int (length ids) else index_of ?f ids) - 1)"
  proof (cases "km_Type msg = KeyTab")
    case True
    obtain e' r' where e': "focusNext ?ctl (e, r) = Ret (e', r')" "engine_inv e'" "same_document (snapshot e) (snapshot e')"
        "text_of (snapshot e') = text_of (snapshot e)" "ps_FocusedID (snapshot e') = ids ! nat ((index_of ?f ids + 1) mod int (length ids))"
      using M(1) by (auto simp: snapshot_def)
    moreover have "r' = r" using e'(1) ids by (simp add: focusNext_def Let_def)
    ultimately show ?thesis using that [of "(e', r')"] True by (simp add: snapshot_def)
  next
    case False
    obtain e' r' where e': "focusPrev ?ctl (e, r) = Ret (e', r')" "engine_inv e'" "same_document (snapshot e) (snapshot e')"
        "text_of (snapshot e') = text_of (snapshot e)"
        "ps_FocusedID (snapshot e') = ids ! nat ((if index_of ?f ids \<le> 0 then int (length ids) else index_of ?f ids) - 1)"
      using M(2) by (auto simp: snapshot_def Let_def)
    moreover have "r' = r" using e'(1) ids by (simp add: focusPrev_def Let_def)
    ultimately show ?thesis using that [of "(e', r')"] False by (simp add: snapshot_def)
  qed
  have "\<exists>m' cmds. handleKey ?ctl R (e, r) m msg = Ret (c', m', cmds)"
    using c'(1) t focus_key_snapshot [of _ c' ?ctl R m] by (auto simp: handleKey_def split: if_splits)
  then obtain m' cmds where h: "handleKey ?ctl R (e, r) m msg = Ret (c', m', cmds)" by blast
  have "if ?f \<in> set ids
     then \<exists>k<length ids. ?f = ids ! k \<and>
       s_FocusedID (en_state (fst c')) = ids ! ((if km_Type msg = KeyTab then k + 1 else k + length ids - 1) mod length ids)
     else s_FocusedID (en_state (fst c')) = (if km_Type msg = KeyTab then hd ids else last ids)"
    unfolding c'(6) by (rule cycle_index [OF d ids(2)])
  then show ?thesis using h c' by (metis prod.collapse)
qed

definition tab_key :: KeyMsg where
  "tab_key = \<lparr>km_Type = KeyTab, km_Runes = [], km_String = ''tab''\<rparr>"

subsection \<open>The animation timer\<close>

fun ticks :: "tea_cmd list \<Rightarrow> u64 list" where
  "ticks [] = []"
| "ticks (AnimationTick e # cmds) = e # ticks cmds"
| "ticks (_ # cmds) = ticks cmds"

lemma ticks_append [simp]: "ticks (xs @ ys) = ticks xs @ ticks ys"
  by (induction xs rule: ticks.induct) simp_all

lemma ticks_wait [simp]: "ticks (waitForUpdate m) = []"
  by (simp add: waitForUpdate_def)

text \<open>Runs of the program: the framework delivers messages and fires the timers it was asked for, the
  agent changes the semantic state at any time, and frames are drawn. The number counts the
  messages handled.\<close>

inductive ui_run :: "'c SemanticController \<Rightarrow> renderer \<Rightarrow> nat \<Rightarrow> 'c \<Rightarrow> Model \<Rightarrow> u64 list \<Rightarrow> bool"
  for ctl :: "'c SemanticController" and R :: renderer
where
  start: "m = NewModelWithController ctl R updates c \<Longrightarrow> ui_run ctl R 0 c m (ticks (Init m))"
| agent: "ui_run ctl R n c m pending \<Longrightarrow> ui_run ctl R n c' m pending"
| frame: "ui_run ctl R n c m pending \<Longrightarrow> View ctl R c m = (c', m', out) \<Longrightarrow> ui_run ctl R n c' m' pending"
| message: "ui_run ctl R n c m pending \<Longrightarrow> (\<And>e. msg \<noteq> AnimationTickMsg e) \<Longrightarrow> Update ctl R c m msg = Ret (c', m', cmds) \<Longrightarrow>
    ui_run ctl R (Suc n) c' m' (pending @ ticks cmds)"
| timer: "ui_run ctl R n c m pending \<Longrightarrow> e \<in> set pending \<Longrightarrow> Update ctl R c m (AnimationTickMsg e) = Ret (c', m', cmds) \<Longrightarrow>
    ui_run ctl R (Suc n) c' m' (remove1 e pending @ ticks cmds)"

text \<open>How a call may touch the timer: keep it, stop it, or start it under a new epoch.\<close>

definition timer_move :: "Model \<Rightarrow> Model \<Rightarrow> u64 list \<Rightarrow> bool" where
  "timer_move m m' new \<longleftrightarrow>
     mo_animationActive m' = mo_animationActive m \<and> mo_animationEpoch m' = mo_animationEpoch m \<and> new = [] \<or>
     mo_animationActive m \<and> \<not> mo_animationActive m' \<and> mo_animationEpoch m' = mo_animationEpoch m + 1 \<and> new = [] \<or>
     \<not> mo_animationActive m \<and> mo_animationActive m' \<and> mo_animationEpoch m' = mo_animationEpoch m + 1 \<and> new = [mo_animationEpoch m']"

lemma timer_keep [simp]: "timer_move m (reconcileLocalState ctl R c m) []" "timer_move m (set_caret x k m) []" "timer_move m m []"
  by (simp_all add: timer_move_def reconcileLocalState_def set_caret_def Let_def)

lemma timer_fields:
  "mo_animationActive (reconcileLocalState ctl R c m) = mo_animationActive m" "mo_animationEpoch (reconcileLocalState ctl R c m) = mo_animationEpoch m"
  "mo_animationActive (set_caret x k m) = mo_animationActive m" "mo_animationEpoch (set_caret x k m) = mo_animationEpoch m"
  by (simp_all add: reconcileLocalState_def set_caret_def Let_def)

lemma timer_command:
  assumes "mo_animationActive m = mo_animationActive m0" "mo_animationEpoch m = mo_animationEpoch m0"
    "animationCommandIfNeeded ctl c m = (m', cmds)"
  shows "timer_move m0 m' (ticks cmds)"
  using assms by (auto simp: animationCommandIfNeeded_def stopAnimation_def timer_move_def Let_def split: if_splits)

lemma focused_key_timer:
  assumes "focused_key ctl R c m s msg = (c', m', b)"
  shows "mo_animationActive m' = mo_animationActive m \<and> mo_animationEpoch m' = mo_animationEpoch m"
  using assms
  by (auto simp: focused_key_def handleInputKey_def handleTableKey_def handleViewportKey_def Let_def timer_fields
      split: option.splits NodeType.splits KeyType.splits if_splits)

lemma handleKey_timer:
  assumes "handleKey ctl R c m msg = Ret (c', m', cmds)"
  shows "timer_move m m' (ticks cmds)"
proof -
  have focus: "timer_move m m' (ticks cmds)" if "focus_key ctl R moved m = Ret (c', m', cmds)" for moved
    using that timer_command [OF timer_fields(1,2)] by (cases moved) (auto simp: focus_key_def Let_def split: prod.splits)
  obtain c1 m1 b where f: "focused_key ctl R c m (sc_Snapshot ctl c) msg = (c1, m1, b)" using prod_cases3 by blast
  note k = focused_key_timer [OF f]
  have cmd: "timer_move m m' (ticks cmds)" if "animationCommandIfNeeded ctl c1 m1 = (m', cmds)"
    using timer_command [OF _ _ that] k by blast
  show ?thesis
    using assms f k focus cmd
    by (cases b; cases "km_Type msg")
      (auto simp: handleKey_def stopAnimation_def timer_move_def Let_def split: prod.splits if_splits)
qed

lemma Update_timer:
  assumes "Update ctl R c m msg = Ret (c', m', cmds)" "\<And>e. msg \<noteq> AnimationTickMsg e"
  shows "timer_move m m' (ticks cmds)"
proof (cases msg)
  case (WindowSizeMsg w h)
  then show ?thesis using assms(1) by (auto simp: Update_def timer_move_def timer_fields)
next
  case EngineDirtyMsg
  then show ?thesis
    using assms(1) timer_command [OF timer_fields(1,2)] by (auto simp: Update_def Let_def split: prod.splits)
next
  case (KeyPress k)
  then show ?thesis using assms(1) handleKey_timer by (auto simp: Update_def)
qed (use assms in \<open>auto simp: Update_def\<close>)

definition timer_inv :: "nat \<Rightarrow> Model \<Rightarrow> u64 list \<Rightarrow> bool" where
  "timer_inv n m pending \<longleftrightarrow> unat (mo_animationEpoch m) \<le> n \<and> (\<forall>e \<in> set pending. unat e \<le> unat (mo_animationEpoch m)) \<and>
     count_list pending (mo_animationEpoch m) = of_bool (mo_animationActive m)"

lemma unat_next: "unat (w :: u64) \<le> n \<Longrightarrow> Suc n < 2 ^ 64 \<Longrightarrow> unat (w + 1) = Suc (unat w)"
  by (simp add: unat_word_ariths)

lemma timer_inv_move:
  assumes i: "timer_inv n m pending" and t: "timer_move m m' new" and n: "Suc n < 2 ^ 64"
  shows "timer_inv (Suc n) m' (pending @ new)"
proof -
  let ?w = "mo_animationEpoch m"
  have u: "unat (?w + 1) = Suc (unat ?w)" using i n by (intro unat_next) (auto simp: timer_inv_def)
  then have "?w + 1 \<notin> set pending" using i by (auto simp: timer_inv_def)
  then have "count_list pending (?w + 1) = 0" by (simp add: count_list_0_iff)
  then show ?thesis using i t u by (auto simp: timer_inv_def timer_move_def)
qed

lemma timer_inv_tick:
  assumes i: "timer_inv n m pending" and e: "e \<in> set pending" and n: "Suc n < 2 ^ 64"
    and u: "Update ctl R c m (AnimationTickMsg e) = Ret (c', m', cmds)"
  shows "timer_inv (Suc n) m' (remove1 e pending @ ticks cmds)"
proof -
  let ?w = "mo_animationEpoch m"
  have cnt: "count_list (remove1 e xs) x = (if x = e then count_list xs x - 1 else count_list xs x)" for x and xs :: "u64 list"
    by (induction xs) auto
  have sub: "set (remove1 e pending) \<subseteq> set pending" by (rule set_remove1_subset)
  show ?thesis
  proof (cases "mo_animationActive m \<and> e = ?w")
    case False
    then have "m' = m" "cmds = []" using u by (auto simp: Update_def)
    moreover have "e \<noteq> ?w" using False i e by (auto simp: timer_inv_def count_list_0_iff)
    ultimately show ?thesis using i sub by (auto simp: timer_inv_def cnt)
  next
    case True
    then have w: "timer_move m m' [] \<and> \<not> mo_animationActive m' \<and> cmds = [] \<or>
        mo_animationActive m' \<and> mo_animationEpoch m' = ?w \<and> cmds = [AnimationTick ?w]"
      using u by (auto simp: Update_def stopAnimation_def timer_move_def Let_def split: if_splits)
    have un: "unat (?w + 1) = Suc (unat ?w)" using i n by (intro unat_next) (auto simp: timer_inv_def)
    then have "?w + 1 \<notin> set pending" using i by (auto simp: timer_inv_def)
    then have z: "count_list (remove1 e pending) (?w + 1) = 0" using sub by (auto simp: count_list_0_iff)
    from w show ?thesis
    proof (elim disjE)
      assume "timer_move m m' [] \<and> \<not> mo_animationActive m' \<and> cmds = []"
      then have "mo_animationEpoch m' = ?w + 1" "\<not> mo_animationActive m'" "cmds = []" using True by (auto simp: timer_move_def)
      then show ?thesis using i sub un z by (fastforce simp: timer_inv_def)
    next
      assume "mo_animationActive m' \<and> mo_animationEpoch m' = ?w \<and> cmds = [AnimationTick ?w]"
      then show ?thesis using i sub True by (fastforce simp: timer_inv_def cnt)
    qed
  qed
qed

lemma ui_run_timer: "ui_run ctl R n c m pending \<Longrightarrow> n < 2 ^ 64 \<Longrightarrow> timer_inv n m pending"
proof (induction rule: ui_run.induct)
  case (start m updates c)
  then show ?case by (simp add: timer_inv_def NewModelWithController_def timer_fields Init_def Let_def)
next
  case (frame n c m pending c' m' out)
  then show ?case
    by (auto simp: View_def timer_inv_def Let_def split: if_splits option.splits prod.splits)
next
  case (message n c m pending msg c' m' cmds)
  then show ?case using timer_inv_move Update_timer by (metis Suc_lessD)
next
  case (timer n c m pending e c' m' cmds)
  then show ?case by (intro timer_inv_tick) auto
qed

text \<open>C25. There is one animation timer: however messages, timers, frames and changes by the agent
  interleave, among the timers the framework still owes at most one carries the current epoch, and
  there is one exactly while the animation is active; so several updates in a row never multiply
  timer chains, a stale timer is ignored, and an active animation never loses its timer. The
  number of messages is bounded only because the epoch is a 64-bit counter.\<close>

theorem animation_single_chain:
  assumes "ui_run ctl R n c m pending" "n < 2 ^ 64"
  shows "count_list pending (mo_animationEpoch m) = of_bool (mo_animationActive m)"
  using ui_run_timer [OF assms] by (simp add: timer_inv_def)

theorem animation_single_chain_witness:
  "count_list (ticks (Init (NewModelWithController local_ctl blank_frame True (form_engine, None))))
     (mo_animationEpoch (NewModelWithController local_ctl blank_frame True (form_engine, None))) = 1"
proof -
  have "mo_animationActive (NewModelWithController local_ctl blank_frame True (form_engine, None))" by code_simp
  then show ?thesis using animation_single_chain [OF ui_run.start [OF refl, where ctl = local_ctl and R = blank_frame and updates = True and c = "(form_engine, None)"]] by simp
qed

subsection \<open>Frames and acknowledgements\<close>

text \<open>A history of the terminal in front of the engine: engine calls of the agent and of the keys, and
  frames that are drawn.\<close>

datatype ui_event = Call engine_call | Draw

definition ui_step :: "dispatch_env \<Rightarrow> renderer \<Rightarrow> Engine \<times> Model \<Rightarrow> ui_event \<Rightarrow> Engine \<times> Model" where
  "ui_step env R s ev =
     (case ev of
        Call c \<Rightarrow> (engine_step (fst s) c, snd s)
      | Draw \<Rightarrow> (case View (localSemanticController env) R (fst s, None :: unit ActionRegistry option) (snd s) of
          ((e, _), m, _) \<Rightarrow> (e, m)))"

text \<open>How often the publication token moved.\<close>

fun ui_bumps :: "dispatch_env \<Rightarrow> renderer \<Rightarrow> Engine \<times> Model \<Rightarrow> ui_event list \<Rightarrow> nat" where
  "ui_bumps env R s [] = 0"
| "ui_bumps env R s (ev # evs) =
     (case ev of Call c \<Rightarrow> token_bump (fst s) c | Draw \<Rightarrow> 0) + ui_bumps env R (ui_step env R s ev) evs"

text \<open>What drawing a frame does to the engine.\<close>

lemma View_local:
  "View (localSemanticController env) R (e, r) m =
     (if \<not> mo_Quitting m \<and> needsPublishLocked e \<and> en_publicationGeneration e \<noteq> 0 \<and> mo_lastAck m \<noteq> en_publicationGeneration e
      then ((fst (publishLocked e), r),
            (if snd (publishLocked e) = None then m\<lparr>mo_lastAck := en_publicationGeneration e, mo_publishCount := mo_publishCount m + 1\<rparr> else m),
            rr_Frame (renderResultForSnapshot R m (snapshot e)))
      else ((e, r), m, snd (snd (View (localSemanticController env) R (e, r) m))))"
  by (auto simp: View_def Let_def PublishGeneration_def snapshot_def split: option.splits prod.splits)

definition ack_inv :: "nat \<Rightarrow> Engine \<Rightarrow> Model \<Rightarrow> bool" where
  "ack_inv n e m \<longleftrightarrow> engine_inv e \<and> unat (en_publicationGeneration e) = n \<and> unat (mo_lastAck m) \<le> n \<and>
     (needsPublishLocked e \<longrightarrow> unat (mo_lastAck m) < n)"

lemma token_bump_le: "token_bump e c \<le> 1"
  by (simp add: token_bump_def split: engine_call.split go.split option.split)

lemma ack_call:
  assumes a: "ack_inv n e m" and n: "n + token_bump e c < 2 ^ 64"
  shows "ack_inv (n + token_bump e c) (engine_step e c) m"
proof -
  have i: "engine_inv e" using a by (simp add: ack_inv_def)
  have "unat (en_publicationGeneration e + of_nat (token_bump e c)) = n + token_bump e c"
    using a n token_bump_le [of e c] by (simp add: ack_inv_def unat_word_ariths unat_of_nat take_bit_eq_mod)
  then have "unat (en_publicationGeneration (engine_step e c)) = n + token_bump e c" by (simp only: token_step [OF i])
  moreover have "unat (mo_lastAck m) < n + token_bump e c" if "needsPublishLocked (engine_step e c)"
    using that a quiet_step [OF i _ that] by (cases "token_bump e c = 0") (auto simp: ack_inv_def)
  ultimately show ?thesis using a engine_step_inv [OF i] by (auto simp: ack_inv_def)
qed

lemma publishLocked_token: "en_publicationGeneration (fst (publishLocked e)) = en_publicationGeneration e"
  by (cases "publishLocked e") (auto elim: publishLocked_cases)

lemma publishLocked_done: "snd (publishLocked e) = None \<Longrightarrow> \<not> needsPublishLocked (fst (publishLocked e))"
  by (auto simp: publishLocked_def needsPublishLocked_def Let_def split: prod.splits option.splits if_splits)

lemma publishLocked_pending: "needsPublishLocked (fst (publishLocked e)) \<Longrightarrow> needsPublishLocked e"
  by (auto simp: publishLocked_def needsPublishLocked_def split: if_splits)

lemma publish_no_room:
  assumes "engine_inv e" "\<not> int (length (en_pendingCommits e)) \<le> b_cap (en_broker e) - depthLocked (en_broker e)"
  shows "\<exists>err. publishLocked e = (e, Some err)"
proof -
  have "depthLocked (en_broker e) \<le> b_cap (en_broker e)" using engine_invD(4) [OF assms(1)] by (simp add: broker_inv_def)
  then have "en_pendingCommits e \<noteq> []" using assms(2) by auto
  then show ?thesis using assms(2) by (simp add: publishLocked_def EnqueueCriticalBatch_def needsPublishLocked_def Let_def)
qed

lemma ack_draw:
  assumes a: "ack_inv n e m" and s: "ui_step env R (e, m) Draw = (e', m')"
  shows "ack_inv n e' m'"
proof -
  have "engine_inv (fst (publishLocked e))"
    using a engine_step_inv [of e EPublish] by (simp add: ack_inv_def engine_step_def Engine_Publish_def)
  then show ?thesis
    using a s publishLocked_done [of e] publishLocked_pending [of e] publishLocked_token [of e]
    unfolding ui_step_def fst_conv snd_conv ui_event.case
    by (subst (asm) View_local) (auto simp: ack_inv_def split: if_splits)
qed

lemma ack_run:
  assumes "ack_inv n e m" "n + ui_bumps env R (e, m) evs < 2 ^ 64"
  shows "ack_inv (n + ui_bumps env R (e, m) evs) (fst (run_steps (ui_step env R) (e, m) evs)) (snd (run_steps (ui_step env R) (e, m) evs))"
  using assms
proof (induction evs arbitrary: n e m)
  case (Cons ev evs)
  obtain e' m' where s: "ui_step env R (e, m) ev = (e', m')" by fastforce
  show ?case
  proof (cases ev)
    case (Call c)
    then have "e' = engine_step e c" "m' = m" using s by (auto simp: ui_step_def)
    moreover have "ack_inv (n + token_bump e c) (engine_step e c) m" using Cons.prems Call by (intro ack_call) auto
    ultimately show ?thesis using Cons.IH [of "n + token_bump e c" e' m'] Cons.prems Call s by (simp add: add.assoc)
  next
    case Draw
    then show ?thesis using Cons.IH [of n e' m'] ack_draw [OF Cons.prems(1)] Cons.prems s by simp
  qed
qed simp

text \<open>C23. Every frame that was drawn is acknowledged and none twice: after any history of engine calls
  and drawn frames, as long as the 64-bit publication token did not wrap around, drawing the next
  frame leaves nothing pending when the broker has room for the commits, with each of them
  acknowledged in order behind the events already waiting; without room everything stays pending
  and the next frame tries again; and drawing when nothing is pending changes nothing.\<close>

theorem drawing_acknowledges:
  assumes l: "room_for_root (EffectiveLimits limits)" and m0: "mo_lastAck m0 = 0" "\<not> mo_Quitting m0"
    and b: "ui_bumps env R (New_Engine limits capacity, m0) evs < 2 ^ 64"
    and s: "run_steps (ui_step env R) (New_Engine limits capacity, m0) evs = (e, m)"
    and d: "ui_step env R (e, m) Draw = (e', m')"
  shows "(if \<not> needsPublishLocked e then e' = e \<and> m' = m
    else if int (length (en_pendingCommits e)) \<le> b_cap (en_broker e) - depthLocked (en_broker e)
    then \<not> needsPublishLocked e' \<and> en_doc e' = en_doc e \<and> mo_lastAck m' = en_publicationGeneration e \<and>
      critical_payloads (en_broker e') = critical_payloads (en_broker e) @
        map (payload \<circ> committed_event (max (s_DirtyRevision (en_state e)) (s_PublishedRevision (en_state e)))) (en_pendingCommits e)
    else en_pendingCommits e' = en_pendingCommits e \<and> needsPublishLocked e' \<and> mo_lastAck m' = mo_lastAck m)"
proof -
  have q: "mo_Quitting (snd (run_steps (ui_step env R) s evs)) = mo_Quitting (snd s)" for s
  proof (induction evs arbitrary: s)
    case (Cons ev evs)
    have "mo_Quitting (snd (ui_step env R s ev)) = mo_Quitting (snd s)"
      unfolding ui_step_def by (cases ev; simp; subst View_local; simp)
    then show ?case using Cons by simp
  qed simp
  have start: "ack_inv 0 (New_Engine limits capacity) m0"
    using New_Engine_inv [OF l] m0 by (simp add: ack_inv_def New_Engine_def Let_def needsPublishLocked_def NeedsPublish_def NewState_def)
  have a: "ack_inv (ui_bumps env R (New_Engine limits capacity, m0) evs) e m"
    using ack_run [OF start, of env R evs] b s by simp
  have draws: "en_publicationGeneration e \<noteq> 0 \<and> mo_lastAck m \<noteq> en_publicationGeneration e" if "needsPublishLocked e"
    using a that by (auto simp: ack_inv_def)
  have nq: "\<not> mo_Quitting m" using q [of "(New_Engine limits capacity, m0)"] s m0 by simp
  have D: "(e', m') = (if needsPublishLocked e
      then (fst (publishLocked e), if snd (publishLocked e) = None
        then m\<lparr>mo_lastAck := en_publicationGeneration e, mo_publishCount := mo_publishCount m + 1\<rparr> else m) else (e, m))"
    using d draws nq unfolding ui_step_def fst_conv snd_conv ui_event.case by (subst (asm) View_local) auto
  show ?thesis
  proof (cases "needsPublishLocked e \<and> int (length (en_pendingCommits e)) \<le> b_cap (en_broker e) - depthLocked (en_broker e)")
    case True
    then show ?thesis using D publish_if_room [of e] by auto
  next
    case False
    have "engine_inv e" using a by (simp add: ack_inv_def)
    from publish_no_room [OF this] show ?thesis using D False by (cases "needsPublishLocked e") auto
  qed
qed

theorem drawing_acknowledges_witness:
  "\<exists>e e' m'. e = engine_step (New_Engine DefaultLimits 4) (EApply sample_commit) \<and> needsPublishLocked e \<and>
     ui_step no_answers blank_frame (e, blank_model) Draw = (e', m') \<and> \<not> needsPublishLocked e'"
proof -
  let ?e = "engine_step (New_Engine DefaultLimits 4) (EApply sample_commit)"
  have r: "run_steps (ui_step no_answers blank_frame) (New_Engine DefaultLimits 4, blank_model) [Call (EApply sample_commit)] = (?e, blank_model)"
    by (simp add: ui_step_def)
  have m: "mo_lastAck blank_model = 0" "\<not> mo_Quitting blank_model" by (simp_all add: blank_model_def)
  have b: "ui_bumps no_answers blank_frame (New_Engine DefaultLimits 4, blank_model) [Call (EApply sample_commit)] < 2 ^ 64"
    using token_bump_le [of "New_Engine DefaultLimits 4" "EApply sample_commit"] by simp
  have p: "needsPublishLocked ?e" "int (length (en_pendingCommits ?e)) \<le> b_cap (en_broker ?e) - depthLocked (en_broker ?e)" by code_simp+
  obtain e' m' where d: "ui_step no_answers blank_frame (?e, blank_model) Draw = (e', m')" by fastforce
  show ?thesis using drawing_acknowledges [OF room_Effective m b r d] p d by (intro exI [of _ ?e] exI [of _ e'] exI [of _ m']) simp
qed

subsection \<open>Reconciled local state\<close>

lemma prune_lookup:
  "fmlookup (prune doc keep m) x =
     (case fmlookup (d_Nodes doc) x of Some n \<Rightarrow> if keep n then fmlookup m x else None | None \<Rightarrow> None)"
  unfolding prune_def
  by (subst for_keys_lookup [where g = "\<lambda>k _ old. case fmlookup (d_Nodes doc) k of None \<Rightarrow> None | Some n \<Rightarrow> if \<not> keep n then None else old"])
    (auto split: option.split)

text \<open>After a reconciliation exactly the inputs have a caret, each inside its text, and exactly the
  scrollable viewports have a scroll state.\<close>

lemma reconcile_carets_lookup:
  "fmlookup (reconcile_carets s carets) x =
     (if input_node s x
      then (let n = int (length (runes (text_of s x))) in
            Some (clampInt (case fmlookup carets x of None \<Rightarrow> n | Some c \<Rightarrow> c) 0 n)) else None)"
  unfolding reconcile_carets_def
  by (subst for_keys_lookup [where g = "\<lambda>k n old. if n_Type n \<noteq> NodeInput then old else
        (let z = int (length (runes (text_of s k))) in Some (clampInt (case old of None \<Rightarrow> z | Some c \<Rightarrow> c) 0 z))"])
    (auto simp: Let_def clampInt_def prune_lookup input_node_def split: option.split)

lemma reconcile_viewports_lookup:
  "fmlookup (reconcile_viewports s viewports) x =
     (case fmlookup (d_Nodes (ps_Document s)) x of
        Some n \<Rightarrow> if scrollable_viewport n
          then Some (case fmlookup viewports x of Some v \<Rightarrow> v
            | None \<Rightarrow> \<lparr>vs_Offset = 0, vs_PinnedToTail = ui_propBool n ''follow_tail'' False\<rparr>) else None
      | None \<Rightarrow> None)"
  unfolding reconcile_viewports_def
  by (subst for_keys_lookup [where g = "\<lambda>k n old. if \<not> scrollable_viewport n then old else
        Some (case old of Some v \<Rightarrow> v | None \<Rightarrow> \<lparr>vs_Offset = 0, vs_PinnedToTail = ui_propBool n ''follow_tail'' False\<rparr>)"])
    (auto simp: prune_lookup split: option.split)

lemma reconcileLocalState_carets:
  "fmlookup (ix_InputCarets (mo_interaction (reconcileLocalState ctl R c m))) x =
     (if input_node (sc_Snapshot ctl c) x
      then (let n = int (length (runes (text_of (sc_Snapshot ctl c) x))) in
            Some (clampInt (case fmlookup (ix_InputCarets (mo_interaction m)) x of None \<Rightarrow> n | Some k \<Rightarrow> k) 0 n)) else None)"
  by (simp add: reconcileLocalState_def Let_def reconcile_carets_lookup)

text \<open>A key on a viewport that the renderer measured touches the scroll state only, keeps the offset
  inside the measured range, and pins the view to its tail on End of a viewport that follows it.\<close>

lemma handleViewportKey_bounds:
  assumes h: "handleViewportKey ctl R c m x n msg = (c', m', True)"
    and r: "fmlookup (rr_Viewports (renderResultForSnapshot R m (sc_Snapshot ctl c))) x = Some v" "0 \<le> vm_MaxOffset v"
  shows "c' = c \<and> (\<exists>l. fmlookup (ix_Viewports (mo_interaction m')) x = Some l \<and> 0 \<le> vs_Offset l \<and> vs_Offset l \<le> vm_MaxOffset v \<and>
    (km_Type msg = KeyEnd \<longrightarrow> vs_Offset l = vm_MaxOffset v \<and> vs_PinnedToTail l = ui_propBool n ''follow_tail'' False) \<and>
    (km_Type msg \<in> {KeyUp, KeyPgUp, KeyHome} \<longrightarrow> \<not> vs_PinnedToTail l))"
proof -
  obtain move where mv: "viewport_move v (km_Type msg) = Some move"
    using h r(1) by (cases "viewport_move v (km_Type msg)") (auto simp: handleViewportKey_def)
  have e: "c' = c" "\<exists>old. fmlookup (ix_Viewports (mo_interaction m')) x = Some \<lparr>vs_Offset = viewport_target v move,
      vs_PinnedToTail = pinned (ui_propBool n ''follow_tail'' False) (km_Type msg) (viewport_target v move) (vm_MaxOffset v) old\<rparr>"
    using h r(1) mv by (auto simp: handleViewportKey_def Let_def)
  have t: "0 \<le> viewport_target v move" "viewport_target v move \<le> vm_MaxOffset v"
    using r(2) by (simp_all add: viewport_target_def clampInt_def)
  have "viewport_target v move = vm_MaxOffset v" if "km_Type msg = KeyEnd"
    using mv that r(2) by (auto simp: viewport_move_def viewport_target_def clampInt_def Let_def)
  moreover have "\<not> pinned f k (viewport_target v move) (vm_MaxOffset v) old" if "k \<in> {KeyUp, KeyPgUp, KeyHome}" for f k old
    using that by (auto simp: pinned_def)
  moreover have "pinned f KeyEnd a b old = f" for f a b old by (simp add: pinned_def)
  ultimately show ?thesis using e t by fastforce
qed

end
