(* ===== verification/Actor.thy ===== *)
theory Actor
  imports Prelude
begin

text \<open>
  The external actor of \<open>external/actor.go\<close>: one goroutine that owns an executor, a bounded queue of
  requests, and callers that wait with a context. The atomic health word, the queue, the stop and
  done channels and the result channel of each call are the state; every access to one of them is
  a step of its own, and the steps of callers, worker and closers interleave freely. What the
  executor answers and when a context ends is not decided here, so those steps are always
  possible.
\<close>

subsection \<open>State\<close>

datatype HealthState = Ready | Degraded | Closed

record Response =
  rp_Status :: int
  rp_Data :: bytes

datatype actor_error = ErrClosed | ErrDegraded | CtxErr gomsg | ExecErr gomsg

type_synonym actor_result = "Response \<times> actor_error option"

definition no_response :: Response where
  "no_response = \<lparr>rp_Status = 0, rp_Data = []\<rparr>"

text \<open>A request with the result channel of its call, which is named by the call.\<close>

record request =
  rq_call :: nat
  rq_command :: int
  rq_args :: bytes

datatype exec_outcome = Returned Response "gomsg option" | Panicked string

definition callExecutor :: "exec_outcome \<Rightarrow> Response \<times> actor_error option \<times> bool" where
  "callExecutor out =
     (case out of
        Returned resp err \<Rightarrow> (resp, map_option ExecErr err, False)
      | Panicked v \<Rightarrow> (no_response, Some (ExecErr (Sprintf ''external executor panic: %v'' [FStr v])), True))"

text \<open>Where the worker is: at its select, with a request it received, in the executor, about to send
  a result, emptying the queue after a stop, or gone.\<close>

datatype worker = Selecting | Received request | Executing request | Sending request actor_result | Draining | Exited

text \<open>The fields \<open>ac_closing\<close>, \<open>ac_executed\<close> and \<open>ac_outcomes\<close> record the history: that some
  \<open>Close\<close> has stored its state, which requests were handed to the executor, and what it made of
  them.\<close>

text \<open>Where a call is: about to send its request, waiting for its result, or returned.\<close>

datatype call_phase = Requesting request | Waiting request | Answered actor_result

record Actor =
  ac_health :: HealthState
  ac_stop :: bool
  ac_done :: bool
  ac_cap :: nat
  ac_req :: "request list"
  ac_worker :: worker
  ac_calls :: "nat \<rightharpoonup> call_phase"
  ac_results :: "nat \<rightharpoonup> actor_result"
  ac_closing :: bool
  ac_executed :: "request list"
  ac_outcomes :: "nat \<rightharpoonup> actor_result"

definition Start :: "int \<Rightarrow> Actor" where
  "Start queue =
     (let queue = (if queue < 1 then 1 else queue) in
      \<lparr>ac_health = Ready, ac_stop = False, ac_done = False, ac_cap = nat queue, ac_req = [], ac_worker = Selecting,
       ac_calls = Map.empty, ac_results = Map.empty, ac_closing = False, ac_executed = [], ac_outcomes = Map.empty\<rparr>)"

definition Health :: "Actor option \<Rightarrow> HealthState" where
  "Health a = (case a of None \<Rightarrow> Closed | Some a \<Rightarrow> ac_health a)"

subsection \<open>Steps\<close>

definition answer :: "nat \<Rightarrow> actor_result \<Rightarrow> Actor \<Rightarrow> Actor" where
  "answer k r a = a\<lparr>ac_calls := (ac_calls a)(k \<mapsto> Answered r)\<rparr>"

definition put_result :: "request \<Rightarrow> actor_result \<Rightarrow> Actor \<Rightarrow> Actor" where
  "put_result q r a = a\<lparr>ac_results := (ac_results a)(rq_call q \<mapsto> r)\<rparr>"

inductive call_step :: "Actor \<Rightarrow> Actor \<Rightarrow> bool" where
  enter_closed: "ac_calls a k = None \<Longrightarrow> Health (Some a) = Closed \<Longrightarrow>
    call_step a (answer k (no_response, Some ErrClosed) a)"
| enter_degraded: "ac_calls a k = None \<Longrightarrow> Health (Some a) = Degraded \<Longrightarrow>
    call_step a (answer k (no_response, Some ErrDegraded) a)"
| enter: "ac_calls a k = None \<Longrightarrow> Health (Some a) = Ready \<Longrightarrow> rq_call q = k \<Longrightarrow>
    call_step a (a\<lparr>ac_calls := (ac_calls a)(k \<mapsto> Requesting q)\<rparr>)"
| send: "ac_calls a k = Some (Requesting q) \<Longrightarrow> length (ac_req a) < ac_cap a \<Longrightarrow>
    call_step a (a\<lparr>ac_calls := (ac_calls a)(k \<mapsto> Waiting q), ac_req := ac_req a @ [q]\<rparr>)"
| send_stopped: "ac_calls a k = Some (Requesting q) \<Longrightarrow> ac_stop a \<Longrightarrow>
    call_step a (answer k (no_response, Some ErrClosed) a)"
| send_context: "ac_calls a k = Some (Requesting q) \<Longrightarrow>
    call_step a (answer k (no_response, Some (CtxErr e)) a)"
| result: "ac_calls a k = Some (Waiting q) \<Longrightarrow> ac_results a k = Some r \<Longrightarrow>
    call_step a (answer k r a)"
| wait_stopped: "ac_calls a k = Some (Waiting q) \<Longrightarrow> ac_stop a \<Longrightarrow>
    call_step a (answer k (no_response, Some ErrClosed) a)"
| wait_context: "ac_calls a k = Some (Waiting q) \<Longrightarrow>
    call_step a (answer k (no_response, Some (CtxErr e)) (a\<lparr>ac_health := (if ac_health a = Ready then Degraded else ac_health a)\<rparr>))"

inductive worker_step :: "Actor \<Rightarrow> Actor \<Rightarrow> bool" where
  receive: "ac_worker a = Selecting \<Longrightarrow> ac_req a = q # qs \<Longrightarrow>
    worker_step a (a\<lparr>ac_worker := Received q, ac_req := qs\<rparr>)"
| refuse_closed: "ac_worker a = Received q \<Longrightarrow> Health (Some a) = Closed \<Longrightarrow>
    worker_step a (put_result q (no_response, Some ErrClosed) (a\<lparr>ac_worker := Selecting\<rparr>))"
| refuse_degraded: "ac_worker a = Received q \<Longrightarrow> Health (Some a) = Degraded \<Longrightarrow>
    worker_step a (put_result q (no_response, Some ErrDegraded) (a\<lparr>ac_worker := Selecting\<rparr>))"
| execute: "ac_worker a = Received q \<Longrightarrow> Health (Some a) = Ready \<Longrightarrow>
    worker_step a (a\<lparr>ac_worker := Executing q, ac_executed := ac_executed a @ [q]\<rparr>)"
| finish: "ac_worker a = Executing q \<Longrightarrow> callExecutor out = (resp, err, panicked) \<Longrightarrow>
    worker_step a (a\<lparr>ac_worker := Sending q (resp, err), ac_health := (if panicked then Degraded else ac_health a),
      ac_outcomes := (ac_outcomes a)(rq_call q \<mapsto> (resp, err))\<rparr>)"
| respond: "ac_worker a = Sending q r \<Longrightarrow>
    worker_step a (put_result q r (a\<lparr>ac_worker := Selecting\<rparr>))"
| stop: "ac_worker a = Selecting \<Longrightarrow> ac_stop a \<Longrightarrow>
    worker_step a (a\<lparr>ac_worker := Draining\<rparr>)"
| drain: "ac_worker a = Draining \<Longrightarrow> ac_req a = q # qs \<Longrightarrow>
    worker_step a (put_result q (no_response, Some ErrClosed) (a\<lparr>ac_req := qs\<rparr>))"
| leave: "ac_worker a = Draining \<Longrightarrow> ac_req a = [] \<Longrightarrow>
    worker_step a (a\<lparr>ac_worker := Exited, ac_done := True\<rparr>)"

inductive close_step :: "Actor \<Rightarrow> Actor \<Rightarrow> bool" where
  mark: "close_step a (a\<lparr>ac_health := Closed, ac_closing := True\<rparr>)"
| close: "ac_closing a \<Longrightarrow> close_step a (a\<lparr>ac_stop := True\<rparr>)"

inductive actor_step :: "Actor \<Rightarrow> Actor \<Rightarrow> bool" where
  by_caller: "call_step a b \<Longrightarrow> actor_step a b"
| by_worker: "worker_step a b \<Longrightarrow> actor_step a b"
| by_closer: "close_step a b \<Longrightarrow> actor_step a b"

inductive_cases worker_stepE: "worker_step a b"
inductive_cases call_stepE: "call_step a b"
inductive_cases close_stepE: "close_step a b"

definition actor_reachable :: "Actor \<Rightarrow> bool" where
  "actor_reachable a \<longleftrightarrow> (\<exists>queue. actor_step\<^sup>*\<^sup>* (Start queue) a)"

subsection \<open>The invariant\<close>

fun in_hand :: "worker \<Rightarrow> request list" where
  "in_hand (Received q) = [q]"
| "in_hand (Executing q) = [q]"
| "in_hand (Sending q r) = [q]"
| "in_hand _ = []"

definition own_error :: "actor_result \<Rightarrow> bool" where
  "own_error r \<longleftrightarrow> snd r \<in> {Some ErrClosed, Some ErrDegraded} \<or> (\<exists>e. snd r = Some (CtxErr e))"

lemma own_errors [simp]:
  "own_error (r, Some ErrClosed)" "own_error (r, Some ErrDegraded)" "own_error (r, Some (CtxErr e))"
  by (simp_all add: own_error_def)

text \<open>A call that has handed over its request, or was answered without.\<close>

definition sent :: "Actor \<Rightarrow> nat \<Rightarrow> bool" where
  "sent a k \<longleftrightarrow> (case ac_calls a k of None \<Rightarrow> False | Some (Requesting q) \<Rightarrow> False | _ \<Rightarrow> True)"

abbreviation open_calls :: "Actor \<Rightarrow> nat list" where
  "open_calls a \<equiv> map rq_call (in_hand (ac_worker a) @ ac_req a)"

abbreviation executed_calls :: "Actor \<Rightarrow> nat list" where
  "executed_calls a \<equiv> map rq_call (ac_executed a)"

text \<open>Every request is in one place, and what is queued or in hand has no result yet.\<close>

definition placed :: "Actor \<Rightarrow> bool" where
  "placed a \<longleftrightarrow> distinct (open_calls a) \<and> length (ac_req a) \<le> ac_cap a \<and>
     (\<forall>k \<in> set (open_calls a). sent a k \<and> ac_results a k = None) \<and>
     (\<forall>k q. ac_calls a k = Some (Requesting q) \<longrightarrow> rq_call q = k) \<and> (\<forall>k. \<not> sent a k \<longrightarrow> ac_results a k = None)"

text \<open>Only requests that were handed over are executed, each once, and only executed ones have an
  outcome.\<close>

definition executing :: "Actor \<Rightarrow> bool" where
  "executing a \<longleftrightarrow> distinct (executed_calls a) \<and> (\<forall>k \<in> set (executed_calls a). sent a k) \<and>
     (\<forall>q \<in> set (ac_req a). rq_call q \<notin> set (executed_calls a)) \<and>
     (\<forall>q. ac_worker a = Received q \<longrightarrow> rq_call q \<notin> set (executed_calls a)) \<and>
     (\<forall>q. ac_worker a = Executing q \<longrightarrow> rq_call q \<in> set (executed_calls a) \<and> ac_outcomes a (rq_call q) = None) \<and>
     (\<forall>q r. ac_worker a = Sending q r \<longrightarrow> ac_outcomes a (rq_call q) = Some r) \<and>
     dom (ac_outcomes a) \<subseteq> set (executed_calls a)"

text \<open>A result that is none of the actor's own errors is the outcome of that call.\<close>

definition truthful :: "Actor \<Rightarrow> bool" where
  "truthful a \<longleftrightarrow> (\<forall>k r. ac_results a k = Some r \<longrightarrow> own_error r \<or> ac_outcomes a k = Some r) \<and>
     (\<forall>k r. ac_calls a k = Some (Answered r) \<longrightarrow> own_error r \<or> ac_outcomes a k = Some r)"

definition closing :: "Actor \<Rightarrow> bool" where
  "closing a \<longleftrightarrow> (ac_stop a \<longrightarrow> ac_closing a) \<and> (ac_closing a \<longrightarrow> ac_health a \<noteq> Ready) \<and> (ac_worker a = Exited \<longrightarrow> ac_done a)"

definition actor_inv :: "Actor \<Rightarrow> bool" where
  "actor_inv a \<longleftrightarrow> placed a \<and> executing a \<and> truthful a \<and> closing a"

lemma Start_inv: "actor_inv (Start queue)"
  by (simp add: actor_inv_def placed_def executing_def truthful_def closing_def sent_def Start_def Let_def)

lemmas actor_updates = answer_def put_result_def Health_def

lemma sent_simps [simp]:
  "sent (answer k r a) j \<longleftrightarrow> j = k \<or> sent a j" "sent (put_result q r a) = sent a"
  "sent (a\<lparr>ac_health := h\<rparr>) = sent a" "sent (a\<lparr>ac_worker := w\<rparr>) = sent a" "sent (a\<lparr>ac_req := qs\<rparr>) = sent a"
  "sent (a\<lparr>ac_calls := (ac_calls a)(k \<mapsto> Waiting q)\<rparr>) j \<longleftrightarrow> j = k \<or> sent a j"
  "sent (a\<lparr>ac_calls := (ac_calls a)(k \<mapsto> Requesting q)\<rparr>) j \<longleftrightarrow> j \<noteq> k \<and> sent a j"
  "sent (a\<lparr>ac_executed := qs\<rparr>) = sent a" "sent (a\<lparr>ac_outcomes := o'\<rparr>) = sent a"
  "sent (a\<lparr>ac_closing := b\<rparr>) = sent a" "sent (a\<lparr>ac_stop := b\<rparr>) = sent a" "sent (a\<lparr>ac_done := b\<rparr>) = sent a"
  by (auto simp: sent_def fun_eq_iff actor_updates)

lemma sent_phases [simp]:
  "ac_calls a k = None \<Longrightarrow> \<not> sent a k" "ac_calls a k = Some (Requesting q) \<Longrightarrow> \<not> sent a k"
  "ac_calls a k = Some (Waiting q) \<Longrightarrow> sent a k"
  by (simp_all add: sent_def)

lemma close_step_inv: "close_step a b \<Longrightarrow> actor_inv a \<Longrightarrow> actor_inv b"
  by (elim close_stepE) (simp_all add: actor_inv_def placed_def executing_def truthful_def closing_def)

lemma answer_sel [simp]:
  "ac_req (answer k r a) = ac_req a" "ac_worker (answer k r a) = ac_worker a" "ac_results (answer k r a) = ac_results a"
  "ac_executed (answer k r a) = ac_executed a" "ac_outcomes (answer k r a) = ac_outcomes a" "ac_cap (answer k r a) = ac_cap a"
  "ac_stop (answer k r a) = ac_stop a" "ac_closing (answer k r a) = ac_closing a" "ac_health (answer k r a) = ac_health a"
  "ac_done (answer k r a) = ac_done a" "ac_calls (answer k r a) = (ac_calls a)(k \<mapsto> Answered r)"
  by (simp_all add: answer_def)

lemma put_result_sel [simp]:
  "ac_req (put_result q r a) = ac_req a" "ac_worker (put_result q r a) = ac_worker a" "ac_calls (put_result q r a) = ac_calls a"
  "ac_executed (put_result q r a) = ac_executed a" "ac_outcomes (put_result q r a) = ac_outcomes a" "ac_cap (put_result q r a) = ac_cap a"
  "ac_stop (put_result q r a) = ac_stop a" "ac_closing (put_result q r a) = ac_closing a" "ac_health (put_result q r a) = ac_health a"
  "ac_done (put_result q r a) = ac_done a" "ac_results (put_result q r a) = (ac_results a)(rq_call q \<mapsto> r)"
  by (simp_all add: put_result_def)

lemma answer_inv:
  assumes i: "actor_inv a" and r: "own_error r \<or> ac_results a k = Some r"
  shows "actor_inv (answer k r a)"
proof -
  have "truthful (answer k r a)" using i r by (auto simp: actor_inv_def truthful_def)
  moreover have "placed (answer k r a)" using i by (auto simp: actor_inv_def placed_def)
  ultimately show ?thesis using i by (auto simp: actor_inv_def executing_def closing_def)
qed

lemma degrade_inv: "actor_inv a \<Longrightarrow> actor_inv (a\<lparr>ac_health := Degraded\<rparr>)"
  by (simp add: actor_inv_def placed_def executing_def truthful_def closing_def)

lemma enter_inv:
  assumes i: "actor_inv a" and k: "ac_calls a (rq_call q) = None"
  shows "actor_inv (a\<lparr>ac_calls := (ac_calls a)(rq_call q \<mapsto> Requesting q)\<rparr>)"
proof -
  have n: "\<not> sent a (rq_call q)" using k by simp
  have "placed (a\<lparr>ac_calls := (ac_calls a)(rq_call q \<mapsto> Requesting q)\<rparr>)" using i n by (auto simp: actor_inv_def placed_def)
  moreover have "executing (a\<lparr>ac_calls := (ac_calls a)(rq_call q \<mapsto> Requesting q)\<rparr>)"
    using i n by (auto simp: actor_inv_def executing_def)
  ultimately show ?thesis using i by (auto simp: actor_inv_def truthful_def closing_def)
qed

lemma send_inv:
  assumes i: "actor_inv a" and k: "ac_calls a k = Some (Requesting q)" and c: "length (ac_req a) < ac_cap a"
  shows "actor_inv (a\<lparr>ac_calls := (ac_calls a)(k \<mapsto> Waiting q), ac_req := ac_req a @ [q]\<rparr>)" (is "actor_inv ?b")
proof -
  have q: "rq_call q = k" using i k by (auto simp: actor_inv_def placed_def)
  have n: "\<not> sent a k" using k by simp
  have res: "ac_results a k = None" using i n by (auto simp: actor_inv_def placed_def)
  from n have o: "k \<notin> set (open_calls a)" "k \<notin> set (executed_calls a)" using i by (auto simp: actor_inv_def placed_def executing_def)
  have "placed ?b" using i q o c res by (auto simp: actor_inv_def placed_def)
  moreover have "executing ?b" using i q o by (auto simp: actor_inv_def executing_def)
  ultimately show ?thesis using i by (auto simp: actor_inv_def truthful_def closing_def)
qed

lemma call_step_inv: "call_step a b \<Longrightarrow> actor_inv a \<Longrightarrow> actor_inv b"
  by (elim call_stepE) (auto intro!: answer_inv degrade_inv enter_inv send_inv)

text \<open>The worker: what it takes from the queue it holds, and what it held gets its result.\<close>

lemma settle_inv:
  assumes i: "actor_inv a" and q: "in_hand (ac_worker a) @ ac_req a = q # qs" "in_hand w = []" "w \<noteq> Exited"
    and r: "own_error r \<or> ac_outcomes a (rq_call q) = Some r"
  shows "actor_inv (put_result q r (a\<lparr>ac_worker := w, ac_req := qs\<rparr>))" (is "actor_inv ?b")
proof -
  have w: "\<And>q'. w \<noteq> Received q'" "\<And>q'. w \<noteq> Executing q'" "\<And>q' r'. w \<noteq> Sending q' r'" using q(2) by auto
  have len: "length qs \<le> length (ac_req a)" using q(1) by (cases "ac_worker a"; cases "ac_req a"; auto)
  have sub: "set qs \<subseteq> set (ac_req a)" using q(1) by (cases "ac_worker a"; cases "ac_req a"; auto)
  have o: "open_calls a = rq_call q # map rq_call qs" using q(1) by simp
  have p: "distinct (rq_call q # map rq_call qs)" "\<forall>k \<in> set (rq_call q # map rq_call qs). sent a k \<and> ac_results a k = None"
    using i unfolding actor_inv_def placed_def o by blast+
  then have "placed ?b" using i q(2) len unfolding actor_inv_def placed_def by (auto simp: image_iff)
  moreover have "executing ?b" using i w sub by (auto simp: actor_inv_def executing_def)
  moreover have "truthful ?b" using i r by (auto simp: actor_inv_def truthful_def)
  moreover have "closing ?b" using i q(3) by (auto simp: actor_inv_def closing_def)
  ultimately show ?thesis by (simp add: actor_inv_def)
qed

lemma receive_inv:
  assumes i: "actor_inv a" and w: "ac_worker a = Selecting" "ac_req a = q # qs"
  shows "actor_inv (a\<lparr>ac_worker := Received q, ac_req := qs\<rparr>)"
proof -
  have "placed (a\<lparr>ac_worker := Received q, ac_req := qs\<rparr>)" using i w by (auto simp: actor_inv_def placed_def)
  moreover have "executing (a\<lparr>ac_worker := Received q, ac_req := qs\<rparr>)" using i w by (auto simp: actor_inv_def executing_def)
  ultimately show ?thesis using i by (auto simp: actor_inv_def truthful_def closing_def)
qed

lemma execute_inv:
  assumes i: "actor_inv a" and w: "ac_worker a = Received q"
  shows "actor_inv (a\<lparr>ac_worker := Executing q, ac_executed := ac_executed a @ [q]\<rparr>)" (is "actor_inv ?b")
proof -
  have o: "open_calls a = rq_call q # map rq_call (ac_req a)" using w by simp
  have "distinct (rq_call q # map rq_call (ac_req a))" "sent a (rq_call q)"
    using i unfolding actor_inv_def placed_def o by simp_all
  then have "sent a (rq_call q)" "rq_call q \<notin> set (executed_calls a)" "\<forall>p \<in> set (ac_req a). rq_call p \<noteq> rq_call q"
    using i w unfolding actor_inv_def executing_def by (auto simp: image_iff)
  moreover from this have "ac_outcomes a (rq_call q) = None" using i by (auto simp: actor_inv_def executing_def)
  ultimately have "executing ?b" using i w by (auto simp: actor_inv_def executing_def)
  moreover have "placed ?b" using i w by (auto simp: actor_inv_def placed_def)
  ultimately show ?thesis using i by (auto simp: actor_inv_def truthful_def closing_def)
qed

lemma finish_inv:
  assumes i: "actor_inv a" and w: "ac_worker a = Executing q"
  shows "actor_inv (a\<lparr>ac_worker := Sending q r, ac_health := (if p then Degraded else ac_health a),
    ac_outcomes := (ac_outcomes a)(rq_call q \<mapsto> r)\<rparr>)" (is "actor_inv ?b")
proof -
  have n: "ac_outcomes a (rq_call q) = None" "rq_call q \<in> set (executed_calls a)" using i w by (auto simp: actor_inv_def executing_def)
  have "executing ?b" using i w n by (auto simp: actor_inv_def executing_def)
  moreover have "placed ?b" using i w by (auto simp: actor_inv_def placed_def)
  moreover have "truthful ?b" using i n(1) unfolding actor_inv_def truthful_def
    by simp (metis option.distinct(1))
  ultimately show ?thesis using i by (auto simp: actor_inv_def closing_def)
qed

lemma idle_inv:
  assumes "actor_inv a" "in_hand (ac_worker a) = []" "w = Draining \<or> w = Exited" "w = Exited \<longrightarrow> d"
  shows "actor_inv (a\<lparr>ac_worker := w, ac_done := d\<rparr>)" (is "actor_inv ?b")
proof -
  have h: "in_hand w = []" using assms(3) by auto
  have "placed ?b" using assms(1,2) h by (simp add: actor_inv_def placed_def)
  moreover have "executing ?b" using assms(1,3) by (auto simp: actor_inv_def executing_def)
  moreover have "truthful ?b" "closing ?b" using assms(1,4) by (simp_all add: actor_inv_def truthful_def closing_def)
  ultimately show ?thesis by (simp add: actor_inv_def)
qed

lemma worker_step_inv:
  assumes "worker_step a b" and i: "actor_inv a"
  shows "actor_inv b"
proof -
  have same: "a\<lparr>ac_worker := w, ac_req := ac_req a\<rparr> = a\<lparr>ac_worker := w\<rparr>" "a\<lparr>ac_worker := w, ac_done := ac_done a\<rparr> = a\<lparr>ac_worker := w\<rparr>" for w
    by (cases a; simp)+
  have own: "own_error r \<or> ac_outcomes a (rq_call q) = Some r" if "ac_worker a = Sending q r" for q r
    using i that unfolding actor_inv_def executing_def by blast
  from assms(1) show ?thesis
  proof cases
    case (receive q qs)
    then show ?thesis using receive_inv [OF i] by simp
  next
    case (refuse_closed q)
    then show ?thesis using settle_inv [OF i, of q "ac_req a" Selecting] same by simp
  next
    case (refuse_degraded q)
    then show ?thesis using settle_inv [OF i, of q "ac_req a" Selecting] same by simp
  next
    case (execute q)
    then show ?thesis using execute_inv [OF i] by simp
  next
    case (finish q out resp err panicked)
    then show ?thesis using finish_inv [OF i] by simp
  next
    case (respond q r)
    then show ?thesis using settle_inv [OF i, of q "ac_req a" Selecting r] same own by simp
  next
    case stop
    then show ?thesis using idle_inv [OF i, of Draining "ac_done a"] same by simp
  next
    case (drain q qs)
    have e: "a\<lparr>ac_worker := Draining, ac_req := qs\<rparr> = a\<lparr>ac_req := qs\<rparr>" using drain(2) by (cases a) simp
    show ?thesis unfolding drain(1) e [symmetric] using settle_inv [OF i, of q qs Draining] drain by simp
  next
    case leave
    then show ?thesis using idle_inv [OF i, of Exited True] by simp
  qed
qed

lemma actor_step_inv: "actor_step a b \<Longrightarrow> actor_inv a \<Longrightarrow> actor_inv b"
  by (cases rule: actor_step.cases) (auto intro: call_step_inv worker_step_inv close_step_inv)

lemma actor_run_inv: "actor_step\<^sup>*\<^sup>* a b \<Longrightarrow> actor_inv a \<Longrightarrow> actor_inv b"
  by (induction rule: rtranclp_induct) (auto intro: actor_step_inv)

lemma actor_reachable_inv: "actor_reachable a \<Longrightarrow> actor_inv a"
  using actor_run_inv Start_inv by (auto simp: actor_reachable_def)

subsection \<open>Health\<close>

lemma degraded_step:
  assumes "actor_step a b" "ac_health a \<noteq> Ready"
  shows "ac_health b \<noteq> Ready \<and> ac_executed b = ac_executed a"
  using assms by (auto elim!: actor_step.cases call_stepE worker_stepE close_stepE simp: Health_def split: if_splits)

lemma degraded_run:
  "actor_step\<^sup>*\<^sup>* a b \<Longrightarrow> ac_health a \<noteq> Ready \<Longrightarrow> ac_health b \<noteq> Ready \<and> ac_executed b = ac_executed a"
  by (induction rule: rtranclp_induct) (auto dest: degraded_step)

subsection \<open>Closing\<close>

fun worker_rank :: "worker \<Rightarrow> nat" where
  "worker_rank Selecting = 2"
| "worker_rank (Received q) = 4"
| "worker_rank (Executing q) = 4"
| "worker_rank (Sending q r) = 3"
| "worker_rank Draining = 1"
| "worker_rank Exited = 0"

definition close_work :: "Actor \<Rightarrow> nat" where
  "close_work a = 3 * length (ac_req a) + worker_rank (ac_worker a)"

lemma close_work_step: "worker_step a b \<Longrightarrow> ac_health a \<noteq> Ready \<Longrightarrow> close_work b < close_work a \<and> ac_health b \<noteq> Ready \<and> ac_stop b = ac_stop a"
  by (elim worker_stepE) (auto simp: close_work_def Health_def)

lemma close_work_steps:
  "(worker_step ^^ n) a b \<Longrightarrow> ac_health a \<noteq> Ready \<Longrightarrow> n + close_work b \<le> close_work a \<and> ac_health b \<noteq> Ready \<and> ac_stop b = ac_stop a"
proof (induction n arbitrary: b)
  case (Suc n)
  then obtain c where "(worker_step ^^ n) a c" "worker_step c b" by auto
  then show ?case using Suc.IH [of c] Suc.prems(2) close_work_step [of c b] by fastforce
qed simp

lemma worker_enabled:
  assumes "ac_stop a" "ac_worker a \<noteq> Exited"
  shows "\<exists>b. worker_step a b"
proof (cases "ac_worker a")
  case Selecting
  then show ?thesis using worker_step.stop assms by blast
next
  case (Received q)
  then show ?thesis using worker_step.intros(2-4) [OF Received] by (cases "Health (Some a)") blast+
next
  case (Executing q)
  then show ?thesis using worker_step.finish [OF Executing] prod_cases3 by metis
next
  case (Sending q r)
  then show ?thesis using worker_step.respond by blast
next
  case Draining
  then show ?thesis using worker_step.drain worker_step.leave by (cases "ac_req a") blast+
qed (use assms in simp)

subsection \<open>Properties\<close>

text \<open>C26. The answers of the actor are truthful however callers, worker and closers interleave: each
  request is executed at most once; a call that returns anything but the actor's own errors and
  the error of its context returns the outcome of its own request, which was executed; the queue
  stays within its capacity; and from the moment the actor is not ready, after a timeout, a panic
  or a close, no further request is ever executed and it never becomes ready again.\<close>

theorem actor_answers_truthful:
  assumes "actor_reachable a" "actor_step\<^sup>*\<^sup>* a b"
  shows "distinct (executed_calls b) \<and> length (ac_req b) \<le> ac_cap b \<and>
    (\<forall>k r. ac_calls b k = Some (Answered r) \<longrightarrow> own_error r \<or> (ac_outcomes b k = Some r \<and> k \<in> set (executed_calls b))) \<and>
    (ac_health a \<noteq> Ready \<longrightarrow> ac_health b \<noteq> Ready \<and> ac_executed b = ac_executed a)"
proof -
  have "actor_inv b" using actor_run_inv [OF assms(2) actor_reachable_inv [OF assms(1)]] .
  then show ?thesis using degraded_run [OF assms(2)]
    unfolding actor_inv_def placed_def executing_def truthful_def by blast
qed

definition one_request :: request where
  "one_request = \<lparr>rq_call = 0, rq_command = 1, rq_args = []\<rparr>"

text \<open>The run of a single call up to the executor.\<close>

definition running_actor :: Actor where
  "running_actor = \<lparr>ac_health = Ready, ac_stop = False, ac_done = False, ac_cap = 1, ac_req = [], ac_worker = Executing one_request,
     ac_calls = [0 \<mapsto> Waiting one_request], ac_results = Map.empty, ac_closing = False, ac_executed = [one_request], ac_outcomes = Map.empty\<rparr>"

lemma running_actor_reachable: "actor_reachable running_actor"
proof -
  let ?s0 = "Start 1"
  let ?s1 = "?s0\<lparr>ac_calls := [0 \<mapsto> Requesting one_request]\<rparr>"
  let ?s2 = "?s0\<lparr>ac_calls := [0 \<mapsto> Waiting one_request], ac_req := [one_request]\<rparr>"
  let ?s3 = "?s0\<lparr>ac_calls := [0 \<mapsto> Waiting one_request], ac_worker := Received one_request\<rparr>"
  have "actor_step ?s0 ?s1"
    using call_step.enter [of ?s0 0 one_request] by (intro by_caller) (simp add: Start_def Health_def one_request_def)
  moreover have "actor_step ?s1 ?s2"
    using call_step.send [of ?s1 0 one_request] by (intro by_caller) (simp add: Start_def)
  moreover have "actor_step ?s2 ?s3"
    using worker_step.receive [of ?s2 one_request "[]"] by (intro by_worker) (simp add: Start_def)
  moreover have "actor_step ?s3 running_actor"
    using worker_step.execute [of ?s3 one_request] by (intro by_worker) (simp add: Start_def Health_def running_actor_def)
  ultimately show ?thesis unfolding actor_reachable_def
    by (intro exI [of _ 1]) (meson converse_rtranclp_into_rtranclp rtranclp.rtrancl_refl)
qed

theorem actor_answers_truthful_witness: "distinct (executed_calls running_actor) \<and> length (ac_req running_actor) \<le> ac_cap running_actor"
  using actor_answers_truthful [OF running_actor_reachable rtranclp.rtrancl_refl] by simp

text \<open>C27. Closing ends: once the stop channel is closed, the worker takes at most a number of steps
  given by the queue and its position, whatever order it takes them in; it is never stuck before
  it has exited, given that the executor returns; and when it has exited the done channel is
  closed, so \<open>Close\<close> returns.\<close>

theorem actor_close_terminates:
  assumes r: "actor_reachable a" and s: "ac_stop a" and w: "(worker_step ^^ n) a b"
  shows "n \<le> close_work a \<and> (ac_worker b \<noteq> Exited \<longrightarrow> (\<exists>c. worker_step b c)) \<and> (ac_worker b = Exited \<longrightarrow> ac_done b)"
proof -
  have i: "actor_inv a" by (rule actor_reachable_inv [OF r])
  then have h: "ac_health a \<noteq> Ready" using s by (simp add: actor_inv_def closing_def)
  note c = close_work_steps [OF w h]
  have "actor_inv b" using w i
  proof (induction n arbitrary: b)
    case (Suc n)
    then show ?case using worker_step_inv by (metis relpowp_Suc_E)
  qed simp
  then show ?thesis using c s worker_enabled [of b] by (auto simp: actor_inv_def closing_def)
qed

lemma stopped_actor_reachable: "actor_reachable (running_actor\<lparr>ac_health := Closed, ac_closing := True, ac_stop := True\<rparr>)"
proof -
  let ?m = "running_actor\<lparr>ac_health := Closed, ac_closing := True\<rparr>"
  have "actor_step running_actor ?m" "actor_step ?m (?m\<lparr>ac_stop := True\<rparr>)"
    using by_closer [OF close_step.mark [of running_actor]] by_closer [OF close_step.close [of ?m]] by simp_all
  then show ?thesis using running_actor_reachable unfolding actor_reachable_def by (meson rtranclp.rtrancl_into_rtrancl)
qed

theorem actor_close_terminates_witness:
  "\<exists>c. worker_step (running_actor\<lparr>ac_health := Closed, ac_closing := True, ac_stop := True\<rparr>) c"
  using actor_close_terminates [OF stopped_actor_reachable, of 0] by (simp add: running_actor_def)

text \<open>A panic of an executor that was running when the actor was closed takes the health back from
  closed to degraded.\<close>

lemma closed_is_not_final:
  "\<exists>a b. actor_reachable a \<and> Health (Some a) = Closed \<and> actor_step a b \<and> Health (Some b) = Degraded"
proof -
  let ?a = "running_actor\<lparr>ac_health := Closed, ac_closing := True, ac_stop := True\<rparr>"
  obtain resp err where p: "callExecutor (Panicked []) = (resp, err, True)" by (simp add: callExecutor_def)
  have "worker_step ?a (?a\<lparr>ac_worker := Sending one_request (resp, err), ac_health := (if True then Degraded else ac_health ?a),
      ac_outcomes := (ac_outcomes ?a)(rq_call one_request \<mapsto> (resp, err))\<rparr>)"
    by (rule worker_step.finish [OF _ p]) (simp add: running_actor_def)
  from by_worker [OF this] show ?thesis using stopped_actor_reachable by (intro exI conjI) (auto simp: Health_def)
qed

end
