(* ===== verification/Texts.thy ===== *)
theory Texts
  imports Marshal Runes
begin

text \<open>
  The texts the marshaller writes, as the decoder sees them: strings and numbers come back as they
  were, and the members of an object are found again between its separators, because neither a
  literal nor the compact form of a raw value shows a separator outside its own brackets and
  strings.
\<close>

subsection \<open>Strings\<close>

lemma hex_digit_char:
  assumes "0 \<le> d" "d < 16"
  shows "is_hex (hex_digit d) \<and> hex_val (hex_digit d) = d"
proof -
  have "d \<in> {0, 1, 2, 3, 4, 5, 6, 7, 8, 9, 10, 11, 12, 13, 14, 15}" using assms by simp presburger
  then show ?thesis by (elim insertE) (simp_all add: hex_digit_def is_hex_def is_digit_def hex_val_def)
qed

lemma byte_at_append: "s \<noteq> [] \<Longrightarrow> byte_at (s @ t) 0 = byte_at s 0"
  by (cases s) (simp_all add: byte_at_def)

lemma unquote_hex:
  assumes "0 \<le> b" "b < 128"
  shows "unquote1 ([CHR 0x5C, CHR ''u'', CHR ''0'', CHR ''0'', hex_digit (b div 16), hex_digit (b mod 16)] @ t) = (encode_rune b, 6)"
proof -
  have "0 \<le> b div 16" "b div 16 < 16" "0 \<le> b mod 16" "b mod 16 < 16" using assms by auto
  note d = hex_digit_char [OF this(1,2)] hex_digit_char [OF this(3,4)]
  have "is_hex (CHR ''0'')" "hex_val (CHR ''0'') = 0" by (simp_all add: is_hex_def is_digit_def hex_val_def)
  then have "getu4 ([CHR 0x5C, CHR ''u'', CHR ''0'', CHR ''0'', hex_digit (b div 16), hex_digit (b mod 16)] @ t) = Some b"
    using d by (simp add: getu4_def)
  then show ?thesis using assms by (simp add: unquote1_def)
qed

lemma c92: "char_of (92 :: int) = CHR 0x5C" and c34: "char_of (34 :: int) = CHR 0x22"
  by code_simp+

lemma unquote_short:
  assumes "c \<in> {CHR 0x5C, CHR 0x22, CHR ''b'', CHR ''f'', CHR ''n'', CHR ''r'', CHR ''t''}"
  shows "unquote1 ([CHR 0x5C, c] @ t) =
    ([if c = CHR ''b'' then char_of (8 :: int) else if c = CHR ''f'' then char_of (12 :: int)
      else if c = CHR ''n'' then char_of (10 :: int) else if c = CHR ''r'' then char_of (13 :: int)
      else if c = CHR ''t'' then char_of (9 :: int) else c], 2)"
  using assms by (elim insertE) (auto simp: unquote1_def getu4_def byte_at_def c92 c34)

text \<open>One escaped rune is read back as that rune, a stray byte as the replacement rune.\<close>

lemma unquote_quote1:
  assumes "s \<noteq> []"
  shows "unquote1 (fst (quote1 s) @ t) = (encode_rune (fst (decode_rune s)), length (fst (quote1 s))) \<and>
    snd (quote1 s) = snd (decode_rune s)"
proof (cases "byte_at s 0 < 128")
  case True
  define b where "b = byte_at s 0"
  have b: "0 \<le> b" "b < 128" and d: "decode_rune s = (b, 1)"
    using True byte_at_bounds(1) [of s 0] by (simp_all add: b_def decode_rune_def)
  have e: "encode_rune b = [char_of b]" using encode_one [OF b] by blast
  have q: "quote1 s = (if b = 92 \<or> b = 34 then [CHR 0x5C, char_of b]
         else if b = 8 then [CHR 0x5C, CHR ''b''] else if b = 12 then [CHR 0x5C, CHR ''f'']
         else if b = 10 then [CHR 0x5C, CHR ''n''] else if b = 13 then [CHR 0x5C, CHR ''r'']
         else if b = 9 then [CHR 0x5C, CHR ''t'']
         else if b < 32 \<or> b = 60 \<or> b = 62 \<or> b = 38
         then [CHR 0x5C, CHR ''u'', CHR ''0'', CHR ''0'', hex_digit (b div 16), hex_digit (b mod 16)]
         else [char_of b], 1)"
    using True unfolding quote1_def b_def Let_def by simp
  define short where "short \<longleftrightarrow> b \<in> {92, 34, 8, 12, 10, 13, 9}"
  consider "b = 92" | "b = 34" | "b = 8" | "b = 12" | "b = 10" | "b = 13" | "b = 9"
    | (hex) "\<not> short" "b < 32 \<or> b = 60 \<or> b = 62 \<or> b = 38"
    | (plain) "\<not> short" "\<not> (b < 32 \<or> b = 60 \<or> b = 62 \<or> b = 38)"
    unfolding short_def by blast
  then show ?thesis
  proof cases
    case hex
    then have "quote1 s = ([CHR 0x5C, CHR ''u'', CHR ''0'', CHR ''0'', hex_digit (b div 16), hex_digit (b mod 16)], 1)"
      unfolding q short_def by auto
    then show ?thesis using unquote_hex [OF b] by (simp add: d)
  next
    case plain
    then have p: "quote1 s = ([char_of b], 1)" "b \<noteq> 92" unfolding q short_def by auto
    have "byte_at [char_of b] 0 = b" using b by (simp add: byte_at_def)
    moreover have "char_of b \<noteq> CHR 0x5C"
    proof
      assume "char_of b = CHR 0x5C"
      then have "(of_char (char_of b :: char) :: int) = of_char (CHR 0x5C)" by simp
      then show False using b p(2) by simp
    qed
    ultimately show ?thesis using b e byte_at_append [of "[char_of b]" t]
      by (simp add: unquote1_def d p)
  qed (simp_all add: q d c92 c34 encode_one [THEN conjunct2] unquote_short del: append_Cons)
next
  case False
  let ?r = "fst (decode_rune s)"
  from assms show ?thesis
  proof (cases s rule: decode_rune_cases)
    case stray
    have "unquote1 ((CHR 0x5C # ''ufffd'') @ t) = (encode_rune 65533, 6)"
      by (simp add: unquote1_def getu4_def is_hex_def is_digit_def hex_val_def)
    then show ?thesis using False by (simp add: quote1_def Let_def stray)
  next
    case (rune r)
    have f: "128 \<le> r" using first_byte [OF rune(1), of "drop (length (encode_rune r)) s"] rune(3) False
      by (metis append_take_drop_id not_le_imp_less)
    show ?thesis
    proof (cases "r = 8232 \<or> r = 8233")
      case True
      then have "unquote1 ((CHR 0x5C # ''u202'' @ [hex_digit (r mod 16)]) @ t) = (encode_rune r, 6)"
        by (elim disjE) (simp_all add: unquote1_def getu4_def is_hex_def is_digit_def hex_val_def hex_digit_def)
      then show ?thesis using False True by (auto simp: quote1_def Let_def rune(2))
    next
      case plain: False
      have n: "length (encode_rune r) \<noteq> 1" using f rune(1)
        by (auto simp: encode_rune_def Let_def valid_rune_def)
      then have q: "quote1 s = (encode_rune r, length (encode_rune r))"
        using False plain rune(2,3) by (simp add: quote1_def Let_def)
      have g: "128 \<le> byte_at (encode_rune r @ t) 0" using first_byte [OF rune(1), of t] f by simp
      then have "(encode_rune r @ t) ! 0 \<noteq> CHR 0x5C" by (auto simp: byte_at_def split: if_splits)
      then show ?thesis using g by (simp add: q unquote1_def decode_encode [OF rune(1)] rune(2))
    qed
  qed
qed

lemma unquote_Nil [simp]: "unquote [] = []"
  by (subst unquote.simps) simp

lemma quote_body_Nil [simp]: "quote_body [] = []"
  by (subst quote_body.simps) simp

lemma quote1_not_Nil: "fst (quote1 s) \<noteq> []" if "s \<noteq> []"
  using unquote_quote1 [OF that, of "[]"] unquote1_width [of "fst (quote1 s)"] by auto

text \<open>What a marshalled string unmarshals to: the string with every invalid byte replaced, so the
  string itself when it is valid UTF-8.\<close>

lemma unquote_quote_body: "unquote (quote_body s) = of_runes (runes s)"
proof (induction s rule: quote_body.induct)
  case (1 s)
  show ?case
  proof (cases "s = []")
    case False
    define t where "t = quote_body (drop (snd (quote1 s)) s)"
    note u = unquote_quote1 [OF False, of t]
    have "unquote (quote_body s) = unquote (fst (quote1 s) @ t)" using False by (subst quote_body.simps) (simp add: t_def)
    also have "\<dots> = encode_rune (fst (decode_rune s)) @ unquote t"
      using u quote1_not_Nil [OF False] by (subst unquote.simps) simp
    also have "\<dots> = of_runes (runes s)" using 1 [OF False] u False by (subst runes.simps) (simp add: t_def)
    finally show ?thesis .
  qed simp
qed

subsection \<open>What the scanner and the splitter see\<close>

text \<open>Whether the scanner is inside a string, and right after a backslash.\<close>

definition in_string :: "scan \<Rightarrow> bool" where
  "in_string st \<longleftrightarrow> st \<in> {SInString, SInStringEsc, SInStringEscU, SInStringEscU1, SInStringEscU12, SInStringEscU123}"

abbreviation escaped :: "scan \<Rightarrow> bool" where "escaped st \<equiv> st = SInStringEsc"

lemma plain_chars:
  "json_space c \<Longrightarrow> c \<notin> set ''[]{},:'' \<and> c \<noteq> CHR 0x22 \<and> c \<noteq> CHR 0x5C"
  "is_digit c \<Longrightarrow> c \<notin> set ''[]{},:'' \<and> c \<noteq> CHR 0x22 \<and> c \<noteq> CHR 0x5C"
  "is_hex c \<Longrightarrow> c \<notin> set ''[]{},:'' \<and> c \<noteq> CHR 0x22 \<and> c \<noteq> CHR 0x5C"
  by (auto simp: json_space_def is_digit_def is_hex_def)

lemma end_value_depth:
  assumes "end_value ps c = Some (st', ps')"
  shows "\<not> in_string st' \<and> c \<noteq> CHR 0x22 \<and> c \<noteq> CHR ''['' \<and> c \<noteq> CHR ''{'' \<and>
    length ps' = (if c = CHR '']'' \<or> c = CHR ''}'' then length ps - 1 else length ps) \<and> (ps = [] \<longrightarrow> c \<noteq> CHR '','' \<and> c \<noteq> CHR '':'')"
proof (cases ps)
  case Nil
  then show ?thesis using assms plain_chars(1) [of c] by (auto simp: end_value_def in_string_def split: if_splits)
next
  case (Cons p qs)
  then show ?thesis using assms plain_chars(1) [of c]
    by (cases p) (auto simp: end_value_def pop_state_def in_string_def split: if_splits)
qed

lemma begin_value_depth:
  assumes "begin_value ps c = Some (st', ps')"
  shows "in_string st' = (c = CHR 0x22) \<and> \<not> escaped st' \<and> c \<notin> set '']},:'' \<and>
    length ps' = (if c = CHR ''['' \<or> c = CHR ''{'' then Suc (length ps) else length ps)"
proof -
  consider (sp) "json_space c" | (ob) "c = CHR ''{''" | (ar) "c = CHR ''[''" | (q) "c = CHR 0x22"
    | (other) "\<not> json_space c" "c \<noteq> CHR ''{''" "c \<noteq> CHR ''[''" "c \<noteq> CHR 0x22" by blast
  then show ?thesis
  proof cases
    case other
    have "(c = CHR ''-'' \<or> c = CHR ''0'' \<or> c = CHR ''t'' \<or> c = CHR ''f'' \<or> c = CHR ''n'' \<or> is_digit19 c) \<and> ps' = ps \<and>
        (st' = SNeg \<or> st' = S0 \<or> st' = ST \<or> st' = SF \<or> st' = SN \<or> st' = S1)"
      using assms unfolding begin_value_def if_not_P [OF other(1)] if_not_P [OF other(2)] if_not_P [OF other(3)] if_not_P [OF other(4)]
      by (simp split: if_split_asm)
    then have "c \<notin> set ''[]{},:'' \<and> \<not> in_string st' \<and> ps' = ps \<and> \<not> escaped st'" using plain_chars(2) [of c]
      by (auto simp: in_string_def is_digit19_def)
    then show ?thesis using other by auto
  qed (use assms plain_chars(1) [of c] in \<open>auto simp: begin_value_def push_state_def in_string_def json_space_def split: if_splits\<close>)
qed

lemma state0_depth:
  assumes "state0 ps c = Some (st', ps')"
  shows "\<not> in_string st' \<and> c \<noteq> CHR 0x22 \<and> c \<noteq> CHR ''['' \<and> c \<noteq> CHR ''{'' \<and>
    length ps' = (if c = CHR '']'' \<or> c = CHR ''}'' then length ps - 1 else length ps) \<and> (ps = [] \<longrightarrow> c \<noteq> CHR '','' \<and> c \<noteq> CHR '':'')"
  using assms end_value_depth [of ps c st' ps'] by (auto simp: state0_def in_string_def split: if_split_asm)

text \<open>A step of the scanner, as far as strings and nesting go.\<close>

definition tracks :: "scan \<Rightarrow> pstate list \<Rightarrow> char \<Rightarrow> scan \<Rightarrow> pstate list \<Rightarrow> bool" where
  "tracks st ps c st' ps' \<longleftrightarrow>
     in_string st' = (if in_string st then escaped st \<or> c \<noteq> CHR 0x22 else c = CHR 0x22) \<and>
     escaped st' = (in_string st \<and> \<not> escaped st \<and> c = CHR 0x5C) \<and>
     length ps' = (if in_string st then length ps else if c = CHR ''['' \<or> c = CHR ''{'' then Suc (length ps)
       else if c = CHR '']'' \<or> c = CHR ''}'' then length ps - 1 else length ps) \<and>
     (\<not> in_string st \<longrightarrow> ps = [] \<longrightarrow> c \<noteq> CHR '','' \<and> c \<noteq> CHR '':'')"

lemma tracks_outside:
  assumes "\<not> in_string st" "\<not> in_string st'" "ps' = ps" "c \<notin> set ''[]{},:'' \<and> c \<noteq> CHR 0x22"
  shows "tracks st ps c st' ps'"
  using assms by (auto simp: tracks_def in_string_def)

lemma tracks_end:
  assumes "\<not> in_string st" "end_value ps c = Some (st', ps')"
  shows "tracks st ps c st' ps'"
  using end_value_depth [OF assms(2)] assms(1) unfolding tracks_def by (simp add: in_string_def)

lemma tracks_state0:
  assumes "\<not> in_string st" "state0 ps c = Some (st', ps')"
  shows "tracks st ps c st' ps'"
  using state0_depth [OF assms(2)] assms(1) unfolding tracks_def by (simp add: in_string_def)

lemma tracks_begin:
  assumes "\<not> in_string st" "begin_value ps c = Some (st', ps')"
  shows "tracks st ps c st' ps'"
  using begin_value_depth [OF assms(2)] assms(1) by (auto simp: tracks_def)

lemma tracks_begin_string:
  assumes "\<not> in_string st" "begin_string ps c = Some (st', ps')"
  shows "tracks st ps c st' ps'"
  using assms plain_chars(1) [of c] by (auto simp: begin_string_def tracks_def in_string_def split: if_split_asm)

lemma scan_step_tracks:
  assumes "scan_step st ps c = Some (st', ps')"
  shows "tracks st ps c st' ps'"
proof -
  have o: "\<not> in_string st \<Longrightarrow> st = SBeginValue \<or> st = SBeginValueOrEmpty \<or> st = SBeginStringOrEmpty \<or> st = SBeginString \<or> st = SEndValue \<or>
    st = SEndTop \<or> st \<in> {SNeg, S1, S0, SDot, SDot0, SE, SESign, SE0} \<or> st \<in> {ST, STr, STru, SF, SFa, SFal, SFals, SN, SNu, SNul}"
    by (cases st) (simp_all add: in_string_def)
  show ?thesis
  proof (cases "in_string st")
    case True
    then show ?thesis using assms plain_chars(3) [of c]
      by (auto simp: in_string_def tracks_def expect_def split: if_split_asm)
  next
    case False
    note outside = tracks_outside tracks_end tracks_state0 tracks_begin tracks_begin_string
    from o [OF False] show ?thesis
    proof (elim disjE)
      assume st: "st = SBeginStringOrEmpty"
      show ?thesis
      proof (cases "c = CHR ''}''")
        case True
        then show ?thesis using assms st end_value_depth [of "PObjectValue # tl ps" c st' ps']
          by (auto simp: tracks_def in_string_def json_space_def split: list.splits)
      next
        case False
        then show ?thesis using assms st plain_chars(1) [of c] by (auto simp: in_string_def intro: outside split: if_split_asm)
      qed
    next
      assume "st \<in> {SNeg, S1, S0, SDot, SDot0, SE, SESign, SE0}"
      then show ?thesis using assms plain_chars(2) [of c]
        by (elim insertE) (auto simp: in_string_def expect_def is_digit19_def intro: outside split: if_split_asm)
    next
      assume "st \<in> {ST, STr, STru, SF, SFa, SFal, SFals, SN, SNu, SNul}"
      then show ?thesis using assms
        by (elim insertE) (auto simp: in_string_def expect_def intro: outside split: if_split_asm)
    qed (use assms plain_chars(1) [of c] in \<open>auto simp: in_string_def expect_def intro: outside split: if_split_asm\<close>)
  qed
qed

text \<open>The characters the marshaller escapes appear in strings only.\<close>

lemma escaped_chars:
  assumes "of_char c = (60 :: int) \<or> of_char c = (62 :: int) \<or> of_char c = (38 :: int) \<or> 128 \<le> (of_char c :: int)"
    and "scan_step st ps c = Some (st', ps')"
  shows "st = SInString \<and> st' = SInString \<and> ps' = ps"
proof -
  have d: "c \<noteq> x" if "(of_char x :: int) \<notin> {60, 62, 38}" "of_char x < (128 :: int)" for x :: char using assms(1) that by auto
  have n: "\<not> json_space c" "\<not> is_digit c" "\<not> is_hex c" "\<not> is_digit19 c" "32 \<le> (of_char c :: int)"
    using assms(1) by (auto simp: json_space_def is_digit_def is_hex_def is_digit19_def)
  show ?thesis
    using assms(2) n
    by (cases st; cases ps) (simp_all add: d begin_value_def begin_string_def end_value_def state0_def expect_def split: pstate.splits)
qed

lemma scan_run_append:
  "scan_run (st, ps) (s @ t) = (case scan_run (st, ps) s of None \<Rightarrow> None | Some q \<Rightarrow> scan_run q t)"
  by (induction s arbitrary: st ps) (auto split: option.splits)

lemma split_step:
  assumes "scan_step st ps c = Some (st', ps')" "sep = CHR '','' \<or> sep = CHR '':''"
  shows "split_top sep (length ps) (in_string st) (escaped st) acc (c # cs) =
    split_top sep (length ps') (in_string st') (escaped st') (c # acc) cs"
proof -
  have t: "tracks st ps c st' ps'" using assms(1) by (rule scan_step_tracks)
  show ?thesis
  proof (cases "in_string st")
    case True
    then show ?thesis using t by (simp add: tracks_def)
  next
    case False
    then have "\<not> (c = sep \<and> length ps = 0)" using t assms(2) by (auto simp: tracks_def)
    moreover have "\<not> escaped st" using False by (auto simp: in_string_def)
    ultimately show ?thesis using False t by (auto simp: tracks_def)
  qed
qed

text \<open>White space outside strings changes neither nesting nor strings.\<close>

lemma space_step:
  assumes "scan_step st ps c = Some (st', ps')" "json_space c" "\<not> in_string st"
  shows "\<not> in_string st'" "\<not> escaped st'" "length ps' = length ps"
  using scan_step_tracks [OF assms(1)] assms(3) plain_chars(1) [OF assms(2)] by (auto simp: tracks_def)

lemma split_run:
  assumes "scan_run (st, ps) s = Some (st', ps')" "sep = CHR '','' \<or> sep = CHR '':''"
  shows "split_top sep (length ps) (in_string st) (escaped st) acc (s @ rest) =
    split_top sep (length ps') (in_string st') (escaped st') (rev s @ acc) rest"
  using assms(1)
proof (induction s arbitrary: st ps acc)
  case (Cons c s)
  then obtain st1 ps1 where s1: "scan_step st ps c = Some (st1, ps1)" "scan_run (st1, ps1) s = Some (st', ps')"
    by (auto split: option.splits)
  then show ?case using Cons.IH [OF s1(2)] split_step [OF s1(1) assms(2)] by simp
qed simp

lemma hex_digit_plain: "0 \<le> d \<Longrightarrow> d < 16 \<Longrightarrow> hex_digit d \<noteq> CHR 0x22 \<and> hex_digit d \<noteq> CHR 0x5C"
  using hex_digit_char [of d] plain_chars(3) [of "hex_digit d"] by blast

lemma split_escape:
  assumes "0 \<le> d" "d < 16" "0 \<le> e" "e < 16"
  shows "split_top sep n True False acc ([CHR 0x5C, CHR ''u'', CHR ''0'', CHR ''0'', hex_digit d, hex_digit e] @ t) =
      split_top sep n True False (rev [CHR 0x5C, CHR ''u'', CHR ''0'', CHR ''0'', hex_digit d, hex_digit e] @ acc) t"
    "split_top sep n True False acc ((CHR 0x5C # ''u202'' @ [hex_digit e]) @ t) =
      split_top sep n True False (rev (CHR 0x5C # ''u202'' @ [hex_digit e]) @ acc) t"
  using hex_digit_plain [OF assms(1,2)] hex_digit_plain [OF assms(3,4)] by simp_all

text \<open>Compaction as the splitter sees it: the compact form of a scanned text moves it between the same
  states.\<close>

lemma compact_cases [consumes 1, case_names Nil html sep string space outside]:
  assumes r: "scan_run (st, ps) s = Some (st', ps')"
  obtains "s = []" "st' = st" "ps' = ps" "compact (in_string st) (escaped st) s = []"
  | d e cs where "0 \<le> d" "d < 16" "0 \<le> e" "e < 16" "length cs < length s" "st = SInString" "scan_run (SInString, ps) cs = Some (st', ps')"
      "compact (in_string st) (escaped st) s = [CHR 0x5C, CHR ''u'', CHR ''0'', CHR ''0'', hex_digit d, hex_digit e] @ compact True False cs"
  | e cs where "0 \<le> e" "e < 16" "length cs < length s" "st = SInString" "scan_run (SInString, ps) cs = Some (st', ps')"
      "compact (in_string st) (escaped st) s = (CHR 0x5C # ''u202'' @ [hex_digit e]) @ compact True False cs"
  | c cs st1 ps1 where "s = c # cs" "in_string st" "scan_step st ps c = Some (st1, ps1)" "scan_run (st1, ps1) cs = Some (st', ps')"
      "compact (in_string st) (escaped st) s = c # compact (in_string st1) (escaped st1) cs"
  | c cs st1 ps1 where "s = c # cs" "\<not> in_string st" "json_space c" "scan_step st ps c = Some (st1, ps1)"
      "scan_run (st1, ps1) cs = Some (st', ps')" "compact (in_string st) (escaped st) s = compact (in_string st1) (escaped st1) cs"
  | c cs st1 ps1 where "s = c # cs" "\<not> in_string st" "\<not> json_space c" "scan_step st ps c = Some (st1, ps1)"
      "scan_run (st1, ps1) cs = Some (st', ps')" "compact (in_string st) (escaped st) s = c # compact (in_string st1) (escaped st1) cs"
proof (cases s)
  case Nil
  then show thesis using r that(1) by simp
next
  case (Cons c cs)
  let ?b = "of_char c :: int"
  obtain st1 ps1 where s1: "scan_step st ps c = Some (st1, ps1)" "scan_run (st1, ps1) cs = Some (st', ps')"
    using r Cons by (auto split: option.splits)
  have t: "tracks st ps c st1 ps1" by (rule scan_step_tracks [OF s1(1)])
  show thesis
  proof (cases "?b = 60 \<or> ?b = 62 \<or> ?b = 38")
    case html: True
    then have "st = SInString" "st1 = SInString" "ps1 = ps" using escaped_chars [OF _ s1(1)] by auto
    then show thesis using html s1(2) Cons
      by (intro that(2) [of "?b div 16" "?b mod 16" cs]) (auto simp: in_string_def Let_def)
  next
    case html: False
    show thesis
    proof (cases "?b = 226 \<and> byte_at cs 0 = 128 \<and> (byte_at cs 1 = 168 \<or> byte_at cs 1 = 169)")
      case True
      then have i: "0 < length cs" "1 < length cs" using byte_at_pos [of cs 0] byte_at_pos [of cs 1] by auto
      then obtain c1 c2 cs' where cs: "cs = c1 # c2 # cs'" by (cases cs; cases "tl cs") auto
      have b: "of_char c1 = (128 :: int)" "of_char c2 = (168 :: int) \<or> of_char c2 = (169 :: int)"
        using True cs by (simp_all add: byte_at_def)
      have q: "st = SInString" "st1 = SInString" "ps1 = ps" using escaped_chars [OF _ s1(1)] True by auto
      then obtain q1 q2 where "scan_step SInString ps c1 = Some q1" "scan_step (fst q1) (snd q1) c2 = Some q2"
          "scan_run q2 cs' = Some (st', ps')" using s1(2) cs by (auto split: option.splits)
      then have "scan_run (SInString, ps) cs' = Some (st', ps')"
        using escaped_chars [of c1 SInString ps "fst q1" "snd q1"] escaped_chars [of c2 "fst q1" "snd q1" "fst q2" "snd q2"] b
        by (metis order_refl prod.collapse numeral_le_iff semiring_norm(69,71,72,73) option.inject prod.inject)
      moreover have "compact True False s = (CHR 0x5C # ''u202'' @ [hex_digit (byte_at cs 1 mod 16)]) @ compact True False cs'"
        using True html by (simp add: Cons cs Let_def)
      ultimately show thesis using q cs Cons by (intro that(3) [of "byte_at cs 1 mod 16" cs']) (auto simp: in_string_def)
    next
      case False
      have cc: "compact (in_string st) (escaped st) s =
          (if in_string st then c # compact (escaped st \<or> c \<noteq> CHR 0x22) (\<not> escaped st \<and> c = CHR 0x5C) cs
           else if json_space c then compact False False cs else c # compact (c = CHR 0x22) False cs)"
        unfolding Cons compact.simps Let_def if_not_P [OF html] if_not_P [OF False] ..
      consider "in_string st" | "\<not> in_string st" "json_space c" | "\<not> in_string st" "\<not> json_space c" by blast
      then show thesis
      proof cases
        case 1
        then show thesis using t cc by (intro that(4) [OF Cons 1 s1]) (simp add: tracks_def)
      next
        case 2
        then show thesis using space_step [OF s1(1) 2(2,1)] cc by (intro that(5) [OF Cons 2 s1]) simp
      next
        case 3
        then show thesis using t cc by (intro that(6) [OF Cons 3 s1]) (simp add: tracks_def)
      qed
    qed
  qed
qed

lemma split_compact:
  assumes "scan_run (st, ps) s = Some (st', ps')" and sep: "sep = CHR '','' \<or> sep = CHR '':''"
  shows "split_top sep (length ps) (in_string st) (escaped st) acc (compact (in_string st) (escaped st) s @ rest) =
    split_top sep (length ps') (in_string st') (escaped st') (rev (compact (in_string st) (escaped st) s) @ acc) rest"
  using assms(1)
proof (induction "length s" arbitrary: s st ps acc rule: less_induct)
  case less
  have i: "in_string SInString" "\<not> escaped SInString" by (simp_all add: in_string_def)
  from less.prems show ?case
  proof (cases rule: compact_cases)
    case (html d e cs)
    show ?thesis unfolding html(8) append_assoc using less.hyps [OF html(5,7)] split_escape(1) [OF html(1-4)] html(6) i by simp
  next
    case (sep e cs)
    show ?thesis unfolding sep(6) append_assoc using less.hyps [OF sep(3,5)] split_escape(2) [OF sep(1,2,1,2)] sep(4) i by simp
  next
    case (string c cs st1 ps1)
    then show ?thesis using less.hyps [of cs st1 ps1 "c # acc"] split_step [OF string(3) sep, of acc] by simp
  next
    case (space c cs st1 ps1)
    then show ?thesis using less.hyps [of cs st1 ps1 acc] space_step [OF space(4,3,2)] by (auto simp: in_string_def)
  next
    case (outside c cs st1 ps1)
    then show ?thesis using less.hyps [of cs st1 ps1 "c # acc"] split_step [OF outside(4) sep, of acc] by simp
  qed simp
qed

text \<open>The last byte of a compact text that ends outside strings is not white space.\<close>

lemma compact_last:
  assumes "scan_run (st, ps) s = Some (st', ps')" "\<not> in_string st'" "compact (in_string st) (escaped st) s \<noteq> []"
  shows "\<not> json_space (last (compact (in_string st) (escaped st) s))"
  using assms
proof (induction "length s" arbitrary: s st ps rule: less_induct)
  case less
  have i: "in_string SInString" "\<not> escaped SInString" by (simp_all add: in_string_def)
  have e: "compact (in_string st1) (escaped st1) cs \<noteq> []"
    if "scan_run (st1, ps1) cs = Some (st', ps')" "in_string st1" for st1 ps1 cs
    using that less.prems(2) by (cases rule: compact_cases) auto
  from less.prems(1) show ?case
  proof (cases rule: compact_cases)
    case (html d e' cs)
    then show ?thesis using less.hyps [OF html(5,7) less.prems(2)] e [OF html(7)] i by simp
  next
    case (sep e' cs)
    then show ?thesis using less.hyps [OF sep(3,5) less.prems(2)] e [OF sep(5)] i by simp
  next
    case (string c cs st1 ps1)
    show ?thesis
    proof (cases "compact (in_string st1) (escaped st1) cs = []")
      case True
      then have "\<not> in_string st1" using e [OF string(4)] by blast
      then have "c = CHR 0x22" using scan_step_tracks [OF string(3)] string(2) by (simp add: tracks_def)
      then show ?thesis using True string(5) by (simp add: json_space_def)
    next
      case False
      then show ?thesis using less.hyps [OF _ string(4) less.prems(2)] string by simp
    qed
  next
    case (space c cs st1 ps1)
    then show ?thesis using less.hyps [OF _ space(5) less.prems(2)] less.prems(3) by simp
  next
    case (outside c cs st1 ps1)
    then show ?thesis using less.hyps [OF _ outside(5) less.prems(2)]
      by (cases "compact (in_string st1) (escaped st1) cs = []") simp_all
  qed (use less.prems(3) in simp)
qed

lemma compact_head:
  assumes "compact False False s \<noteq> []"
  shows "\<not> json_space (hd (compact False False s))"
  using assms
proof (induction s)
  case (Cons c s)
  have "\<not> json_space (CHR 0x5C)" by (simp add: json_space_def)
  then show ?case using Cons by (auto simp: Let_def split: if_splits)
qed simp

lemma compact_Nil:
  assumes "compact False False s = []"
  shows "list_all json_space s"
  using assms by (induction s) (auto simp: Let_def split: if_splits)

subsection \<open>Values\<close>

text \<open>A text that neither the comma nor the colon splits, and that trimming leaves alone.\<close>

definition opaque :: "string \<Rightarrow> bool" where
  "opaque t \<longleftrightarrow> (\<forall>sep acc rest. sep = CHR '','' \<or> sep = CHR '':'' \<longrightarrow>
     split_top sep 0 False False acc (t @ rest) = split_top sep 0 False False (rev t @ acc) rest)"

definition trimmed :: "string \<Rightarrow> bool" where
  "trimmed t \<longleftrightarrow> t \<noteq> [] \<and> \<not> json_space (hd t) \<and> \<not> json_space (last t)"

lemma trim_trimmed: "trimmed t \<Longrightarrow> trim_json t = t"
proof -
  assume t: "trimmed t"
  then have "dropWhile json_space t = t" by (cases t) (simp_all add: trimmed_def)
  moreover have "dropWhile json_space (rev t) = rev t" using t by (cases "rev t") (auto simp: trimmed_def last_rev hd_rev [symmetric])
  ultimately show ?thesis by (simp add: trim_json_def)
qed

definition is_value :: "string \<Rightarrow> bool" where
  "is_value v \<longleftrightarrow> (\<exists>st. scan_run (SBeginValue, []) v = Some (st, []) \<and> value_complete st [])"

lemma complete_outside: "value_complete st ps \<Longrightarrow> \<not> in_string st \<and> \<not> escaped st"
  by (auto simp: value_complete_iff in_string_def)

lemma opaque_value: "is_value v \<Longrightarrow> opaque v"
  unfolding is_value_def opaque_def
  using split_run [of SBeginValue "[]" v] complete_outside by (force simp: in_string_def)

lemma opaque_compact: "is_value v \<Longrightarrow> opaque (compact False False v)"
  unfolding is_value_def opaque_def
  using split_compact [of SBeginValue "[]" v] complete_outside by (force simp: in_string_def)

lemma scan_spaces: "list_all json_space v \<Longrightarrow> scan_run (SBeginValue, ps) v = Some (SBeginValue, ps)"
  by (induction v) (simp_all add: begin_value_def)

lemma trimmed_compact:
  assumes "is_value v"
  shows "trimmed (compact False False v)"
proof -
  obtain st where st: "scan_run (SBeginValue, []) v = Some (st, [])" "value_complete st []" using assms by (auto simp: is_value_def)
  have b: "in_string SBeginValue = False" "escaped SBeginValue = False" by (simp_all add: in_string_def)
  have "compact False False v \<noteq> []"
    using compact_Nil [of v] scan_spaces [of v "[]"] st by (auto simp: value_complete_iff)
  then show ?thesis using compact_head [of v] compact_last [OF st(1)] complete_outside [OF st(2)] unfolding b trimmed_def by blast
qed

lemma end_top_empty:
  assumes "scan_step st ps c = Some (SEndTop, ps')" "st = SEndTop \<longrightarrow> ps = []"
  shows "ps' = []"
proof -
  have e: "end_value qs c = Some (SEndTop, ps') \<Longrightarrow> ps' = []" for qs
    by (auto simp: end_value_def pop_state_def split: list.splits if_split_asm pstate.splits)
  have b: "begin_value ps c \<noteq> Some (SEndTop, ps')" "begin_string ps c \<noteq> Some (SEndTop, ps')"
    by (simp_all add: begin_value_def begin_string_def push_state_def)
  show ?thesis using assms e b
    by (cases st) (auto simp: expect_def state0_def split: if_split_asm list.splits)
qed

lemma scan_run_end_top_empty:
  "scan_run (st, ps) s = Some (SEndTop, ps') \<Longrightarrow> st = SEndTop \<longrightarrow> ps = [] \<Longrightarrow> ps' = []"
proof (induction s arbitrary: st ps)
  case (Cons c s)
  then obtain st1 ps1 where "scan_step st ps c = Some (st1, ps1)" "scan_run (st1, ps1) s = Some (SEndTop, ps')"
    by (auto split: option.splits)
  then show ?case using Cons.IH end_top_empty Cons.prems(2) by blast
qed simp

lemma end_top_case: "(case x of Some (SEndTop, _) \<Rightarrow> True | _ \<Rightarrow> False) \<longleftrightarrow> (\<exists>p. x = Some (SEndTop, p))"
proof (cases x)
  case (Some q)
  then show ?thesis by (cases q; cases "fst q") simp_all
qed simp

lemma valid_value: "json_valid v \<longleftrightarrow> is_value v"
proof
  assume "json_valid v"
  then obtain st ps ps' where r: "scan_run (SBeginValue, []) v = Some (st, ps)" "scan_step st ps (CHR '' '') = Some (SEndTop, ps')"
    unfolding json_valid_def end_top_case by (auto split: option.splits)
  have "scan_run (SBeginValue, []) (v @ '' '') = Some (SEndTop, ps')" using r by (simp add: scan_run_append)
  then have ps': "ps' = []" using scan_run_end_top_empty by blast
  have "\<not> in_string SEndTop" by (simp add: in_string_def)
  then have "\<not> in_string st" using scan_step_tracks [OF r(2)] by (auto simp: tracks_def in_string_def)
  then have "ps = []" using space_step(3) [OF r(2)] ps' by (simp add: json_space_def)
  then show "is_value v" using r ps' by (simp add: is_value_def value_complete_def)
next
  assume "is_value v"
  then show "json_valid v" unfolding is_value_def json_valid_def value_complete_def end_top_case by auto
qed

text \<open>The literals the marshaller writes.\<close>

lemma scan_high: "list_all (\<lambda>c. 128 \<le> (of_char c :: int)) s \<Longrightarrow> scan_run (SInString, ps) s = Some (SInString, ps)"
proof (induction s)
  case (Cons c s)
  then have "c \<noteq> CHR 0x22" "c \<noteq> CHR 0x5C" "32 \<le> (of_char c :: int)" by auto
  then show ?case using Cons by (simp add: expect_def)
qed simp

lemma encode_high: "valid_rune r \<Longrightarrow> 128 \<le> r \<Longrightarrow> list_all (\<lambda>c. 128 \<le> (of_char c :: int)) (encode_rune r)"
proof -
  assume v: "valid_rune r" "128 \<le> r"
  have m: "(of_char (char_of x :: char) :: int) = x" if "0 \<le> x" "x < 256" for x :: int using that by (simp add: of_char_of)
  from v(1) show ?thesis
  proof (cases rule: rune_digits)
    case (two c d)
    with encode_two [of c d r] show ?thesis by (simp add: m)
  next
    case (three b c d)
    with encode_three [of b c d r] show ?thesis by (auto simp: m)
  next
    case (four a b c d)
    with encode_four [of a b c d r] show ?thesis by (auto simp: m)
  qed (use v in simp)
qed

text \<open>The shapes of an escaped rune.\<close>

lemma quote1_cases:
  assumes "s \<noteq> []"
  obtains (short) c where "fst (quote1 s) = [CHR 0x5C, c]" "c \<in> set [CHR ''b'', CHR ''f'', CHR ''n'', CHR ''r'', CHR ''t'', CHR 0x5C, CHR ''/'', CHR 0x22]"
  | (hex) d e where "0 \<le> d" "d < 16" "0 \<le> e" "e < 16" "fst (quote1 s) = [CHR 0x5C, CHR ''u'', CHR ''0'', CHR ''0'', hex_digit d, hex_digit e]"
  | (plain) c where "fst (quote1 s) = [c]" "32 \<le> (of_char c :: int)" "c \<noteq> CHR 0x22" "c \<noteq> CHR 0x5C"
  | (stray) "fst (quote1 s) = CHR 0x5C # ''ufffd''"
  | (sep) e where "0 \<le> e" "e < 16" "fst (quote1 s) = CHR 0x5C # ''u202'' @ [hex_digit e]"
  | (high) "list_all (\<lambda>c. 128 \<le> (of_char c :: int)) (fst (quote1 s))"
proof (cases "byte_at s 0 < 128")
  case True
  define b where "b = byte_at s 0"
  have b: "0 \<le> b" "b < 128" using True byte_at_bounds(1) [of s 0] by (simp_all add: b_def)
  have q: "fst (quote1 s) = (if b = 92 \<or> b = 34 then [CHR 0x5C, char_of b]
         else if b = 8 then [CHR 0x5C, CHR ''b''] else if b = 12 then [CHR 0x5C, CHR ''f'']
         else if b = 10 then [CHR 0x5C, CHR ''n''] else if b = 13 then [CHR 0x5C, CHR ''r'']
         else if b = 9 then [CHR 0x5C, CHR ''t'']
         else if b < 32 \<or> b = 60 \<or> b = 62 \<or> b = 38
         then [CHR 0x5C, CHR ''u'', CHR ''0'', CHR ''0'', hex_digit (b div 16), hex_digit (b mod 16)]
         else [char_of b])"
    using True unfolding quote1_def b_def Let_def by simp
  have c: "(of_char (char_of b :: char) :: int) = b" using b by simp
  show thesis
  proof (cases "b = 92 \<or> b = 34 \<or> b = 8 \<or> b = 12 \<or> b = 10 \<or> b = 13 \<or> b = 9")
    case True
    then show thesis by (elim disjE) (rule short, simp add: q c92 c34, simp)+
  next
    case n: False
    show thesis
    proof (cases "b < 32 \<or> b = 60 \<or> b = 62 \<or> b = 38")
      case True
      then show thesis using b n by (intro hex [of "b div 16" "b mod 16"]) (simp_all add: q)
    next
      case False
      have "char_of b \<noteq> CHR 0x22" "char_of b \<noteq> CHR 0x5C"
      proof -
        show "char_of b \<noteq> CHR 0x22"
        proof
          assume "char_of b = CHR 0x22"
          then have "b = of_char (CHR 0x22)" using c by simp
          then show False using n by simp
        qed
        show "char_of b \<noteq> CHR 0x5C"
        proof
          assume "char_of b = CHR 0x5C"
          then have "b = of_char (CHR 0x5C)" using c by simp
          then show False using n by simp
        qed
      qed
      then show thesis using False n c by (intro plain [of "char_of b"]) (simp_all add: q)
    qed
  qed
next
  case False
  from assms show thesis
  proof (cases s rule: decode_rune_cases)
    case stray': stray
    then show thesis using False by (intro stray) (simp add: quote1_def Let_def)
  next
    case (rune r)
    have f: "128 \<le> r" using first_byte [OF rune(1), of "drop (length (encode_rune r)) s"] rune(3) False
      by (metis append_take_drop_id not_le_imp_less)
    have n: "length (encode_rune r) \<noteq> 1" using f rune(1) by (auto simp: encode_rune_def Let_def valid_rune_def)
    show thesis
    proof (cases "r = 8232 \<or> r = 8233")
      case True
      then show thesis using False by (intro sep [of "r mod 16"]) (auto simp: quote1_def Let_def rune(2))
    next
      case plain: False
      then have "fst (quote1 s) = encode_rune r" using n False rune(2,3) by (simp add: quote1_def Let_def)
      then show thesis using encode_high [OF rune(1) f] by (intro high) simp
    qed
  qed
qed

lemma scan_quote1:
  assumes "s \<noteq> []"
  shows "scan_run (SInString, ps) (fst (quote1 s)) = Some (SInString, ps)"
proof -
  have h: "is_hex (CHR ''0'')" "is_hex (CHR ''2'')" "is_hex (CHR ''f'')" "is_hex (CHR ''d'')" by (simp_all add: is_hex_def is_digit_def)
  from assms show ?thesis
  proof (cases s rule: quote1_cases)
    case (short c)
    then have "c \<noteq> CHR ''u''" by auto
    then show ?thesis using short by (simp add: expect_def)
  next
    case (hex d e)
    then show ?thesis using hex_digit_char [OF hex(1,2)] hex_digit_char [OF hex(3,4)] h by (simp add: expect_def)
  next
    case (sep e)
    then show ?thesis using hex_digit_char [OF sep(1,2)] h by (simp add: expect_def)
  qed (use h in \<open>simp_all add: expect_def scan_high\<close>)
qed

lemma scan_quote_body: "scan_run (SInString, ps) (quote_body s) = Some (SInString, ps)"
proof (induction s rule: quote_body.induct)
  case (1 s)
  then show ?case by (cases "s = []") (subst quote_body.simps, simp add: scan_run_append scan_quote1)+
qed

lemma string_value: "is_value (json_string s)" and string_trimmed: "trimmed (json_string s)"
  by (simp_all add: is_value_def json_string_def begin_value_def scan_run_append scan_quote_body value_complete_iff trimmed_def json_space_def)

lemma digit_char_digit: "d < 10 \<Longrightarrow> is_digit (digit_char d)" "0 < d \<Longrightarrow> d < 10 \<Longrightarrow> is_digit19 (digit_char d)"
proof -
  have v: "(of_char (digit_char d) :: int) = 48 + int d" if "d < 10"
    using digit_val_char [OF that] by (simp add: digit_val_def of_nat_of_char)
  have "digit_char d \<noteq> CHR ''0''" if "0 < d" "d < 10"
  proof
    assume "digit_char d = CHR ''0''"
    then have "(of_char (digit_char d) :: int) = of_char (CHR ''0'')" by simp
    then show False using v [OF that(2)] that(1) by simp
  qed
  then show "d < 10 \<Longrightarrow> is_digit (digit_char d)" "0 < d \<Longrightarrow> d < 10 \<Longrightarrow> is_digit19 (digit_char d)"
    using v by (simp_all add: is_digit_def is_digit19_def)
qed

lemma decimal_digits: "list_all is_digit (decimal n)"
proof (induction n rule: decimal.induct)
  case (1 n)
  then show ?case by (cases "n < 10") (subst decimal.simps, simp add: digit_char_digit)+
qed

lemma begin_digit: "is_digit19 c \<Longrightarrow> begin_value ps c = Some (S1, ps)"
proof -
  assume c: "is_digit19 c"
  have d: "c \<noteq> x" if "(of_char x :: int) < 48 \<or> 57 < (of_char x :: int)" for x :: char
    using that c by (auto simp: is_digit19_def is_digit_def)
  have "c \<noteq> CHR ''0''" "\<not> json_space c" using c by (simp_all add: is_digit19_def json_space_def d)
  then show "begin_value ps c = Some (S1, ps)" using c by (simp add: begin_value_def d)
qed

lemma scan_decimal:
  assumes "\<And>c. is_digit19 c \<Longrightarrow> scan_step st ps c = Some (S1, ps)"
  shows "0 < n \<Longrightarrow> scan_run (st, ps) (decimal n) = Some (S1, ps)"
proof (induction n rule: decimal.induct)
  case (1 n)
  show ?case
  proof (cases "n < 10")
    case True
    then show ?thesis using 1(2) by (subst decimal.simps) (simp add: assms digit_char_digit)
  next
    case False
    then show ?thesis using 1 by (subst decimal.simps) (simp add: scan_run_append digit_char_digit)
  qed
qed

lemma number_value: "is_value (decimal n)" and number_trimmed: "trimmed (decimal n)"
proof -
  have "scan_run (SBeginValue, []) (decimal n) = Some (if n = 0 then S0 else S1, [])"
  proof (cases "n = 0")
    case True
    have "decimal 0 = ''0''" by code_simp
    then show ?thesis using True by (simp add: begin_value_def json_space_def)
  qed (simp add: scan_decimal begin_digit)
  then show "is_value (decimal n)" by (simp add: is_value_def value_complete_iff)
  have "\<forall>c \<in> set (decimal n). \<not> json_space c"
    using decimal_digits [of n] by (auto simp: list_all_iff is_digit_def json_space_def)
  then show "trimmed (decimal n)" by (simp add: trimmed_def)
qed

lemma uint_value: "is_value (json_uint w)" and uint_trimmed: "trimmed (json_uint w)"
  by (simp_all add: json_uint_def number_value number_trimmed)

lemma int_value: "is_value (json_int i)" and int_trimmed: "trimmed (json_int i)"
proof -
  have n: "scan_run (SNeg, []) (decimal n) = Some (S1, [])" if "0 < n" for n
    using that by (intro scan_decimal) (auto simp: is_digit19_def expect_def)
  have "begin_value [] (CHR ''-'') = Some (SNeg, [])" by (simp add: begin_value_def json_space_def)
  then show "is_value (json_int i)" using n [of "nat (- i)"]
    by (simp add: json_int_def number_value) (simp add: is_value_def value_complete_iff)
  show "trimmed (json_int i)" using number_trimmed [of "nat i"] number_trimmed [of "nat (- i)"]
    by (simp add: json_int_def trimmed_def json_space_def)
qed

lemma parse_uint_json [simp]: "parse_uint (json_uint w) = Some w"
proof -
  have "int (unat w) < 2 ^ 64" using uint_bounded [of w] by simp
  then show ?thesis by (simp add: parse_uint_def json_uint_def decimal_digits)
qed

lemma digits_head: "list_all is_digit s \<Longrightarrow> s \<noteq> [] \<Longrightarrow> hd s \<noteq> CHR ''-''"
  by (cases s) (auto simp: is_digit_def)

lemma parse_int_json: "parse_int (json_int i) = (if in_int i then Some i else None)"
  using digits_head [OF decimal_digits, of "nat i"] by (simp add: parse_int_def json_int_def decimal_digits Let_def)

text \<open>What the literals decode to.\<close>

lemma decode_string: "json_decode (json_string s) = Some (JString (of_runes (runes s)))"
  using string_value [of s] trim_trimmed [OF string_trimmed [of s]]
  by (simp add: json_decode_def valid_value json_string_def inner_def unquote_quote_body)

lemma decode_digits:
  assumes "is_value s" "trimmed s" "is_digit (hd s) \<or> hd s = CHR ''-''"
  shows "json_decode s = Some (JNumber s)"
proof -
  obtain c cs where s: "s = c # cs" using assms(2) by (cases s) (auto simp: trimmed_def)
  have d: "c \<noteq> x" if "((of_char x :: int) < 48 \<and> of_char x \<noteq> (45 :: int)) \<or> 57 < (of_char x :: int)" for x :: char
    using that assms(3) by (auto simp: s is_digit_def)
  show ?thesis using assms(1) trim_trimmed [OF assms(2)] by (simp add: json_decode_def valid_value s d)
qed

lemma decimal_head: "is_digit (hd (decimal n))"
  using decimal_digits [of n] by (metis decimal_not_Nil list.pred_set list.set_sel(1))

lemma decode_uint: "json_decode (json_uint w) = Some (JNumber (json_uint w))"
  and decode_int: "json_decode (json_int i) = Some (JNumber (json_int i))"
  by (rule decode_digits [OF uint_value uint_trimmed], simp add: json_uint_def decimal_head)
    (rule decode_digits [OF int_value int_trimmed], simp add: json_int_def decimal_head)

subsection \<open>Objects\<close>

definition member_text :: "string \<times> jtree \<Rightarrow> string" where
  "member_text m = fst m @ '':'' @ json_text (snd m)"

lemma json_text_obj:
  "json_text (TObj (m # ms)) = ''{'' @ member_text m @ concat (map (\<lambda>u. '','' @ member_text u) ms) @ ''}''"
proof -
  have "concat (concat (map (\<lambda>u. comma # fst u # '':'' # tokens (snd u)) ms)) = concat (map (\<lambda>u. '','' @ member_text u) ms)"
    by (induction ms) (simp_all add: member_text_def json_text_def)
  then show ?thesis by (simp add: json_text_def member_text_def)
qed

lemma json_text_leaf [simp]: "json_text (TLeaf l) = l"
  by (simp add: json_text_def)

text \<open>Members whose keys are written strings and whose values are opaque.\<close>

definition plain_member :: "string \<times> jtree \<Rightarrow> bool" where
  "plain_member m \<longleftrightarrow> (\<exists>name. fst m = json_string name) \<and> opaque (json_text (snd m)) \<and> trimmed (json_text (snd m))"

lemma comma_member:
  assumes "plain_member m"
  shows "split_top (CHR '','') 0 False False acc (member_text m @ rest) = split_top (CHR '','') 0 False False (rev (member_text m) @ acc) rest"
proof -
  have "opaque (fst m)" "opaque (json_text (snd m))" using assms opaque_value [OF string_value] by (auto simp: plain_member_def)
  then show ?thesis unfolding member_text_def opaque_def by (simp add: append_assoc)
qed

lemma split_joined:
  assumes "plain_member m" "list_all plain_member ms"
  shows "split_top (CHR '','') 0 False False acc (member_text m @ concat (map (\<lambda>u. '','' @ member_text u) ms)) =
    (rev acc @ member_text m) # map member_text ms"
  using assms
proof (induction ms arbitrary: m acc)
  case Nil
  then show ?case using comma_member [OF Nil(1), of acc "[]"] by simp
next
  case (Cons u us)
  have "split_top (CHR '','') 0 False False acc (member_text m @ concat (map (\<lambda>u. '','' @ member_text u) (u # us))) =
      (rev acc @ member_text m) # split_top (CHR '','') 0 False False [] (member_text u @ concat (map (\<lambda>u. '','' @ member_text u) us))"
    unfolding comma_member [OF Cons.prems(1)] by simp
  then show ?case using Cons.IH [of u "[]"] Cons.prems(2) by simp
qed

lemma member_split:
  assumes "plain_member m"
  shows "json_member (member_text m) = (unquote (inner (fst m)), json_text (snd m)) \<and> trimmed (member_text m)"
proof -
  let ?v = "json_text (snd m)"
  obtain name where k: "fst m = json_string name" using assms by (auto simp: plain_member_def)
  have v: "opaque ?v" "trimmed ?v" using assms by (auto simp: plain_member_def)
  have o: "opaque (fst m)" unfolding k by (rule opaque_value [OF string_value])
  have "split_top (CHR '':'') 0 False False [] (member_text m) = split_top (CHR '':'') 0 False False (rev (fst m)) ('':'' @ ?v)"
    using o unfolding opaque_def member_text_def by simp
  also have "\<dots> = fst m # split_top (CHR '':'') 0 False False [] ?v" by simp
  also have "split_top (CHR '':'') 0 False False [] ?v = [?v]" using v(1) unfolding opaque_def by (metis append_Nil2 rev_rev_ident split_top.simps(1))
  finally have "split_top (CHR '':'') 0 False False [] (member_text m) = [fst m, ?v]" by simp
  then show ?thesis using trim_trimmed [OF string_trimmed [of name]] trim_trimmed [OF v(2)] v(2)
    by (simp add: json_member_def k trimmed_def member_text_def json_string_def json_space_def)
qed

lemma trim_not_Nil: "s \<noteq> [] \<Longrightarrow> \<not> json_space (hd s) \<Longrightarrow> trim_json s \<noteq> []"
  by (cases s) (auto simp: trim_json_def dropWhile_eq_Nil_conv)

text \<open>An object that is valid decodes to its members.\<close>

lemma decode_object:
  assumes "json_valid (json_text (TObj (m # ms)))" "list_all plain_member (m # ms)"
  shows "json_decode (json_text (TObj (m # ms))) = Some (JObject (map (\<lambda>m. (unquote (inner (fst m)), json_text (snd m))) (m # ms)))"
proof -
  let ?s = "json_text (TObj (m # ms))"
  let ?i = "member_text m @ concat (map (\<lambda>u. '','' @ member_text u) ms)"
  have s: "?s = CHR ''{'' # ?i @ ''}''" unfolding json_text_obj by simp
  have "trimmed ?s" unfolding s trimmed_def by (simp add: json_space_def)
  note t = trim_trimmed [OF this]
  have i: "inner ?s = ?i" unfolding s inner_def list.sel butlast_snoc ..
  have h: "trimmed (member_text m)" using assms(2) member_split by simp
  then have "trim_json ?i \<noteq> []" by (intro trim_not_Nil) (simp_all add: trimmed_def)
  then have "json_elements ?s = map trim_json (member_text m # map member_text ms)"
    using split_joined [of m ms "[]"] assms(2) by (simp add: json_elements_def i)
  also have "\<dots> = map member_text (m # ms)"
    using assms(2) member_split trim_trimmed by (auto simp: list_all_iff)
  finally have "map json_member (json_elements ?s) = map (\<lambda>m. (unquote (inner (fst m)), json_text (snd m))) (m # ms)"
    using assms(2) member_split by (auto simp: list_all_iff)
  then show ?thesis using assms(1) t unfolding json_decode_def by (simp add: s Let_def)
qed

lemma read_object:
  assumes "json_valid (json_text (TObj (m # ms)))"
  shows "readValue (skip_space (json_text (TObj (m # ms)))) = Some (json_text (TObj (m # ms)), [])"
proof -
  let ?s = "json_text (TObj (m # ms))"
  obtain st where "scan_run (SBeginValue, []) ?s = Some (st, [])" "value_complete st []"
    using assms by (auto simp: valid_value is_value_def)
  moreover have "\<not> json_space (last ?s)" "skip_space ?s = ?s" unfolding json_text_obj by (simp_all add: json_space_def skip_space_def)
  ultimately show ?thesis using read_value_literal [of SBeginValue "[]" ?s st "[]" "[]" "[]"] by (simp add: readValue_def)
qed

lemma key_read [simp]: "unquote (inner (json_string name)) = of_runes (runes name)"
  by (simp add: inner_def json_string_def unquote_quote_body)

lemma trim_left_stop: "s \<noteq> [] \<Longrightarrow> list_all (\<lambda>p. p = [] \<or> hd p \<noteq> hd s) encs \<Longrightarrow> trim_left encs s = s"
proof -
  assume s: "s \<noteq> []" and e: "list_all (\<lambda>p. p = [] \<or> hd p \<noteq> hd s) encs"
  have "find (\<lambda>p. p \<noteq> [] \<and> starts_with p s) encs = None"
  proof -
    have "\<not> starts_with p s" if p: "p \<in> set encs" "p \<noteq> []" for p
    proof
      assume "starts_with p s"
      then have "hd p = hd s" using p(2) s by (metis starts_with_def hd_take length_greater_0_conv)
      then show False using p e by (auto simp: list_all_iff)
    qed
    then show ?thesis by (auto simp: find_None_iff)
  qed
  then show ?thesis by (subst trim_left.simps) simp
qed

lemma TrimSpace_object: "TrimSpace (json_text (TObj (m # ms))) = json_text (TObj (m # ms))"
proof -
  have "list_all (\<lambda>p. p = [] \<or> hd p \<noteq> CHR ''{'') space_encodings \<and> list_all (\<lambda>p. p = [] \<or> hd p \<noteq> CHR ''}'') (map rev space_encodings)"
    by code_simp
  then show ?thesis unfolding json_text_obj TrimSpace_def by (simp add: trim_left_stop)
qed

end
