(* ===== verification/Roundtrip.thy ===== *)
theory Roundtrip
  imports Texts
begin

text \<open>
  What the encoder writes, the decoder reads: an envelope comes back with the same version, kind,
  sequence number and session and with its payload in compact form.
\<close>

text \<open>A call whose error is passed on.\<close>

lemma bind_sum [go_simps]:
  "go_bind m (case_sum (\<lambda>e. Ret (Inl e)) f) = Ret (Inr y) \<longleftrightarrow> (\<exists>x. m = Ret (Inr x) \<and> f x = Ret (Inr y))"
proof (cases m)
  case (Ret r)
  then show ?thesis by (cases r) simp_all
qed simp_all

lemma key_names:
  "of_runes (runes ''v'') = ''v''" "of_runes (runes ''session'') = ''session''" "of_runes (runes ''kind'') = ''kind''"
  "of_runes (runes ''seq'') = ''seq''" "of_runes (runes ''payload'') = ''payload''"
  by code_simp+

lemma member_sel [simp]: "fst (member name t) = json_string name" "snd (member name t) = t"
  by (simp_all add: member_def)

lemma plain_string: "plain_member (member name (string_tree s))"
  and plain_int: "plain_member (member name (int_tree i))"
  and plain_uint: "plain_member (member name (TLeaf (json_uint w)))"
  and plain_raw: "json_valid raw \<Longrightarrow> plain_member (member name (TLeaf (compact False False raw)))"
  by (auto simp: plain_member_def string_tree_def int_tree_def opaque_value string_value string_trimmed int_value int_trimmed
      uint_value uint_trimmed valid_value opaque_compact trimmed_compact)

lemmas plain_members = plain_string plain_int plain_uint plain_raw

definition envelope_members :: "Envelope \<Rightarrow> (string \<times> jtree) list" where
  "envelope_members env =
     (if env_Session env = [] then [] else [member ''session'' (string_tree (env_Session env))])
     @ [member ''kind'' (string_tree (kind_string (env_Kind env))), member ''seq'' (TLeaf (json_uint (env_Seq env)))]
     @ (if env_Payload env = [] then [] else [member ''payload'' (TLeaf (compact False False (env_Payload env)))])"

lemma marshal_envelope_text:
  "marshal_envelope env = Some b \<longleftrightarrow>
     (env_Payload env = [] \<or> json_valid (env_Payload env)) \<and> b = json_text (TObj (member ''v'' (int_tree (env_V env)) # envelope_members env))"
  unfolding marshal_envelope_def envelope_members_def append_Cons append_Nil by auto

lemma setter_simps:
  "set_int upd (json_int i) r = (if in_int i then (upd i r, None) else (r, Some type_error))"
  "set_uint updu (json_uint w) r = (updu w r, None)"
  "set_string upds (json_string s) r = (upds (of_runes (runes s)) r, None)"
  by (simp_all add: set_int_def set_uint_def set_string_def decode_int decode_uint decode_string parse_int_json)

lemma find_envelope_setter:
  "find_setter envelope_fields ''v'' = Some (set_int (\<lambda>v e. e\<lparr>env_V := v\<rparr>))"
  "find_setter envelope_fields ''session'' = Some (set_string (\<lambda>v e. e\<lparr>env_Session := v\<rparr>))"
  "find_setter envelope_fields ''kind'' = Some (set_string (\<lambda>v e. e\<lparr>env_Kind := kind_of_string v\<rparr>))"
  "find_setter envelope_fields ''seq'' = Some (set_uint (\<lambda>v e. e\<lparr>env_Seq := v\<rparr>))"
  "find_setter envelope_fields ''payload'' = Some (set_raw (\<lambda>v e. e\<lparr>env_Payload := v\<rparr>))"
  by (simp_all add: find_setter_def envelope_fields_def)

text \<open>The envelope as it is read back.\<close>

definition reread :: "Envelope \<Rightarrow> Envelope" where
  "reread env = env\<lparr>env_Session := of_runes (runes (env_Session env)), env_Payload := compact False False (env_Payload env)\<rparr>"

definition known_kind :: "EnvelopeKind \<Rightarrow> bool" where
  "known_kind k \<longleftrightarrow> (case k of KindOther _ \<Rightarrow> False | _ \<Rightarrow> True)"

lemma kind_runes: "known_kind k \<Longrightarrow> kind_of_string (of_runes (runes (kind_string k))) = k"
proof -
  have "list_all (\<lambda>k. kind_of_string (of_runes (runes (kind_string k))) = k) [KindHello, KindHelloAck, KindOperation, KindEvent, KindTelemetry]"
    by code_simp
  then show "known_kind k \<Longrightarrow> ?thesis" by (cases k) (simp_all add: known_kind_def)
qed

lemma envelope_members_plain: "json_valid (env_Payload env) \<or> env_Payload env = [] \<Longrightarrow> list_all plain_member (envelope_members env)"
  by (auto simp: envelope_members_def plain_members)

lemma decode_envelope_members:
  assumes "in_int (env_V env)" "env_Payload env \<noteq> []" "known_kind (env_Kind env)"
  shows "fold (set_member envelope_fields)
      (map (\<lambda>m. (unquote (inner (fst m)), json_text (snd m))) (member ''v'' (int_tree (env_V env)) # envelope_members env))
      (zero_envelope, None) = (reread env, None)"
  using assms
  by (simp add: envelope_members_def set_member_def key_names find_envelope_setter int_tree_def string_tree_def setter_simps
      set_raw_def zero_envelope_def reread_def kind_runes)

text \<open>A record that decodes is an envelope when it has a kind.\<close>

lemma DecodeRecord_envelope:
  assumes "DecodeRecord raw = Ret (Inr env)" "TrimSpace raw = raw" "unm_map raw = (Some probe, ok)" "fmlookup probe ''kind'' \<noteq> None"
  shows "strictDecode (decode_struct envelope_fields) raw zero_envelope = (env, None) \<and> fmlookup probe ''payload'' \<noteq> None \<and>
    rejectDuplicateKeys raw = Ret None \<and> raw \<noteq> [] \<and> ok"
proof -
  have "validateEnvelopePayload env probe = Ret None \<Longrightarrow> fmlookup probe ''payload'' \<noteq> None"
    by (auto simp: validateEnvelopePayload_def split: if_split_asm)
  then show ?thesis using assms unfolding DecodeRecord_def Let_def assms(2) objectProbe_def assms(3)
    by (auto simp: go_simps split: if_split_asm option.splits prod.splits bool.splits)
qed

lemma EncodeEnvelope_ok:
  assumes "EncodeEnvelope env = Ret (Inr b)"
  obtains env' where "marshal_envelope env = Some b" "DecodeRecord b = Ret (Inr env')"
  using assms by (auto simp: EncodeEnvelope_def bind_sum split: option.splits)

lemma unm_map_valid: "unm_map raw = (m, True) \<Longrightarrow> json_valid raw"
  by (auto simp: unm_map_def json_decode_def split: option.splits if_split_asm)

lemma objectProbe_ok: "DecodeRecord raw = Ret (Inr env) \<Longrightarrow> TrimSpace raw = raw \<Longrightarrow> \<exists>probe. unm_map raw = (Some probe, True)"
  unfolding DecodeRecord_def Let_def objectProbe_def
  by (auto simp: go_simps split: if_split_asm option.splits prod.splits bool.splits sum.splits)

lemma set_members_error: "snd (fold (set_member fs) ms (r, Some e)) = Some e"
  by (induction ms arbitrary: r) (auto simp: set_member_def split: prod.splits)

lemma strictDecode_object:
  assumes v: "json_valid (json_text (TObj (m # ms)))" and p: "list_all plain_member (m # ms)"
  shows "strictDecode (decode_struct fs) (json_text (TObj (m # ms))) zero =
    fold (set_member fs) (map (\<lambda>m. (unquote (inner (fst m)), json_text (snd m))) (m # ms)) (zero, None)" (is "_ = ?q")
proof -
  have ds: "decode_struct fs (json_text (TObj (m # ms))) zero = ?q" unfolding decode_struct_def decode_object [OF v p] by simp
  have n: "skip_space [] = []" by (simp add: skip_space_def)
  show ?thesis unfolding strictDecode_def read_object [OF v] option.case prod.case ds n by (simp split: prod.split option.split)
qed

lemma decode_encoded:
  assumes enc: "EncodeEnvelope env = Ret (Inr b)" and kind: "known_kind (env_Kind env)"
  shows "DecodeRecord b = Ret (Inr (reread env)) \<and> strictDecode (decode_struct envelope_fields) b zero_envelope = (reread env, None) \<and>
    rejectDuplicateKeys b = Ret None \<and> TrimSpace b = b \<and> b \<noteq> []"
proof -
  obtain env' where m: "marshal_envelope env = Some b" and d: "DecodeRecord b = Ret (Inr env')" using enc by (rule EncodeEnvelope_ok)
  let ?ms = "envelope_members env" and ?v = "member ''v'' (int_tree (env_V env))"
  have b: "b = json_text (TObj (?v # ?ms))" and p: "json_valid (env_Payload env) \<or> env_Payload env = []"
    using m unfolding marshal_envelope_text by auto
  have tr: "TrimSpace b = b" unfolding b by (rule TrimSpace_object)
  obtain probe where pr: "unm_map b = (Some probe, True)" using objectProbe_ok [OF d tr] by blast
  have v: "json_valid (json_text (TObj (?v # ?ms)))" using unm_map_valid [OF pr] by (simp add: b)
  let ?kv = "map (\<lambda>m. (unquote (inner (fst m)), json_text (snd m))) (?v # ?ms)"
  have pm: "list_all plain_member (?v # ?ms)" using envelope_members_plain [OF p] by (simp add: plain_members)
  note dec = decode_object [OF v pm]
  have probe: "probe = fmap_of_list (rev ?kv)" using pr unfolding b unm_map_def dec by simp
  have "fmlookup probe ''kind'' \<noteq> None" unfolding probe by (simp add: fmlookup_of_list envelope_members_def key_names)
  note r = DecodeRecord_envelope [OF d tr pr this]
  have pl: "env_Payload env \<noteq> []"
    using r unfolding probe by (auto simp: fmlookup_of_list envelope_members_def key_names split: if_split_asm)
  have st: "strictDecode (decode_struct envelope_fields) b zero_envelope = fold (set_member envelope_fields) ?kv (zero_envelope, None)"
    unfolding b by (rule strictDecode_object [OF v pm])
  have "in_int (env_V env)"
  proof (rule ccontr)
    assume n: "\<not> in_int (env_V env)"
    have "set_member envelope_fields (unquote (inner (fst ?v)), json_text (snd ?v)) (zero_envelope, None) = (zero_envelope, Some type_error)"
      using n by (simp add: set_member_def key_names find_envelope_setter int_tree_def setter_simps)
    then have "snd (strictDecode (decode_struct envelope_fields) b zero_envelope) = Some type_error"
      by (simp only: st list.map fold.simps comp_apply set_members_error)
    then show False using r by simp
  qed
  then have "env' = reread env" using st r decode_envelope_members [OF _ pl kind] by simp
  then show ?thesis using d r tr by simp
qed

subsection \<open>Properties\<close>

text \<open>C10. The wire encoding is lossless: an envelope of a known kind that \<open>EncodeEnvelope\<close> accepts is decoded by
  \<open>DecodeRecord\<close> from its own text, with the same version, kind and sequence number, with its session
  (every invalid UTF-8 byte replaced) and with its payload in compact form.\<close>

theorem EncodeEnvelope_roundtrip:
  assumes enc: "EncodeEnvelope env = Ret (Inr b)" and kind: "known_kind (env_Kind env)"
  shows "DecodeRecord b = Ret (Inr (env\<lparr>env_Session := of_runes (runes (env_Session env)),
    env_Payload := compact False False (env_Payload env)\<rparr>))"
  using decode_encoded [OF assms] by (simp add: reread_def)

definition sample_envelope :: Envelope where
  "sample_envelope = \<lparr>env_V = 1, env_Session = ''s'', env_Kind = KindTelemetry, env_Seq = 7, env_Payload = quoted ''{ ~a~ : [1, 2] }''\<rparr>"

theorem EncodeEnvelope_roundtrip_witness:
  "\<exists>b. EncodeEnvelope sample_envelope = Ret (Inr b) \<and>
     DecodeRecord b = Ret (Inr (sample_envelope\<lparr>env_Payload := quoted ''{~a~:[1,2]}''\<rparr>))"
proof -
  have "case EncodeEnvelope sample_envelope of Ret (Inr b) \<Rightarrow> True | _ \<Rightarrow> False" by code_simp
  then obtain b where b: "EncodeEnvelope sample_envelope = Ret (Inr b)" by (auto split: go.splits sum.splits)
  have k: "known_kind (env_Kind sample_envelope)" by (simp add: known_kind_def sample_envelope_def)
  have "of_runes (runes ''s'') = ''s'' \<and> compact False False (quoted ''{ ~a~ : [1, 2] }'') = quoted ''{~a~:[1,2]}''" by code_simp
  then show ?thesis using b EncodeEnvelope_roundtrip [OF b k] by (simp add: sample_envelope_def)
qed

end
