(* ===== verification/Streams.thy ===== *)
theory Streams
  imports Roundtrip
begin

text \<open>
  The transports that need no daemon: telemetry datagrams (\<open>transport/udp/udp.go\<close>) and the stream of
  records over HTTP (\<open>transport/httpstream/httpstream.go\<close>), with the marshalling of events they and the
  other bridges share. The argument \<open>render\<close> renders an error message to the text that is written.
\<close>

subsection \<open>Marshalling\<close>

text \<open>Members with \<open>omitempty\<close>.\<close>

definition opt_string :: "string \<Rightarrow> string \<Rightarrow> (string \<times> jtree) list" where
  "opt_string name s = (if s = [] then [] else [member name (string_tree s)])"

definition opt_int :: "string \<Rightarrow> int \<Rightarrow> (string \<times> jtree) list" where
  "opt_int name i = (if i = 0 then [] else [member name (int_tree i)])"

definition opt_uint :: "string \<Rightarrow> u64 \<Rightarrow> (string \<times> jtree) list" where
  "opt_uint name w = (if w = 0 then [] else [member name (TLeaf (json_uint w))])"

definition opt_raw :: "string \<Rightarrow> bytes \<Rightarrow> (string \<times> jtree) list" where
  "opt_raw name raw = (if raw = [] then [] else [member name (TLeaf (compact False False raw))])"

definition event_tree :: "(gomsg \<Rightarrow> string) \<Rightarrow> Event \<Rightarrow> jtree" where
  "event_tree render ev = TObj
     ([member ''v'' (int_tree (ev_V ev)), member ''seq'' (TLeaf (json_uint (ev_Seq ev))), member ''ev'' (string_tree (ev_Ev ev))]
      @ opt_string ''id'' (ev_ID ev) @ opt_string ''code'' (ev_Code ev) @ opt_string ''msg'' (render (ev_Msg ev))
      @ opt_string ''action'' (ev_Action ev) @ opt_string ''invocation_id'' (ev_InvocationID ev) @ opt_string ''value'' (ev_Value ev)
      @ [member ''row'' (int_tree (ev_Row ev))] @ opt_string ''row_id'' (ev_RowID ev)
      @ opt_int ''w'' (ev_W ev) @ opt_int ''h'' (ev_H ev) @ opt_uint ''revision'' (ev_Revision ev)
      @ opt_uint ''related_seq'' (ev_RelatedSeq ev) @ opt_uint ''through_seq'' (ev_ThroughSeq ev)
      @ opt_string ''frame'' (ev_Frame ev) @ opt_raw ''args'' (ev_Args ev))"

text \<open>\<open>json.Marshal\<close> fails on a raw member that is not JSON.\<close>

definition raw_ok :: "bytes \<Rightarrow> bool" where
  "raw_ok raw \<longleftrightarrow> raw = [] \<or> json_valid raw"

definition marshal_event :: "(gomsg \<Rightarrow> string) \<Rightarrow> Event \<Rightarrow> bytes option" where
  "marshal_event render ev = (if raw_ok (ev_Args ev) then Some (json_text (event_tree render ev)) else None)"

definition marshal_events :: "(gomsg \<Rightarrow> string) \<Rightarrow> Event list \<Rightarrow> bytes option" where
  "marshal_events render evs =
     (if list_all (\<lambda>ev. raw_ok (ev_Args ev)) evs
      then Some (json_text (TObj [member ''events'' (TArr (map (event_tree render) evs))])) else None)"

text \<open>\<open>Error.Error\<close>; an error without a code stands for one of the library.\<close>

definition error_text :: "(gomsg \<Rightarrow> string) \<Rightarrow> Error \<Rightarrow> gomsg" where
  "error_text render e =
     (if e_Code e = [] then e_Message e
      else if e_Path e \<noteq> [] then Sprintf ''%s at %s: %s'' [FStr (e_Code e), FStr (e_Path e), FStr (render (e_Message e))]
      else Sprintf ''%s: %s'' [FStr (e_Code e), FStr (render (e_Message e))])"

subsection \<open>Telemetry datagrams (udp.go)\<close>

definition Magic :: string where
  "Magic = ''A2UI''"

definition ChannelTelemetry :: string where
  "ChannelTelemetry = ''telemetry''"

record Datagram =
  dg_Magic :: string
  dg_V :: int
  dg_Session :: string
  dg_Channel :: string
  dg_Seq :: u64
  dg_Payload :: bytes

definition datagram_fields :: "(string \<times> Datagram setter) list" where
  "datagram_fields =
     [(''magic'', set_string (\<lambda>v d. d\<lparr>dg_Magic := v\<rparr>)), (''v'', set_int (\<lambda>v d. d\<lparr>dg_V := v\<rparr>)),
      (''session'', set_string (\<lambda>v d. d\<lparr>dg_Session := v\<rparr>)), (''channel'', set_string (\<lambda>v d. d\<lparr>dg_Channel := v\<rparr>)),
      (''seq'', set_uint (\<lambda>v d. d\<lparr>dg_Seq := v\<rparr>)), (''payload'', set_raw (\<lambda>v d. d\<lparr>dg_Payload := v\<rparr>))]"

definition zero_datagram :: Datagram where
  "zero_datagram = \<lparr>dg_Magic = [], dg_V = 0, dg_Session = [], dg_Channel = [], dg_Seq = 0, dg_Payload = []\<rparr>"

text \<open>A nil payload is written as \<open>null\<close>.\<close>

definition marshal_datagram :: "Datagram \<Rightarrow> bytes option" where
  "marshal_datagram d =
     (if \<not> raw_ok (dg_Payload d) then None
      else Some (json_text (TObj
        [member ''magic'' (string_tree (dg_Magic d)), member ''v'' (int_tree (dg_V d)),
         member ''session'' (string_tree (dg_Session d)), member ''channel'' (string_tree (dg_Channel d)),
         member ''seq'' (TLeaf (json_uint (dg_Seq d))),
         member ''payload'' (TLeaf (if dg_Payload d = [] then ''null'' else compact False False (dg_Payload d)))])))"

text \<open>An error of the encoder that is not one of the protocol is renamed.\<close>

definition udp_payload_error :: "Error \<Rightarrow> Error" where
  "udp_payload_error e = (if e_Code e = [] then NewError ''udp.invalid_payload'' (e_Message e) else e)"

definition datagram_limit :: "int \<Rightarrow> int" where
  "datagram_limit maxBytes = (if maxBytes < 1 then MaxDatagramBytes DefaultLimits else maxBytes)"

definition udp_Encode :: "Envelope \<Rightarrow> int \<Rightarrow> (Error + bytes) go" where
  "udp_Encode env maxBytes =
     (if env_V env \<noteq> Version then Ret (Inl (version_mismatch (env_V env)))
      else if env_Kind env \<noteq> KindTelemetry
      then Ret (Inl (NewError ''udp.forbidden_kind''
             (Sprintf ''UDP v1 accepts telemetry only, got %q'' [FStr (kind_string (env_Kind env))])))
      else if env_Seq env = 0 then Ret (Inl (NewError ''udp.invalid_sequence'' (Lit ''UDP datagram sequence must be > 0'')))
      else if env_Session env = [] then Ret (Inl (NewError ''udp.invalid_session'' (Lit ''session id is required'')))
      else go_bind (EncodeEnvelope env) (\<lambda>r.
        case r of
          Inl e \<Rightarrow> Ret (Inl (udp_payload_error e))
        | Inr _ \<Rightarrow>
            (case marshal_datagram \<lparr>dg_Magic = Magic, dg_V = Version, dg_Session = env_Session env, dg_Channel = ChannelTelemetry,
                dg_Seq = env_Seq env, dg_Payload = env_Payload env\<rparr> of
               None \<Rightarrow> Ret (Inl (NewError ''udp.encode_failed'' (LibErr ''json.Marshal'')))
             | Some b \<Rightarrow>
                 if int (length b) > datagram_limit maxBytes
                 then Ret (Inl (NewError ''resource.datagram_too_large''
                        (Sprintf ''datagram %d exceeds %d'' [FInt (int (length b)), FInt (datagram_limit maxBytes)])))
                 else Ret (Inr b))))"

definition udp_Decode :: "bytes \<Rightarrow> int \<Rightarrow> (Error + Envelope) go" where
  "udp_Decode b maxBytes =
     (if int (length b) > datagram_limit maxBytes
      then Ret (Inl (NewError ''resource.datagram_too_large'' (Lit ''datagram exceeds configured limit'')))
      else go_bind (StrictUnmarshal (decode_struct datagram_fields) zero_datagram b) (\<lambda>r.
        case r of
          Inl e \<Rightarrow> Ret (Inl e)
        | Inr d \<Rightarrow>
            if dg_Magic d \<noteq> Magic \<or> dg_V d \<noteq> Version \<or> dg_Channel d \<noteq> ChannelTelemetry
            then Ret (Inl (NewError ''udp.invalid_header'' (Lit ''invalid A2UI UDP header'')))
            else if dg_Session d = [] \<or> dg_Seq d = 0
            then Ret (Inl (NewError ''udp.invalid_header'' (Lit ''session and sequence are required'')))
            else
              (let env = \<lparr>env_V = Version, env_Session = dg_Session d, env_Kind = KindTelemetry, env_Seq = dg_Seq d,
                     env_Payload = dg_Payload d\<rparr> in
               go_bind (EncodeEnvelope env) (\<lambda>r.
                 Ret (case r of Inl e \<Rightarrow> Inl (udp_payload_error e) | Inr _ \<Rightarrow> Inr env)))))"

subsection \<open>Records over HTTP (httpstream.go)\<close>

text \<open>What was written: the status once the header is out, the text of a plain error, the lines of the
  stream.\<close>

record stream_out =
  so_Status :: "int option"
  so_Error :: "gomsg option"
  so_Lines :: "bytes list"

definition no_output :: stream_out where
  "no_output = \<lparr>so_Status = None, so_Error = None, so_Lines = []\<rparr>"

definition stream_http_error :: "gomsg \<Rightarrow> int \<Rightarrow> stream_out \<Rightarrow> stream_out" where
  "stream_http_error m status out = out\<lparr>so_Status := Some status, so_Error := Some m\<rparr>"

definition error_tree :: "(gomsg \<Rightarrow> string) \<Rightarrow> Error \<Rightarrow> jtree" where
  "error_tree render e = TObj
     ([member ''code'' (string_tree (e_Code e)), member ''message'' (string_tree (render (e_Message e))),
       member ''recoverable'' (TLeaf (if e_Recoverable e then ''true'' else ''false''))]
      @ opt_int ''seq'' (e_Seq e) @ opt_string ''node_id'' (e_NodeID e) @ opt_string ''path'' (e_Path e))"

text \<open>The error event of a stream that has begun; when it cannot be encoded nothing is written.\<close>

definition stream_error_event :: "Error \<Rightarrow> Event" where
  "stream_error_event perr = zero_event\<lparr>ev_V := Version, ev_Ev := ''error'', ev_Code := e_Code perr, ev_Msg := e_Message perr\<rparr>"

definition writeStreamError :: "(gomsg \<Rightarrow> string) \<Rightarrow> string \<Rightarrow> Error \<Rightarrow> stream_out \<Rightarrow> stream_out go" where
  "writeStreamError render lastSession perr out =
     (case marshal_event render (stream_error_event perr) of
        None \<Rightarrow> Ret out
      | Some payload \<Rightarrow>
          go_bind (NDJSONWriter_Write \<lparr>env_V = Version, env_Session = lastSession, env_Kind = KindEvent, env_Seq = 0, env_Payload = payload\<rparr>)
            (\<lambda>r. Ret (case r of Inl _ \<Rightarrow> out | Inr b \<Rightarrow> out\<lparr>so_Lines := so_Lines out @ [b]\<rparr>)))"

definition stream_fail :: "(gomsg \<Rightarrow> string) \<Rightarrow> string \<Rightarrow> gomsg \<Rightarrow> int \<Rightarrow> Error \<Rightarrow> stream_out \<Rightarrow> stream_out go" where
  "stream_fail render lastSession m status perr out =
     (if so_Status out = None then Ret (stream_http_error m status out) else writeStreamError render lastSession perr out)"

type_synonym 's handler = "'s \<Rightarrow> Envelope \<Rightarrow> 's \<times> (Error + Envelope)"

text \<open>The loop of \<open>ServeHTTP\<close> over the records of the body, with fuel; \<open>alive n\<close> tells whether the connection
  takes the line after the first \<open>n\<close>.\<close>

fun stream_loop :: "(gomsg \<Rightarrow> string) \<Rightarrow> 's handler \<Rightarrow> int \<Rightarrow> string option \<Rightarrow> (nat \<Rightarrow> bool) \<Rightarrow> nat \<Rightarrow> 's \<Rightarrow> bytes \<Rightarrow> string \<Rightarrow> stream_out \<Rightarrow>
    ('s \<times> stream_out) go" where
  "stream_loop render handle mx fail alive 0 st s lastSession out = Diverge"
| "stream_loop render handle mx fail alive (Suc n) st s lastSession out =
     go_bind (NDJSONReader_Next mx fail s) (\<lambda>r.
       case r of
         NextEOF \<Rightarrow> Ret (st, out)
       | NextErr err \<Rightarrow>
           go_bind (stream_fail render lastSession (LibErr err) 400 (NewError ''transport.read_failed'' (LibErr err)) out) (\<lambda>out. Ret (st, out))
       | NextRecord (Inl perr) rest \<Rightarrow>
           go_bind (stream_fail render lastSession (error_text render perr) 400 perr out) (\<lambda>out. Ret (st, out))
       | NextRecord (Inr env) rest \<Rightarrow>
           (case handle st env of
              (st, Inl rerr) \<Rightarrow>
                go_bind (stream_fail render (env_Session env) (Lit (json_text (error_tree render rerr))) 422 rerr out) (\<lambda>out. Ret (st, out))
            | (st, Inr response) \<Rightarrow>
                go_bind (EncodeEnvelope response) (\<lambda>enc.
                  case enc of
                    Inl err \<Rightarrow>
                      go_bind (stream_fail render (env_Session env)
                        (Sprintf ''invalid A2UI server response: %s'' [FStr (render (error_text render err))]) 500
                        (NewError ''transport.write_failed'' (error_text render err)) out) (\<lambda>out. Ret (st, out))
                  | Inr b \<Rightarrow>
                      (let out = out\<lparr>so_Status := Some (case so_Status out of None \<Rightarrow> 200 | Some c \<Rightarrow> c)\<rparr> in
                       if \<not> alive (length (so_Lines out)) then Ret (st, out)
                       else stream_loop render handle mx fail alive n st rest (env_Session env)
                         (out\<lparr>so_Lines := so_Lines out @ [b @ [LF]]\<rparr>)))))"

definition NewHandler :: "int \<Rightarrow> int" where
  "NewHandler maxRecordBytes = (if maxRecordBytes < 1 then MaxMessageBytes DefaultLimits else maxRecordBytes)"

definition stream_ServeHTTP :: "(gomsg \<Rightarrow> string) \<Rightarrow> 's handler option \<Rightarrow> int \<Rightarrow> string option \<Rightarrow> (nat \<Rightarrow> bool) \<Rightarrow> 's \<Rightarrow> string \<Rightarrow> bytes \<Rightarrow>
    ('s \<times> stream_out) go" where
  "stream_ServeHTTP render h mx fail alive st meth body =
     (if meth \<noteq> ''POST'' then Ret (st, no_output\<lparr>so_Status := Some 405\<rparr>)
      else case h of
        None \<Rightarrow> Ret (st, stream_http_error (Lit ''A2UI handler unavailable'') 503 no_output)
      | Some handle \<Rightarrow> stream_loop render handle (NewHandler mx) fail alive (Suc (length body)) st body [] no_output)"

end
