(* ===== verification/Mcp.thy ===== *)
theory Mcp
  imports Service Streams
begin

text \<open>
  The bridge to JSON-RPC messages (\<open>transport/mcp/mcp.go\<close>) and their handling by the daemon
  (\<open>daemon/mcp.go\<close>), with the HTTP handler in front of it. The network is the environment: a
  request is what was read, a response is what is written. The argument \<open>render\<close> renders an error
  message to the text the marshaller writes.
\<close>

subsection \<open>JSON-RPC messages (mcp.go)\<close>

record RPCError =
  re_Code :: int
  re_Message :: gomsg
  re_Data :: bytes

record Message =
  mg_JSONRPC :: string
  mg_ID :: bytes
  mg_Method :: string
  mg_Params :: bytes
  mg_Result :: bytes
  mg_Error :: "RPCError option"

definition zero_message :: Message where
  "zero_message = \<lparr>mg_JSONRPC = [], mg_ID = [], mg_Method = [], mg_Params = [], mg_Result = [], mg_Error = None\<rparr>"

definition rpc_error_fields :: "(string \<times> RPCError setter) list" where
  "rpc_error_fields =
     [(''code'', set_int (\<lambda>v e. e\<lparr>re_Code := v\<rparr>)), (''message'', set_string (\<lambda>v e. e\<lparr>re_Message := Lit v\<rparr>)),
      (''data'', set_raw (\<lambda>v e. e\<lparr>re_Data := v\<rparr>))]"

text \<open>A pointer to a struct: \<open>null\<close> clears it, anything else decodes into the struct it points to.\<close>

definition set_ptr :: "(string \<times> 'a setter) list \<Rightarrow> 'a \<Rightarrow> ('r \<Rightarrow> 'a option) \<Rightarrow> ('a option \<Rightarrow> 'r \<Rightarrow> 'r) \<Rightarrow> 'r setter" where
  "set_ptr fs zero get upd raw r =
     (if json_decode raw = Some JNull then (upd None r, None)
      else let (v, err) = decode_struct fs raw (case get r of None \<Rightarrow> zero | Some v \<Rightarrow> v) in (upd (Some v) r, err))"

definition message_fields :: "(string \<times> Message setter) list" where
  "message_fields =
     [(''jsonrpc'', set_string (\<lambda>v m. m\<lparr>mg_JSONRPC := v\<rparr>)), (''id'', set_raw (\<lambda>v m. m\<lparr>mg_ID := v\<rparr>)),
      (''method'', set_string (\<lambda>v m. m\<lparr>mg_Method := v\<rparr>)), (''params'', set_raw (\<lambda>v m. m\<lparr>mg_Params := v\<rparr>)),
      (''result'', set_raw (\<lambda>v m. m\<lparr>mg_Result := v\<rparr>)),
      (''error'', set_ptr rpc_error_fields \<lparr>re_Code = 0, re_Message = Lit [], re_Data = []\<rparr> mg_Error (\<lambda>v m. m\<lparr>mg_Error := v\<rparr>))]"

definition DecodeMessage :: "bytes \<Rightarrow> (Error + Message) go" where
  "DecodeMessage raw = StrictUnmarshal (decode_struct message_fields) zero_message raw"

fun methodFor :: "EnvelopeKind \<Rightarrow> string option" where
  "methodFor KindHello = Some ''a2ui/hello''"
| "methodFor KindHelloAck = Some ''a2ui/hello_ack''"
| "methodFor KindOperation = Some ''a2ui/operation''"
| "methodFor KindEvent = Some ''a2ui/event''"
| "methodFor KindTelemetry = Some ''a2ui/telemetry''"
| "methodFor (KindOther k) = None"

definition kindFor :: "string \<Rightarrow> EnvelopeKind option" where
  "kindFor m =
     (if m = ''a2ui/hello'' then Some KindHello
      else if m = ''a2ui/hello_ack'' then Some KindHelloAck
      else if m = ''a2ui/operation'' then Some KindOperation
      else if m = ''a2ui/event'' then Some KindEvent
      else if m = ''a2ui/telemetry'' then Some KindTelemetry
      else None)"

definition Notification :: "Envelope \<Rightarrow> (Error + Message) go" where
  "Notification env =
     (case methodFor (env_Kind env) of
        None \<Rightarrow> Ret (Inl (NewError [] (Sprintf ''unsupported envelope kind %q'' [FStr (kind_string (env_Kind env))])))
      | Some m \<Rightarrow>
          go_bind (EncodeEnvelope env) (\<lambda>r. case r of
            Inl e \<Rightarrow> Ret (Inl e)
          | Inr b \<Rightarrow> Ret (Inr (zero_message\<lparr>mg_JSONRPC := ''2.0'', mg_Method := m, mg_Params := b\<rparr>))))"

definition Request :: "bytes \<Rightarrow> Envelope \<Rightarrow> (Error + Message) go" where
  "Request rid env =
     go_bind (Notification env) (\<lambda>r. case r of Inl e \<Rightarrow> Ret (Inl e) | Inr msg \<Rightarrow> Ret (Inr (msg\<lparr>mg_ID := rid\<rparr>)))"

definition EnvelopeFromMessage :: "Message \<Rightarrow> (Error + Envelope) go" where
  "EnvelopeFromMessage msg =
     (if mg_JSONRPC msg \<noteq> ''2.0'' then Ret (Inl (NewError ''mcp.invalid_jsonrpc'' (Lit ''jsonrpc must be 2.0'')))
      else case kindFor (mg_Method msg) of
        None \<Rightarrow> Ret (Inl (NewError ''mcp.unsupported_method'' (Sprintf ''unsupported method %q'' [FStr (mg_Method msg)])))
      | Some expected \<Rightarrow>
          go_bind (StrictUnmarshal (decode_struct envelope_fields) zero_envelope (mg_Params msg)) (\<lambda>shape.
            case shape of
              Inl e \<Rightarrow> Ret (Inl e)
            | Inr _ \<Rightarrow> go_bind (DecodeRecord (mg_Params msg)) (\<lambda>r.
                case r of
                  Inl e \<Rightarrow> Ret (Inl e)
                | Inr env \<Rightarrow>
                    if env_Kind env \<noteq> expected
                    then Ret (Inl (NewError ''mcp.kind_mismatch'' (Lit ''method and envelope kind disagree'')))
                    else Ret (Inr env))))"

definition MCPProtocolVersion :: string where
  "MCPProtocolVersion = ''2026-07-28''"

text \<open>A header is the value \<open>Get\<close> answers for each canonical key.\<close>

type_synonym http_header = "string \<Rightarrow> string"

definition HTTPHeaders :: "Message \<Rightarrow> http_header" where
  "HTTPHeaders msg = (\<lambda>_. [])(''MCP-Protocol-Version'' := MCPProtocolVersion, ''Mcp-Method'' := mg_Method msg)"

definition ValidateHTTPHeaders :: "http_header \<Rightarrow> Message \<Rightarrow> Error option" where
  "ValidateHTTPHeaders h msg =
     (if h ''MCP-Protocol-Version'' \<noteq> MCPProtocolVersion
      then Some (NewError ''mcp.version_mismatch'' (Lit ''MCP-Protocol-Version header mismatch''))
      else if h ''Mcp-Method'' \<noteq> mg_Method msg
      then Some (NewError ''mcp.header_mismatch'' (Lit ''Mcp-Method header disagrees with JSON-RPC method''))
      else None)"

subsection \<open>The daemon behind the bridge (daemon/mcp.go)\<close>

text \<open>A handler has answered, or waits for events with the given message.\<close>

datatype 'a progress = Replied 'a | Waiting_events

text \<open>\<open>json.Unmarshal\<close> into the parameters of \<open>wait_event\<close>: unknown members are ignored, and a value that
  does not decode leaves the field.\<close>

definition timeout_ms :: "bytes \<Rightarrow> int" where
  "timeout_ms raw =
     (case json_decode raw of
        Some (JObject ms) \<Rightarrow> fold (\<lambda>(key, v) t.
          case find_setter [(''timeout_ms'', set_int (\<lambda>v _. v))] key of None \<Rightarrow> t | Some f \<Rightarrow> fst (f v t)) ms 0
      | _ \<Rightarrow> 0)"

text \<open>In nanoseconds; the product is a 64-bit integer.\<close>

definition wait_timeout :: "Message \<Rightarrow> int" where
  "wait_timeout msg =
     (if mg_Method msg \<noteq> ''a2ui/wait_event'' then 0
      else if mg_Params msg \<noteq> [] \<and> timeout_ms (mg_Params msg) > 0 then wrap_int (timeout_ms (mg_Params msg) * 10 ^ 6)
      else 30 * 10 ^ 9)"

definition events_reply :: "(gomsg \<Rightarrow> string) \<Rightarrow> Message \<Rightarrow> Event list \<Rightarrow> Error + Message option" where
  "events_reply render msg events =
     (case marshal_events render events of
        None \<Rightarrow> Inl (NewError ''mcp.encode_failed'' (LibErr ''json.Marshal''))
      | Some raw \<Rightarrow> Inr (Some (zero_message\<lparr>mg_JSONRPC := ''2.0'', mg_ID := mg_ID msg, mg_Result := raw\<rparr>)))"

definition events_progress ::
    "(gomsg \<Rightarrow> string) \<Rightarrow> Message \<Rightarrow> ('h Daemon \<times> Event list option) \<Rightarrow> 'h Daemon \<times> (Error + Message option) progress" where
  "events_progress render msg dr = (case dr of (d, None) \<Rightarrow> (d, Waiting_events) | (d, Some events) \<Rightarrow> (d, Replied (events_reply render msg events)))"

definition HandleMCPMessage ::
    "(gomsg \<Rightarrow> string) \<Rightarrow> 'h Daemon \<Rightarrow> Message \<Rightarrow> ('h Daemon \<times> (Error + Message option) progress) go" where
  "HandleMCPMessage render d msg =
     (if mg_Method msg = ''a2ui/drain_events'' \<or> mg_Method msg = ''a2ui/wait_event''
      then go_bind (WaitEvents_enter d (wait_timeout msg)) (\<lambda>dr. Ret (events_progress render msg dr))
      else go_bind (EnvelopeFromMessage msg) (\<lambda>r.
        case r of
          Inl e \<Rightarrow> Ret (d, Replied (Inl e))
        | Inr env \<Rightarrow> go_bind (HandleEnvelope d env) (\<lambda>(d, r).
            case r of
              Inl e \<Rightarrow> Ret (d, Replied (Inl e))
            | Inr None \<Rightarrow> Ret (d, Replied (Inr None))
            | Inr (Some respEnv) \<Rightarrow>
                go_bind (if mg_ID msg \<noteq> [] then Request (mg_ID msg) respEnv else Notification respEnv) (\<lambda>r.
                  case r of
                    Inl err \<Rightarrow> Ret (d, Replied (Inl (NewError ''mcp.encode_failed'' (error_text render err))))
                  | Inr resp \<Rightarrow> Ret (d, Replied (Inr (Some resp)))))))"

text \<open>What a waiting \<open>wait_event\<close> does when it wakes.\<close>

definition HandleMCPMessage_wake ::
    "(gomsg \<Rightarrow> string) \<Rightarrow> 'h Daemon \<Rightarrow> Message \<Rightarrow> wake \<Rightarrow> ('h Daemon \<times> (Error + Message option) progress) go" where
  "HandleMCPMessage_wake render d msg w = go_bind (WaitEvents_wake d w) (\<lambda>dr. Ret (events_progress render msg dr))"

definition event_envelope :: "string \<Rightarrow> Event \<Rightarrow> bytes \<Rightarrow> Envelope" where
  "event_envelope session ev raw =
     \<lparr>env_V = Version, env_Session = session, env_Kind = KindEvent, env_Seq = ev_Seq ev, env_Payload = raw\<rparr>"

fun notifications :: "(gomsg \<Rightarrow> string) \<Rightarrow> string \<Rightarrow> Event list \<Rightarrow> (Error + Message list) go" where
  "notifications render session [] = Ret (Inr [])"
| "notifications render session (ev # evs) =
     (case marshal_event render ev of
        None \<Rightarrow> Ret (Inl (NewError [] (LibErr ''json.Marshal'')))
      | Some raw \<Rightarrow>
          go_bind (Notification (event_envelope session ev raw)) (\<lambda>r.
            case r of
              Inl e \<Rightarrow> Ret (Inl e)
            | Inr msg \<Rightarrow> go_bind (notifications render session evs) (\<lambda>rest.
                Ret (case rest of Inl e \<Rightarrow> Inl e | Inr msgs \<Rightarrow> Inr (msg # msgs)))))"

definition DrainMCPNotifications :: "(gomsg \<Rightarrow> string) \<Rightarrow> 'h Daemon \<Rightarrow> ('h Daemon \<times> (Error + Message list)) go" where
  "DrainMCPNotifications render d =
     go_bind (DrainEvents d) (\<lambda>(d, events).
       go_bind (notifications render (ss_id (dm_Session d)) events) (\<lambda>r. Ret (d, r)))"

text \<open>A request as the handler sees it: \<open>hr_Timeout\<close> is the duration read from the query, when there is
  one, and \<open>hr_readable\<close> whether the body could be read.\<close>

record http_request =
  hr_Method :: string
  hr_Path :: string
  hr_Header :: http_header
  hr_Body :: bytes
  hr_readable :: bool
  hr_Timeout :: "int option"

record status_report =
  sr_session :: string
  sr_revision :: u64
  sr_nodes :: int
  sr_has_client :: bool
  sr_generation :: u64
  sr_pending_publish :: bool

text \<open>What is encoded into the body of a response.\<close>

datatype http_body =
    EmptyBody | TextBody gomsg | MessageBody Message | RPCErrorBody RPCError | StatusBody status_report | EventsBody "Event list"

record http_response =
  hs_Status :: int
  hs_Header :: http_header
  hs_Body :: http_body

definition json_response :: "http_header \<Rightarrow> int \<Rightarrow> http_body \<Rightarrow> http_response" where
  "json_response h status body = \<lparr>hs_Status = status, hs_Header = h(''Content-Type'' := ''application/json''), hs_Body = body\<rparr>"

text \<open>\<open>http.Error\<close>.\<close>

definition http_error :: "gomsg \<Rightarrow> int \<Rightarrow> http_response" where
  "http_error m status = \<lparr>hs_Status = status, hs_Header = (\<lambda>_. [])(''Content-Type'' := ''text/plain; charset=utf-8''), hs_Body = TextBody m\<rparr>"

definition writeMCPError :: "int \<Rightarrow> int \<Rightarrow> gomsg \<Rightarrow> http_response" where
  "writeMCPError status code message =
     json_response (\<lambda>_. []) status (RPCErrorBody \<lparr>re_Code = code, re_Message = message, re_Data = []\<rparr>)"

definition serveStatus :: "'h Daemon \<Rightarrow> http_response" where
  "serveStatus d =
     (let doc = Engine_Document (dm_Engine d); (curGen, pending) = PublicationGeneration (dm_Engine d) in
      json_response (\<lambda>_. []) 200 (StatusBody \<lparr>sr_session = ss_id (dm_Session d), sr_revision = d_Revision doc,
         sr_nodes = int (fcard (fmdom (d_Nodes doc))), sr_has_client = HasActiveClient d, sr_generation = curGen,
         sr_pending_publish = pending\<rparr>))"

definition serveEvents :: "'h Daemon \<Rightarrow> http_request \<Rightarrow> ('h Daemon \<times> http_response progress) go" where
  "serveEvents d req =
     (let timeout = (case hr_Timeout req of Some dur \<Rightarrow> if dur \<ge> 0 then dur else 30 * 10 ^ 9 | None \<Rightarrow> 30 * 10 ^ 9) in
      go_bind (WaitEvents_enter d timeout) (\<lambda>(d, r).
        Ret (d, case r of None \<Rightarrow> Waiting_events | Some events \<Rightarrow> Replied (json_response (\<lambda>_. []) 200 (EventsBody events)))))"

definition mcp_response :: "Error + Message option \<Rightarrow> http_response" where
  "mcp_response r =
     (case r of
        Inl e \<Rightarrow> writeMCPError 422 (-32000) (e_Message e)
      | Inr None \<Rightarrow> \<lparr>hs_Status = 204, hs_Header = (\<lambda>_. []), hs_Body = EmptyBody\<rparr>
      | Inr (Some resp) \<Rightarrow> json_response (HTTPHeaders resp) 200 (MessageBody resp))"

definition ServeHTTP :: "(gomsg \<Rightarrow> string) \<Rightarrow> 'h Daemon \<Rightarrow> http_request \<Rightarrow> ('h Daemon \<times> http_response progress) go" where
  "ServeHTTP render d req =
     (if hr_Method req = ''GET'' \<and> hr_Path req = ''/status'' then Ret (d, Replied (serveStatus d))
      else if hr_Method req = ''GET'' \<and> hr_Path req = ''/events'' then serveEvents d req
      else if hr_Method req \<noteq> ''POST'' then Ret (d, Replied (http_error (Lit ''Method Not Allowed'') 405))
      else
        (let mx = (if MaxMessageBytes (dm_limits d) < 1 then MaxMessageBytes DefaultLimits else MaxMessageBytes (dm_limits d)) in
         if \<not> hr_readable req \<or> int (length (hr_Body req)) > mx
         then Ret (d, Replied (http_error (Lit ''Failed to read request body'') 400))
         else go_bind (DecodeMessage (hr_Body req)) (\<lambda>r.
           case r of
             Inl e \<Rightarrow> Ret (d, Replied (writeMCPError 400 (-32700) (e_Message e)))
           | Inr msg \<Rightarrow>
               (case ValidateHTTPHeaders (hr_Header req) msg of
                  Some e \<Rightarrow> Ret (d, Replied (writeMCPError 400 (-32600) (e_Message e)))
                | None \<Rightarrow> go_bind (HandleMCPMessage render d msg) (\<lambda>(d, p).
                    Ret (d, case p of Replied r \<Rightarrow> Replied (mcp_response r) | Waiting_events \<Rightarrow> Waiting_events))))))"

end
