(* ===== verification/Bridges.thy ===== *)
theory Bridges
  imports Mcp
begin

text \<open>
  Correctness of the bridges: the messages carry envelopes without loss, whatever arrives through
  them never acknowledges a frame, and requests that are refused change nothing.
\<close>

subsection \<open>Messages\<close>

lemma kindFor_methodFor: "methodFor k = Some m \<Longrightarrow> kindFor m = Some k \<and> known_kind k"
  by (cases k) (auto simp: kindFor_def known_kind_def)

lemma Notification_ok:
  assumes "Notification env = Ret (Inr msg)"
  obtains m b where "methodFor (env_Kind env) = Some m" "EncodeEnvelope env = Ret (Inr b)"
    "msg = zero_message\<lparr>mg_JSONRPC := ''2.0'', mg_Method := m, mg_Params := b\<rparr>"
  using assms by (auto simp: Notification_def bind_sum split: option.splits)

lemma reread_sel [simp]: "env_Kind (reread env) = env_Kind env" "env_V (reread env) = env_V env" "env_Seq (reread env) = env_Seq env"
  by (simp_all add: reread_def)

lemma EnvelopeFromMessage_encoded:
  assumes "EncodeEnvelope env = Ret (Inr b)" "methodFor (env_Kind env) = Some m" "mg_JSONRPC msg = ''2.0''" "mg_Method msg = m" "mg_Params msg = b"
  shows "EnvelopeFromMessage msg = Ret (Inr (reread env))"
proof -
  note k = kindFor_methodFor [OF assms(2)]
  note d = decode_encoded [OF assms(1) k [THEN conjunct2]]
  have "StrictUnmarshal (decode_struct envelope_fields) zero_envelope b = Ret (Inr (reread env))"
    using d by (simp add: StrictUnmarshal_def Let_def)
  then show ?thesis using d k assms(3-5) by (simp add: EnvelopeFromMessage_def)
qed

text \<open>C16. The message bridge is lossless: an envelope that \<open>Notification\<close> or \<open>Request\<close> turns into a message is what
  \<open>EnvelopeFromMessage\<close> gets out of it, with the session and the payload as the wire writes them, and a
  request carries its id.\<close>

theorem mcp_roundtrip:
  assumes "Request rid env = Ret (Inr msg)"
  shows "EnvelopeFromMessage msg = Ret (Inr (env\<lparr>env_Session := of_runes (runes (env_Session env)),
      env_Payload := compact False False (env_Payload env)\<rparr>)) \<and> mg_ID msg = rid"
proof -
  obtain msg0 where n: "Notification env = Ret (Inr msg0)" "msg = msg0\<lparr>mg_ID := rid\<rparr>"
    using assms by (auto simp: Request_def bind_sum)
  from n(1) show ?thesis
  proof (rule Notification_ok)
    fix m b
    assume "methodFor (env_Kind env) = Some m" "EncodeEnvelope env = Ret (Inr b)"
      "msg0 = zero_message\<lparr>mg_JSONRPC := ''2.0'', mg_Method := m, mg_Params := b\<rparr>"
    then show ?thesis using EnvelopeFromMessage_encoded [of env b m msg] n(2) by (simp add: reread_def)
  qed
qed

theorem mcp_roundtrip_witness:
  "\<exists>msg. Request ''1'' sample_envelope = Ret (Inr msg) \<and>
     EnvelopeFromMessage msg = Ret (Inr (sample_envelope\<lparr>env_Payload := quoted ''{~a~:[1,2]}''\<rparr>))"
proof -
  have "case Request ''1'' sample_envelope of Ret (Inr b) \<Rightarrow> True | _ \<Rightarrow> False" by code_simp
  then obtain msg where m: "Request ''1'' sample_envelope = Ret (Inr msg)" by (auto split: go.splits sum.splits)
  have "of_runes (runes ''s'') = ''s'' \<and> compact False False (quoted ''{ ~a~ : [1, 2] }'') = quoted ''{~a~:[1,2]}''" by code_simp
  then show ?thesis using m mcp_roundtrip [OF m] by (simp add: sample_envelope_def)
qed

subsection \<open>Frames stay with the terminal\<close>

text \<open>No frame was acknowledged and the interactive seat did not change hands.\<close>

definition unacknowledged :: "'h Daemon \<Rightarrow> 'h Daemon \<Rightarrow> bool" where
  "unacknowledged d d' \<longleftrightarrow> engine_inv (dm_Engine d') \<and>
     s_PublishedGeneration (en_state (dm_Engine d')) = s_PublishedGeneration (en_state (dm_Engine d)) \<and>
     (\<exists>new. en_pendingCommits (dm_Engine d') = en_pendingCommits (dm_Engine d) @ new) \<and>
     dm_active d' = dm_active d \<and> dm_activeConn d' = dm_activeConn d"

lemma unacknowledged_refl: "engine_inv (dm_Engine d) \<Longrightarrow> unacknowledged d d"
  by (simp add: unacknowledged_def)

lemma unacknowledged_trans: "unacknowledged a b \<Longrightarrow> unacknowledged b c \<Longrightarrow> unacknowledged a c"
  unfolding unacknowledged_def by fastforce

lemma NextEvent_run: "\<exists>b. run_steps engine_step e (replicate m ENextEvent) = e\<lparr>en_broker := b\<rparr>"
proof (induction m arbitrary: e)
  case 0
  show ?case by (intro exI [of _ "en_broker e"]) simp
next
  case (Suc m)
  have "engine_step e ENextEvent = e\<lparr>en_broker := fst (Next (en_broker e))\<rparr>" by (simp add: engine_step_def NextEvent_def case_prod_beta)
  then show ?case using Suc [of "engine_step e ENextEvent"] by auto
qed

lemma drained_unacknowledged:
  assumes "engine_inv (dm_Engine d)" "dm_Engine d' = run_steps engine_step (dm_Engine d) (replicate m ENextEvent)"
    "dm_active d' = dm_active d" "dm_activeConn d' = dm_activeConn d"
  shows "unacknowledged d d'"
proof -
  have "en_state (dm_Engine d') = en_state (dm_Engine d)" "en_pendingCommits (dm_Engine d') = en_pendingCommits (dm_Engine d)"
    using NextEvent_run [of "dm_Engine d" m] unfolding assms(2) by auto
  then show ?thesis using assms enginem.inv_run [OF assms(1)] by (simp add: unacknowledged_def)
qed

lemma DrainEvents_unacknowledged: "DrainEvents d = Ret (d', evs) \<Longrightarrow> engine_inv (dm_Engine d) \<Longrightarrow> unacknowledged d d'"
  by (elim DrainEvents_effect) (rule drained_unacknowledged, auto)

lemma wait_unacknowledged:
  "WaitEvents_enter d t = Ret (d', r) \<Longrightarrow> engine_inv (dm_Engine d) \<Longrightarrow> unacknowledged d d'"
  "WaitEvents_wake d w = Ret (d', r) \<Longrightarrow> engine_inv (dm_Engine d) \<Longrightarrow> unacknowledged d d'"
  by (auto simp: WaitEvents_enter_def go_simps dest: DrainEvents_unacknowledged)
    (elim WaitEvents_effect, rule drained_unacknowledged, auto)

lemma HandleEnvelope_unacknowledged:
  assumes h: "HandleEnvelope d env = Ret (d', r)" and i: "engine_inv (dm_Engine d)"
  shows "unacknowledged d d'"
  using h
proof (cases rule: HandleEnvelope_effect)
  case (session c)
  then show ?thesis using i by (simp add: unacknowledged_def)
next
  case (applied op err)
  have i': "engine_inv (dm_Engine d')" using enginem.inv_step [OF i, of "EApply op"] applied(4) by (simp add: engine_step_def)
  have l: "dm_active d' = dm_active d" "dm_activeConn d' = dm_activeConn d"
    using arg_cong [OF applied(5), of dm_active] arg_cong [OF applied(5), of dm_activeConn] by simp_all
  from i applied(4) show ?thesis
  proof (cases rule: Engine_Apply_cases)
    case (refused b err1)
    then show ?thesis using i' l by (simp add: unacknowledged_def)
  next
    case (accepted nxt eff st)
    have "consistent nxt" using engine_invD(5) [OF i'] accepted(5) by simp
    from Reconcile_PublishedGeneration [OF this accepted(3)] show ?thesis using accepted(5) i' l by (simp add: unacknowledged_def)
  qed
next
  case same
  then show ?thesis using i by (simp add: unacknowledged_refl)
qed

text \<open>Everything that can be asked of the daemon through the bridge.\<close>

inductive bridge_step :: "(gomsg \<Rightarrow> string) \<Rightarrow> 'h Daemon \<Rightarrow> 'h Daemon \<Rightarrow> bool" for render where
  handle: "HandleMCPMessage render d msg = Ret (d', p) \<Longrightarrow> bridge_step render d d'"
| wake: "HandleMCPMessage_wake render d msg w = Ret (d', p) \<Longrightarrow> bridge_step render d d'"
| drain: "DrainMCPNotifications render d = Ret (d', r) \<Longrightarrow> bridge_step render d d'"
| serve: "ServeHTTP render d req = Ret (d', q) \<Longrightarrow> bridge_step render d d'"

lemma HandleMCPMessage_unacknowledged:
  assumes h: "HandleMCPMessage render d msg = Ret (d', p)" and i: "engine_inv (dm_Engine d)"
  shows "unacknowledged d d'"
proof -
  consider (wait) r where "WaitEvents_enter d (wait_timeout msg) = Ret (d', r)" | (same) "d' = d"
    | (env) env r where "HandleEnvelope d env = Ret (d', r)"
  proof (cases "mg_Method msg = ''a2ui/drain_events'' \<or> mg_Method msg = ''a2ui/wait_event''")
    case True
    then obtain d1 r where w: "WaitEvents_enter d (wait_timeout msg) = Ret (d1, r)" "events_progress render msg (d1, r) = (d', p)"
      using h by (auto simp: HandleMCPMessage_def go_simps)
    then have "d1 = d'" by (auto simp: events_progress_def split: option.splits)
    then show thesis using w wait by blast
  next
    case False
    then obtain e where e: "EnvelopeFromMessage msg = Ret e" using h by (auto simp: HandleMCPMessage_def go_simps)
    show thesis
    proof (cases e)
      case (Inl err)
      then show thesis using h e False same by (simp add: HandleMCPMessage_def)
    next
      case (Inr env)
      then obtain d1 r where r: "HandleEnvelope d env = Ret (d1, r)" using h e False by (auto simp: HandleMCPMessage_def go_simps)
      have "d1 = d'"
      proof (cases r)
        case (Inr resp)
        have n: "d1 = d'" if "go_bind m (case_sum (\<lambda>err. Ret (d1, f err)) (\<lambda>resp. Ret (d1, g resp))) = Ret (d', p)" for m f g
          using that by (auto simp: go_simps split: sum.splits) (metis sum.exhaust)
        show ?thesis using h e False \<open>e = Inr env\<close> r Inr n by (cases resp) (simp_all add: HandleMCPMessage_def)
      qed (use h e False Inr r in \<open>simp add: HandleMCPMessage_def\<close>)
      then show thesis using r env by blast
    qed
  qed
  then show ?thesis
    by cases (use i in \<open>auto dest: wait_unacknowledged HandleEnvelope_unacknowledged simp: unacknowledged_refl\<close>)
qed

lemma ServeHTTP_cases:
  assumes "ServeHTTP render d req = Ret (d', p)"
  obtains (same) resp where "d' = d" "p = Replied resp" "hs_Status resp \<in> {200, 400, 405}" "\<And>msg. hs_Body resp \<noteq> MessageBody msg"
  | (events) t r where "WaitEvents_enter d t = Ret (d', r)"
      "p = (case r of None \<Rightarrow> Waiting_events | Some evs \<Rightarrow> Replied (json_response (\<lambda>_. []) 200 (EventsBody evs)))"
  | (message) msg q where "DecodeMessage (hr_Body req) = Ret (Inr msg)" "ValidateHTTPHeaders (hr_Header req) msg = None"
      "HandleMCPMessage render d msg = Ret (d', q)" "p = (case q of Replied r \<Rightarrow> Replied (mcp_response r) | Waiting_events \<Rightarrow> Waiting_events)"
proof (cases "hr_Method req = ''GET'' \<and> (hr_Path req = ''/status'' \<or> hr_Path req = ''/events'') \<or> hr_Method req \<noteq> ''POST''")
  case True
  show thesis
  proof (cases "hr_Method req = ''GET'' \<and> hr_Path req = ''/events''")
    case True
    then obtain t d1 r where w: "WaitEvents_enter d t = Ret (d1, r)" "d1 = d'"
        "p = (case r of None \<Rightarrow> Waiting_events | Some evs \<Rightarrow> Replied (json_response (\<lambda>_. []) 200 (EventsBody evs)))"
      using assms by (auto simp: ServeHTTP_def serveEvents_def go_simps Let_def)
    then show thesis using events by blast
  next
    case False
    then show thesis using assms True
      by (intro same [of "case p of Replied r \<Rightarrow> r | Waiting_events \<Rightarrow> undefined"])
        (auto simp: ServeHTTP_def serveStatus_def json_response_def http_error_def Let_def split: if_split_asm prod.splits)
  qed
next
  case False
  then have m: "hr_Method req = ''POST''" by simp
  let ?mx = "if MaxMessageBytes (dm_limits d) < 1 then MaxMessageBytes DefaultLimits else MaxMessageBytes (dm_limits d)"
  show thesis
  proof (cases "\<not> hr_readable req \<or> int (length (hr_Body req)) > ?mx")
    case True
    then show thesis using assms m
      by (intro same [of "http_error (Lit ''Failed to read request body'') 400"])
        (auto simp: ServeHTTP_def http_error_def Let_def split: if_split_asm)
  next
    case body: False
    have sv: "ServeHTTP render d req = go_bind (DecodeMessage (hr_Body req)) (\<lambda>r.
           case r of
             Inl e \<Rightarrow> Ret (d, Replied (writeMCPError 400 (-32700) (e_Message e)))
           | Inr msg \<Rightarrow>
               (case ValidateHTTPHeaders (hr_Header req) msg of
                  Some e \<Rightarrow> Ret (d, Replied (writeMCPError 400 (-32600) (e_Message e)))
                | None \<Rightarrow> go_bind (HandleMCPMessage render d msg) (\<lambda>(d, p).
                    Ret (d, case p of Replied r \<Rightarrow> Replied (mcp_response r) | Waiting_events \<Rightarrow> Waiting_events))))"
      unfolding ServeHTTP_def Let_def if_not_P [OF body] using m by simp
    obtain r where r: "DecodeMessage (hr_Body req) = Ret r" using assms unfolding sv by (auto simp: go_simps)
    show thesis
    proof (cases r)
      case (Inl e)
      then show thesis using assms unfolding sv r
        by (intro same [of "writeMCPError 400 (-32700) (e_Message e)"]) (auto simp: writeMCPError_def json_response_def)
    next
      case (Inr msg)
      show thesis
      proof (cases "ValidateHTTPHeaders (hr_Header req) msg")
        case None
        then obtain q where "HandleMCPMessage render d msg = Ret (d', q)"
            "p = (case q of Replied r \<Rightarrow> Replied (mcp_response r) | Waiting_events \<Rightarrow> Waiting_events)"
          using assms unfolding sv r Inr by (auto simp: go_simps)
        then show thesis using message r Inr None by blast
      next
        case (Some e)
        then show thesis using assms unfolding sv r Inr
          by (intro same [of "writeMCPError 400 (-32600) (e_Message e)"]) (auto simp: writeMCPError_def json_response_def)
      qed
    qed
  qed
qed

lemma bridge_step_unacknowledged:
  assumes "bridge_step render d d'" "engine_inv (dm_Engine d)"
  shows "unacknowledged d d'"
  using assms(1)
proof cases
  case (handle msg p)
  then show ?thesis using assms(2) by (rule HandleMCPMessage_unacknowledged)
next
  case (wake msg w p)
  then obtain r where "WaitEvents_wake d w = Ret (d', r)"
    by (auto simp: HandleMCPMessage_wake_def go_simps events_progress_def split: option.splits)
  then show ?thesis using assms(2) by (rule wait_unacknowledged(2))
next
  case (drain r)
  then obtain evs where "DrainEvents d = Ret (d', evs)" by (auto simp: DrainMCPNotifications_def go_simps)
  then show ?thesis using assms(2) by (rule DrainEvents_unacknowledged)
next
  case (serve req q)
  from serve show ?thesis
    by (cases rule: ServeHTTP_cases)
      (use assms(2) in \<open>auto simp: unacknowledged_refl dest: wait_unacknowledged(1) HandleMCPMessage_unacknowledged\<close>)
qed

text \<open>C13. The bridge never acknowledges a frame on behalf of the terminal: after any sequence of messages, wakeups,
  drains and HTTP requests the published generation is the one before, every commit that was
  waiting for its frame still waits, in order and before any new one, and the interactive seat is
  held by whoever held it.\<close>

theorem bridge_never_acknowledges:
  assumes "(bridge_step render)\<^sup>*\<^sup>* d d'" "engine_inv (dm_Engine d)"
  shows "s_PublishedGeneration (en_state (dm_Engine d')) = s_PublishedGeneration (en_state (dm_Engine d)) \<and>
    (\<exists>new. en_pendingCommits (dm_Engine d') = en_pendingCommits (dm_Engine d) @ new) \<and>
    dm_active d' = dm_active d \<and> dm_activeConn d' = dm_activeConn d"
proof -
  have "unacknowledged d d'" using assms(1)
  proof (induction rule: rtranclp_induct)
    case base
    then show ?case using assms(2) by (rule unacknowledged_refl)
  next
    case (step y z)
    have "engine_inv (dm_Engine y)" using step.IH by (simp add: unacknowledged_def)
    then show ?case using bridge_step_unacknowledged [OF step(2)] unacknowledged_trans [OF step.IH] by blast
  qed
  then show ?thesis by (simp add: unacknowledged_def)
qed

definition drain_request :: Message where
  "drain_request = zero_message\<lparr>mg_JSONRPC := ''2.0'', mg_ID := ''1'', mg_Method := ''a2ui/drain_events''\<rparr>"

theorem bridge_never_acknowledges_witness:
  "\<exists>d'. (bridge_step (\<lambda>_. []))\<^sup>*\<^sup>* ready_daemon d' \<and>
     s_PublishedGeneration (en_state (dm_Engine d')) = s_PublishedGeneration (en_state (dm_Engine ready_daemon))"
proof -
  have "case HandleMCPMessage (\<lambda>_. []) ready_daemon drain_request of Ret _ \<Rightarrow> True | _ \<Rightarrow> False" by code_simp
  then obtain d' p where h: "HandleMCPMessage (\<lambda>_. []) ready_daemon drain_request = Ret (d', p)" by (auto split: go.splits)
  then have s: "(bridge_step (\<lambda>_. []))\<^sup>*\<^sup>* ready_daemon d'" by (intro r_into_rtranclp) (rule bridge_step.handle)
  have "dm_Engine ready_daemon = dm_Engine (sy_daemon sample_system)" by (simp add: ready_daemon_def sample_system_def)
  then have i: "engine_inv (dm_Engine ready_daemon)" using sys_reachable_inv(1) [OF sample_system_reachable] by simp
  show ?thesis using s bridge_never_acknowledges [OF s i] by blast
qed

text \<open>HTTP answers are honest: a request that is answered with 400 or 405 left the daemon as it was; every
  status is one of the documented ones; a message reaches the daemon only when its body decodes
  strictly and its routing headers agree with it; and the headers of a response are those a peer
  accepts for its message.\<close>

lemma ServeHTTP_status:
  assumes "ServeHTTP render d req = Ret (d', Replied resp)"
  shows "hs_Status resp \<in> {200, 204, 400, 405, 422} \<and> (hs_Status resp \<in> {400, 405} \<longrightarrow> d' = d) \<and>
    (hs_Status resp \<in> {204, 422} \<longrightarrow> (\<exists>msg. DecodeMessage (hr_Body req) = Ret (Inr msg) \<and> ValidateHTTPHeaders (hr_Header req) msg = None)) \<and>
    (\<forall>msg. hs_Body resp = MessageBody msg \<longrightarrow> ValidateHTTPHeaders (hs_Header resp) msg = None)"
  using assms
proof (cases rule: ServeHTTP_cases)
  case (events t r)
  then show ?thesis by (auto simp: json_response_def split: option.splits)
next
  case (message msg q)
  then obtain r where r: "resp = mcp_response r" by (cases q) auto
  consider (err) e where "r = Inl e" | (none) "r = Inr None" | (some) m where "r = Inr (Some m)"
    by (metis obj_sumE option.exhaust)
  then show ?thesis
    by cases (use message r in \<open>auto simp: mcp_response_def writeMCPError_def json_response_def ValidateHTTPHeaders_def HTTPHeaders_def\<close>)
qed auto

text \<open>A timeout is multiplied as a 64-bit integer: the milliseconds below wrap to a negative duration, so the
  call does not wait at all.\<close>

lemma wait_timeout_wraps:
  "wait_timeout (zero_message\<lparr>mg_Method := ''a2ui/wait_event'', mg_Params := quoted ''{~timeout_ms~:9223372036855}''\<rparr>) < 0"
  by code_simp

end
