(* ===== verification/Transports.thy ===== *)
theory Transports
  imports Streams
begin

text \<open>
  Correctness of the transports without a daemon: datagrams carry telemetry only and stay within
  their limit; the stream over HTTP answers records in order, writes well-formed records only and
  handles nothing after a failure.
\<close>

subsection \<open>Datagrams\<close>

lemma EncodeEnvelope_returns: "returns (EncodeEnvelope e)"
proof (cases "marshal_envelope e")
  case (Some t)
  obtain r where "DecodeRecord t = Ret r" using DecodeRecord_returns by (auto simp: returns_def)
  then show ?thesis using Some by (cases r) (simp_all add: EncodeEnvelope_def)
qed (simp add: EncodeEnvelope_def)

lemma telemetry_object:
  assumes "DecodeRecord raw = Ret (Inr env)" "env_Kind env = KindTelemetry"
  shows "\<exists>m. StrictUnmarshal decode_map None (env_Payload env) = Ret (Inr (Some m))"
proof -
  obtain probe where "validateEnvelopePayload env probe = Ret None"
    using assms by (auto simp: DecodeRecord_def Let_def go_simps split: if_splits option.splits sum.splits prod.splits)
  then show ?thesis
    using assms(2) by (auto simp: validateEnvelopePayload_def go_simps no_error_iff split: if_splits option.splits)
qed

lemma encoded_telemetry:
  assumes "EncodeEnvelope e = Ret (Inr w)" "env_Kind e = KindTelemetry"
  shows "\<exists>m. StrictUnmarshal decode_map None (compact False False (env_Payload e)) = Ret (Inr (Some m))"
proof -
  have "known_kind (env_Kind e)" using assms(2) by (simp add: known_kind_def)
  then have "DecodeRecord w = Ret (Inr (reread e))" using decode_encoded [OF assms(1)] by blast
  then show ?thesis using telemetry_object [of w "reread e"] assms(2) by (simp add: reread_def)
qed

lemma udp_Encode_returns: "returns (udp_Encode env mx)"
  unfolding udp_Encode_def
  by (auto intro!: returns_then EncodeEnvelope_returns split: sum.split option.split)

lemma udp_Decode_returns: "returns (udp_Decode b mx)"
  unfolding udp_Decode_def Let_def
  by (auto intro!: returns_then StrictUnmarshal_returns EncodeEnvelope_returns split: sum.split)

lemma udp_Encode_ok:
  assumes "udp_Encode env mx = Ret (Inr b)"
  shows "env_V env = Version \<and> env_Kind env = KindTelemetry \<and> env_Session env \<noteq> [] \<and> env_Seq env \<noteq> 0 \<and>
    int (length b) \<le> datagram_limit mx \<and> (\<exists>w. EncodeEnvelope env = Ret (Inr w))"
proof -
  obtain r where r: "EncodeEnvelope env = Ret r" using EncodeEnvelope_returns [of env] by (auto simp: returns_def)
  then show ?thesis using assms by (cases r) (auto simp: udp_Encode_def split: if_split_asm option.splits)
qed

lemma udp_Decode_ok:
  assumes "udp_Decode b mx = Ret (Inr env)"
  shows "env_V env = Version \<and> env_Kind env = KindTelemetry \<and> env_Session env \<noteq> [] \<and> env_Seq env \<noteq> 0 \<and>
    int (length b) \<le> datagram_limit mx \<and> (\<exists>w. EncodeEnvelope env = Ret (Inr w))"
proof -
  obtain d where d: "StrictUnmarshal (decode_struct datagram_fields) zero_datagram b = Ret (Inr d)"
    using assms by (auto simp: udp_Decode_def bind_sum split: if_split_asm)
  let ?e = "\<lparr>env_V = Version, env_Session = dg_Session d, env_Kind = KindTelemetry, env_Seq = dg_Seq d, env_Payload = dg_Payload d\<rparr>"
  obtain r where r: "EncodeEnvelope ?e = Ret r" using EncodeEnvelope_returns [of ?e] by (auto simp: returns_def)
  then show ?thesis using assms d by (cases r) (auto simp: udp_Decode_def Let_def split: if_split_asm)
qed


definition sample_datagram :: bytes where
  "sample_datagram = quoted ''{~magic~:~A2UI~,~v~:1,~session~:~s~,~channel~:~telemetry~,~seq~:7,~payload~:{~a~:1}}''"


subsection \<open>The stream over HTTP\<close>

lemma Next_shrinks: "NDJSONReader_Next mx fail s = Ret (NextRecord r rest) \<Longrightarrow> length rest < length s"
proof (induction mx fail s rule: NDJSONReader_Next.induct)
  case (1 mx fail s)
  show ?case
  proof (cases "readLine (ndjson_max mx) fail s")
    case (Line line tooLarge rest')
    have l: "length rest' < length s"
      using readLine_rest [OF Line] by (simp add: ndjson_max_def split: if_splits)
    show ?thesis
    proof (cases "tooLarge \<or> TrimSpace line \<noteq> []")
      case True
      then show ?thesis using 1(2) Line l by (subst (asm) NDJSONReader_Next.simps) (auto simp: go_simps Let_def split: if_split_asm)
    next
      case False
      then have "NDJSONReader_Next mx fail rest' = Ret (NextRecord r rest)"
        using 1(2) Line by (subst (asm) NDJSONReader_Next.simps) simp
      then show ?thesis using 1(1) [OF Line] False l by fastforce
    qed
  qed (use 1(2) in \<open>subst (asm) NDJSONReader_Next.simps, simp\<close>)+
qed

lemma NDJSONWriter_Write_returns: "returns (NDJSONWriter_Write e)"
  unfolding NDJSONWriter_Write_def by (intro returns_then EncodeEnvelope_returns) (simp split: sum.split)

lemma stream_fail_returns: "returns (stream_fail render ses m c e out)"
  unfolding stream_fail_def writeStreamError_def
  by (auto intro!: returns_then NDJSONWriter_Write_returns split: option.split)

text \<open>The successive calls of the handler.\<close>

fun run_handler :: "'s handler \<Rightarrow> 's \<Rightarrow> Envelope list \<Rightarrow> 's \<times> (Error + Envelope) list" where
  "run_handler handle st [] = (st, [])"
| "run_handler handle st (env # envs) =
     (let (st, r) = handle st env; (st, rs) = run_handler handle st envs in (st, r # rs))"

text \<open>The records of a body up to its end or the first that cannot be read.\<close>

fun body_records :: "int \<Rightarrow> string option \<Rightarrow> nat \<Rightarrow> bytes \<Rightarrow> Envelope list" where
  "body_records mx fail 0 s = []"
| "body_records mx fail (Suc n) s =
     (case NDJSONReader_Next mx fail s of Ret (NextRecord (Inr env) rest) \<Rightarrow> env # body_records mx fail n rest | _ \<Rightarrow> [])"

definition record_line :: "bytes \<Rightarrow> bool" where
  "record_line l \<longleftrightarrow> (\<exists>b env. l = b @ [LF] \<and> DecodeRecord b = Ret (Inr env))"

text \<open>A stream that has not failed, and any output: a plain error is never mixed with records.\<close>

definition stream_open :: "stream_out \<Rightarrow> bool" where
  "stream_open out \<longleftrightarrow> list_all record_line (so_Lines out) \<and> so_Error out = None \<and>
     (so_Status out = Some 200 \<or> so_Status out = None \<and> so_Lines out = [])"

definition stream_sane :: "stream_out \<Rightarrow> bool" where
  "stream_sane out \<longleftrightarrow> list_all record_line (so_Lines out) \<and>
     (if so_Error out = None then so_Lines out \<noteq> [] \<longrightarrow> so_Status out = Some 200
      else so_Lines out = [] \<and> so_Status out \<noteq> None \<and> so_Status out \<noteq> Some 200)"

lemma open_sane: "stream_open out \<Longrightarrow> stream_sane out"
  by (auto simp: stream_open_def stream_sane_def)

lemma encoded_line: "EncodeEnvelope e = Ret (Inr b) \<Longrightarrow> record_line (b @ [LF])"
  by (elim EncodeEnvelope_ok) (auto simp: record_line_def)

lemma stream_fail_sane:
  assumes "stream_open out" "c \<noteq> 200"
  shows "\<exists>out' errs. stream_fail render ses m c e out = Ret out' \<and> stream_sane out' \<and> so_Lines out' = so_Lines out @ errs \<and> length errs \<le> 1"
proof (cases "so_Status out = None")
  case True
  then show ?thesis using assms by (auto simp: stream_fail_def stream_http_error_def stream_open_def stream_sane_def)
next
  case False
  have keep: "\<exists>out' errs. Ret out = Ret out' \<and> stream_sane out' \<and> so_Lines out' = so_Lines out @ errs \<and> length errs \<le> 1"
    using open_sane [OF assms(1)] by (intro exI [of _ out] exI [of _ "[]"]) simp
  let ?ev = "marshal_event render (stream_error_event e)"
  show ?thesis
  proof (cases ?ev)
    case None
    show ?thesis unfolding stream_fail_def writeStreamError_def if_not_P [OF False] None option.case by (rule keep)
  next
    case (Some payload)
    define env where "env = \<lparr>env_V = Version, env_Session = ses, env_Kind = KindEvent, env_Seq = 0, env_Payload = payload\<rparr>"
    obtain r where r: "EncodeEnvelope env = Ret r" using EncodeEnvelope_returns [of env] by (auto simp: returns_def)
    have w: "stream_fail render ses m c e out = go_bind (NDJSONWriter_Write env)
        (\<lambda>r. Ret (case r of Inl _ \<Rightarrow> out | Inr b \<Rightarrow> out\<lparr>so_Lines := so_Lines out @ [b]\<rparr>))"
      unfolding stream_fail_def writeStreamError_def if_not_P [OF False] Some option.case env_def ..
    show ?thesis
    proof (cases r)
      case (Inl err)
      then show ?thesis using keep r unfolding w by (simp add: NDJSONWriter_Write_def)
    next
      case (Inr b)
      let ?o = "out\<lparr>so_Lines := so_Lines out @ [b @ [LF]]\<rparr>"
      have "stream_sane ?o" using assms(1) False encoded_line [of env b] r Inr by (auto simp: stream_open_def stream_sane_def)
      then show ?thesis using r Inr unfolding w by (simp add: NDJSONWriter_Write_def)
    qed
  qed
qed

text \<open>The response behind a line.\<close>

definition answers :: "Error + Envelope \<Rightarrow> bytes \<Rightarrow> bool" where
  "answers r l \<longleftrightarrow> (\<exists>resp b. r = Inr resp \<and> EncodeEnvelope resp = Ret (Inr b) \<and> l = b @ [LF])"

definition stream_outcome :: "'s handler \<Rightarrow> Envelope list \<Rightarrow> 's \<Rightarrow> stream_out \<Rightarrow> ('s \<times> stream_out) go \<Rightarrow> bool" where
  "stream_outcome handle recs st out res \<longleftrightarrow> (\<exists>st' out' envs rs ok errs. res = Ret (st', out') \<and> stream_sane out' \<and>
     run_handler handle st envs = (st', rs) \<and> so_Lines out' = so_Lines out @ ok @ errs \<and> length errs \<le> 1 \<and>
     list_all2 answers (take (length ok) rs) ok \<and> length rs \<le> Suc (length ok) \<and>
     envs = take (length envs) recs \<and> (length rs \<le> length ok \<longrightarrow> envs = recs))"

text \<open>The handler's state when the loop stops here: no record is left, or the next one was handled.\<close>

definition called :: "'s handler \<Rightarrow> Envelope list \<Rightarrow> 's \<Rightarrow> 's \<Rightarrow> bool" where
  "called handle recs st st' \<longleftrightarrow> recs = [] \<and> st' = st \<or> (\<exists>env more hr. recs = env # more \<and> handle st env = (st', hr))"

lemma called_none [simp]: "called handle [] st st"
  by (simp add: called_def)

lemma outcome_stop:
  assumes "stream_sane out'" "so_Lines out' = so_Lines out @ errs" "length errs \<le> 1"
    "called handle recs st st'"
  shows "stream_outcome handle recs st out (Ret (st', out'))"
proof -
  obtain envs rs where e: "run_handler handle st envs = (st', rs)" "length rs \<le> 1" "envs = take (length envs) recs" "rs = [] \<longrightarrow> envs = recs"
  proof -
    consider "recs = []" "st' = st" | env more hr where "recs = env # more" "handle st env = (st', hr)" using assms(4) unfolding called_def by blast
    then show thesis
    proof cases
      case 1
      then show thesis using that [of "[]" "[]"] by simp
    next
      case (2 env more hr)
      then show thesis using that [of "[env]" "[hr]"] by simp
    qed
  qed
  then show ?thesis unfolding stream_outcome_def
    by (intro exI [of _ st'] exI [of _ out'] exI [of _ envs] exI [of _ rs] exI [of _ "[]"] exI [of _ errs]) (use assms(1-3) e in simp)
qed

lemma outcome_fail:
  assumes "stream_open out" "c \<noteq> 200" "called handle recs st st'"
  shows "stream_outcome handle recs st out (go_bind (stream_fail render ses m c e out) (\<lambda>out. Ret (st', out)))"
  using stream_fail_sane [OF assms(1,2), of render ses m e] outcome_stop [OF _ _ _ assms(3)] by auto

lemma outcome_next:
  assumes "stream_outcome handle recs st1 (out\<lparr>so_Status := c, so_Lines := so_Lines out @ [b @ [LF]]\<rparr>) res"
    "handle st env = (st1, Inr resp)" "EncodeEnvelope resp = Ret (Inr b)"
  shows "stream_outcome handle (env # recs) st out res"
proof -
  obtain st' out' envs rs ok errs where o: "res = Ret (st', out')" "stream_sane out'" "run_handler handle st1 envs = (st', rs)"
      "so_Lines out' = so_Lines out @ ((b @ [LF]) # ok) @ errs" "length errs \<le> 1" "list_all2 answers (take (length ok) rs) ok" "length rs \<le> Suc (length ok)"
      "envs = take (length envs) recs" "length rs \<le> length ok \<longrightarrow> envs = recs"
    using assms(1) by (auto simp: stream_outcome_def)
  have "answers (Inr resp) (b @ [LF])" using assms(3) by (auto simp: answers_def)
  then show ?thesis unfolding stream_outcome_def
    by (intro exI [of _ st'] exI [of _ out'] exI [of _ "env # envs"] exI [of _ "Inr resp # rs"] exI [of _ "(b @ [LF]) # ok"] exI [of _ errs])
      (use o assms(2) in simp)
qed

lemma stream_loop_outcome:
  "length s < n \<Longrightarrow> stream_open out \<Longrightarrow> stream_outcome handle (body_records mx fail n s) st out (stream_loop render handle mx fail alive n st s ses out)"
proof (induction n arbitrary: s st ses out)
  case (Suc n)
  obtain nx where nx: "NDJSONReader_Next mx fail s = Ret nx" using Next_returns [of mx fail s] by (auto simp: returns_def)
  show ?case
  proof (cases nx)
    case NextEOF
    then show ?thesis using nx outcome_stop [OF open_sane [OF Suc.prems(2)], of out "[]" handle "[]" st st] by simp
  next
    case (NextErr err)
    then show ?thesis using nx outcome_fail [OF Suc.prems(2), of 400 handle "[]" st st] by simp
  next
    case (NextRecord r rest)
    show ?thesis
    proof (cases r)
      case (Inl perr)
      then show ?thesis using nx NextRecord outcome_fail [OF Suc.prems(2), of 400 handle "[]" st st] by simp
    next
      case (Inr env)
      obtain st1 hr where h: "handle st env = (st1, hr)" by (cases "handle st env")
      have run: "called handle (env # more) st st1" for more using h by (simp add: called_def)
      show ?thesis
      proof (cases hr)
        case (Inl rerr)
        then show ?thesis using nx NextRecord \<open>r = Inr env\<close> h outcome_fail [OF Suc.prems(2) _ run, of 422] by simp
      next
        case resp: (Inr resp)
        obtain enc where e: "EncodeEnvelope resp = Ret enc" using EncodeEnvelope_returns [of resp] by (auto simp: returns_def)
        show ?thesis
        proof (cases enc)
          case (Inl err)
          then show ?thesis using nx NextRecord \<open>r = Inr env\<close> h resp e outcome_fail [OF Suc.prems(2) _ run, of 500] by simp
        next
          case (Inr b)
          let ?c = "Some (case so_Status out of None \<Rightarrow> 200 | Some c \<Rightarrow> c)"
          have c: "?c = Some 200" using Suc.prems(2) by (auto simp: stream_open_def split: option.split)
          have op: "stream_open (out\<lparr>so_Status := ?c, so_Lines := so_Lines out @ [b @ [LF]]\<rparr>)"
            using Suc.prems(2) encoded_line [of resp b] e Inr unfolding c by (auto simp: stream_open_def)
          have sane: "stream_sane (out\<lparr>so_Status := ?c\<rparr>)" using Suc.prems(2) unfolding c by (auto simp: stream_open_def stream_sane_def)
          have l: "length rest < n" using Next_shrinks [of mx fail s r rest] nx NextRecord Suc.prems(1) by simp
          note go = outcome_next [OF Suc.IH [OF l op, of st1 "env_Session env"] h [unfolded resp] e [unfolded Inr]]
          note stop = outcome_stop [OF sane, of out "[]", OF _ _ run [of "body_records mx fail n rest"]]
          show ?thesis using nx NextRecord \<open>r = Inr env\<close> h resp e Inr go stop by (simp add: Let_def)
        qed
      qed
    qed
  qed
qed simp


end
