(* ===== verification/Client.thy ===== *)
theory Client
  imports Service
begin

text \<open>
  The client side of the local control protocol (\<open>ipc/client.go\<close>): the handshake, the read loop, and
  the requests that run concurrently with it. A request waits on a channel of its own with room for
  one response; the channel is named by the call. Between their blocking points reader, callers and
  timers interleave in any order.
\<close>

subsection \<open>State\<close>

datatype reader_phase = Reading | Failed | Stopped

text \<open>A call holds its request id: registered and about to write, waiting for its response, returned.\<close>

datatype call = Writing string IpcMessage | Awaiting string | Returned string "IpcErr option"

text \<open>\<open>cl_closers\<close> are the calls \<open>Close\<close> has made. The fields \<open>cl_received\<close> and \<open>cl_written\<close> record the history of the connection.\<close>

record Client =
  cl_snapshot :: PresentationSnapshot
  cl_clientID :: string
  cl_lastErr :: "IpcErr option"
  cl_connectionErr :: "IpcErr option"
  cl_updates :: bool
  cl_closed :: bool
  cl_pending :: "nat gomap"
  cl_nextReq :: u64
  cl_reader :: reader_phase
  cl_calls :: "nat \<Rightarrow> call option"
  cl_results :: "nat \<Rightarrow> IpcErr option list"
  cl_closers :: "nat set"
  cl_received :: "IpcMessage list"
  cl_written :: "IpcMessage list"

definition new_client :: "string \<Rightarrow> PresentationSnapshot \<Rightarrow> Client" where
  "new_client cid snap = \<lparr>cl_snapshot = snap, cl_clientID = cid, cl_lastErr = None, cl_connectionErr = None, cl_updates = False,
     cl_closed = False, cl_pending = fmempty, cl_nextReq = 0, cl_reader = Reading, cl_calls = (\<lambda>_. None), cl_results = (\<lambda>_. []),
     cl_closers = {}, cl_received = [], cl_written = []\<rparr>"

definition connection_closed :: "gomsg \<Rightarrow> IpcErr" where
  "connection_closed m = NewIpcError ''ipc.connection_closed'' m"

subsection \<open>The handshake\<close>

text \<open>One record of the handshake: the message, or the error \<open>Dial\<close> fails with.\<close>

definition handshake_read :: "client_read \<Rightarrow> IpcErr + IpcMessage" where
  "handshake_read r =
     (case r of
        ReadFailed m _ \<Rightarrow> Inl (connection_closed m)
      | ReadInvalid perr \<Rightarrow> Inl perr
      | ReadMessage m \<Rightarrow> Inr m)"

text \<open>\<open>dial_err\<close> and \<open>write_err\<close> are the errors of the connection and of writing the hello, \<open>r1\<close> and
  \<open>r2\<close> what is read.\<close>

definition Dial :: "gomsg option \<Rightarrow> gomsg option \<Rightarrow> client_read \<Rightarrow> client_read \<Rightarrow> IpcErr + Client" where
  "Dial dial_err write_err r1 r2 =
     (case dial_err of
        Some m \<Rightarrow> Inl (connection_closed m)
      | None \<Rightarrow>
     (case write_err of
        Some m \<Rightarrow> Inl (connection_closed m)
      | None \<Rightarrow>
     (case handshake_read r1 of
        Inl e \<Rightarrow> Inl e
      | Inr ack \<Rightarrow>
          if im_Kind ack = IpcError \<and> im_Error ack \<noteq> None then Inl (the (im_Error ack))
          else if im_Kind ack \<noteq> IpcHelloAck \<or> im_ClientID ack = [] \<or> \<not> im_Interactive ack
          then Inl (NewIpcError ''ipc.invalid_message'' (Lit ''daemon did not return an interactive hello_ack''))
          else
            (case handshake_read r2 of
               Inl e \<Rightarrow> Inl e
             | Inr initial \<Rightarrow>
                 (case (im_Kind initial, im_Snapshot initial) of
                    (IpcSnapshot, Some s) \<Rightarrow> Inr (new_client (im_ClientID ack) s)
                  | _ \<Rightarrow> Inl (NewIpcError ''ipc.invalid_message'' (Lit ''daemon did not send initial snapshot'')))))))"

subsection \<open>The read loop\<close>

definition acceptSnapshot :: "Client \<Rightarrow> PresentationSnapshot \<Rightarrow> Client \<times> bool" where
  "acceptSnapshot c s =
     (if ps_RenderGeneration s < ps_RenderGeneration (cl_snapshot c) then (c, False) else (c\<lparr>cl_snapshot := s\<rparr>, True))"

definition signalUpdate :: "Client \<Rightarrow> Client" where
  "signalUpdate c = c\<lparr>cl_updates := True\<rparr>"

definition resolve :: "Client \<Rightarrow> string \<Rightarrow> IpcErr option \<Rightarrow> Client" where
  "resolve c rid perr =
     (case fmlookup (cl_pending c) rid of
        None \<Rightarrow> c
      | Some k \<Rightarrow> c\<lparr>cl_pending := fmdrop rid (cl_pending c), cl_results := (cl_results c)(k := cl_results c k @ [perr])\<rparr>)"

definition failAll :: "Client \<Rightarrow> IpcErr \<Rightarrow> Client" where
  "failAll c perr = signalUpdate (c\<lparr>cl_lastErr := Some perr, cl_connectionErr := Some perr, cl_pending := fmempty,
     cl_results := (\<lambda>k. if k \<in> fmran' (cl_pending c) then cl_results c k @ [Some perr] else cl_results c k)\<rparr>)"

definition finish :: "Client \<Rightarrow> Client" where
  "finish c = c\<lparr>cl_closed := True\<rparr>"

text \<open>The loop gives up: the failure is recorded, and \<open>finish\<close> follows as a step of its own.\<close>

definition give_up :: "Client \<Rightarrow> IpcErr \<Rightarrow> Client" where
  "give_up c perr = (failAll c perr)\<lparr>cl_reader := Failed\<rparr>"

fun kind_text :: "IpcKind \<Rightarrow> string" where
  "kind_text IpcHello = ''hello''"
| "kind_text IpcHelloAck = ''hello_ack''"
| "kind_text IpcInteraction = ''interaction''"
| "kind_text IpcFramePublished = ''frame_published''"
| "kind_text IpcDetach = ''detach''"
| "kind_text IpcDetachAck = ''detach_ack''"
| "kind_text IpcSnapshot = ''snapshot''"
| "kind_text IpcError = ''error''"
| "kind_text (IpcOther k) = k"

definition read_message :: "Client \<Rightarrow> IpcMessage \<Rightarrow> Client" where
  "read_message c msg =
     (case im_Kind msg of
        IpcSnapshot \<Rightarrow>
          (case im_Snapshot msg of
             None \<Rightarrow> give_up c (NewIpcError ''ipc.invalid_message'' (Lit ''snapshot payload missing''))
           | Some s \<Rightarrow>
               (let (c, accepted) = acceptSnapshot c s; c = (if accepted then signalUpdate c else c) in
                if im_RequestID msg \<noteq> [] then resolve c (im_RequestID msg) None else c))
      | IpcDetachAck \<Rightarrow> resolve c (im_RequestID msg) None
      | IpcError \<Rightarrow>
          (case im_Error msg of
             None \<Rightarrow> give_up c (NewIpcError ''ipc.invalid_message'' (Lit ''error payload missing''))
           | Some e \<Rightarrow>
               if im_RequestID msg \<noteq> [] then resolve c (im_RequestID msg) (Some e) else signalUpdate (c\<lparr>cl_lastErr := Some e\<rparr>))
      | k \<Rightarrow> give_up c (NewIpcError ''ipc.invalid_message'' (Sprintf ''unexpected daemon message %q'' [FStr (kind_text k)])))"

definition readLoop :: "Client \<Rightarrow> client_read \<Rightarrow> Client" where
  "readLoop c r =
     (case r of
        ReadFailed m eof \<Rightarrow> give_up c (connection_closed (if eof then Lit ''daemon connection closed'' else m))
      | ReadInvalid perr \<Rightarrow> give_up c perr
      | ReadMessage msg \<Rightarrow> read_message (c\<lparr>cl_received := cl_received c @ [msg]\<rparr>) msg)"

subsection \<open>Requests\<close>

text \<open>The requests the controller makes; a publication is acknowledged without waiting for an answer.\<close>

definition request_message :: "Interaction \<Rightarrow> IpcMessage" where
  "request_message i = (ipc_message IpcInteraction)\<lparr>im_Interaction := Some i\<rparr>"

definition interaction :: "InteractionType \<Rightarrow> Interaction" where
  "interaction t = \<lparr>in_Type = t, in_ID = [], in_Value = [], in_Delta = 0, in_Key = []\<rparr>"

definition client_Focus :: "string \<Rightarrow> IpcMessage" where
  "client_Focus x = request_message ((interaction InteractionFocus)\<lparr>in_ID := x\<rparr>)"

definition client_SetInput :: "string \<Rightarrow> string \<Rightarrow> IpcMessage" where
  "client_SetInput x v = request_message ((interaction InteractionInputSet)\<lparr>in_ID := x, in_Value := v\<rparr>)"

definition client_Submit :: "string \<Rightarrow> IpcMessage" where
  "client_Submit x = request_message ((interaction InteractionInputSubmit)\<lparr>in_ID := x\<rparr>)"

definition client_MoveTableSelection :: "string \<Rightarrow> int \<Rightarrow> IpcMessage" where
  "client_MoveTableSelection x delta = request_message ((interaction InteractionTableMove)\<lparr>in_ID := x, in_Delta := delta\<rparr>)"

definition client_ActivateTableSelection :: "string \<Rightarrow> IpcMessage" where
  "client_ActivateTableSelection x = request_message ((interaction InteractionTableActivate)\<lparr>in_ID := x\<rparr>)"

definition client_ActionKey :: "string \<Rightarrow> IpcMessage" where
  "client_ActionKey key = request_message ((interaction InteractionActionKey)\<lparr>in_Key := key\<rparr>)"

definition client_Close :: IpcMessage where
  "client_Close = ipc_message IpcDetach"

definition AcknowledgePublication :: "u64 \<Rightarrow> IpcErr + IpcMessage" where
  "AcknowledgePublication generation =
     (if generation = 0 then Inl (NewIpcError ''ipc.invalid_message'' (Lit ''publication generation must be positive''))
      else Inr ((ipc_message IpcFramePublished)\<lparr>im_PublicationGeneration := generation\<rparr>))"

definition request_id :: "Client \<Rightarrow> string" where
  "request_id c = ''r-'' @ decimal (unat (cl_nextReq c + 1))"

text \<open>The registration of a request; on a closed connection the call returns at once.\<close>

definition register :: "Client \<Rightarrow> nat \<Rightarrow> IpcMessage \<Rightarrow> Client" where
  "register c k msg =
     (let rid = request_id c; c = c\<lparr>cl_nextReq := cl_nextReq c + 1\<rparr> in
      if cl_closed c
      then c\<lparr>cl_calls := (cl_calls c)(k \<mapsto> Returned rid (Some (connection_closed (Lit ''daemon connection is closed''))))\<rparr>
      else c\<lparr>cl_pending := fmupd rid k (cl_pending c), cl_calls := (cl_calls c)(k \<mapsto> Writing rid (msg\<lparr>im_RequestID := rid\<rparr>))\<rparr>)"

definition forget :: "Client \<Rightarrow> string \<Rightarrow> Client" where
  "forget c rid = c\<lparr>cl_pending := fmdrop rid (cl_pending c)\<rparr>"

definition return_call :: "Client \<Rightarrow> nat \<Rightarrow> string \<Rightarrow> IpcErr option \<Rightarrow> Client" where
  "return_call c k rid err = c\<lparr>cl_calls := (cl_calls c)(k \<mapsto> Returned rid err)\<rparr>"

text \<open>\<open>requestMessage\<close>, one rule per outcome of its blocking points.\<close>

inductive request_step :: "Client \<Rightarrow> Client \<Rightarrow> bool" where
  entered: "cl_calls c k = None \<Longrightarrow> request_step c (register c k msg)"
| written: "cl_calls c k = Some (Writing rid msg) \<Longrightarrow>
    request_step c (c\<lparr>cl_calls := (cl_calls c)(k \<mapsto> Awaiting rid), cl_written := cl_written c @ [msg]\<rparr>)"
| write_failed: "cl_calls c k = Some (Writing rid msg) \<Longrightarrow> request_step c (return_call (forget c rid) k rid (Some (connection_closed err)))"
| result: "cl_calls c k = Some (Awaiting rid) \<Longrightarrow> cl_results c k = r # rs \<Longrightarrow>
    request_step c (return_call (c\<lparr>cl_results := (cl_results c)(k := rs)\<rparr>) k rid r)"
| timeout: "cl_calls c k = Some (Awaiting rid) \<Longrightarrow>
    request_step c (return_call (forget c rid) k rid (Some (NewIpcError ''ipc.request_timeout'' (Lit ''daemon request timed out''))))"
| closed: "cl_calls c k = Some (Awaiting rid) \<Longrightarrow> cl_closed c \<Longrightarrow> cl_results c k = [] \<Longrightarrow>
    request_step c (return_call c k rid (Some (connection_closed (Lit ''daemon connection closed''))))"

text \<open>The reader takes what the connection gives it, and closes after a failure. \<open>Close\<close> returns at once
  when the connection is closed; else it makes a detach request and closes when that has returned.\<close>

inductive client_step :: "Client \<Rightarrow> Client \<Rightarrow> bool" where
  reads: "cl_reader c = Reading \<Longrightarrow> client_step c (readLoop c r)"
| finishes: "cl_reader c = Failed \<Longrightarrow> client_step c ((finish c)\<lparr>cl_reader := Stopped\<rparr>)"
| requests: "request_step c c' \<Longrightarrow> client_step c c'"
| detaches: "cl_calls c k = None \<Longrightarrow> \<not> cl_closed c \<Longrightarrow>
    client_step c ((register c k client_Close)\<lparr>cl_closers := insert k (cl_closers c)\<rparr>)"
| closes: "k \<in> cl_closers c \<Longrightarrow> cl_calls c k = Some (Returned rid err) \<Longrightarrow> client_step c (finish c)"
| acknowledges: "AcknowledgePublication generation = Inr m \<Longrightarrow> client_step c (c\<lparr>cl_written := cl_written c @ [m]\<rparr>)"
| takes: "cl_updates c \<Longrightarrow> client_step c (c\<lparr>cl_updates := False\<rparr>)"

inductive client_reachable :: "Client \<Rightarrow> bool" where
  dialled: "Dial None None r1 r2 = Inr c \<Longrightarrow> client_reachable c"
| stepped: "client_reachable c \<Longrightarrow> client_step c c' \<Longrightarrow> client_reachable c'"

end
