(* ===== verification/Attachment.thy ===== *)
theory Attachment
  imports Remote
begin

text \<open>
  A client and the daemon at the two ends of one connection: \<open>Dial\<close> against the daemon's handshake,
  the requests of \<open>ipc/client.go\<close> against the handler of \<open>daemon/server.go\<close>. The connection delivers
  what is written in order and may fail at any time; the agent and the daemon's other activity go on
  meanwhile.
\<close>

subsection \<open>The connection\<close>

text \<open>\<open>lk_served\<close> counts the client's messages the daemon has read, \<open>lk_sent\<close> are the daemon's messages
  since the handshake. \<open>lk_applied\<close> records the interactions the daemon carried out, each with the
  render generation after it.\<close>

record 'h Link =
  lk_client :: Client
  lk_daemon :: "'h Daemon"
  lk_phase :: client_phase
  lk_served :: nat
  lk_sent :: "IpcMessage list"
  lk_applied :: "(IpcMessage \<times> u64) list"

definition attach :: "'h Daemon \<Rightarrow> nat \<Rightarrow> 'h Link option" where
  "attach d conn =
     (case client_handshake d conn (ReadMessage ((ipc_message IpcHello)\<lparr>im_Client := ''bubbletea''\<rparr>)) True of
        (d', ph, [m1, m2]) \<Rightarrow>
          (case Dial None None (ReadMessage m1) (ReadMessage m2) of
             Inr c \<Rightarrow> Some \<lparr>lk_client = c, lk_daemon = d', lk_phase = ph, lk_served = 0, lk_sent = [], lk_applied = []\<rparr>
           | Inl _ \<Rightarrow> None)
      | _ \<Rightarrow> None)"

text \<open>The interaction a message carried out, if it did.\<close>

definition carried_out :: "'h Daemon \<Rightarrow> dispatch_env \<Rightarrow> IpcMessage \<Rightarrow> (IpcMessage \<times> u64) list" where
  "carried_out d env m =
     (case handleInteraction d env (im_Interaction m) of
        (d', None) \<Rightarrow> if im_Kind m = IpcInteraction then [(m, ps_RenderGeneration (snapshot (dm_Engine d')))] else []
      | _ \<Rightarrow> [])"

inductive link_step :: "nat \<Rightarrow> 'h Link \<Rightarrow> 'h Link \<Rightarrow> bool" for conn where
  local: "client_step (lk_client s) c \<Longrightarrow> cl_received c = cl_received (lk_client s) \<Longrightarrow> link_step conn s (s\<lparr>lk_client := c\<rparr>)"
| delivered: "cl_reader (lk_client s) = Reading \<Longrightarrow> length (cl_received (lk_client s)) < length (lk_sent s) \<Longrightarrow>
    link_step conn s (s\<lparr>lk_client := readLoop (lk_client s) (ReadMessage (lk_sent s ! length (cl_received (lk_client s))))\<rparr>)"
| served: "lk_phase s = Attached cid \<Longrightarrow> lk_served s < length (cl_written (lk_client s)) \<Longrightarrow>
    m = cl_written (lk_client s) ! lk_served s \<Longrightarrow>
    client_serve (lk_daemon s) conn cid env status (ReadMessage m) ok = (d, ph, out) \<Longrightarrow>
    link_step conn s (s\<lparr>lk_daemon := d, lk_phase := ph, lk_served := Suc (lk_served s), lk_sent := lk_sent s @ out,
      lk_applied := lk_applied s @ carried_out (lk_daemon s) env m\<rparr>)"
| broken: "lk_phase s = Attached cid \<Longrightarrow> r = ReadInvalid e \<or> r = ReadFailed t eof \<Longrightarrow>
    client_serve (lk_daemon s) conn cid env status r ok = (d, ph, out) \<Longrightarrow>
    link_step conn s (s\<lparr>lk_daemon := d, lk_phase := ph, lk_sent := lk_sent s @ out\<rparr>)"
| updated: "lk_phase s = Attached cid \<Longrightarrow> client_update (lk_daemon s) conn cid ok = (d, ph, out) \<Longrightarrow>
    link_step conn s (s\<lparr>lk_daemon := d, lk_phase := ph, lk_sent := lk_sent s @ out\<rparr>)"
| agent: "HandleEnvelope (lk_daemon s) envelope = Ret (d, answer) \<Longrightarrow> link_step conn s (s\<lparr>lk_daemon := d\<rparr>)"
| drained: "DrainEvents (lk_daemon s) = Ret (d, evs) \<Longrightarrow> link_step conn s (s\<lparr>lk_daemon := d\<rparr>)"

inductive link_reachable :: "nat \<Rightarrow> 'h Link \<Rightarrow> bool" for conn where
  attached: "attach d conn = Some s \<Longrightarrow> link_reachable conn s"
| stepped: "link_reachable conn s \<Longrightarrow> link_step conn s s' \<Longrightarrow> link_reachable conn s'"

subsection \<open>What the daemon answers\<close>

text \<open>A message that answers a request: it was read from the client, and a snapshot shows the state after it.\<close>

definition reply_true :: "IpcMessage list \<Rightarrow> (IpcMessage \<times> u64) list \<Rightarrow> IpcMessage \<Rightarrow> bool" where
  "reply_true ws ap m \<longleftrightarrow>
     (im_Kind m = IpcSnapshot \<longrightarrow> im_RequestID m \<noteq> [] \<longrightarrow>
        (\<exists>(q, g) \<in> set ap. im_RequestID q = im_RequestID m \<and> q \<in> set ws \<and>
           (\<exists>s. im_Snapshot m = Some s \<and> g = ps_RenderGeneration s))) \<and>
     (im_Kind m = IpcDetachAck \<longrightarrow> (\<exists>q \<in> set ws. im_RequestID q = im_RequestID m \<and> im_Kind q = IpcDetach))"

lemma replies_mono: "reply_true ws ap m \<Longrightarrow> set ws \<subseteq> set ws' \<Longrightarrow> set ap \<subseteq> set ap' \<Longrightarrow> reply_true ws' ap' m"
  unfolding reply_true_def by blast

lemma error_answers [simp]: "reply_true ws ap (error_message rid e)"
  by (simp add: reply_true_def error_message_def ipc_message_def)

lemma update_answers [simp]: "reply_true ws ap (snapshot_message d [])"
  by (simp add: reply_true_def snapshot_message_def ipc_message_def)

lemma signalEvents_engine [simp]: "dm_Engine (signalEvents d) = dm_Engine d"
  by (simp add: signalEvents_def)

lemma served_answers:
  assumes "client_serve d conn cid env status (ReadMessage q) ok = (d', ph, out)" and "q \<in> set ws" and "m \<in> set out"
  shows "reply_true ws (ap @ carried_out d env q) m"
proof (cases "im_Kind q")
  case IpcInteraction
  obtain d1 r where h: "handleInteraction d env (im_Interaction q) = (d1, r)" by fastforce
  show ?thesis
  proof (cases r)
    case None
    then have "m = snapshot_message (signalEvents d1) (im_RequestID q)"
      using assms(1,3) h IpcInteraction by (auto simp: client_serve_def client_message_def Let_def split: if_splits)
    then show ?thesis using None h IpcInteraction assms(2)
      by (auto simp: reply_true_def carried_out_def snapshot_message_def ipc_message_def)
  next
    case (Some e)
    then show ?thesis using assms(1,3) h IpcInteraction by (auto simp: client_serve_def client_message_def Let_def)
  qed
next
  case IpcDetach
  then show ?thesis using assms by (auto simp: client_serve_def client_message_def reply_true_def ipc_message_def split: if_splits)
qed (use assms in \<open>auto simp: client_serve_def client_message_def split: prod.splits option.splits\<close>)

subsection \<open>The invariant of the connection\<close>

text \<open>Requests have ids that are not empty.\<close>

definition ids_given :: "Client \<Rightarrow> bool" where
  "ids_given c \<longleftrightarrow> (\<forall>k x. cl_calls c k = Some x \<longrightarrow> call_id x \<noteq> [])"

definition link_inv :: "'h Link \<Rightarrow> bool" where
  "link_inv s \<longleftrightarrow> client_inv (lk_client s) \<and> ids_given (lk_client s) \<and>
     (\<exists>n. cl_received (lk_client s) = take n (lk_sent s)) \<and>
     (\<forall>m \<in> set (lk_sent s). reply_true (cl_written (lk_client s)) (lk_applied s) m)"

lemma readLoop_calls [simp]: "cl_calls (readLoop c r) = cl_calls c" "cl_written (readLoop c r) = cl_written c"
  by (auto simp: readLoop_def read_message_def give_up_def failAll_def signalUpdate_def acceptSnapshot_def resolve_def Let_def
      split: client_read.split IpcKind.split option.split)

lemma readLoop_received [simp]: "cl_received (readLoop c (ReadMessage m)) = cl_received c @ [m]"
  by (auto simp: readLoop_def read_message_def give_up_def acceptSnapshot_def signalUpdate_def Let_def split: IpcKind.split option.split)

lemma register_ids: "ids_given c \<Longrightarrow> ids_given (register c k m)"
  by (cases "cl_closed c") (auto simp: ids_given_def register_def request_id_def Let_def)

lemma request_ids: "request_step c c' \<Longrightarrow> ids_given c \<Longrightarrow> ids_given c'"
proof (induction rule: request_step.induct)
  case (entered c k msg)
  then show ?case by (simp add: register_ids)
qed (fastforce simp: ids_given_def return_call_def forget_def)+

lemma client_step_ids: "client_step c c' \<Longrightarrow> ids_given c \<Longrightarrow> ids_given c'"
proof (induction rule: client_step.induct)
  case (requests c c')
  then show ?case by (rule request_ids)
next
  case (detaches c k)
  then show ?case using register_ids [of c k client_Close] by (simp add: ids_given_def)
qed (simp_all add: ids_given_def finish_def)

lemma request_written: "request_step c c' \<Longrightarrow> set (cl_written c) \<subseteq> set (cl_written c')"
  by (induction rule: request_step.induct) (auto simp: register_def Let_def return_call_def forget_def)

lemma client_step_written: "client_step c c' \<Longrightarrow> set (cl_written c) \<subseteq> set (cl_written c')"
  by (induction rule: client_step.induct) (auto simp: finish_def register_def Let_def dest: request_written)

lemma attach_inv:
  assumes "attach d conn = Some s"
  shows "link_inv s"
proof -
  obtain m1 m2 c where c: "Dial None None (ReadMessage m1) (ReadMessage m2) = Inr c"
      "lk_client s = c" "lk_sent s = []" "lk_applied s = []"
    using assms by (auto simp: attach_def split: prod.splits list.splits sum.splits)
  from Dial_new [OF c(1)] obtain cid sn where n: "c = new_client cid sn" by blast
  then show ?thesis using c new_client_inv by (simp add: link_inv_def ids_given_def new_client_def)
qed

lemma link_sent_inv:
  assumes "link_inv s" and "\<And>m. m \<in> set out \<Longrightarrow> reply_true (cl_written (lk_client s)) (lk_applied s @ ap) m"
  shows "link_inv (s\<lparr>lk_daemon := d, lk_phase := ph, lk_served := n, lk_sent := lk_sent s @ out, lk_applied := lk_applied s @ ap\<rparr>)"
proof -
  obtain i where i: "cl_received (lk_client s) = take i (lk_sent s)" using assms(1) by (auto simp: link_inv_def)
  then have "cl_received (lk_client s) = take (min i (length (lk_sent s))) (lk_sent s @ out)" by (simp add: min_def)
  moreover have "reply_true (cl_written (lk_client s)) (lk_applied s @ ap) m" if "m \<in> set (lk_sent s)" for m
    using assms(1) that by (auto simp: link_inv_def intro: replies_mono)
  ultimately show ?thesis using assms by (auto simp: link_inv_def simp del: take_append)
qed

lemma link_step_inv: "link_step conn s s' \<Longrightarrow> link_inv s \<Longrightarrow> link_inv s'"
proof (induction rule: link_step.induct)
  case (local s c)
  then show ?case using client_step_inv [OF local(1)] client_step_ids [OF local(1)] client_step_written [OF local(1)]
    by (auto simp: link_inv_def intro: replies_mono)
next
  case (delivered s)
  obtain n where n: "cl_received (lk_client s) = take n (lk_sent s)" using delivered(3) by (auto simp: link_inv_def)
  let ?l = "length (cl_received (lk_client s))"
  have "cl_received (lk_client s) = take ?l (lk_sent s)" using n by (simp add: min_def)
  then have "cl_received (lk_client s) @ [lk_sent s ! ?l] = take (Suc ?l) (lk_sent s)"
    using delivered(2) by (metis take_Suc_conv_app_nth)
  then show ?case using delivered readLoop_inv [OF _ delivered(1)] by (auto simp: link_inv_def ids_given_def)
next
  case (served s cid m env status ok d ph out)
  have "m \<in> set (cl_written (lk_client s))" using served(2,3) by simp
  from link_sent_inv [OF served(5)] served_answers [OF served(4) this] show ?case by blast
next
  case (broken s cid r e t eof env status ok d ph out)
  have "reply_true (cl_written (lk_client s)) (lk_applied s @ []) m" if "m \<in> set out" for m
    using broken(2,3) that by (auto simp: client_serve_def)
  from link_sent_inv [OF broken(4) this, where n = "lk_served s"] show ?case by simp
next
  case (updated s cid ok d ph out)
  have "reply_true (cl_written (lk_client s)) (lk_applied s @ []) m" if "m \<in> set out" for m
    using updated(2) that by (auto simp: client_update_def Let_def split: if_splits)
  from link_sent_inv [OF updated(3) this, where n = "lk_served s"] show ?case by simp
qed (simp_all add: link_inv_def)

lemma link_reachable_inv: "link_reachable conn s \<Longrightarrow> link_inv s"
  by (induction rule: link_reachable.induct) (auto intro: attach_inv link_step_inv)

text \<open>A client that dials while no other is attached gets its snapshot.\<close>

lemma attach_free:
  assumes "dm_active d = []"
  shows "attach d conn = Some \<lparr>lk_client = new_client (''client-'' @ decimal (unat (dm_nextID d + 1))) (snapshot (dm_Engine d)),
    lk_daemon = setActiveConn (fst (acquire d)) conn, lk_phase = Attached (''client-'' @ decimal (unat (dm_nextID d + 1))),
    lk_served = 0, lk_sent = [], lk_applied = []\<rparr>"
  using assms by (simp add: attach_def client_handshake_def hello_error_def ipc_message_def acquire_def Let_def Dial_def
      handshake_read_def snapshot_message_def setActiveConn_def)

text \<open>C4. A request that the client reports as done was done, and the client sees its effect: whatever the
  interleaving of callers, timers, the reader, the daemon's handler and the agent, when a request
  returns without error then the daemon read a request of that id from this client and carried the
  interaction out (or it was the detach request), and the client's snapshot is at least as new as
  the state after it.\<close>

theorem remote_request_applied:
  assumes "link_reachable conn s" and "cl_calls (lk_client s) k = Some (Returned rid None)"
  shows "(\<exists>(q, g) \<in> set (lk_applied s). im_RequestID q = rid \<and> q \<in> set (cl_written (lk_client s)) \<and>
       g \<le> ps_RenderGeneration (cl_snapshot (lk_client s))) \<or>
    (\<exists>q \<in> set (cl_written (lk_client s)). im_RequestID q = rid \<and> im_Kind q = IpcDetach)"
proof -
  let ?c = "lk_client s"
  have i: "link_inv s" by (rule link_reachable_inv [OF assms(1)])
  then have ci: "client_inv ?c" "calls_inv ?c" by (auto simp: link_inv_def client_inv_split)
  have "rid \<noteq> []" using i assms(2) by (force simp: link_inv_def ids_given_def)
  moreover obtain m where m: "m \<in> set (cl_received ?c)" "im_RequestID m = rid" "im_Kind m = IpcSnapshot \<or> im_Kind m = IpcDetachAck"
    using call_facts(3) [OF ci(2) assms(2)] by (auto simp: success_for_def)
  moreover have "m \<in> set (lk_sent s)" using i m(1) by (auto simp: link_inv_def dest: in_set_takeD)
  then have "reply_true (cl_written ?c) (lk_applied s) m" using i by (simp add: link_inv_def)
  moreover have "ps_RenderGeneration sn \<le> ps_RenderGeneration (cl_snapshot ?c)" if "im_Kind m = IpcSnapshot" "im_Snapshot m = Some sn" for sn
    using ci(1) m(1) that by (auto simp: client_inv_def up_to_date_def)
  ultimately show ?thesis unfolding reply_true_def by fastforce
qed

text \<open>A run: the client attaches to a daemon that shows an input, focuses it, and gets its answer.\<close>

definition sample_daemon :: "unit Daemon" where
  "sample_daemon = (New_Daemon ''s'' DefaultLimits None)
     \<lparr>dm_Engine := run_steps engine_step (New_Engine DefaultLimits 2) (map EApply sample_ops)\<rparr>"

definition sample_dispatch :: dispatch_env where
  "sample_dispatch = \<lparr>de_parent = None, de_slot = SlotTaken None, de_handler = HandlerDone None None, de_parent_late = None\<rparr>"

definition sample_focus :: IpcMessage where
  "sample_focus = (client_Focus ''i'')\<lparr>im_RequestID := ''r-1''\<rparr>"

definition sample_requested :: "unit Link \<Rightarrow> unit Link" where
  "sample_requested s = s\<lparr>lk_client := register (lk_client s) 0 (client_Focus ''i'')\<rparr>"

definition sample_sent :: "unit Link \<Rightarrow> unit Link" where
  "sample_sent s = s\<lparr>lk_client := (lk_client s)\<lparr>cl_calls := (cl_calls (lk_client s))(0 \<mapsto> Awaiting ''r-1''),
     cl_written := cl_written (lk_client s) @ [sample_focus]\<rparr>\<rparr>"

definition sample_served :: "unit Link \<Rightarrow> unit Link" where
  "sample_served s =
     (let (d, ph, out) = client_serve (lk_daemon s) 0 ''client-1'' sample_dispatch (0, False) (ReadMessage sample_focus) True in
      s\<lparr>lk_daemon := d, lk_phase := ph, lk_served := Suc (lk_served s), lk_sent := lk_sent s @ out,
        lk_applied := lk_applied s @ carried_out (lk_daemon s) sample_dispatch sample_focus\<rparr>)"

definition sample_delivered :: "unit Link \<Rightarrow> unit Link" where
  "sample_delivered s = s\<lparr>lk_client := readLoop (lk_client s) (ReadMessage (lk_sent s ! 0))\<rparr>"

definition sample_returned :: "unit Link \<Rightarrow> unit Link" where
  "sample_returned s = s\<lparr>lk_client := return_call ((lk_client s)\<lparr>cl_results := (cl_results (lk_client s))(0 := [])\<rparr>) 0 ''r-1'' None\<rparr>"

definition sample_start :: "unit Link" where
  "sample_start = the (attach sample_daemon 0)"

definition sample_link :: "unit Link" where
  "sample_link = sample_returned (sample_delivered (sample_served (sample_sent (sample_requested sample_start))))"

lemma decimal_1: "decimal (Suc 0) = ''1''"
  by code_simp

lemma sample_daemon_free: "dm_active sample_daemon = []" "dm_nextID sample_daemon = 0"
  by (simp_all add: sample_daemon_def New_Daemon_def Let_def)

lemma sample_attach: "attach sample_daemon 0 = Some sample_start"
  using attach_free [OF sample_daemon_free(1)] by (simp add: sample_start_def)

lemma sample_start_simps [simp]:
  "lk_client sample_start = new_client ''client-1'' (snapshot (dm_Engine sample_daemon))"
  "lk_phase sample_start = Attached ''client-1''" "lk_served sample_start = 0" "lk_sent sample_start = []"
  by (simp_all add: sample_start_def attach_free [OF sample_daemon_free(1)] sample_daemon_free(2) decimal_1)

lemma new_client_simps [simp]:
  "cl_written (new_client cid sn) = []" "cl_calls (new_client cid sn) k = None" "cl_results (new_client cid sn) k = []"
  "cl_received (new_client cid sn) = []" "cl_reader (new_client cid sn) = Reading"
  by (simp_all add: new_client_def)

lemma sample_register: "register (new_client cid sn) 0 (client_Focus ''i'') =
    (new_client cid sn)\<lparr>cl_nextReq := 1, cl_pending := fmupd ''r-1'' 0 fmempty, cl_calls := [0 \<mapsto> Writing ''r-1'' sample_focus]\<rparr>"
  by (simp add: register_def request_id_def new_client_def sample_focus_def decimal_1 Let_def)

lemma sample_requested_reachable: "link_reachable 0 (sample_requested sample_start)"
proof -
  have r: "link_reachable 0 sample_start" by (rule link_reachable.attached [OF sample_attach])
  have "cl_calls (lk_client sample_start) 0 = None" by simp
  from link_step.local [OF client_step.requests [OF request_step.entered [OF this]]] show ?thesis
    unfolding sample_requested_def by (intro link_reachable.stepped [OF r]) simp
qed

lemma sample_sent_reachable: "link_reachable 0 (sample_sent (sample_requested sample_start))" (is "link_reachable 0 (sample_sent ?s)")
proof -
  have "cl_calls (lk_client ?s) 0 = Some (Writing ''r-1'' sample_focus)" by (simp add: sample_requested_def sample_register)
  from link_step.local [OF client_step.requests [OF request_step.written [OF this]]] show ?thesis
    unfolding sample_sent_def by (intro link_reachable.stepped [OF sample_requested_reachable]) simp
qed

lemma sample_served_reachable: "link_reachable 0 (sample_served (sample_sent (sample_requested sample_start)))"
  (is "link_reachable 0 (sample_served ?s)")
proof -
  have p: "lk_phase ?s = Attached ''client-1''" by (simp add: sample_sent_def sample_requested_def)
  have n: "lk_served ?s < length (cl_written (lk_client ?s))" "sample_focus = cl_written (lk_client ?s) ! lk_served ?s"
    by (simp_all add: sample_sent_def sample_requested_def sample_register)
  obtain d ph out where c: "client_serve (lk_daemon ?s) 0 ''client-1'' sample_dispatch (0, False) (ReadMessage sample_focus) True = (d, ph, out)"
    by (rule prod_cases3)
  from link_step.served [OF p n c] show ?thesis
    unfolding sample_served_def c by (auto intro: link_reachable.stepped [OF sample_sent_reachable])
qed

text \<open>The focus request succeeds, so its answer is a snapshot.\<close>

lemma sample_focus_done: "snd (handleInteraction (lk_daemon sample_start) sample_dispatch (im_Interaction sample_focus)) = None"
  by code_simp

lemma sample_answer:
  "\<exists>d :: unit Daemon. lk_sent (sample_served (sample_sent (sample_requested sample_start))) = [snapshot_message d ''r-1'']"
proof -
  obtain d where d: "handleInteraction (lk_daemon sample_start) sample_dispatch (im_Interaction sample_focus) = (d, None)"
    using sample_focus_done by (metis prod.collapse)
  have "im_Kind sample_focus = IpcInteraction" "im_RequestID sample_focus = ''r-1''"
    by (simp_all add: sample_focus_def client_Focus_def request_message_def ipc_message_def)
  then show ?thesis using d
    by (auto simp: sample_served_def sample_sent_def sample_requested_def client_serve_def client_message_def Let_def)
qed

lemma sample_served_client: "lk_client (sample_served (sample_sent (sample_requested sample_start))) =
    (new_client ''client-1'' (snapshot (dm_Engine sample_daemon)))\<lparr>cl_nextReq := 1, cl_pending := fmupd ''r-1'' 0 fmempty,
      cl_calls := [0 \<mapsto> Awaiting ''r-1''], cl_written := [sample_focus]\<rparr>"
  by (simp add: sample_served_def sample_sent_def sample_requested_def sample_register split: prod.split)

lemma snapshot_answers:
  assumes "fmlookup (cl_pending c) rid = Some k" "rid \<noteq> []"
  shows "cl_calls (readLoop c (ReadMessage (snapshot_message d rid))) = cl_calls c"
    and "cl_results (readLoop c (ReadMessage (snapshot_message d rid))) k = cl_results c k @ [None]"
    and "cl_written (readLoop c (ReadMessage (snapshot_message d rid))) = cl_written c"
  using assms by (simp_all add: readLoop_def read_message_def snapshot_message_def ipc_message_def acceptSnapshot_def
      signalUpdate_def resolve_def Let_def)

lemma sample_delivered_client:
  fixes s defines "s \<equiv> sample_served (sample_sent (sample_requested sample_start))"
  shows "cl_calls (lk_client (sample_delivered s)) 0 = Some (Awaiting ''r-1'')"
    "cl_results (lk_client (sample_delivered s)) 0 = [None]" "cl_written (lk_client (sample_delivered s)) = [sample_focus]"
proof -
  obtain d :: "unit Daemon" where d: "lk_sent s = [snapshot_message d ''r-1'']" using sample_answer unfolding s_def by blast
  have "fmlookup (cl_pending (lk_client s)) ''r-1'' = Some 0" by (simp add: s_def sample_served_client)
  note a = snapshot_answers [OF this, of d, simplified]
  show "cl_calls (lk_client (sample_delivered s)) 0 = Some (Awaiting ''r-1'')"
    "cl_results (lk_client (sample_delivered s)) 0 = [None]" "cl_written (lk_client (sample_delivered s)) = [sample_focus]"
    using a by (simp_all add: sample_delivered_def d) (simp_all add: s_def sample_served_client)
qed

lemma sample_link_reachable: "link_reachable 0 sample_link"
proof -
  let ?s = "sample_served (sample_sent (sample_requested sample_start))"
  have n: "cl_reader (lk_client ?s) = Reading" "length (cl_received (lk_client ?s)) = 0"
    by (simp_all add: sample_served_client)
  have "length (cl_received (lk_client ?s)) < length (lk_sent ?s)" using n(2) sample_answer by auto
  from link_step.delivered [OF n(1) this] have d: "link_reachable 0 (sample_delivered ?s)" unfolding sample_delivered_def n(2)
    by (rule link_reachable.stepped [OF sample_served_reachable])
  from link_step.local [OF client_step.requests [OF request_step.result [OF sample_delivered_client(1,2)]]] show ?thesis
    unfolding sample_link_def sample_returned_def by (intro link_reachable.stepped [OF d]) (simp add: return_call_def)
qed

theorem remote_request_applied_witness:
  "\<exists>(q, g) \<in> set (lk_applied sample_link). q = sample_focus \<and> g \<le> ps_RenderGeneration (cl_snapshot (lk_client sample_link))"
proof -
  have c: "cl_calls (lk_client sample_link) 0 = Some (Returned ''r-1'' None)" by (simp add: sample_link_def sample_returned_def return_call_def)
  have w: "cl_written (lk_client sample_link) = [sample_focus]"
    by (simp add: sample_link_def sample_returned_def return_call_def sample_delivered_client)
  have "im_Kind sample_focus \<noteq> IpcDetach" by (simp add: sample_focus_def client_Focus_def request_message_def ipc_message_def)
  then show ?thesis using remote_request_applied [OF sample_link_reachable c] unfolding w by auto
qed

end
