(* ===== verification/Plain.thy ===== *)
theory Plain
  imports Table Framing
begin

text \<open>
  Plain text in cells: wrapping, cutting and padding (\<open>adapter/bubbletea/render_helpers.go\<close>), the
  window of an input around its caret and the packing of actions into lines
  (\<open>render_components.go\<close>). The number of cells of a text (\<open>lipgloss.Width\<close>) is the parameter
  \<open>cells\<close>; nothing is assumed about it. Widths are terminal sizes and sums of at most that many
  cells and one rune, so they are not wrapped.
\<close>

subsection \<open>Strings\<close>

text \<open>\<open>strings.Split\<close> at one byte, \<open>strings.Join\<close> and \<open>strings.Repeat\<close> of a count that is not negative.\<close>

fun split_on :: "char \<Rightarrow> string \<Rightarrow> string list" where
  "split_on c [] = [[]]"
| "split_on c (x # xs) = (if x = c then [] # split_on c xs else (x # hd (split_on c xs)) # tl (split_on c xs))"

fun join :: "string \<Rightarrow> string list \<Rightarrow> string" where
  "join sep [] = []"
| "join sep [s] = s"
| "join sep (s # t # ss) = s @ sep @ join sep (t # ss)"

definition repeat :: "string \<Rightarrow> int \<Rightarrow> string" where
  "repeat s n = concat (replicate (nat n) s)"

subsection \<open>Wrapping, cutting, padding\<close>

definition rune_cells :: "cells \<Rightarrow> int \<Rightarrow> int" where
  "rune_cells cells r = max (cells (encode_rune r)) 1"

fun wrap_runes :: "cells \<Rightarrow> int \<Rightarrow> int list \<Rightarrow> string \<Rightarrow> int \<Rightarrow> string list" where
  "wrap_runes cells maxW [] line width = [line]"
| "wrap_runes cells maxW (r # rs) line width =
     (let rw = rune_cells cells r in
      if width > 0 \<and> width + rw > maxW then line # wrap_runes cells maxW rs (encode_rune r) rw
      else wrap_runes cells maxW rs (line @ encode_rune r) (width + rw))"

definition wrap_lines :: "cells \<Rightarrow> string \<Rightarrow> int \<Rightarrow> string list list" where
  "wrap_lines cells s maxW =
     map (\<lambda>logical. if logical = [] then [[]] else wrap_runes cells maxW (runes logical) [] 0) (split_on LF s)"

definition wrapPlainText :: "cells \<Rightarrow> string \<Rightarrow> int \<Rightarrow> string" where
  "wrapPlainText cells s maxW = (if maxW < 1 then [] else join [LF] (concat (wrap_lines cells s maxW)))"

fun fit_runes :: "cells \<Rightarrow> int \<Rightarrow> int list \<Rightarrow> int \<Rightarrow> string" where
  "fit_runes cells maxW [] w = []"
| "fit_runes cells maxW (r # rs) w =
     (let rw = rune_cells cells r in
      if w + rw > maxW then [] else encode_rune r @ fit_runes cells maxW rs (w + rw))"

definition fitPlainText :: "cells \<Rightarrow> string \<Rightarrow> int \<Rightarrow> string" where
  "fitPlainText cells s maxW = (if maxW < 1 then [] else fit_runes cells maxW (runes s) 0)"

definition padPlain :: "cells \<Rightarrow> string \<Rightarrow> int \<Rightarrow> string" where
  "padPlain cells s width = (let w = cells s in if w \<ge> width then fitPlainText cells s width else s @ repeat '' '' (width - w))"

subsection \<open>The window of an input\<close>

text \<open>The two loops to the left and the one to the right of the caret; the argument of the latter is the
  text from \<open>e\<close> on.\<close>

fun left_loop :: "cells \<Rightarrow> int list \<Rightarrow> int \<Rightarrow> nat \<Rightarrow> int \<Rightarrow> nat \<times> int" where
  "left_loop cells rs budget 0 used = (0, used)"
| "left_loop cells rs budget (Suc k) used =
     (let rw = rune_cells cells (rs ! k) in
      if used + rw > budget then (Suc k, used) else left_loop cells rs budget k (used + rw))"

fun right_loop :: "cells \<Rightarrow> int \<Rightarrow> int list \<Rightarrow> nat \<Rightarrow> int \<Rightarrow> nat \<times> int" where
  "right_loop cells width [] e used = (e, used)"
| "right_loop cells width (r # rs) e used =
     (let rw = rune_cells cells r in
      if used + rw > width then (e, used) else right_loop cells width rs (Suc e) (used + rw))"

definition clamp_caret :: "int \<Rightarrow> int list \<Rightarrow> nat" where
  "clamp_caret caret rs = nat (min (max caret 0) (int (length rs)))"

text \<open>The block of a visible cursor is U+2588.\<close>

definition input_cursor :: "bool \<Rightarrow> string" where
  "input_cursor cursorVisible = (if cursorVisible then encode_rune 9608 else '' '')"

definition inputWindowWithCaret :: "cells \<Rightarrow> string \<Rightarrow> int \<Rightarrow> int \<Rightarrow> bool \<Rightarrow> string" where
  "inputWindowWithCaret cells value caret width cursorVisible =
     (if width < 1 then []
      else
        (let rs = runes value;
             caret = clamp_caret caret rs;
             cursor = input_cursor cursorVisible;
             cursorW = max (cells cursor) 1 in
         if cursorW > width then fitPlainText cells cursor width
         else
           (let leftBudget = (width - cursorW) div 2;
                (start, usedLeft) = left_loop cells rs leftBudget caret 0;
                (e, used) = right_loop cells width (drop caret rs) caret (usedLeft + cursorW);
                (start, used) = left_loop cells rs width start used in
            of_runes (drop start (take caret rs)) @ cursor @ of_runes (drop caret (take e rs)))))"

subsection \<open>Packing\<close>

fun pack_loop :: "cells \<Rightarrow> string \<Rightarrow> int \<Rightarrow> string list \<Rightarrow> string \<Rightarrow> string list" where
  "pack_loop cells sep maxW [] current = (if current \<noteq> [] then [current] else [])"
| "pack_loop cells sep maxW (part # parts) current =
     (let candidate = (if current \<noteq> [] then current @ sep @ part else part) in
      if current \<noteq> [] \<and> cells candidate > maxW then current # pack_loop cells sep maxW parts part
      else pack_loop cells sep maxW parts candidate)"

definition packInline :: "cells \<Rightarrow> string list \<Rightarrow> string \<Rightarrow> int \<Rightarrow> string" where
  "packInline cells parts sep maxW =
     (if parts = [] then []
      else if maxW \<le> 0 then join sep parts
      else join [LF] (pack_loop cells sep maxW parts []))"

subsection \<open>Lemmas\<close>

definition line_cells :: "cells \<Rightarrow> int list \<Rightarrow> int" where
  "line_cells cells rs = (\<Sum>r\<leftarrow>rs. rune_cells cells r)"

lemma line_cells_simps [simp]:
  "line_cells cells [] = 0" "line_cells cells (r # rs) = rune_cells cells r + line_cells cells rs"
  "line_cells cells (rs @ rs') = line_cells cells rs + line_cells cells rs'"
  by (simp_all add: line_cells_def)

lemma rune_cells_pos [simp]: "1 \<le> rune_cells cells r" "0 < rune_cells cells r" "0 \<le> rune_cells cells r"
  by (simp_all add: rune_cells_def)

lemma line_cells_nonneg [simp]: "0 \<le> line_cells cells rs"
  by (induction rs) (simp_all add: add_nonneg_nonneg)

lemma line_cells_zero: "line_cells cells rs \<le> 0 \<longleftrightarrow> rs = []"
  by (cases rs) (use line_cells_nonneg [of cells] rune_cells_pos(2) [of cells] in \<open>auto simp: not_le intro: add_pos_nonneg\<close>)

text \<open>The pieces of a wrapped line: nothing is lost, and a piece fits or is a single rune; a piece is as
  long as it can be, since the next rune would not have fitted.\<close>

definition pieces_fit :: "cells \<Rightarrow> int \<Rightarrow> int list list \<Rightarrow> bool" where
  "pieces_fit cells maxW ps \<longleftrightarrow> (\<forall>p \<in> set ps. line_cells cells p \<le> maxW \<or> length p = 1) \<and>
     (\<forall>i. Suc i < length ps \<longrightarrow> ps ! i \<noteq> [] \<and> ps ! Suc i \<noteq> [] \<and> line_cells cells (ps ! i) + rune_cells cells (hd (ps ! Suc i)) > maxW)"

lemma pieces_fit_Cons:
  assumes "pieces_fit cells maxW (p # ps)" "line_cells cells c \<le> maxW \<or> length c = 1" "c \<noteq> []" "p \<noteq> []"
    "line_cells cells c + rune_cells cells (hd p) > maxW"
  shows "pieces_fit cells maxW (c # p # ps)"
  unfolding pieces_fit_def
proof (intro conjI allI impI)
  show "\<forall>q \<in> set (c # p # ps). line_cells cells q \<le> maxW \<or> length q = 1"
    using assms(1,2) by (simp add: pieces_fit_def)
  fix i
  assume i: "Suc i < length (c # p # ps)"
  have "(c # p # ps) ! i \<noteq> [] \<and> (c # p # ps) ! Suc i \<noteq> [] \<and>
      line_cells cells ((c # p # ps) ! i) + rune_cells cells (hd ((c # p # ps) ! Suc i)) > maxW"
  proof (cases i)
    case 0
    then show ?thesis using assms(3-5) by simp
  next
    case (Suc j)
    then have "Suc j < length (p # ps)" using i by simp
    then show ?thesis using assms(1) unfolding Suc pieces_fit_def by simp
  qed
  then show "(c # p # ps) ! i \<noteq> []" "(c # p # ps) ! Suc i \<noteq> []"
      "maxW < line_cells cells ((c # p # ps) ! i) + rune_cells cells (hd ((c # p # ps) ! Suc i))" by blast+
qed

lemma wrap_runes_pieces:
  assumes "0 \<le> maxW" "line_cells cells cur \<le> maxW \<or> length cur = 1"
  shows "\<exists>p ps. wrap_runes cells maxW rs (of_runes cur) (line_cells cells cur) = map of_runes (p # ps) \<and> concat (p # ps) = cur @ rs \<and>
    pieces_fit cells maxW (p # ps) \<and> (\<exists>q. p = cur @ q)"
  using assms(2)
proof (induction rs arbitrary: cur)
  case Nil
  then show ?case by (intro exI [of _ cur] exI [of _ "[]"]) (simp add: pieces_fit_def)
next
  case (Cons r rs)
  show ?case
  proof (cases "line_cells cells cur > 0 \<and> line_cells cells cur + rune_cells cells r > maxW")
    case True
    obtain p ps q where p: "wrap_runes cells maxW rs (of_runes [r]) (line_cells cells [r]) = map of_runes (p # ps)"
        "concat (p # ps) = [r] @ rs" "pieces_fit cells maxW (p # ps)" "p = [r] @ q"
      using Cons.IH [of "[r]"] by auto
    have "cur \<noteq> []" using True by auto
    then have "pieces_fit cells maxW (cur # p # ps)" using True p(4) Cons.prems by (intro pieces_fit_Cons [OF p(3)]) simp_all
    moreover have "wrap_runes cells maxW (r # rs) (of_runes cur) (line_cells cells cur) = map of_runes (cur # p # ps)"
      using True p(1) by simp
    moreover have "concat (cur # p # ps) = cur @ r # rs" using p(2) by simp
    ultimately show ?thesis by blast
  next
    case False
    have "line_cells cells (cur @ [r]) \<le> maxW \<or> length (cur @ [r]) = 1"
      using False line_cells_zero [of cells cur] by auto
    from Cons.IH [OF this] obtain p ps q where p: "wrap_runes cells maxW rs (of_runes (cur @ [r])) (line_cells cells (cur @ [r])) = map of_runes (p # ps)"
        "concat (p # ps) = (cur @ [r]) @ rs" "pieces_fit cells maxW (p # ps)" "p = (cur @ [r]) @ q"
      by blast
    have "wrap_runes cells maxW (r # rs) (of_runes cur) (line_cells cells cur) = map of_runes (p # ps)"
      unfolding wrap_runes.simps Let_def if_not_P [OF False] using p(1) by simp
    then show ?thesis using p(2-4) by (intro exI [of _ p] exI [of _ ps]) simp
  qed
qed

lemma fit_runes_prefix:
  "\<exists>n \<le> length rs. fit_runes cells maxW rs w = of_runes (take n rs) \<and> (n = 0 \<or> w + line_cells cells (take n rs) \<le> maxW) \<and>
    (n < length rs \<longrightarrow> w + line_cells cells (take (Suc n) rs) > maxW)"
proof (induction rs arbitrary: w)
  case (Cons r rs)
  show ?case
  proof (cases "w + rune_cells cells r > maxW")
    case True
    then show ?thesis by (intro exI [of _ 0]) simp
  next
    case False
    obtain n where n: "n \<le> length rs" "fit_runes cells maxW rs (w + rune_cells cells r) = of_runes (take n rs)"
        "n = 0 \<or> w + rune_cells cells r + line_cells cells (take n rs) \<le> maxW"
        "n < length rs \<longrightarrow> w + rune_cells cells r + line_cells cells (take (Suc n) rs) > maxW"
      using Cons.IH [of "w + rune_cells cells r"] by blast
    then show ?thesis using False by (intro exI [of _ "Suc n"]) (auto simp: add.assoc)
  qed
qed simp

lemma left_loop_result:
  assumes "left_loop cells rs budget k used = (j, used')" "k \<le> length rs"
  shows "j \<le> k \<and> used' = used + line_cells cells (drop j (take k rs)) \<and> (used \<le> budget \<longrightarrow> used' \<le> budget) \<and>
    (0 < j \<longrightarrow> used' + rune_cells cells (rs ! (j - 1)) > budget)"
  using assms
proof (induction k arbitrary: used)
  case (Suc k)
  show ?case
  proof (cases "used + rune_cells cells (rs ! k) > budget")
    case True
    then show ?thesis using Suc.prems by auto
  next
    case False
    have "left_loop cells rs budget k (used + rune_cells cells (rs ! k)) = (j, used')" using Suc.prems(1) False by simp
    from Suc.IH [OF this] Suc.prems(2) have i: "j \<le> k" "used' = used + rune_cells cells (rs ! k) + line_cells cells (drop j (take k rs))"
        "used' \<le> budget" "0 < j \<longrightarrow> used' + rune_cells cells (rs ! (j - 1)) > budget"
      using False by auto
    have "drop j (take (Suc k) rs) = drop j (take k rs) @ [rs ! k]" using Suc.prems(2) i(1) by (simp add: take_Suc_conv_app_nth)
    then show ?thesis using i by simp
  qed
qed auto

lemma right_loop_result:
  "right_loop cells width rs e used = (e', used') \<Longrightarrow>
    \<exists>n \<le> length rs. e' = e + n \<and> used' = used + line_cells cells (take n rs) \<and> (used \<le> width \<longrightarrow> used' \<le> width) \<and>
      (n < length rs \<longrightarrow> used' + rune_cells cells (rs ! n) > width)"
proof (induction rs arbitrary: e used)
  case (Cons r rs)
  show ?case
  proof (cases "used + rune_cells cells r > width")
    case True
    then show ?thesis using Cons.prems by (intro exI [of _ 0]) auto
  next
    case False
    then have "right_loop cells width rs (Suc e) (used + rune_cells cells r) = (e', used')" using Cons.prems by simp
    from Cons.IH [OF this] obtain n where "n \<le> length rs" "e' = Suc e + n" "used' = used + rune_cells cells r + line_cells cells (take n rs)"
        "used' \<le> width" "n < length rs \<longrightarrow> used' + rune_cells cells (rs ! n) > width" using False by auto
    then show ?thesis by (intro exI [of _ "Suc n"]) auto
  qed
qed simp

text \<open>Lines and their separators.\<close>

lemma split_on_not_Nil [simp]: "split_on c s \<noteq> []"
  by (cases s) simp_all

lemma split_on_absent: "l \<in> set (split_on c s) \<Longrightarrow> c \<notin> set l"
proof (induction s arbitrary: l)
  case (Cons x xs)
  then show ?case using hd_in_set [OF split_on_not_Nil [of c xs]] by (auto split: if_splits dest: list.set_sel(2) [OF split_on_not_Nil])
qed simp

lemma split_line: "c \<notin> set l \<Longrightarrow> split_on c l = [l]"
  by (induction l) auto

lemma split_first: "c \<notin> set l \<Longrightarrow> split_on c (l @ c # s) = l # split_on c s"
  by (induction l) auto

lemma split_join: "ls \<noteq> [] \<Longrightarrow> \<forall>l \<in> set ls. c \<notin> set l \<Longrightarrow> split_on c (join [c] ls) = ls"
  by (induction "[c]" ls rule: join.induct) (auto simp: split_line split_first)

lemma high_not_LF: "128 \<le> b \<Longrightarrow> b < 256 \<Longrightarrow> char_of (b :: int) \<noteq> LF"
proof
  assume b: "128 \<le> b" "b < 256" "char_of b = LF"
  then have "(of_char (char_of b :: char) :: int) = of_char LF" by simp
  then show False using b(1,2) by simp
qed

lemma encode_LF: "valid_rune r \<Longrightarrow> LF \<in> set (encode_rune r) \<Longrightarrow> r = 10"
proof -
  assume v: "valid_rune r" and l: "LF \<in> set (encode_rune r)"
  have "r < 128"
  proof (rule ccontr)
    assume n: "\<not> r < 128"
    have high: "char_of (128 + x mod 64) \<noteq> LF" for x :: int by (rule high_not_LF) simp_all
    have nn: "0 \<le> r div 64" "0 \<le> r div 4096" "0 \<le> r div 262144" using v by (simp_all add: valid_rune_def pos_imp_zdiv_nonneg_iff)
    have r: "r < 1114112" "\<not> 1114111 < r" "\<not> (55296 \<le> r \<and> r \<le> 57343)" using v by (auto simp: valid_rune_def)
    consider "r < 2048" | "\<not> r < 2048" "r < 65536" | "\<not> r < 2048" "\<not> r < 65536" by linarith
    then show False
    proof cases
      case 1
      have "char_of (192 + r div 64) \<noteq> LF" using 1 nn by (intro high_not_LF) simp_all
      then show False using l n r 1 high by (simp add: encode_rune_def Let_def eq_commute [of LF])
    next
      case 2
      have "char_of (224 + r div 4096) \<noteq> LF" using 2 nn by (intro high_not_LF) simp_all
      then show False using l n r 2 high by (simp add: encode_rune_def Let_def eq_commute [of LF])
    next
      case 3
      have "r div 262144 < 8" using r zdiv_mono1 [of r 1114111 262144] by simp
      then have "char_of (240 + r div 262144) \<noteq> LF" using nn by (intro high_not_LF) simp_all
      then show False using l n r 3 high by (simp add: encode_rune_def Let_def eq_commute [of LF])
    qed
  qed
  then have "char_of r = LF" using v l by (auto simp: encode_rune_def valid_rune_def split: if_splits)
  then have "(of_char (char_of r :: char) :: int) = of_char LF" by simp
  then show "r = 10" using v \<open>r < 128\<close> by (simp add: valid_rune_def)
qed

lemma runes_LF: "10 \<in> set (runes s) \<Longrightarrow> LF \<in> set s"
proof (induction s rule: runes.induct)
  case (1 s)
  have ne: "s \<noteq> []" using 1(2) by auto
  consider "fst (decode_rune s) = 10" | "10 \<in> set (runes (drop (snd (decode_rune s)) s))"
    using 1(2) ne by (subst (asm) runes.simps) auto
  then show ?case
  proof cases
    case ten: 1
    from ne show ?thesis
    proof (cases s rule: decode_rune_cases)
      case (rune r)
      have "encode_rune 10 = [LF]" by code_simp
      then show ?thesis using rune ten by (metis fst_conv in_set_takeD list.set_intros(1))
    qed (use ten in simp)
  next
    case 2
    then show ?thesis using 1(1) [OF ne] by (blast dest: in_set_dropD)
  qed
qed

lemma of_runes_no_LF: "list_all valid_rune rs \<Longrightarrow> 10 \<notin> set rs \<Longrightarrow> LF \<notin> set (of_runes rs)"
  by (induction rs) (auto dest: encode_LF)

lemma wrapped_line:
  assumes "1 \<le> maxW" "LF \<notin> set logical"
  shows "\<exists>ps. (if logical = [] then [[]] else wrap_runes cells maxW (runes logical) [] 0) = map of_runes ps \<and> ps \<noteq> [] \<and>
    concat ps = runes logical \<and> pieces_fit cells maxW ps \<and> (\<forall>p \<in> set ps. LF \<notin> set (of_runes p))"
proof (cases "logical = []")
  case True
  then show ?thesis using assms(1) by (intro exI [of _ "[[]]"]) (simp add: pieces_fit_def)
next
  case False
  from wrap_runes_pieces [of maxW cells "[]" "runes logical"] assms(1) obtain p ps
    where p: "wrap_runes cells maxW (runes logical) [] 0 = map of_runes (p # ps)" "concat (p # ps) = runes logical" "pieces_fit cells maxW (p # ps)"
    by auto
  have "LF \<notin> set (of_runes q)" if "q \<in> set (p # ps)" for q
  proof (rule of_runes_no_LF)
    have sub: "set q \<subseteq> set (runes logical)" using that p(2) by (metis concat.simps UN_upper set_concat)
    then show "list_all valid_rune q" using runes_valid [of logical] by (auto simp: list_all_iff)
    show "10 \<notin> set q" using sub runes_LF assms(2) by blast
  qed
  then show ?thesis using p False by (intro exI [of _ "p # ps"]) simp
qed

text \<open>C39. Wrapping loses nothing and fits: for a width of at least one cell the lines of the wrapped text are,
  for each line of the text in order, pieces that together are its runes (an invalid byte counts as
  the replacement rune); every piece fits the width unless it is a single rune, and a line is broken
  only where the next rune would not have fitted.\<close>

theorem wrapPlainText_lossless:
  assumes "1 \<le> maxW"
  shows "\<exists>pss. split_on LF (wrapPlainText cells s maxW) = map of_runes (concat pss) \<and>
    list_all2 (\<lambda>logical ps. concat ps = runes logical \<and> pieces_fit cells maxW ps) (split_on LF s) pss"
proof -
  define f where "f logical = (SOME ps. (if logical = [] then [[]] else wrap_runes cells maxW (runes logical) [] 0) = map of_runes ps \<and>
    ps \<noteq> [] \<and> concat ps = runes logical \<and> pieces_fit cells maxW ps \<and> (\<forall>p \<in> set ps. LF \<notin> set (of_runes p)))" for logical
  have f: "(if logical = [] then [[]] else wrap_runes cells maxW (runes logical) [] 0) = map of_runes (f logical) \<and> f logical \<noteq> [] \<and>
      concat (f logical) = runes logical \<and> pieces_fit cells maxW (f logical) \<and> (\<forall>p \<in> set (f logical). LF \<notin> set (of_runes p))"
    if "logical \<in> set (split_on LF s)" for logical
    unfolding f_def by (rule someI_ex) (rule wrapped_line [OF assms split_on_absent [OF that]])
  let ?pss = "map f (split_on LF s)"
  have w: "concat (wrap_lines cells s maxW) = map of_runes (concat ?pss)"
    unfolding wrap_lines_def map_concat map_map by (rule arg_cong [of _ _ concat]) (use f in \<open>auto cong: map_cong\<close>)
  have "concat ?pss \<noteq> []" using f [OF hd_in_set [OF split_on_not_Nil]] hd_in_set [OF split_on_not_Nil [of LF s]] by fastforce
  moreover have "\<forall>l \<in> set (map of_runes (concat ?pss)). LF \<notin> set l" using f by auto
  ultimately have "split_on LF (wrapPlainText cells s maxW) = map of_runes (concat ?pss)"
    using assms unfolding wrapPlainText_def w by (simp add: split_join del: map_concat)
  moreover have "list_all2 (\<lambda>logical ps. concat ps = runes logical \<and> pieces_fit cells maxW ps) (split_on LF s) ?pss"
    using f by (auto simp: list_all2_conv_all_nth)
  ultimately show ?thesis by blast
qed

theorem wrapPlainText_lossless_witness:
  "\<exists>pss. split_on LF (wrapPlainText (\<lambda>s. int (length s)) ''ab'' 1) = map of_runes (concat pss)"
  using wrapPlainText_lossless [of 1 "\<lambda>s. int (length s)" "''ab''"] by auto

lemma slice_split:
  assumes "i \<le> j" "j \<le> k"
  shows "drop i (take k xs) = drop i (take j xs) @ drop j (take k xs)"
proof -
  have "take k xs = take j xs @ drop j (take k xs)" using append_take_drop_id [of j "take k xs"] assms(2) by (simp add: min_def)
  then have "drop i (take k xs) = drop i (take j xs @ drop j (take k xs))" by simp
  also have "\<dots> = drop i (take j xs) @ drop j (take k xs)" using assms by (cases "j \<le> length xs") (simp_all add: min_def)
  finally show ?thesis .
qed

text \<open>C40. The window of an input shows the caret: whenever the cursor fits, what is drawn is the cursor between a
  stretch of the text that ends and one that begins at the caret (clamped into the text), it fits the
  width, and it cannot be extended on either side.\<close>

theorem inputWindow_shows_caret:
  assumes w: "max (cells (input_cursor visible)) 1 \<le> width"
  defines "used a b \<equiv> line_cells cells a + max (cells (input_cursor visible)) 1 + line_cells cells b"
  shows "\<exists>pre a b post. runes v = pre @ a @ b @ post \<and> length (pre @ a) = clamp_caret caret (runes v) \<and>
    inputWindowWithCaret cells v caret width visible = of_runes a @ input_cursor visible @ of_runes b \<and> used a b \<le> width \<and>
    (pre \<noteq> [] \<longrightarrow> used a b + rune_cells cells (last pre) > width) \<and> (post \<noteq> [] \<longrightarrow> used a b + rune_cells cells (hd post) > width)"
proof -
  define rs where "rs = runes v"
  define k where "k = clamp_caret caret rs"
  define cw where "cw = max (cells (input_cursor visible)) 1"
  have k: "k \<le> length rs" by (simp add: k_def clamp_caret_def)
  have cw: "1 \<le> cw" "cw \<le> width" using w by (simp_all add: cw_def)
  obtain s1 u1 where l1: "left_loop cells rs ((width - cw) div 2) k 0 = (s1, u1)" by (meson surj_pair)
  obtain e u2 where r: "right_loop cells width (drop k rs) k (u1 + cw) = (e, u2)" by (meson surj_pair)
  obtain s2 u3 where l2: "left_loop cells rs width s1 u2 = (s2, u3)" by (meson surj_pair)
  have L1: "s1 \<le> k" "u1 = line_cells cells (drop s1 (take k rs))" "u1 \<le> (width - cw) div 2"
    using left_loop_result [OF l1 k] cw by auto
  have u1: "u1 + cw \<le> width" using L1(3) cw by linarith
  obtain n where R: "n \<le> length rs - k" "e = k + n" "u2 = u1 + cw + line_cells cells (take n (drop k rs))" "u2 \<le> width"
      "n < length rs - k \<longrightarrow> u2 + rune_cells cells (drop k rs ! n) > width"
    using right_loop_result [OF r] u1 by auto
  have L2: "s2 \<le> s1" "u3 = u2 + line_cells cells (drop s2 (take s1 rs))" "u3 \<le> width" "0 < s2 \<longrightarrow> u3 + rune_cells cells (rs ! (s2 - 1)) > width"
    using left_loop_result [OF l2] L1(1) k R(4) by auto
  let ?pre = "take s2 rs" and ?a = "drop s2 (take k rs)" and ?b = "take n (drop k rs)" and ?post = "drop e rs"
  have b: "drop k (take e rs) = ?b" using R(2) by (simp add: drop_take)
  have "inputWindowWithCaret cells v caret width visible = of_runes ?a @ input_cursor visible @ of_runes ?b"
    using cw l1 r l2 b unfolding inputWindowWithCaret_def rs_def [symmetric] k_def [symmetric] Let_def cw_def [symmetric] by simp
  moreover have a: "?a = drop s2 (take s1 rs) @ drop s1 (take k rs)"
    by (rule slice_split [OF L2(1) L1(1)])
  then have us: "used ?a ?b = u3" using L1(2) R(3) L2(2) by (simp add: used_def cw_def)
  moreover have "rs = ?pre @ ?a @ ?b @ ?post"
  proof -
    have "?pre @ ?a = take k rs" using slice_split [of 0 s2 k rs] L1(1) L2(1) by simp
    moreover have "?b @ ?post = drop k rs" unfolding R(2) add.commute [of k] drop_drop [symmetric] by (rule append_take_drop_id)
    ultimately show ?thesis by (metis append.assoc append_take_drop_id)
  qed
  moreover have "length (?pre @ ?a) = k" using L1(1) L2(1) k by simp
  moreover have "u3 + rune_cells cells (last ?pre) > width" if "?pre \<noteq> []"
  proof -
    have "s2 \<le> length rs" using L1(1) L2(1) k by linarith
    then have "last ?pre = rs ! (s2 - 1)" using that by (simp add: last_conv_nth min.absorb2)
    then show ?thesis using that L2(4) by simp
  qed
  moreover have "u3 + rune_cells cells (hd ?post) > width" if "?post \<noteq> []"
  proof -
    have "n < length rs - k" using that R(2) by simp
    then have "u2 + rune_cells cells (rs ! e) > width" using R(2,5) by simp
    moreover have "hd ?post = rs ! e" using that by (simp add: hd_drop_conv_nth)
    ultimately show ?thesis unfolding \<open>hd ?post = rs ! e\<close> using L2(2) line_cells_nonneg [of cells "drop s2 (take s1 rs)"] by linarith
  qed
  ultimately show ?thesis using L2(3) unfolding rs_def [symmetric] k_def [symmetric]
    by (intro exI [of _ ?pre] exI [of _ ?a] exI [of _ ?b] exI [of _ ?post]) blast
qed

theorem inputWindow_shows_caret_witness:
  "\<exists>a b. inputWindowWithCaret (\<lambda>s. 1) ''abcdef'' 3 4 True = of_runes a @ input_cursor True @ of_runes b \<and>
    line_cells (\<lambda>s. 1) a + 1 + line_cells (\<lambda>s. 1) b \<le> 4"
  using inputWindow_shows_caret [of "\<lambda>s. 1" True 4 "''abcdef''" 3] by auto

end
