(* ===== verification/Styles.thy ===== *)
theory Styles
  imports Complex_Main Plain Terminal
begin

text \<open>
  What the terminal renderer is built from: the presets (\<open>adapter/bubbletea/preset.go\<close>), themes and
  styles (\<open>styles.go\<close>, \<open>render_helpers.go\<close>) and the numbers of progress bars. Lip Gloss is not part
  of the sources: a style is the list of the settings made on it, and measuring, rendering a style
  and joining blocks are functions of the record \<open>lipgloss\<close> that the definitions take as an
  argument.
\<close>

subsection \<open>Lip Gloss\<close>

datatype lip_border = RoundedBorder | NormalBorder | HiddenBorder

datatype lip_position = PosTop | PosCenter | PosBottom | PosLeft | PosRight

type_synonym color = string

datatype style_setting =
    Foreground color | Background color | Bold bool | Faint bool
  | BorderStyle lip_border | BorderForeground color | Padding "int list"

type_synonym style = "style_setting list"

definition NewStyle :: style where
  "NewStyle = []"

record lipgloss =
  lg_Width :: cells
  lg_Height :: "string \<Rightarrow> nat"
  lg_Render :: "style \<Rightarrow> string \<Rightarrow> string"
  lg_JoinHorizontal :: "lip_position \<Rightarrow> string list \<Rightarrow> string"
  lg_JoinVertical :: "lip_position \<Rightarrow> string list \<Rightarrow> string"

subsection \<open>Presets (preset.go)\<close>

datatype Preset = PresetMinimal | PresetDashboard | PresetDense | PresetOther string

definition Preset_Valid :: "Preset \<Rightarrow> bool" where
  "Preset_Valid p \<longleftrightarrow> p = PresetMinimal \<or> p = PresetDashboard \<or> p = PresetDense"

definition preset_of :: "string \<Rightarrow> Preset" where
  "preset_of s =
     (if s = ''minimal'' then PresetMinimal else if s = ''dashboard'' then PresetDashboard
      else if s = ''dense'' then PresetDense else PresetOther s)"

definition ParsePreset :: "string \<Rightarrow> gomsg + Preset" where
  "ParsePreset s =
     (let p = preset_of s in
      if \<not> Preset_Valid p then Inl (Sprintf ''unknown A2UI renderer preset %q'' [FStr s]) else Inr p)"

record presetProfile =
  pp_DefaultGap :: int
  pp_CardPadding :: int
  pp_PanelPadding :: int
  pp_SectionPadding :: int
  pp_CardBorder :: string
  pp_PanelBorder :: string
  pp_SectionBorder :: string
  pp_ActionGap :: int
  pp_TableRowGap :: int
  pp_TitlePrefix :: string
  pp_SubtitlePrefix :: string
  pp_ProgressBarGlyph :: string
  pp_ProgressEmpty :: string

definition profileFor :: "Preset \<Rightarrow> presetProfile" where
  "profileFor p =
     (case p of
        PresetDashboard \<Rightarrow>
          \<lparr>pp_DefaultGap = 1, pp_CardPadding = 1, pp_PanelPadding = 1, pp_SectionPadding = 0,
           pp_CardBorder = ''rounded'', pp_PanelBorder = ''normal'', pp_SectionBorder = ''none'',
           pp_ActionGap = 2, pp_TableRowGap = 0, pp_TitlePrefix = encode_rune 9670 @ '' '', pp_SubtitlePrefix = encode_rune 8226 @ '' '',
           pp_ProgressBarGlyph = encode_rune 9608, pp_ProgressEmpty = encode_rune 9617\<rparr>
      | PresetDense \<Rightarrow>
          \<lparr>pp_DefaultGap = 0, pp_CardPadding = 0, pp_PanelPadding = 0, pp_SectionPadding = 0,
           pp_CardBorder = ''normal'', pp_PanelBorder = ''none'', pp_SectionBorder = ''none'',
           pp_ActionGap = 1, pp_TableRowGap = 0, pp_TitlePrefix = [], pp_SubtitlePrefix = [],
           pp_ProgressBarGlyph = encode_rune 9619, pp_ProgressEmpty = encode_rune 9617\<rparr>
      | _ \<Rightarrow>
          \<lparr>pp_DefaultGap = 1, pp_CardPadding = 0, pp_PanelPadding = 0, pp_SectionPadding = 0,
           pp_CardBorder = ''none'', pp_PanelBorder = ''none'', pp_SectionBorder = ''none'',
           pp_ActionGap = 2, pp_TableRowGap = 0, pp_TitlePrefix = [], pp_SubtitlePrefix = [],
           pp_ProgressBarGlyph = encode_rune 9608, pp_ProgressEmpty = encode_rune 9617\<rparr>)"

subsection \<open>Themes (styles.go)\<close>

record Theme =
  th_Primary :: color
  th_Success :: color
  th_Warn :: color
  th_Error :: color
  th_Muted :: color
  th_Text :: color
  th_Border :: color
  th_Surface :: color
  th_Focus :: color

definition DefaultTheme :: Theme where
  "DefaultTheme = \<lparr>th_Primary = ''36'', th_Success = ''42'', th_Warn = ''214'', th_Error = ''196'', th_Muted = ''244'',
     th_Text = ''255'', th_Border = ''240'', th_Surface = ''236'', th_Focus = ''45''\<rparr>"

definition ColorFor :: "Theme \<Rightarrow> string \<Rightarrow> color" where
  "ColorFor t token =
     (if token = ''primary'' then th_Primary t
      else if token = ''warn'' then th_Warn t
      else if token = ''error'' then th_Error t
      else if token = ''muted'' then th_Muted t
      else th_Text t)"

definition BorderFor :: "string \<Rightarrow> lip_border" where
  "BorderFor b = (if b = ''rounded'' then RoundedBorder else if b = ''normal'' then NormalBorder else HiddenBorder)"

text \<open>A member of an object decoded into \<open>map[string]any\<close>, as a string and as a boolean.\<close>

definition any_string :: "bytes gomap \<Rightarrow> string \<Rightarrow> string option" where
  "any_string m k = (case json_decode (get_raw m k) of Some (JString s) \<Rightarrow> Some s | _ \<Rightarrow> None)"

definition any_bool :: "bytes gomap \<Rightarrow> string \<Rightarrow> bool option" where
  "any_bool m k = (case json_decode (get_raw m k) of Some (JBool b) \<Rightarrow> Some b | _ \<Rightarrow> None)"

definition color_setting :: "(color \<Rightarrow> style_setting) \<Rightarrow> Theme \<Rightarrow> string option \<Rightarrow> style" where
  "color_setting f theme s = (case s of Some c \<Rightarrow> if c \<noteq> [] then [f (ColorFor theme c)] else [] | None \<Rightarrow> [])"

definition applyRawStyle :: "style \<Rightarrow> bytes \<Rightarrow> Theme \<Rightarrow> style" where
  "applyRawStyle st raw theme =
     (if raw = [] then st
      else case unm_map raw of
        (_, False) \<Rightarrow> st
      | (m, True) \<Rightarrow>
          (let m = nil_map m in
           st @ color_setting Foreground theme (any_string m ''fg'') @ color_setting Background theme (any_string m ''bg'')
              @ (case any_bool m ''bold'' of Some b \<Rightarrow> [Bold b] | None \<Rightarrow> [])
              @ (case any_bool m ''dim'' of Some d \<Rightarrow> [Faint d] | None \<Rightarrow> [])))"

definition NodeStyle :: "bytes \<Rightarrow> Theme \<Rightarrow> style" where
  "NodeStyle raw theme =
     (if raw = [] then NewStyle
      else case unm_map raw of
        (_, False) \<Rightarrow> NewStyle
      | (m, True) \<Rightarrow>
          (let m = nil_map m in
           NewStyle @ color_setting Foreground theme (any_string m ''fg'') @ color_setting Background theme (any_string m ''bg'')
              @ (if any_bool m ''bold'' = Some True then [Bold True] else [])
              @ (if any_bool m ''dim'' = Some True then [Faint True] else [])))"

subsection \<open>Floating point\<close>

text \<open>Rounding of a number that is not negative to the nearest double, ties to even.\<close>

fun bit_size :: "nat \<Rightarrow> nat" where
  "bit_size n = (if n = 0 then 0 else Suc (bit_size (n div 2)))"

declare bit_size.simps [simp del]

definition pow2 :: "int \<Rightarrow> rat" where
  "pow2 k = (if 0 \<le> k then 2 ^ nat k else 1 / 2 ^ nat (- k))"

definition binary_exponent :: "rat \<Rightarrow> int" where
  "binary_exponent x =
     (let (p, q) = quotient_of x; k = int (bit_size (nat p)) - int (bit_size (nat q)) in
      if pow2 k \<le> x then k else k - 1)"

definition round_half_even :: "rat \<Rightarrow> int" where
  "round_half_even x =
     (let n = \<lfloor>x\<rfloor>; d = x - of_int n in
      if d < 1 / 2 \<or> d = 1 / 2 \<and> even n then n else n + 1)"

definition float64 :: "rat \<Rightarrow> rat" where
  "float64 x =
     (if x \<le> 0 then 0
      else (let e = max (binary_exponent x - 52) (- 1074) in of_int (round_half_even (x / pow2 e)) * pow2 e))"

text \<open>The value of a JSON number, and \<open>json.Unmarshal\<close> into a \<open>float64\<close> clamped to the unit interval; a
  number out of range leaves the zero.\<close>

definition decimal_rat :: "string \<Rightarrow> bool \<times> rat" where
  "decimal_rat s =
     (let neg = (s \<noteq> [] \<and> hd s = CHR ''-''); t = (if neg then tl s else s);
          ip = takeWhile is_digit t; r1 = dropWhile is_digit t;
          fp = (if r1 \<noteq> [] \<and> hd r1 = CHR ''.'' then takeWhile is_digit (tl r1) else []);
          r2 = (if r1 \<noteq> [] \<and> hd r1 = CHR ''.'' then dropWhile is_digit (tl r1) else r1);
          es = (if r2 \<noteq> [] then tl r2 else []);
          ed = (if es \<noteq> [] \<and> (hd es = CHR ''+'' \<or> hd es = CHR ''-'') then tl es else es);
          e = (if es \<noteq> [] \<and> hd es = CHR ''-'' then - decimal_val ed else decimal_val ed) - int (length fp);
          m = of_int (decimal_val (ip @ fp)) in
      (neg, if 0 \<le> e then m * 10 ^ nat e else m / 10 ^ nat (- e)))"

definition unit_value :: "bytes \<Rightarrow> rat" where
  "unit_value raw =
     (case json_decode raw of
        Some (JNumber s) \<Rightarrow>
          (let (neg, x) = decimal_rat s; v = float64 x in
           if v \<ge> 2 ^ 1024 \<or> neg then 0 else if v > 1 then 1 else v)
      | _ \<Rightarrow> 0)"

text \<open>\<open>int(a * b)\<close> of two doubles.\<close>

definition float_mul_int :: "rat \<Rightarrow> rat \<Rightarrow> int" where
  "float_mul_int a b = \<lfloor>float64 (a * b)\<rfloor>"

lemma pow2_pos [simp]: "0 < pow2 k"
  by (simp add: pow2_def)

lemma float64_nonneg [simp]: "0 \<le> float64 x"
proof (cases "x \<le> 0")
  case False
  have "0 \<le> round_half_even y" if "0 \<le> y" for y using that by (auto simp: round_half_even_def Let_def)
  then have "0 \<le> round_half_even (x / pow2 e)" for e using False by (simp add: less_imp_le)
  then show ?thesis using False by (auto simp: float64_def Let_def less_imp_le)
qed (simp add: float64_def)

lemma float_mul_int_nonneg [simp]: "0 \<le> float_mul_int a b"
  by (simp add: float_mul_int_def)

end
