(* ===== verification/Renderer.thy ===== *)
theory Renderer
  imports Styles Flex
begin

text \<open>
  The terminal renderer (\<open>adapter/bubbletea/renderer.go\<close>, \<open>render_components.go\<close> and the table of
  \<open>table_window.go\<close>). A frame is a text; the geometry of viewports and tables is written into two
  maps that the walk over the document threads. The walk carries fuel for its depth. A loop that
  does not end is \<open>Diverge\<close>, an index out of range or a negative count a panic. Memory is unbounded.
\<close>

subsection \<open>The renderer and its context\<close>

record Renderer =
  rd_Theme :: Theme
  rd_Preset :: Preset

definition NewRendererWithPreset :: "Theme \<Rightarrow> Preset \<Rightarrow> Renderer" where
  "NewRendererWithPreset theme preset = \<lparr>rd_Theme = theme, rd_Preset = if Preset_Valid preset then preset else PresetMinimal\<rparr>"

definition NewRenderer :: "Theme \<Rightarrow> Renderer" where
  "NewRenderer theme = NewRendererWithPreset theme PresetMinimal"

record renderContext =
  rc_doc :: Document
  rc_focusedID :: string
  rc_inputs :: "string gomap"
  rc_tableSelections :: "TableSelection gomap"
  rc_interaction :: InteractionState
  rc_state :: RenderState

type_synonym metrics = "ViewportMetrics gomap \<times> TableViewportMetrics gomap"

text \<open>What draws a child: its id, width and height.\<close>

type_synonym draw = "string \<Rightarrow> int \<Rightarrow> int \<Rightarrow> metrics \<Rightarrow> (string \<times> metrics) go"

definition glyph :: "int \<Rightarrow> string" where
  "glyph r = encode_rune r"

subsection \<open>Text, inputs, actions (render\_components.go)\<close>

definition text_variant :: "Renderer \<Rightarrow> string \<Rightarrow> string \<times> style" where
  "text_variant r variant =
     (let th = rd_Theme r; prof = profileFor (rd_Preset r); st = NewStyle @ [Foreground (th_Text th)] in
      if variant = ''title'' then (pp_TitlePrefix prof, st @ [Bold True, Foreground (th_Primary th)])
      else if variant = ''subtitle'' then (pp_SubtitlePrefix prof, st @ [Foreground (th_Muted th)])
      else if variant = ''label'' then ([], st @ [Bold True])
      else if variant = ''code'' then ([], st @ [Foreground (th_Warn th)])
      else if variant = ''muted'' then ([], st @ [Foreground (th_Muted th), Faint True])
      else ([], st))"

definition renderText :: "lipgloss \<Rightarrow> Renderer \<Rightarrow> Node \<Rightarrow> int \<Rightarrow> string" where
  "renderText L r n maxW =
     (let text = SanitizeText (ui_propString n ''text'' [] @ n_Text n);
          (pre, st) = text_variant r (ui_propString n ''variant'' ''body'');
          text = wrapPlainText (lg_Width L) (pre @ text) maxW in
      lg_Render L (applyRawStyle st (get_raw (n_Props n) ''style'') (rd_Theme r)) text)"

definition input_style :: "Renderer \<Rightarrow> bool \<Rightarrow> style" where
  "input_style r focused =
     NewStyle @ [BorderStyle (if rd_Preset r = PresetDense then NormalBorder else RoundedBorder)]
       @ (if rd_Preset r \<noteq> PresetDense then [Padding [0, 1]] else [])
       @ (if focused then [BorderForeground (th_Focus (rd_Theme r)), Bold True] else [BorderForeground (th_Muted (rd_Theme r))])"

definition renderInput :: "lipgloss \<Rightarrow> Renderer \<Rightarrow> Node \<Rightarrow> bool \<Rightarrow> string \<Rightarrow> int \<Rightarrow> int \<Rightarrow> RenderState \<Rightarrow> string" where
  "renderInput L r n focused currentValue caret maxW state =
     (let placeholder = SanitizeSingleLineText (ui_propString n ''placeholder'' []);
          currentValue = SanitizeSingleLineText currentValue;
          st = input_style r focused in
      if maxW < 3 then fitPlainText (lg_Width L) currentValue maxW
      else
        (let contentW = maxW - 2;
             contentW = (if rd_Preset r \<noteq> PresetDense then contentW - 2 else contentW);
             contentW = (if contentW < 1 then 1 else contentW) in
         if \<not> focused then
           (if currentValue = []
            then lg_Render L (st @ [Foreground (th_Muted (rd_Theme r)), Faint True]) (fitPlainText (lg_Width L) placeholder contentW)
            else lg_Render L st (fitPlainText (lg_Width L) currentValue contentW))
         else lg_Render L st (inputWindowWithCaret (lg_Width L) currentValue caret contentW (rs_CursorVisible state))))"

definition item_fields :: "string list" where
  "item_fields = [''Key'', ''Label'']"

definition unm_item :: "bytes \<Rightarrow> (string \<times> string) \<times> bool" where
  "unm_item raw =
     (case json_decode raw of
        Some JNull \<Rightarrow> (([], []), True)
      | Some (JObject ms) \<Rightarrow>
          (let (key, ok1) = struct_string item_fields ms ''Key''; (label, ok2) = struct_string item_fields ms ''Label'' in
           ((key, label), ok1 \<and> ok2))
      | _ \<Rightarrow> (([], []), False))"

definition action_part :: "lipgloss \<Rightarrow> Renderer \<Rightarrow> string \<Rightarrow> string \<times> string \<Rightarrow> string" where
  "action_part L r variant it =
     (let key = SanitizeSingleLineText (fst it); label = SanitizeSingleLineText (snd it);
          keyStyle = lg_Render L (NewStyle @ [Foreground (th_Primary (rd_Theme r)), Bold True]);
          labelStyle = lg_Render L (NewStyle @ [Foreground (th_Text (rd_Theme r))]);
          muted = lg_Render L (NewStyle @ [Foreground (th_Muted (rd_Theme r))]) in
      if variant = ''toolbar'' then
        (if rd_Preset r = PresetDense then keyStyle (''['' @ key @ '']'') @ '' '' @ labelStyle label
         else muted ''['' @ keyStyle ('' '' @ key @ '' '') @ labelStyle label @ muted '' ]'')
      else if variant = ''list'' then keyStyle (''['' @ key @ '']'') @ '' '' @ labelStyle label
      else muted ''['' @ keyStyle key @ muted '':'' @ labelStyle label @ muted '']'')"

definition renderActions :: "lipgloss \<Rightarrow> Renderer \<Rightarrow> Node \<Rightarrow> int \<Rightarrow> string" where
  "renderActions L r n maxW =
     (let items = fst (unm_list unm_item (get_raw (n_Props n) ''items''));
          variant = ui_propString n ''variant'' ''inline'';
          parts = map (action_part L r variant) items in
      if variant = ''list'' then join [LF] parts
      else packInline (lg_Width L) parts (repeat '' '' (max (pp_ActionGap (profileFor (rd_Preset r))) 1)) maxW)"

subsection \<open>Progress\<close>

text \<open>\<open>strings.Repeat\<close> panics on a negative count.\<close>

definition Repeat :: "string \<Rightarrow> int \<Rightarrow> string go" where
  "Repeat s n = (if n < 0 then Panic ''strings: negative Repeat count'' else Ret (repeat s n))"

definition spinner_frames :: "int list" where
  "spinner_frames = [10251, 10265, 10297, 10296, 10300, 10292, 10278, 10279, 10247, 10255]"

text \<open>\<open>%3d\<close> of a number that is not negative.\<close>

definition pad3 :: "int \<Rightarrow> string" where
  "pad3 n = (let s = decimal (nat n) in repeat '' '' (3 - int (length s)) @ s)"

definition progress_filled :: "RenderState \<Rightarrow> string \<Rightarrow> rat \<Rightarrow> int \<Rightarrow> int" where
  "progress_filled state status val barW =
     (let filled = float_mul_int (float64 (of_int barW)) val;
          pulse = int (unat (rs_AnimationPhase state) mod nat barW);
          filled = (if status = ''loading'' \<and> filled < barW \<and> pulse \<ge> filled then pulse + 1 else filled) in
      if filled > barW then barW else filled)"

definition progress_bar :: "lipgloss \<Rightarrow> Renderer \<Rightarrow> int \<Rightarrow> RenderState \<Rightarrow> string \<Rightarrow> rat \<Rightarrow> string \<Rightarrow> string go" where
  "progress_bar L r maxW state status val label =
     (let prof = profileFor (rd_Preset r);
          suffix = '' '' @ pad3 (float_mul_int val 100) @ ''%'' @ (if label \<noteq> [] then '' '' @ label else []);
          barW = maxW - lg_Width L suffix - 2;
          barW = (if barW < 3 then 3 else barW);
          filled = progress_filled state status val barW in
      go_bind (Repeat (pp_ProgressBarGlyph prof) filled) (\<lambda>full.
        go_bind (Repeat (pp_ProgressEmpty prof) (barW - filled)) (\<lambda>rest.
          Ret (''['' @ lg_Render L (NewStyle @ [Foreground (th_Primary (rd_Theme r))]) full
                @ lg_Render L (NewStyle @ [Foreground (th_Muted (rd_Theme r))]) rest
                @ '']'' @ fitPlainText (lg_Width L) suffix (max (maxW - barW - 2) 1)))))"

definition renderProgress :: "lipgloss \<Rightarrow> Renderer \<Rightarrow> Node \<Rightarrow> int \<Rightarrow> RenderState \<Rightarrow> string go" where
  "renderProgress L r n maxW state =
     (let th = rd_Theme r;
          val = unit_value (get_raw (n_Props n) ''value'');
          label = SanitizeSingleLineText (ui_propString n ''label'' []);
          variant = ui_propString n ''variant'' ''bar'';
          status = ui_propString n ''state'' ''normal'';
          fitted = fitPlainText (lg_Width L) label (max (maxW - 2) 1) in
      if status = ''success'' then Ret (lg_Render L (NewStyle @ [Foreground (th_Success th), Bold True]) (glyph 10003 @ '' '' @ fitted))
      else if status = ''error'' then Ret (lg_Render L (NewStyle @ [Foreground (th_Error th), Bold True]) (glyph 10005 @ '' '' @ fitted))
      else if variant = ''spinner'' then
        (let g = (if status = ''loading'' then spinner_frames ! (unat (rs_AnimationPhase state) mod length spinner_frames) else 8226) in
         Ret (lg_Render L (NewStyle @ [Foreground (th_Primary th)]) (glyph g) @ '' '' @ fitted))
      else if variant = ''compact'' \<or> maxW < 12
      then Ret (pad3 (float_mul_int val 100) @ ''% '' @ fitPlainText (lg_Width L) label (max (maxW - 5) 1))
      else progress_bar L r maxW state status val label)"

subsection \<open>Tables (render\_components.go, table\_window.go)\<close>

definition column_width :: "int list \<Rightarrow> nat \<Rightarrow> int" where
  "column_width widths i = (if i < length widths then max (widths ! i) tableMinColumnWidth else tableMinColumnWidth)"

definition cell_at :: "string list \<Rightarrow> nat \<Rightarrow> string" where
  "cell_at row j = (if j < length row then row ! j else [])"

definition grid_row :: "lipgloss \<Rightarrow> Renderer \<Rightarrow> bool \<Rightarrow> bool \<Rightarrow> int \<Rightarrow> string \<Rightarrow> int list \<Rightarrow> nat \<Rightarrow> nat \<Rightarrow> string list \<Rightarrow> string" where
  "grid_row L r focused selectable selectedRow separator widths ncols i row =
     (let content = join separator (map (\<lambda>j. padPlain (lg_Width L) (cell_at row j) (column_width widths j)) [0..<ncols]);
          rowPre = (if selectable then (if focused \<and> int i = selectedRow then ''> '' else ''  '') else []);
          content = (if selectable \<and> int i = selectedRow
                     then lg_Render L (NewStyle @ [Bold True, Foreground (th_Warn (rd_Theme r))]) content else content) in
      rowPre @ content)"

definition renderTableGrid ::
    "lipgloss \<Rightarrow> Renderer \<Rightarrow> tableColumn list \<Rightarrow> string list list \<Rightarrow> bool \<Rightarrow> bool \<Rightarrow> int \<Rightarrow> string \<Rightarrow> int list \<Rightarrow> string" where
  "renderTableGrid L r cols rows focused selectable selectedRow variant widths =
     (if cols = [] then []
      else
        (let separator = (if variant = ''compact'' \<or> variant = ''dense'' then '' '' else '' '' @ glyph 9474 @ '' '');
             headerStyle = NewStyle @ [Bold True, Foreground (th_Primary (rd_Theme r))];
             dividerStyle = NewStyle @ [Foreground (th_Muted (rd_Theme r))];
             header = map (\<lambda>(i, c). padPlain (lg_Width L) (tc_Title c) (column_width widths i)) (enumerate 0 cols);
             divider = map (\<lambda>i. repeat (glyph 9472) (column_width widths i)) [0..<length cols];
             pre = (if selectable then ''  '' else []);
             dividerSep = (if variant = ''compact'' then glyph 9532 else glyph 9472 @ glyph 9532 @ glyph 9472);
             lines = [pre @ lg_Render L headerStyle (join separator header)]
               @ (if variant \<noteq> ''dense'' then [pre @ lg_Render L dividerStyle (join dividerSep divider)] else []) in
         join [LF] (lines @ map (\<lambda>(i, row). grid_row L r focused selectable selectedRow separator widths (length cols) i row) (enumerate 0 rows))))"

definition renderTableDetail :: "lipgloss \<Rightarrow> Renderer \<Rightarrow> tableColumn list \<Rightarrow> string list \<Rightarrow> int \<Rightarrow> string" where
  "renderTableDetail L r cols row maxW =
     (let maxW = (if maxW < 1 then 1 else maxW);
          titleStyle = NewStyle @ [Bold True, Foreground (th_Primary (rd_Theme r))] in
      join [LF] (lg_Render L titleStyle ''Details'' # map (\<lambda>(i, col).
        (let label = fitPlainText (lg_Width L) (tc_Title col) (max (maxW - 2) 1);
             prefixW = lg_Width L label + 2;
             valueW = max (maxW - prefixW) 1 in
         lg_Render L titleStyle label @ '': '' @ fitPlainText (lg_Width L) (cell_at row i) valueW)) (enumerate 0 cols)))"

definition record_text ::
    "lipgloss \<Rightarrow> Renderer \<Rightarrow> bool \<Rightarrow> string list \<Rightarrow> int \<Rightarrow> nat \<Rightarrow> tableColumn \<Rightarrow> string" where
  "record_text L r marked row maxW j c =
     (let valueW = max (maxW - lg_Width L (tc_Title c @ '': '')) 1;
          line = lg_Render L (NewStyle @ [Bold True, Foreground (th_Primary (rd_Theme r))]) (fitPlainText (lg_Width L) (tc_Title c) (max (maxW - 2) 1))
            @ '': '' @ fitPlainText (lg_Width L) (cell_at row j) valueW in
      if marked then lg_Render L (NewStyle @ [Foreground (th_Warn (rd_Theme r))]) ''> '' @ line else line)"

definition renderTableRecords ::
    "lipgloss \<Rightarrow> Renderer \<Rightarrow> tableColumn list \<Rightarrow> string list list \<Rightarrow> bool \<Rightarrow> bool \<Rightarrow> int \<Rightarrow> int \<Rightarrow> string" where
  "renderTableRecords L r cols rows focused selectable selected maxW =
     (let maxW = (if maxW < 1 then 1 else maxW) in
      join [LF, LF] (map (\<lambda>(i, row).
        join [LF] (map (\<lambda>(j, c). record_text L r (selectable \<and> focused \<and> int i = selected) row maxW j c) (enumerate 0 cols)))
        (enumerate 0 rows)))"

text \<open>The panes of a plan; a column index outside the columns is skipped.\<close>

definition master_columns :: "TableLayoutPlan \<Rightarrow> tableColumn list \<Rightarrow> nat list" where
  "master_columns plan cols = map nat (filter (\<lambda>i. 0 \<le> i \<and> i < int (length cols)) (lp_VisibleCols plan))"

definition pane_width :: "TableLayoutPlan \<Rightarrow> int" where
  "pane_width plan = wrap_int (wrap_int (lp_LeftPaneWidth plan + tablePaneSeparatorWidth) + lp_RightPaneWidth plan)"

definition master_widths :: "TableLayoutPlan \<Rightarrow> tableColumn list \<Rightarrow> bool \<Rightarrow> string \<Rightarrow> nat list \<Rightarrow> int list" where
  "master_widths plan cols selectable variant idx =
     (let preferred = map (\<lambda>i. preferredTableWidths cols ! i) idx;
          floors = map (\<lambda>i. if i < length (lp_ReadableWidths plan) then lp_ReadableWidths plan ! i else tableMinColumnWidth) idx;
          prefixW = (if selectable then tableSelectablePrefixW else 0);
          separatorW = tableColumnSeparatorWidth variant * max (int (length idx) - 1) 0;
          budget = max (wrap_int (lp_LeftPaneWidth plan - prefixW - separatorW)) (sumTableWidths floors) in
      shrinkTableWidthsToFloors preferred floors budget)"

definition renderPlannedTableMasterDetail ::
    "lipgloss \<Rightarrow> Renderer \<Rightarrow> tableColumn list \<Rightarrow> string list list \<Rightarrow> bool \<Rightarrow> bool \<Rightarrow> int \<Rightarrow> string \<Rightarrow> TableLayoutPlan \<Rightarrow> string" where
  "renderPlannedTableMasterDetail L r cols rows focused selectable selectedRow variant plan =
     (let idx = master_columns plan cols in
      if rows = [] \<or> selectedRow < 0 \<or> selectedRow \<ge> int (length rows) \<or> idx = []
      then renderTableRecords L r cols rows focused selectable selectedRow (pane_width plan)
      else
        (let master = renderTableGrid L r (map ((!) cols) idx) (map (\<lambda>row. map (cell_at row) idx) rows) focused selectable selectedRow
               variant (master_widths plan cols selectable variant idx);
             detail = renderTableDetail L r cols (rows ! nat selectedRow) (lp_RightPaneWidth plan) in
         lg_JoinHorizontal L PosTop [master, repeat '' '' tablePaneSeparatorWidth, detail]))"

definition renderTableWindowed :: "lipgloss \<Rightarrow> Renderer \<Rightarrow> Node \<Rightarrow> bool \<Rightarrow> TableSelection \<Rightarrow> int \<Rightarrow> int \<Rightarrow> int \<Rightarrow> string" where
  "renderTableWindowed L r n focused selection maxW maxH rowOffset =
     (let (cols, rows) = decodeSanitizedTable n in
      if cols = [] then []
      else
        (let selectable = ui_propBool n ''selectable'' False;
             variant = ui_propString n ''variant'' ''normal'';
             plan = table_plan (lg_Width L) n selection maxW maxH rowOffset;
             (visibleRows, visibleSelection) = visible_table (lg_Width L) n selection maxW maxH rowOffset in
         case lp_Mode plan of
           TableModeRecords \<Rightarrow> renderTableRecords L r cols visibleRows focused selectable visibleSelection maxW
         | TableModeMasterDetail \<Rightarrow>
             renderPlannedTableMasterDetail L r cols visibleRows focused selectable visibleSelection variant plan
         | _ \<Rightarrow> renderTableGrid L r cols visibleRows focused selectable visibleSelection variant (lp_ColumnWidths plan)))"

subsection \<open>Boxes (renderer.go)\<close>

definition explicit :: "Node \<Rightarrow> string \<Rightarrow> bool" where
  "explicit n key \<longleftrightarrow> fmlookup (nil_map (n_ExplicitProps n)) key = Some True"

text \<open>Gap, padding and border of a box: what a variant of the preset supplies unless the agent set it.\<close>

definition box_frame :: "Renderer \<Rightarrow> Node \<Rightarrow> string \<Rightarrow> int \<times> int \<times> string" where
  "box_frame r n variant =
     (let padding = ui_propInt n ''padding'' 0; gap = ui_propInt n ''gap'' 0; border = ui_propString n ''border'' ''none'';
          prof = profileFor (rd_Preset r) in
      if variant = ''plain'' then (gap, padding, border)
      else
        (let gap = (if gap = 0 \<and> \<not> explicit n ''gap'' then pp_DefaultGap prof else gap);
             padding = (if padding = 0 \<and> \<not> explicit n ''padding'' then
                          (if variant = ''card'' then pp_CardPadding prof
                           else if variant = ''panel'' then pp_PanelPadding prof
                           else if variant = ''section'' then pp_SectionPadding prof else padding)
                        else padding);
             border = (if border = ''none'' \<and> \<not> explicit n ''border'' then
                         (if variant = ''card'' then pp_CardBorder prof
                          else if variant = ''panel'' then pp_PanelBorder prof
                          else if variant = ''section'' then pp_SectionBorder prof else border)
                       else border) in
         (gap, padding, border)))"

definition decorateBox :: "lipgloss \<Rightarrow> Renderer \<Rightarrow> Node \<Rightarrow> string \<Rightarrow> int \<Rightarrow> string \<Rightarrow> string \<Rightarrow> string" where
  "decorateBox L r n variant padding border body =
     (let dashboard_panel = (variant = ''panel'' \<and> rd_Preset r = PresetDashboard) in
      if padding = 0 \<and> (border = ''none'' \<or> border = []) \<and> \<not> explicit n ''style'' \<and> \<not> dashboard_panel then body
      else
        (let st = NewStyle @ [Padding [padding]];
             borderColor = (if variant = ''card'' \<and> rd_Preset r = PresetDashboard then th_Primary (rd_Theme r) else th_Border (rd_Theme r));
             st = (if border \<noteq> ''none'' \<and> border \<noteq> [] then st @ [BorderStyle (BorderFor border), BorderForeground borderColor] else st);
             st = (if dashboard_panel then st @ [Foreground (th_Text (rd_Theme r))] else st) in
         lg_Render L (applyRawStyle st (get_raw (n_Props n) ''style'') (rd_Theme r)) body))"

fun intersperse :: "string list \<Rightarrow> string list \<Rightarrow> string list" where
  "intersperse sep [] = []"
| "intersperse sep [v] = [v]"
| "intersperse sep (v # w # vs) = v # sep @ intersperse sep (w # vs)"

definition joinHorizontal :: "lipgloss \<Rightarrow> string \<Rightarrow> int \<Rightarrow> string list \<Rightarrow> string" where
  "joinHorizontal L align gap views =
     (if views = [] then []
      else
        (let sep = repeat '' '' (max gap 0);
             pos = (if align = ''center'' then PosCenter else if align = ''end'' then PosBottom else PosTop) in
         lg_JoinHorizontal L pos (intersperse (if sep \<noteq> [] then [sep] else []) views)))"

definition stretch_views :: "lipgloss \<Rightarrow> string list \<Rightarrow> string list" where
  "stretch_views L views =
     (let maxW = fold (\<lambda>v m. max m (lg_Width L v)) views 0 in
      map (\<lambda>view. join [LF] (map (\<lambda>line. if lg_Width L line < maxW then line @ repeat '' '' (maxW - lg_Width L line) else line)
        (split_on LF view))) views)"

text \<open>The rows of the gaps are emptied again; \<open>line\<close> is the row where the next view begins.\<close>

fun blank_gaps :: "lipgloss \<Rightarrow> nat \<Rightarrow> string list \<Rightarrow> nat \<Rightarrow> string list \<Rightarrow> string list" where
  "blank_gaps L gap (v # w # vs) line lines =
     (let line = line + lg_Height L v; k = min gap (length lines - line) in
      blank_gaps L gap (w # vs) (line + k) (take line lines @ replicate k [] @ drop (line + k) lines))"
| "blank_gaps L gap _ line lines = lines"

definition joinVertical :: "lipgloss \<Rightarrow> string \<Rightarrow> int \<Rightarrow> string list \<Rightarrow> string" where
  "joinVertical L align gap views =
     (if views = [] then []
      else
        (let views = (if align = ''stretch'' then stretch_views L views else views);
             gap = max gap 0;
             pos = (if align = ''center'' then PosCenter else if align = ''end'' then PosRight else PosLeft);
             joined = lg_JoinVertical L pos (intersperse (replicate (nat gap) []) views) in
         if gap = 0 then joined else join [LF] (blank_gaps L (nat gap) views 0 (split_on LF joined))))"

definition flex_fields :: "string list" where
  "flex_fields = [''grow'', ''basis'', ''min_width'', ''max_width'']"

definition default_flex :: FlexConstraint where
  "default_flex = \<lparr>fc_Grow = 1, fc_Basis = 1, fc_MinWidth = 1, fc_MaxWidth = 0\<rparr>"

definition flexConstraint :: "Node option \<Rightarrow> FlexConstraint" where
  "flexConstraint n =
     (let b = (case n of None \<Rightarrow> [] | Some n \<Rightarrow> get_raw (n_Props n) ''flex'') in
      if b = [] then default_flex
      else
        (let ms = (case json_decode b of Some (JObject ms) \<Rightarrow> ms | _ \<Rightarrow> []); f = (\<lambda>name. fst (struct_int flex_fields ms name)) in
         \<lparr>fc_Grow = f ''grow'', fc_Basis = f ''basis'', fc_MinWidth = f ''min_width'', fc_MaxWidth = f ''max_width''\<rparr>))"

fun row_loop :: "draw \<Rightarrow> int \<Rightarrow> (string \<times> int) list \<Rightarrow> metrics \<Rightarrow> (string list \<times> metrics) go" where
  "row_loop draw childH [] mt = Ret ([], mt)"
| "row_loop draw childH ((cid, cw) # cs) mt =
     go_bind (draw cid cw childH mt) (\<lambda>(view, mt).
       go_bind (row_loop draw childH cs mt) (\<lambda>(views, mt). Ret (view # views, mt)))"

fun column_loop :: "lipgloss \<Rightarrow> draw \<Rightarrow> int \<Rightarrow> int \<Rightarrow> string list \<Rightarrow> int \<Rightarrow> metrics \<Rightarrow> (string list \<times> metrics) go" where
  "column_loop L draw childW gap [] remaining mt = Ret ([], mt)"
| "column_loop L draw childW gap (cid # cs) remaining mt =
     (if remaining < 1 then Ret ([], mt)
      else go_bind (draw cid childW remaining mt) (\<lambda>(view, mt).
        if view = [] then column_loop L draw childW gap cs remaining mt
        else
          (let remaining = remaining - max (int (lg_Height L view)) 1;
               remaining = (if remaining > 0 \<and> gap > 0 then remaining - gap else remaining) in
           go_bind (column_loop L draw childW gap cs remaining mt) (\<lambda>(views, mt). Ret (view # views, mt)))))"

definition allocate :: "int \<Rightarrow> int \<Rightarrow> FlexConstraint list \<Rightarrow> (int list \<times> bool) go" where
  "allocate w gap cs = (case AllocateRow w gap cs of None \<Rightarrow> Diverge | Some r \<Rightarrow> Ret r)"

text \<open>The widths of a row, or nothing when the children are stacked.\<close>

definition row_widths :: "int \<Rightarrow> int \<Rightarrow> string \<Rightarrow> FlexConstraint list \<Rightarrow> int list option go" where
  "row_widths childW gap responsive constraints =
     go_bind (allocate childW gap constraints) (\<lambda>(widths, fits).
       if \<not> fits \<and> responsive = ''stack'' then Ret None
       else if \<not> fits
       then go_bind (allocate childW gap (map (\<lambda>_. default_flex) constraints)) (\<lambda>(widths, _). Ret (Some widths))
       else Ret (Some widths))"

definition child_widths :: "string list \<Rightarrow> int list \<Rightarrow> (string \<times> int) list" where
  "child_widths children widths =
     map (\<lambda>(i, cid). (cid, if i < length widths \<and> widths ! i > 0 then widths ! i else 1)) (enumerate 0 children)"

definition renderBox :: "lipgloss \<Rightarrow> Renderer \<Rightarrow> Document \<Rightarrow> draw \<Rightarrow> Node \<Rightarrow> int \<Rightarrow> int \<Rightarrow> metrics \<Rightarrow> (string \<times> metrics) go" where
  "renderBox L r doc draw n w h mt =
     (let variant = ui_propString n ''variant'' ''plain'';
          responsive = ui_propString n ''responsive'' ''none'';
          align = ui_propString n ''align'' ''start'';
          (gap, padding, border) = box_frame r n variant;
          metrics = ComputeBox w h \<lparr>bx_Padding = padding, bx_Gap = gap, bx_Border = border\<rparr>;
          childW = mt_ContentWidth metrics;
          childH = mt_ContentHeight metrics;
          column = go_bind (column_loop L draw childW gap (n_Children n) childH mt) (\<lambda>(views, mt).
            Ret (decorateBox L r n variant padding border (joinVertical L align gap views), mt)) in
      if ui_propString n ''dir'' ''col'' = ''row'' \<and> n_Children n \<noteq> [] then
        go_bind (row_widths childW gap responsive (map (\<lambda>cid. flexConstraint (fmlookup (d_Nodes doc) cid)) (n_Children n))) (\<lambda>widths.
          case widths of
            None \<Rightarrow> column
          | Some widths \<Rightarrow>
              go_bind (row_loop draw childH (child_widths (n_Children n) widths) mt) (\<lambda>(views, mt).
                Ret (decorateBox L r n variant padding border (joinHorizontal L align gap views), mt)))
      else column)"

subsection \<open>Viewports (render\_components.go)\<close>

fun part_loop :: "draw \<Rightarrow> int \<Rightarrow> string list \<Rightarrow> metrics \<Rightarrow> (string list \<times> metrics) go" where
  "part_loop draw w [] mt = Ret ([], mt)"
| "part_loop draw w (cid # cs) mt =
     go_bind (draw cid w 1048576 mt) (\<lambda>(v, mt).
       go_bind (part_loop draw w cs mt) (\<lambda>(vs, mt). Ret (if v \<noteq> [] then v # vs else vs, mt)))"

text \<open>The lines of the viewport's own text.\<close>

definition viewport_text :: "lipgloss \<Rightarrow> Node \<Rightarrow> int \<Rightarrow> string list" where
  "viewport_text L n w =
     (if n_Text n = [] then []
      else if ui_propBool n ''wrap'' True then [wrapPlainText (lg_Width L) (SanitizeText (n_Text n)) w]
      else [join [LF] (map (\<lambda>l. fitPlainText (lg_Width L) l w) (split_on LF (SanitizeText (n_Text n))))])"

definition viewport_metrics :: "InteractionState \<Rightarrow> Node \<Rightarrow> int \<Rightarrow> int \<Rightarrow> ViewportMetrics" where
  "viewport_metrics ix n vpH nlines =
     (let follow = ui_propBool n ''follow_tail'' False;
          visible = (if nlines < vpH then nlines else vpH);
          visible = (if visible < 0 then 0 else visible);
          maxOffset = (if nlines - vpH < 0 then 0 else nlines - vpH);
          loc = (case fmlookup (ix_Viewports ix) (n_ID n) of Some v \<Rightarrow> v | None \<Rightarrow> \<lparr>vs_Offset = 0, vs_PinnedToTail = follow\<rparr>);
          offset = (if follow \<and> vs_PinnedToTail loc then maxOffset else vs_Offset loc);
          offset = (if offset < 0 then 0 else offset);
          offset = (if offset > maxOffset then maxOffset else offset) in
      \<lparr>vm_TotalLines = nlines, vm_VisibleLines = visible, vm_MaxOffset = maxOffset, vm_Offset = offset\<rparr>)"

text \<open>A slice expression, out of range a panic.\<close>

definition slice_of :: "'a list \<Rightarrow> int \<Rightarrow> int \<Rightarrow> 'a list go" where
  "slice_of xs a b =
     (if 0 \<le> a \<and> a \<le> b \<and> b \<le> int (length xs) then Ret (drop (nat a) (take (nat b) xs)) else Panic ''slice bounds out of range'')"

definition viewport_lines :: "string list \<Rightarrow> string list" where
  "viewport_lines parts = (let content = join [LF] parts in if content = [] then [] else split_on LF content)"

definition renderViewport :: "lipgloss \<Rightarrow> InteractionState \<Rightarrow> draw \<Rightarrow> Node \<Rightarrow> int \<Rightarrow> int \<Rightarrow> metrics \<Rightarrow> (string \<times> metrics) go" where
  "renderViewport L ix draw n w h mt =
     go_bind (part_loop draw w (n_Children n) mt) (\<lambda>(views, viewports, tables).
       (let vpH = ClampViewportHeight (ui_propInt n ''height'' 10) h;
            lines = viewport_lines (viewport_text L n w @ views);
            nlines = int (length lines);
            m = viewport_metrics ix n vpH nlines;
            mt = (fmupd (n_ID n) m viewports, tables) in
        if nlines = 0 \<or> vpH = 0 then Ret ([], mt)
        else
          (let upto = vm_Offset m + vpH; upto = (if upto > nlines then nlines else upto) in
           go_bind (slice_of lines (vm_Offset m) upto) (\<lambda>shown. Ret (join [LF] shown, mt)))))"

subsection \<open>The document\<close>

definition input_caret :: "renderContext \<Rightarrow> string \<Rightarrow> int" where
  "input_caret ctx nid =
     (case fmlookup (ix_InputCarets (rc_interaction ctx)) nid of
        Some c \<Rightarrow> c
      | None \<Rightarrow> int (length (runes (str_at (rc_inputs ctx) nid))))"

fun renderNode :: "lipgloss \<Rightarrow> Renderer \<Rightarrow> renderContext \<Rightarrow> nat \<Rightarrow> draw" where
  "renderNode L r ctx 0 nid w h mt = Diverge"
| "renderNode L r ctx (Suc k) nid w h mt =
     (case fmlookup (d_Nodes (rc_doc ctx)) nid of
        None \<Rightarrow> Ret ([], mt)
      | Some n \<Rightarrow>
          if w \<le> 0 \<or> h \<le> 0 then Ret ([], mt)
          else if n_Type n = NodeBox then renderBox L r (rc_doc ctx) (renderNode L r ctx k) n w h mt
          else if n_Type n = NodeText then Ret (renderText L r n w, mt)
          else if n_Type n = NodeInput
          then Ret (renderInput L r n (rc_focusedID ctx = nid) (str_at (rc_inputs ctx) nid) (input_caret ctx nid) w (rc_state ctx), mt)
          else if n_Type n = NodeActions then Ret (renderActions L r n w, mt)
          else if n_Type n = NodeProgress then go_bind (renderProgress L r n w (rc_state ctx)) (\<lambda>s. Ret (s, mt))
          else if n_Type n = NodeTable then
            (let selection = (case fmlookup (rc_tableSelections ctx) nid of Some s \<Rightarrow> s | None \<Rightarrow> \<lparr>ts_Index = 0, ts_RowID = []\<rparr>);
                 rowOffset = (case fmlookup (ix_TableViewports (rc_interaction ctx)) nid of Some l \<Rightarrow> tvs_Offset l | None \<Rightarrow> 0) in
             Ret (renderTableWindowed L r n (rc_focusedID ctx = nid) selection w h rowOffset,
                  (fst mt, fmupd nid (resolveTableViewportMetrics (lg_Width L) n selection w h rowOffset) (snd mt))))
          else if n_Type n = NodeViewport then renderViewport L (rc_interaction ctx) (renderNode L r ctx k) n w h mt
          else Ret ([], mt))"

text \<open>The fuel is one more than the number of nodes.\<close>

definition RenderFrame ::
    "lipgloss \<Rightarrow> Renderer \<Rightarrow> Document \<Rightarrow> string \<Rightarrow> string gomap \<Rightarrow> TableSelection gomap \<Rightarrow> InteractionState \<Rightarrow> int \<Rightarrow> int \<Rightarrow>
     RenderState \<Rightarrow> RenderResult go" where
  "RenderFrame L r doc focusedID inputs tableSelections ix availW availH state =
     (if fmlookup (d_Nodes doc) root_id = None then Ret \<lparr>rr_Frame = [], rr_Viewports = fmempty, rr_Tables = fmempty\<rparr>
      else
        (let ctx = \<lparr>rc_doc = doc, rc_focusedID = focusedID, rc_inputs = inputs, rc_tableSelections = tableSelections,
               rc_interaction = ix, rc_state = state\<rparr> in
         go_bind (renderNode L r ctx (Suc (msize (d_Nodes doc))) root_id (at_least_one availW) (at_least_one availH) (fmempty, fmempty))
           (\<lambda>(frame, viewports, tables). Ret \<lparr>rr_Frame = frame, rr_Viewports = viewports, rr_Tables = tables\<rparr>)))"

definition RenderTreeWithState ::
    "lipgloss \<Rightarrow> Renderer \<Rightarrow> Document \<Rightarrow> string \<Rightarrow> string gomap \<Rightarrow> int gomap \<Rightarrow> int \<Rightarrow> int \<Rightarrow> RenderState \<Rightarrow> string go" where
  "RenderTreeWithState L r doc focusedID inputs tableSelected availW availH state =
     go_bind (RenderFrame L r doc focusedID inputs (fmmap (\<lambda>i. \<lparr>ts_Index = i, ts_RowID = []\<rparr>) tableSelected) newInteractionState availW availH state)
       (\<lambda>res. Ret (rr_Frame res))"

definition RenderTree :: "lipgloss \<Rightarrow> Renderer \<Rightarrow> Document \<Rightarrow> string \<Rightarrow> string gomap \<Rightarrow> int gomap \<Rightarrow> int \<Rightarrow> int \<Rightarrow> string go" where
  "RenderTree L r doc focusedID inputs tableSelected availW availH =
     RenderTreeWithState L r doc focusedID inputs tableSelected availW availH \<lparr>rs_AnimationPhase = 0, rs_CursorVisible = True\<rparr>"

end
