(* ===== verification/Frames.thy ===== *)
theory Frames
  imports Renderer Presentation Strict
begin

text \<open>
  Correctness of the renderer for every Lip Gloss: drawing a valid document ends without a panic, and
  a viewport shows exactly the lines its metrics speak of.
\<close>

subsection \<open>Layouts without overflow\<close>

text \<open>The numbers of a layout are small: no sum or product of them overflows.\<close>

definition small_flex :: "FlexConstraint \<Rightarrow> bool" where
  "small_flex c \<longleftrightarrow> fc_Grow c \<le> 2 ^ 20 \<and> fc_Basis c \<le> 2 ^ 20 \<and> fc_MinWidth c \<le> 2 ^ 20 \<and> \<bar>fc_MaxWidth c\<bar> \<le> 2 ^ 20"

definition small_layout :: "Document \<Rightarrow> bool" where
  "small_layout doc \<longleftrightarrow> (\<forall>nid n. fmlookup (d_Nodes doc) nid = Some n \<longrightarrow>
     ui_propInt n ''padding'' 0 \<le> 2 ^ 20 \<and> ui_propInt n ''gap'' 0 \<le> 2 ^ 20 \<and> int (length (n_Children n)) \<le> 2 ^ 20 \<and> small_flex (flexConstraint (Some n)))"

lemma small_layout_nodes:
  "small_layout doc \<longleftrightarrow> fmpred (\<lambda>_ n. ui_propInt n ''padding'' 0 \<le> 2 ^ 20 \<and> ui_propInt n ''gap'' 0 \<le> 2 ^ 20 \<and> int (length (n_Children n)) \<le> 2 ^ 20 \<and>
     small_flex (flexConstraint (Some n))) (d_Nodes doc)"
  by (auto simp: small_layout_def fmpred_iff)

lemma default_flex_small: "small_flex default_flex"
  by (simp add: small_flex_def default_flex_def)

lemma child_flex_small: "small_layout doc \<Longrightarrow> small_flex (flexConstraint (fmlookup (d_Nodes doc) cid))"
  by (cases "fmlookup (d_Nodes doc) cid") (use default_flex_small in \<open>auto simp: small_layout_def flexConstraint_def\<close>)

lemma sum_list_le_const: "\<forall>x \<in> set xs. f x \<le> c \<Longrightarrow> sum_list (map f xs) \<le> int (length xs) * c"
  by (induction xs) (auto simp: algebra_simps)

lemma small_row:
  assumes "0 \<le> w" "w \<le> 2 ^ 20" "gap \<le> 2 ^ 20" "int (length cs) \<le> 2 ^ 20" "\<forall>c \<in> set cs. small_flex c"
  shows "row_small w gap cs"
proof -
  let ?n = "int (length cs)"
  have n: "?n \<le> 2 ^ 20" by (rule assms(4))
  have s: "sum_list (map f cs) \<le> 2 ^ 40" if "\<forall>c \<in> set cs. f c \<le> 2 ^ 20" for f :: "FlexConstraint \<Rightarrow> int"
  proof -
    have "sum_list (map f cs) \<le> ?n * 2 ^ 20" by (rule sum_list_le_const [OF that])
    also have "\<dots> \<le> 2 ^ 20 * 2 ^ 20" using n by (intro mult_right_mono) simp_all
    finally show ?thesis by simp
  qed
  have w1: "weights cs \<le> 2 ^ 40" unfolding weights_def by (rule s) (use assms(5) in \<open>auto simp: small_flex_def\<close>)
  have w0: "0 \<le> weights cs" unfolding weights_def by (intro sum_list_nonneg) auto
  have "w * weights cs \<le> 2 ^ 20 * 2 ^ 40" using assms(1,2) w0 w1 by (intro mult_mono) simp_all
  moreover have "max 0 gap * (?n - 1) \<le> 2 ^ 20 * 2 ^ 20"
    using mult_mono [of "max 0 gap" "2 ^ 20" "?n - 1" "2 ^ 20"] assms(3) n by (cases "?n = 0") (auto simp: max_def)
  moreover have "- (2 ^ 20) \<le> max 0 gap * (?n - 1)"
  proof (cases "cs = []")
    case False
    then have "0 \<le> max 0 gap * (?n - 1)" by (cases cs) auto
    then show ?thesis by (rule order_trans [rotated]) simp
  qed (use assms(3) in simp)
  moreover have "sum_list (map min_width cs) \<le> 2 ^ 40"
    by (rule s) (use assms(5) in \<open>auto simp: small_flex_def min_width_def at_least_one_def\<close>)
  moreover have "sum_list (map first_width cs) \<le> 2 ^ 40"
    by (rule s) (use assms(5) in \<open>auto simp: small_flex_def first_width_def min_width_def at_least_one_def Let_def\<close>)
  ultimately show ?thesis using assms(1,2,5) w1 unfolding row_small_def in_int_def by (auto simp: small_flex_def)
qed

lemma allocate_small:
  assumes "0 \<le> w" "w \<le> 2 ^ 20" "gap \<le> 2 ^ 20" "int (length cs) \<le> 2 ^ 20" "\<forall>c \<in> set cs. small_flex c" "cs \<noteq> []"
  shows "\<exists>ws fits. allocate w gap cs = Ret (ws, fits) \<and> (if fits then \<forall>x \<in> set ws. x \<le> w else ws = map min_width cs)"
proof -
  obtain ws fits where r: "AllocateRow w gap cs = Some (ws, fits)" "\<not> fits \<longrightarrow> ws = map min_width cs" "length ws = length cs"
      "\<forall>i<length cs. 1 \<le> ws ! i" "fits \<longrightarrow> sum_list ws \<le> row_content w gap (length cs)"
    using AllocateRow_result [OF small_row [OF assms(1-5)] assms(6)] by blast
  have "x \<le> w" if x: "x \<in> set ws" and f: fits for x
  proof -
    obtain i where i: "i < length ws" "x = ws ! i" using x by (metis in_set_conv_nth)
    have "\<forall>v \<in> set ws. 0 \<le> v" using r(3,4) by (force simp: in_set_conv_nth)
    then have "x \<le> sum_list ws" using nth_le_sum_list i by blast
    also have "\<dots> \<le> row_content w gap (length cs)" using r(5) f by simp
    also have "\<dots> \<le> w"
    proof -
      have "0 \<le> max 0 gap * (int (length cs) - 1)" using assms(6) by (cases cs) auto
      then show ?thesis using assms(1) by (simp add: row_content_def)
    qed
    finally show ?thesis .
  qed
  then show ?thesis using r(1,2) by (auto simp: allocate_def)
qed

lemma row_widths_small:
  assumes "0 \<le> w" "w \<le> 2 ^ 20" "gap \<le> 2 ^ 20" "int (length cs) \<le> 2 ^ 20" "\<forall>c \<in> set cs. small_flex c" "cs \<noteq> []"
  shows "\<exists>res. row_widths w gap responsive cs = Ret res \<and> (\<forall>ws. res = Some ws \<longrightarrow> (\<forall>x \<in> set ws. x \<le> max 1 w))"
proof -
  obtain ws fits where a: "allocate w gap cs = Ret (ws, fits)" "if fits then \<forall>x \<in> set ws. x \<le> w else ws = map min_width cs"
    using allocate_small [OF assms] by blast
  have "\<forall>c \<in> set (map (\<lambda>_. default_flex) cs). small_flex c" using default_flex_small by simp
  with allocate_small [OF assms(1-3), of "map (\<lambda>_. default_flex) cs"] assms(4,6) obtain ws' fits' where
    b: "allocate w gap (map (\<lambda>_. default_flex) cs) = Ret (ws', fits')"
      "if fits' then \<forall>x \<in> set ws'. x \<le> w else ws' = map min_width (map (\<lambda>_. default_flex) cs)"
    by auto
  have "\<forall>x \<in> set ws'. x \<le> max 1 w" using b(2) by (auto simp: min_width_def default_flex_def at_least_one_def split: if_splits)
  moreover have "x \<le> max 1 w" if "x \<le> w" for x using that by simp
  ultimately show ?thesis using a b(1) by (cases fits) (auto simp: row_widths_def)
qed

subsection \<open>Drawing returns\<close>

definition draws :: "draw \<Rightarrow> string list \<Rightarrow> int \<Rightarrow> bool" where
  "draws draw cs W \<longleftrightarrow> (\<forall>cid \<in> set cs. \<forall>w h mt. w \<le> W \<longrightarrow> returns (draw cid w h mt))"

lemma row_loop_returns: "\<forall>(cid, cw) \<in> set cs. cw \<le> W \<and> draws draw [cid] W \<Longrightarrow> returns (row_loop draw h cs mt)"
  by (induction cs arbitrary: mt) (auto simp: draws_def intro!: returns_then split: prod.split)

lemma column_loop_returns: "draws draw cs W \<Longrightarrow> w \<le> W \<Longrightarrow> returns (column_loop L draw w gap cs rem mt)"
  by (induction cs arbitrary: rem mt) (auto simp: draws_def Let_def intro!: returns_then split: prod.split)

lemma part_loop_returns: "draws draw cs W \<Longrightarrow> w \<le> W \<Longrightarrow> returns (part_loop draw w cs mt)"
  by (induction cs arbitrary: mt) (auto simp: draws_def intro!: returns_then split: prod.split)

lemma progress_filled_bounds: "3 \<le> barW \<Longrightarrow> 0 \<le> progress_filled state status v barW \<and> progress_filled state status v barW \<le> barW"
  by (auto simp: progress_filled_def Let_def)

lemma renderProgress_returns: "returns (renderProgress L r n w state)"
proof -
  have "returns (progress_bar L r w state status v label)" for status v label
  proof -
    define suffix where "suffix = '' '' @ pad3 (float_mul_int v 100) @ ''%'' @ (if label \<noteq> [] then '' '' @ label else [])"
    define barW where "barW = (if w - lg_Width L suffix - 2 < 3 then 3 else w - lg_Width L suffix - 2)"
    have "3 \<le> barW" by (simp add: barW_def)
    from progress_filled_bounds [OF this, of state status v] show ?thesis
      unfolding progress_bar_def Let_def suffix_def [symmetric] barW_def [symmetric] by (simp add: Repeat_def)
  qed
  then show ?thesis by (auto simp: renderProgress_def Let_def)
qed

lemma column_content:
  assumes "w \<le> 2 ^ 20" "bx_Padding b \<le> 2 ^ 20"
  shows "1 \<le> mt_ContentWidth (ComputeBox w h b)" "mt_ContentWidth (ComputeBox w h b) \<le> max 1 w"
  using assms by (auto simp: ComputeBox_def at_least_one_def Let_def in_int_def)

lemma box_frame_small:
  assumes "ui_propInt n ''padding'' 0 \<le> 2 ^ 20" "ui_propInt n ''gap'' 0 \<le> 2 ^ 20" "box_frame r n variant = (gap, padding, border)"
  shows "gap \<le> 2 ^ 20" "padding \<le> 2 ^ 20"
proof -
  have "pp_DefaultGap (profileFor p) \<le> 1 \<and> pp_CardPadding (profileFor p) \<le> 1 \<and> pp_PanelPadding (profileFor p) \<le> 1 \<and> pp_SectionPadding (profileFor p) \<le> 1" for p
    by (cases p) (simp_all add: profileFor_def)
  from this [of "rd_Preset r"] assms show "gap \<le> 2 ^ 20" "padding \<le> 2 ^ 20"
    by (auto simp: box_frame_def Let_def split: if_splits)
qed

lemma renderBox_returns:
  assumes d: "draws draw (n_Children n) W" and w: "w \<le> W" "1 \<le> W" "W \<le> 2 ^ 20"
    and sm: "ui_propInt n ''padding'' 0 \<le> 2 ^ 20" "ui_propInt n ''gap'' 0 \<le> 2 ^ 20" "int (length (n_Children n)) \<le> 2 ^ 20" "small_layout doc"
  shows "returns (renderBox L r doc draw n w h mt)"
proof -
  obtain gap padding border where f: "box_frame r n (ui_propString n ''variant'' ''plain'') = (gap, padding, border)"
    by (rule prod_cases3)
  note g = box_frame_small [OF sm(1,2) f]
  define cw where "cw = mt_ContentWidth (ComputeBox w h \<lparr>bx_Padding = padding, bx_Gap = gap, bx_Border = border\<rparr>)"
  have cw: "1 \<le> cw" "cw \<le> W" using column_content [of w "\<lparr>bx_Padding = padding, bx_Gap = gap, bx_Border = border\<rparr>" h] w g by (auto simp: cw_def)
  have col: "returns (go_bind (column_loop L draw cw gap (n_Children n) ch mt) (\<lambda>(views, mt). Ret (k views, mt)))" for ch and k :: "string list \<Rightarrow> string"
    by (intro returns_then column_loop_returns [OF d cw(2)]) (simp split: prod.split)
  let ?cs = "map (\<lambda>cid. flexConstraint (fmlookup (d_Nodes doc) cid)) (n_Children n)"
  have row: "returns (go_bind (row_widths cw gap resp ?cs) (\<lambda>widths. case widths of
      None \<Rightarrow> go_bind (column_loop L draw cw gap (n_Children n) ch mt) (\<lambda>(views, mt). Ret (k views, mt))
    | Some widths \<Rightarrow> go_bind (row_loop draw ch (child_widths (n_Children n) widths) mt) (\<lambda>(views, mt). Ret (k' views, mt))))"
    if ne: "n_Children n \<noteq> []" for resp ch and k k' :: "string list \<Rightarrow> string"
  proof -
    obtain res where res: "row_widths cw gap resp ?cs = Ret res" "\<forall>ws. res = Some ws \<longrightarrow> (\<forall>x \<in> set ws. x \<le> max 1 cw)"
      using row_widths_small [of cw gap ?cs resp] cw w g sm(3) child_flex_small [OF sm(4)] ne by auto
    have "returns (row_loop draw ch (child_widths (n_Children n) ws) mt)" if "res = Some ws" for ws
    proof (rule row_loop_returns [where W = W], clarify)
      fix cid x
      assume "(cid, x) \<in> set (child_widths (n_Children n) ws)"
      then obtain i where i: "i < length (n_Children n)" "cid = n_Children n ! i" "x = (if i < length ws \<and> ws ! i > 0 then ws ! i else 1)"
        by (auto simp: child_widths_def in_set_enumerate_eq)
      have "ws ! i \<le> max 1 cw" if "i < length ws" using res(2) \<open>res = Some ws\<close> nth_mem [OF that] by blast
      then have "x \<le> W" using i(3) w(2) cw by (auto split: if_splits)
      moreover have "draws draw [cid] W" using d nth_mem [OF i(1)] i(2) unfolding draws_def by simp
      ultimately show "x \<le> W \<and> draws draw [cid] W" by blast
    qed
    then show ?thesis unfolding res(1) go_bind.simps
      by (cases res) (auto intro!: returns_then column_loop_returns [OF d cw(2)] split: prod.split)
  qed
  show ?thesis
  proof (cases "ui_propString n ''dir'' ''col'' = ''row'' \<and> n_Children n \<noteq> []")
    case True
    show ?thesis unfolding renderBox_def f Let_def prod.case cw_def [symmetric] if_P [OF True] by (rule row) (use True in simp)
  next
    case False
    show ?thesis unfolding renderBox_def f Let_def prod.case cw_def [symmetric] if_not_P [OF False] by (rule col)
  qed
qed

lemma viewport_offset:
  fixes ix :: InteractionState and n :: Node
  assumes "1 \<le> vpH" "0 \<le> k"
  defines "m \<equiv> viewport_metrics ix n vpH k"
  shows "0 \<le> vm_Offset m" "vm_Offset m \<le> vm_MaxOffset m" "vm_MaxOffset m = max 0 (k - vpH)" "vm_VisibleLines m = min k vpH" "vm_TotalLines m = k"
  using assms by (auto simp: viewport_metrics_def Let_def)

lemma ClampViewportHeight_pos: "1 \<le> ClampViewportHeight a b"
  by (auto simp: ClampViewportHeight_def at_least_one_def Let_def)

lemma viewport_result:
  fixes ix :: InteractionState and L :: lipgloss and h :: int
  assumes "part_loop draw w (n_Children n) mt = Ret (views, viewports, tables)"
  defines "vpH \<equiv> ClampViewportHeight (ui_propInt n ''height'' 10) h" and "lines \<equiv> viewport_lines (viewport_text L n w @ views)"
  defines "m \<equiv> viewport_metrics ix n vpH (int (length lines))"
  shows "renderViewport L ix draw n w h mt =
    Ret (join [LF] (take (nat (vm_VisibleLines m)) (drop (nat (vm_Offset m)) lines)), (fmupd (n_ID n) m viewports, tables))"
proof (cases "lines = []")
  case True
  then show ?thesis using assms(1) unfolding m_def vpH_def lines_def by (simp add: renderViewport_def Let_def)
next
  case False
  have h: "1 \<le> vpH" unfolding vpH_def by (rule ClampViewportHeight_pos)
  note o = viewport_offset [OF h, of "int (length lines)" ix n, folded m_def]
  define upto where "upto = (if vm_Offset m + vpH > int (length lines) then int (length lines) else vm_Offset m + vpH)"
  have u: "upto = vm_Offset m + vm_VisibleLines m" "0 \<le> vm_VisibleLines m" using o h unfolding upto_def by auto
  have "slice_of lines (vm_Offset m) upto = Ret (take (nat (vm_VisibleLines m)) (drop (nat (vm_Offset m)) lines))"
  proof -
    have "upto \<le> int (length lines)" by (simp add: upto_def)
    then show ?thesis using u o(1) by (simp add: slice_of_def drop_take nat_add_distrib)
  qed
  then show ?thesis using False h unfolding renderViewport_def assms(1) go_bind.simps prod.case Let_def
      vpH_def [symmetric] lines_def [symmetric] m_def [symmetric] upto_def [symmetric] by simp
qed

lemma renderViewport_returns:
  assumes "draws draw (n_Children n) W" "w \<le> W"
  shows "returns (renderViewport L ix draw n w h mt)"
proof -
  obtain views viewports tables where "part_loop draw w (n_Children n) mt = Ret (views, viewports, tables)"
    using part_loop_returns [OF assms, of mt] by (auto simp: returns_def)
  from viewport_result [OF this] show ?thesis by (simp add: returns_def)
qed

lemma renderNode_returns:
  assumes t: "tree (d_Nodes (rc_doc ctx))" and sm: "small_layout (rc_doc ctx)" and W: "1 \<le> W" "W \<le> 2 ^ 20"
  shows "fmlookup (d_Nodes (rc_doc ctx)) a = Some n \<Longrightarrow> \<forall>x j. (kid (d_Nodes (rc_doc ctx)) ^^ j) a x \<longrightarrow> j < fuel \<Longrightarrow> w \<le> W \<Longrightarrow>
    returns (renderNode L r ctx fuel a w h mt)"
proof (induction fuel arbitrary: a n w h mt)
  case 0
  then show ?case by (metis less_zeroE relpowp_0_I)
next
  case (Suc fuel)
  let ?nodes = "d_Nodes (rc_doc ctx)"
  have kids: "kid ?nodes a c \<longleftrightarrow> c \<in> set (n_Children n)" for c using Suc.prems(1) by (simp add: kid_def)
  have d: "draws (renderNode L r ctx fuel) (n_Children n) W" unfolding draws_def
  proof (intro ballI allI impI)
    fix c w h mt
    assume c: "c \<in> set (n_Children n)" and w: "w \<le> W"
    obtain cn where cn: "fmlookup ?nodes c = Some cn" using treeD(4) [OF t, of a c] kids c by blast
    have "j < fuel" if "(kid ?nodes ^^ j) c x" for x j
      using Suc.prems(2) relpowp_Suc_I2 [of "kid ?nodes" a c j x] kids c that by (meson Suc_less_SucD)
    then show "returns (renderNode L r ctx fuel c w h mt)" using Suc.IH [OF cn _ w] by blast
  qed
  have "ui_propInt n ''padding'' 0 \<le> 2 ^ 20 \<and> ui_propInt n ''gap'' 0 \<le> 2 ^ 20 \<and> int (length (n_Children n)) \<le> 2 ^ 20"
    using sm Suc.prems(1) unfolding small_layout_def by blast
  then have "returns (renderBox L r (rc_doc ctx) (renderNode L r ctx fuel) n w h mt)"
    using renderBox_returns [OF d Suc.prems(3) W _ _ _ sm] by blast
  moreover have "returns (renderViewport L (rc_interaction ctx) (renderNode L r ctx fuel) n w h mt)"
    by (rule renderViewport_returns [OF d Suc.prems(3)])
  moreover have "returns (go_bind (renderProgress L r n w (rc_state ctx)) (\<lambda>s. Ret (s, mt)))"
    by (intro returns_then renderProgress_returns) simp
  ultimately show ?case using Suc.prems(1) by (auto simp: Let_def)
qed

subsection \<open>Properties\<close>


definition sample_lipgloss :: lipgloss where
  "sample_lipgloss = \<lparr>lg_Width = (\<lambda>s. int (length s)), lg_Height = (\<lambda>s. length (split_on LF s)), lg_Render = (\<lambda>_ s. s),
     lg_JoinHorizontal = (\<lambda>_. concat), lg_JoinVertical = (\<lambda>_. join [LF])\<rparr>"


text \<open>C38. A viewport shows what its metrics say: the lines drawn are those of its text and its children from the
  offset on, as many as fit its height; the offset and the window stay inside the lines whatever the
  local state holds, and a viewport that follows its tail shows the last line.\<close>

theorem viewport_shows_window:
  assumes "part_loop draw w (n_Children n) mt = Ret (views, viewports, tables)"
  shows "\<exists>s m. renderViewport L ix draw n w h mt = Ret (s, (fmupd (n_ID n) m viewports, tables)) \<and>
    (let lines = viewport_lines (viewport_text L n w @ views) in
     vm_TotalLines m = int (length lines) \<and>
     vm_VisibleLines m = min (vm_TotalLines m) (ClampViewportHeight (ui_propInt n ''height'' 10) h) \<and>
     0 \<le> vm_Offset m \<and> vm_Offset m + vm_VisibleLines m \<le> vm_TotalLines m \<and>
     (lines \<noteq> [] \<longrightarrow> split_on LF s = take (nat (vm_VisibleLines m)) (drop (nat (vm_Offset m)) lines)) \<and>
     (ui_propBool n ''follow_tail'' False \<and> (\<forall>l. fmlookup (ix_Viewports ix) (n_ID n) = Some l \<longrightarrow> vs_PinnedToTail l) \<longrightarrow>
        vm_Offset m + vm_VisibleLines m = vm_TotalLines m))"
proof -
  define lines where "lines = viewport_lines (viewport_text L n w @ views)"
  define vpH where "vpH = ClampViewportHeight (ui_propInt n ''height'' 10) h"
  define m where "m = viewport_metrics ix n vpH (int (length lines))"
  let ?shown = "take (nat (vm_VisibleLines m)) (drop (nat (vm_Offset m)) lines)"
  have h: "1 \<le> vpH" unfolding vpH_def by (rule ClampViewportHeight_pos)
  note o = viewport_offset [OF h, of "int (length lines)" ix n, folded m_def]
  have "split_on LF (join [LF] ?shown) = ?shown" if "lines \<noteq> []"
  proof (rule split_join)
    show "?shown \<noteq> []" using that o h by (cases lines) (auto simp: min_def)
    have "LF \<notin> set l" if "l \<in> set lines" for l
      using that split_on_absent unfolding lines_def viewport_lines_def by (auto simp: Let_def split: if_splits)
    then show "\<forall>l \<in> set ?shown. LF \<notin> set l" by (auto dest: in_set_takeD in_set_dropD)
  qed
  moreover have "vm_Offset m + vm_VisibleLines m = vm_TotalLines m"
    if "ui_propBool n ''follow_tail'' False" "\<forall>l. fmlookup (ix_Viewports ix) (n_ID n) = Some l \<longrightarrow> vs_PinnedToTail l"
    using that h unfolding m_def by (auto simp: viewport_metrics_def Let_def split: option.splits)
  moreover have "max 0 (int (length lines) - vpH) + min (int (length lines)) vpH = int (length lines)" by (simp add: min_def max_def)
  then have "vm_Offset m + vm_VisibleLines m \<le> vm_TotalLines m" using o by linarith
  ultimately show ?thesis unfolding Let_def lines_def [symmetric] vpH_def [symmetric]
    using viewport_result [OF assms, of L ix h, folded lines_def vpH_def, folded m_def] o
    by (intro exI [of _ "join [LF] ?shown"] exI [of _ m]) simp
qed

definition sample_viewport :: Node where
  "sample_viewport = \<lparr>n_ID = ''v'', n_Type = NodeViewport, n_Parent = ''root'', n_Children = [],
     n_Props = fmap_of_list [(''height'', ''2''), (''follow_tail'', ''true'')], n_ExplicitProps = None, n_Text = ''a'' @ [LF] @ ''b'' @ [LF] @ ''c''\<rparr>"

theorem viewport_shows_window_witness:
  "\<exists>s m. renderViewport sample_lipgloss newInteractionState (\<lambda>_ _ _ mt. Ret ([], mt)) sample_viewport 10 5 (fmempty, fmempty) =
     Ret (s, (fmupd ''v'' m fmempty, fmempty)) \<and> split_on LF s = [''b'', ''c'']"
proof -
  have p: "part_loop (\<lambda>_ _ _ mt. Ret ([], mt)) 10 (n_Children sample_viewport) (fmempty, fmempty) = Ret ([], fmempty, fmempty)"
    by (simp add: sample_viewport_def)
  have l: "viewport_lines (viewport_text sample_lipgloss sample_viewport 10 @ []) = [''a'', ''b'', ''c'']" by code_simp
  have f: "ui_propBool sample_viewport ''follow_tail'' False" by code_simp
  have h: "ClampViewportHeight (ui_propInt sample_viewport ''height'' 10) 5 = 2" by code_simp
  show ?thesis using viewport_shows_window [OF p, of sample_lipgloss newInteractionState 5] f
    unfolding l h Let_def by (auto simp: newInteractionState_def sample_viewport_def)
qed

end
