(* ===== verification/Cli.thy ===== *)
theory Cli
  imports Bridges Client
begin

text \<open>
  The agent's command line (\<open>cmd/a2ui/agent_cli.go\<close>): reading, numbering and sending operations,
  choosing an event, and the requests of \<open>interact\<close>. Flags, files and the network are the
  environment: the input is the lines read, and posting a message is an argument that answers an
  error or a status. A printed message followed by an exit is an error value; the part of the text
  that a library or the body of a response contributes is left out.
\<close>

subsection \<open>Reading (runSend)\<close>

text \<open>\<open>json.Unmarshal\<close> into a struct: unknown members are ignored; the flag tells that there was no error.\<close>

definition Unmarshal :: "(string \<times> 'r setter) list \<Rightarrow> bytes \<Rightarrow> 'r \<Rightarrow> 'r \<times> bool" where
  "Unmarshal fs raw r =
     (case json_decode raw of
        Some JNull \<Rightarrow> (r, True)
      | Some (JObject ms) \<Rightarrow>
          fold (\<lambda>(key, v) (r, ok).
            case find_setter fs key of None \<Rightarrow> (r, ok) | Some f \<Rightarrow> (case f v r of (r, e) \<Rightarrow> (r, ok \<and> e = None))) ms (r, True)
      | _ \<Rightarrow> (r, False))"

definition send_lines :: "string list \<Rightarrow> bytes list" where
  "send_lines texts = filter (\<lambda>t. t \<noteq> [] \<and> hd t \<noteq> CHR ''#'') (map TrimSpace texts)"

definition send_session :: "bool \<Rightarrow> string \<Rightarrow> bytes list \<Rightarrow> string" where
  "send_session explicitSession session lines =
     (if \<not> explicitSession \<and> lines \<noteq> [] then
        (let (env, ok) = Unmarshal envelope_fields (hd lines) zero_envelope in
         if ok \<and> env_Session env \<noteq> [] then env_Session env else session)
      else session)"

subsection \<open>Operations\<close>

text \<open>Strict decoding first, then lenient decoding.\<close>

definition read_operation :: "bytes \<Rightarrow> Operation option go" where
  "read_operation raw =
     go_bind (StrictUnmarshal (decode_struct operation_fields) zero_operation raw) (\<lambda>r.
       Ret (case r of
              Inr op \<Rightarrow> Some op
            | Inl _ \<Rightarrow> (case Unmarshal operation_fields raw zero_operation of (op, ok) \<Rightarrow> if ok then Some op else None)))"

definition stamp :: "u64 \<Rightarrow> Operation \<Rightarrow> Operation" where
  "stamp opSeq op =
     (let op = op\<lparr>op_V := Version\<rparr> in
      if op_Seq op = 0 \<or> op_Seq op \<noteq> int64_of_uint64 opSeq then op\<lparr>op_Seq := int64_of_uint64 opSeq\<rparr> else op)"

definition operation_tree :: "Operation \<Rightarrow> jtree" where
  "operation_tree op = TObj
     ([member ''v'' (int_tree (op_V op)), member ''seq'' (int_tree (op_Seq op)), member ''op'' (string_tree (optype_string (op_Op op)))]
      @ opt_string ''id'' (op_ID op) @ opt_string ''type'' (nodetype_string (op_Type op)) @ opt_string ''parent'' (op_Parent op)
      @ (case op_Index op of None \<Rightarrow> [] | Some i \<Rightarrow> [member ''index'' (int_tree i)])
      @ opt_string ''text'' (op_Text op) @ opt_string ''frame'' (op_Frame op) @ opt_raw ''props'' (op_Props op))"

definition op_envelope :: "string \<Rightarrow> u64 \<Rightarrow> Operation \<Rightarrow> Envelope" where
  "op_envelope session opSeq op =
     \<lparr>env_V = Version, env_Session = session, env_Kind = KindOperation, env_Seq = opSeq, env_Payload = json_text (operation_tree op)\<rparr>"

text \<open>One line: the counter of bare operations afterwards and, unless it is skipped, what is posted.\<close>

definition line_operation :: "u64 \<Rightarrow> bytes \<Rightarrow> (gomsg + u64 \<times> (u64 \<times> Operation) option) go" where
  "line_operation seq line =
     (let (env, ok) = Unmarshal envelope_fields line zero_envelope in
      if ok \<and> env_Kind env \<noteq> KindOther [] then
        (if env_Kind env \<noteq> KindOperation then Ret (Inr (seq, None))
         else go_bind (read_operation (env_Payload env)) (\<lambda>r.
           Ret (case r of
                  None \<Rightarrow> Inl (Lit ''invalid operation payload'')
                | Some op \<Rightarrow> Inr (seq, Some (env_Seq env, stamp (env_Seq env) op)))))
      else
        go_bind (read_operation line) (\<lambda>r.
          Ret (case r of
                 None \<Rightarrow> Inl (Sprintf ''invalid operation: %s'' [FStr line])
               | Some op \<Rightarrow> Inr (seq + 1, Some (seq + 1, stamp (seq + 1) op)))))"

definition op_message :: "string \<Rightarrow> u64 \<Rightarrow> Operation \<Rightarrow> (gomsg + Message) go" where
  "op_message session opSeq op =
     (if \<not> raw_ok (op_Props op) then Ret (Inl (LibErr ''json.Marshal''))
      else go_bind (Notification (op_envelope session opSeq op)) (\<lambda>r. Ret (case r of Inl e \<Rightarrow> Inl (e_Message e) | Inr m \<Rightarrow> Inr m)))"

type_synonym 's post = "'s \<Rightarrow> Message \<Rightarrow> ('s \<times> (gomsg + int)) go"

fun send_loop :: "'s post \<Rightarrow> string \<Rightarrow> u64 \<Rightarrow> nat \<Rightarrow> bytes list \<Rightarrow> 's \<Rightarrow> ('s \<times> (gomsg + nat)) go" where
  "send_loop post session seq count [] st = Ret (st, Inr count)"
| "send_loop post session seq count (line # lines) st =
     go_bind (line_operation seq line) (\<lambda>r.
       case r of
         Inl e \<Rightarrow> Ret (st, Inl e)
       | Inr (seq, None) \<Rightarrow> send_loop post session seq count lines st
       | Inr (seq, Some (opSeq, op)) \<Rightarrow>
           go_bind (op_message session opSeq op) (\<lambda>m.
             case m of
               Inl e \<Rightarrow> Ret (st, Inl e)
             | Inr m \<Rightarrow> go_bind (post st m) (\<lambda>(st, res).
                 case res of
                   Inl e \<Rightarrow> Ret (st, Inl e)
                 | Inr status \<Rightarrow>
                     if status \<noteq> 204 \<and> status \<noteq> 200
                     then Ret (st, Inl (Sprintf ''daemon rejected op seq %d: HTTP %d'' [FInt (uint opSeq), FInt status]))
                     else send_loop post session seq (Suc count) lines st)))"

definition hello_message :: "string \<Rightarrow> (Error + Message) go" where
  "hello_message session =
     Request (json_string ''hello-send'') \<lparr>env_V = Version, env_Session = session, env_Kind = KindHello, env_Seq = 0,
       env_Payload = json_text (TObj [member ''versions'' (TArr [int_tree Version]), member ''features'' (TArr [string_tree ''commit-barrier''])])\<rparr>"

text \<open>The answer to the hello is not looked at.\<close>

definition runSend :: "'s post \<Rightarrow> bool \<Rightarrow> string \<Rightarrow> string list \<Rightarrow> 's \<Rightarrow> ('s \<times> (gomsg + nat)) go" where
  "runSend post explicitSession session texts st =
     (let lines = send_lines texts; session = send_session explicitSession session lines in
      go_bind (hello_message session) (\<lambda>h.
        case h of
          Inl e \<Rightarrow> Ret (st, Inl (e_Message e))
        | Inr m \<Rightarrow> go_bind (post st m) (\<lambda>(st, res).
            case res of Inl e \<Rightarrow> Ret (st, Inl e) | Inr _ \<Rightarrow> send_loop post session 0 0 lines st)))"

subsection \<open>Events, status, interaction\<close>

text \<open>What \<open>runWaitEvent\<close> does with the events of an answer: exit with a code, or print one of them.\<close>

definition pick_event :: "string \<Rightarrow> Event list \<Rightarrow> int + Event" where
  "pick_event filterType events =
     (case find (\<lambda>ev. filterType = [] \<or> ev_Ev ev = filterType) events of None \<Rightarrow> Inl 2 | Some ev \<Rightarrow> Inr ev)"

definition event_parts :: "Event \<Rightarrow> gomsg list" where
  "event_parts ev =
     (let part = (\<lambda>fmt v. if v \<noteq> [] then [Sprintf fmt [FStr v]] else []) in
      [Sprintf ''ev=%s'' [FStr (ev_Ev ev)]] @ part ''id=%s'' (ev_ID ev) @ part ''action=%s'' (ev_Action ev)
        @ part ''value=%q'' (ev_Value ev) @ part ''row_id=%s'' (ev_RowID ev) @ part ''frame=%s'' (ev_Frame ev) @ part ''code=%s'' (ev_Code ev))"

text \<open>\<open>runInteract\<close>: the requests, in the order they are made; the first one that fails is the last one.\<close>

definition interact_requests :: "string \<Rightarrow> string \<Rightarrow> string \<Rightarrow> string \<Rightarrow> IpcMessage list" where
  "interact_requests inputVal focusID submitID actionKey =
     (if inputVal \<noteq> [] then
        [client_SetInput (takeWhile (\<lambda>c. c \<noteq> CHR ''='') inputVal) (drop 1 (dropWhile (\<lambda>c. c \<noteq> CHR ''='') inputVal))] else [])
      @ (if focusID \<noteq> [] then [client_Focus focusID] else [])
      @ (if submitID \<noteq> [] then [client_Submit submitID] else [])
      @ (if actionKey \<noteq> [] then [client_ActionKey actionKey] else [])"

subsection \<open>Numbering\<close>

text \<open>The operation carries the number of its envelope, so the daemon's check of the two never refuses it.\<close>

lemma stamp_seq [simp]: "op_Seq (stamp opSeq op) = int64_of_uint64 opSeq" "op_V (stamp opSeq op) = Version"
  by (simp_all add: stamp_def Let_def)

definition bare_line :: "bytes \<Rightarrow> bool" where
  "bare_line line \<longleftrightarrow> (case Unmarshal envelope_fields line zero_envelope of (env, ok) \<Rightarrow> \<not> ok \<or> env_Kind env = KindOther [])"

lemma bare_line_numbered:
  assumes "bare_line line" "line_operation seq line = Ret (Inr (seq', o'))"
  shows "seq' = seq + 1 \<and> (\<exists>op. o' = Some (seq + 1, op) \<and> op_Seq op = int64_of_uint64 (seq + 1))"
  using assms by (auto simp: line_operation_def bare_line_def go_simps split: prod.splits option.splits)

text \<open>Posting to the daemon, with the status its HTTP handler answers.\<close>

definition post_daemon :: "(gomsg \<Rightarrow> string) \<Rightarrow> 'h Daemon post" where
  "post_daemon render d m =
     go_bind (HandleMCPMessage render d m) (\<lambda>(d, p).
       case p of Replied r \<Rightarrow> Ret (d, Inr (hs_Status (mcp_response r))) | Waiting_events \<Rightarrow> Diverge)"

text \<open>An operation with a number the session has seen changes nothing and is answered like one that was applied.\<close>

lemma duplicate_dropped:
  assumes m: "op_message (ss_id (dm_Session d)) k op = Ret (Inr msg)"
    and s: "ss_state (dm_Session d) = Ready" "k \<noteq> 0" "k < ss_expectedMutation (dm_Session d)"
    and u: "of_runes (runes (ss_id (dm_Session d))) = ss_id (dm_Session d)"
  shows "post_daemon render d msg = Ret (d, Inr 204)"
proof -
  let ?env = "op_envelope (ss_id (dm_Session d)) k op"
  obtain r where n: "Notification ?env = Ret r"
    using m by (cases "Notification ?env") (simp_all add: op_message_def split: if_splits)
  then have "Notification ?env = Ret (Inr msg)" using m by (cases r) (simp_all add: op_message_def split: if_splits)
  then obtain b where b: "EncodeEnvelope ?env = Ret (Inr b)" "msg = zero_message\<lparr>mg_JSONRPC := ''2.0'', mg_Method := ''a2ui/operation'', mg_Params := b\<rparr>"
    by (elim Notification_ok) (simp add: op_envelope_def)
  have e: "EnvelopeFromMessage msg = Ret (Inr (reread ?env))"
    by (rule EnvelopeFromMessage_encoded [OF b(1), of "''a2ui/operation''"]) (simp_all add: b(2) op_envelope_def zero_message_def)
  have r: "env_Kind (reread ?env) = KindOperation" "env_Session (reread ?env) = ss_id (dm_Session d)" "env_Seq (reread ?env) = k"
    using u by (simp_all add: reread_def op_envelope_def)
  have "AcceptMutation (dm_Session d) k = (dm_Session d, True, None)" using s by (simp add: AcceptMutation_def)
  then have "HandleEnvelope d (reread ?env) = Ret (d, Inr None)" using r by (simp add: HandleEnvelope_def handle_operation_def)
  moreover have "mg_Method msg = ''a2ui/operation''" by (simp add: b(2))
  ultimately show ?thesis by (simp add: post_daemon_def HandleMCPMessage_def e mcp_response_def)
qed

text \<open>Bare operations are numbered from 1 on in every run, so a second run against the same daemon is dropped
  as a whole and reported as sent.\<close>

lemma second_send_dropped:
  assumes "\<forall>line \<in> set lines. bare_line line \<and> (\<forall>seq. \<exists>o'. line_operation seq line = Ret (Inr o'))"
    and "\<forall>line \<in> set lines. \<forall>seq k op. line_operation seq line = Ret (Inr (k, Some (k, op))) \<longrightarrow> (\<exists>m. op_message (ss_id (dm_Session d)) k op = Ret (Inr m))"
    and s: "ss_state (dm_Session d) = Ready" "unat seq + length lines < unat (ss_expectedMutation (dm_Session d))"
    and u: "of_runes (runes (ss_id (dm_Session d))) = ss_id (dm_Session d)"
  shows "send_loop (post_daemon render) (ss_id (dm_Session d)) seq count lines d = Ret (d, Inr (count + length lines))"
  using assms(1,2,4)
proof (induction lines arbitrary: seq count)
  case (Cons line lines)
  obtain o' where "line_operation seq line = Ret (Inr o')" using Cons.prems(1) by (meson list.set_intros(1))
  then obtain op where l: "line_operation seq line = Ret (Inr (seq + 1, Some (seq + 1, op)))"
    using bare_line_numbered [of line seq "fst o'" "snd o'"] Cons.prems(1) by (cases o') auto
  obtain m where m: "op_message (ss_id (dm_Session d)) (seq + 1) op = Ret (Inr m)" using Cons.prems(2) l by (meson list.set_intros(1))
  have "unat (ss_expectedMutation (dm_Session d)) < 2 ^ 64" by (rule order_less_le_trans [OF unsigned_less]) simp
  then have le: "unat seq + 1 < 2 ^ 64" using Cons.prems(3) by simp
  then have n: "unat (seq + 1) = unat seq + 1" by (simp add: unat_word_ariths)
  have "seq + 1 \<noteq> 0" using n by (metis add_is_0 unsigned_0 zero_neq_one)
  moreover have "seq + 1 < ss_expectedMutation (dm_Session d)" using n Cons.prems(3) by (simp add: word_less_nat_alt)
  ultimately have "post_daemon render d m = Ret (d, Inr 204)" by (intro duplicate_dropped [OF m s(1) _ _ u])
  moreover have "send_loop (post_daemon render) (ss_id (dm_Session d)) (seq + 1) (Suc count) lines d = Ret (d, Inr (Suc count + length lines))"
    using Cons.prems n by (intro Cons.IH) auto
  ultimately show ?case using l m by simp
qed simp

end
