(* ===== verification/Spec2Isabelle.thy ===== *)
theory Spec2Isabelle
  imports Service Planner Routing Actor Bridges Transports Attachment Frames Cli
begin

text \<open>
  A verification of the agent interaction runtime (the Go module under \<open>src/\<close>): a local daemon that
  keeps one semantic document for an agent, and a terminal client that shows it to a human.

  \<^bold>\<open>The program.\<close> An agent sends records, one JSON value per line (\<open>wire/ndjson.go\<close>,
  \<open>wire/json.go\<close>). After a hello the session (\<open>session/session.go\<close>) lets operations through in
  sequence. The reducer (\<open>document/reducer.go\<close>) applies an operation to a candidate copy of the
  document, validates the candidate (\<open>document/invariants.go\<close>, \<open>protocol/props.go\<close>) and keeps or
  drops it as a whole. The runtime (\<open>runtime/\<close>) reconciles focus, typed text, row selection and key
  bindings with the new document; the engine (\<open>engine/engine.go\<close>) composes the two under one lock
  and holds back the acknowledgement of a commit until a frame with it was shown. Events go back
  to the agent through a bounded broker (\<open>runtime/events.go\<close>), action keys through a registry of
  handlers (\<open>runtime/actions.go\<close>). The daemon (\<open>daemon/\<close>) owns engine and session, leases the one
  interactive seat to a client over a local socket (\<open>ipc/\<close>) and answers the agent. The terminal
  adapter (\<open>adapter/bubbletea/\<close>) turns keys into interactions, lays out and draws the document
  (\<open>layout/\<close>) and acknowledges what it has drawn; over the socket it works through the client of
  \<open>ipc/client.go\<close>. The agent may also speak JSON-RPC over HTTP (\<open>transport/mcp/\<close>, \<open>daemon/mcp.go\<close>),
  stream records over HTTP (\<open>transport/httpstream/\<close>) and send telemetry datagrams
  (\<open>transport/udp/\<close>). An external actor (\<open>external/actor.go\<close>) runs a
  foreign executor behind a queue.

  \<^bold>\<open>How Go is modelled.\<close> A byte string is \<^typ>\<open>string\<close>, one character per byte; \<open>int\<close> is
  \<^typ>\<open>int\<close> with \<open>wrap_int\<close> where it can overflow; \<open>uint64\<close> is a 64-bit word; a map is a finite map;
  a function that may panic or not return has its result in the type \<open>go\<close>; an error is the left
  side of a sum or \<open>Some\<close>; error texts are kept as format and arguments. Locks make the methods of
  a component atomic, so a component is a state and its methods, and concurrency is the
  interleaving of method calls; where the code blocks inside a method (daemon connections, action
  dispatch, the actor, the remote client) it is an inductive step relation. Loops over a tree carry fuel: one more
  than the number of nodes, which suffices on every valid document and is proved to.

  \<^bold>\<open>The theories.\<close>
  \<^item> \<open>Prelude\<close>, \<open>GoJson\<close>, \<open>Runes\<close>: shared vocabulary; the locales \<open>machine\<close>,
    \<open>monotone_machine\<close> and \<open>conserving\<close> for components as labelled machines; the parts of
    \<open>encoding/json\<close> and \<open>unicode/utf8\<close> the code uses.
  \<^item> \<open>Protocol\<close>, \<open>Props\<close>: \<open>protocol/\<close>. \<open>Document\<close>, \<open>Reducer\<close>: \<open>document/\<close>. \<open>Trees\<close>,
    \<open>Transaction\<close>, \<open>Edits\<close>, \<open>Atomic\<close>, \<open>Operations\<close>: the document is a tree, every operation keeps
    it one, returns, is all or nothing and has exactly its effect (interpretation \<open>docm\<close>).
  \<^item> \<open>Runtime\<close>, \<open>Events\<close>, \<open>Actions\<close>: \<open>runtime/\<close>. \<open>Interaction\<close>, \<open>Presentation\<close>: walks agree
    with one traversal, typed text and selection survive operations, bindings and focus order are
    exact; the broker is bounded and its critical queue reliable (\<open>brokerm\<close>, \<open>critq\<close>).
  \<^item> \<open>Engine\<close>, \<open>Publication\<close>: \<open>engine/\<close>; the engine relies on the broker through the locale
    \<open>event_sink\<close>; commits are acknowledged once and in order (\<open>enginem\<close>, \<open>commitq\<close>).
  \<^item> \<open>Session\<close>: \<open>session/\<close> (\<open>sessionm\<close>). \<open>Framing\<close>: the two line readers, which share the locale
    \<open>collector\<close>. \<open>Wire\<close>, \<open>Strict\<close>, \<open>Marshal\<close>: strict decoding, its exactness, and encoding.
  \<^item> \<open>Ipc\<close>, \<open>Daemon\<close>, \<open>Service\<close>: \<open>ipc/\<close> and \<open>daemon/\<close>; every step of the daemon with its
    connections is a run of the engine and session machines, and one client holds the lease.
  \<^item> \<open>Layout\<close>, \<open>Flex\<close>: \<open>layout/\<close>. \<open>Sanitize\<close>, \<open>Table\<close>, \<open>Planner\<close>, \<open>Terminal\<close>, \<open>Routing\<close>:
    the terminal adapter; what the key router needs of the semantic state is the locale
    \<open>semantic_controller\<close>, which the in-process controller satisfies.
  \<^item> \<open>Plain\<close>, \<open>Styles\<close>, \<open>Renderer\<close>, \<open>Frames\<close>: what the adapter draws. Lip Gloss is the record \<open>lipgloss\<close>
    of functions, about which nothing is assumed; doubles are rationals with explicit rounding.
    Wrapping loses nothing, an input shows its caret, a viewport shows what its metrics say, and
    drawing a valid document ends. In the theories of the message loop the renderer is an argument,
    so their results hold for every frame.
  \<^item> \<open>Actor\<close>: \<open>external/actor.go\<close>.
  \<^item> \<open>Texts\<close>, \<open>Roundtrip\<close>: what the encoder writes, the decoder reads back.
  \<^item> \<open>Streams\<close>, \<open>Transports\<close>: datagrams and the HTTP stream; records are answered one by one and in
    order, datagrams carry telemetry only. \<open>Mcp\<close>, \<open>Bridges\<close>: the JSON-RPC bridge is lossless, never
    acknowledges a frame, and the status of an answer tells what happened.
  \<^item> \<open>Client\<close>, \<open>Remote\<close>: \<open>ipc/client.go\<close>; no response is lost, duplicated or misdirected, and the
    snapshot never goes back. \<open>Attachment\<close>: client and daemon on one connection; a request that
    succeeded was carried out and the client sees its effect.
  \<^item> \<open>Cli\<close>: \<open>cmd/a2ui/agent_cli.go\<close>; how \<open>send\<close> numbers operations, and that a second run against
    the same daemon is dropped as duplicates while it is reported as sent.

  \<^bold>\<open>Bounds.\<close> Counters of 64 bits are words; where a property needs that a counter has not wrapped,
  its hypothesis says so. Sizes of tables and rows are assumed small where the code adds them as
  machine integers; that they need not be is recorded as a finding.

  \<^bold>\<open>Not modelled.\<close> Lip Gloss and Bubble Tea (third-party code, arguments of the definitions),
  memory as a bound, sockets, the network and process start-up, the JSON form of the messages on the
  local socket, the other commands under \<open>cmd/\<close>, the end-to-end harness and the reference implementation.
\<close>

end
